(* ===== verification/Axp_Prelude.thy ===== *)
theory Axp_Prelude
  imports Main "HOL-Library.Word" "HOL-Library.While_Combinator"
begin

text \<open>
  What every component theory shares: the machine integer types of
  \<^verbatim>\<open>src/src/common/datatypes.hpp\<close> (\<open>u8\<close> to \<open>u64\<close>), single-bit masks
  (\<open>1 << n\<close> in the source), the development's theorem collections, and the locale
  of a machine with an invariant, which lifts a one-operation preservation lemma to
  every sequence of operations.
\<close>

unbundle bit_operations_syntax

type_synonym u8 = "8 word"
type_synonym u16 = "16 word"
type_synonym u32 = "32 word"
type_synonym u64 = "64 word"

named_theorems reg_defs \<open>definitions of register operations, unfolded by the component proofs\<close>
named_theorems mask_simps \<open>how single-bit masks act on the bits of a register\<close>

section \<open>Single-bit masks\<close>

text \<open>\<open>1 << n\<close>, at the width of the register it is combined with.\<close>

definition mask1 :: "nat \<Rightarrow> 'a::len word" where
  "mask1 n = push_bit n 1"

text \<open>\<open>x != 0\<close> as the C++ code stores it: a byte that is 0 or 1.\<close>

definition of_flag :: "bool \<Rightarrow> 'a::len word" where
  "of_flag b = (if b then 1 else 0)"

lemma word_eq_0_bits: "(x :: 'a::len word) = 0 \<longleftrightarrow> (\<forall>i<LENGTH('a). \<not> bit x i)"
  by (auto intro: bit_word_eqI)

lemma xor_eq_0_iff: "x XOR y = 0 \<longleftrightarrow> (x :: 'a::len word) = y"
  by (auto simp: word_eq_0_bits bit_xor_iff intro: bit_word_eqI)

lemma bit_mask1 [mask_simps]:
  "bit (mask1 n :: 'a::len word) i \<longleftrightarrow> i = n \<and> n < LENGTH('a)"
  by (auto simp: mask1_def bit_simps)

lemma bit_set_mask1 [mask_simps]:
  "bit (x OR mask1 n :: 'a::len word) i \<longleftrightarrow> bit x i \<or> (i = n \<and> n < LENGTH('a))"
  by (auto simp: bit_simps bit_mask1)

lemma bit_clear_mask1 [mask_simps]:
  "bit (x AND NOT (mask1 n) :: 'a::len word) i \<longleftrightarrow> bit x i \<and> i \<noteq> n"
  by (auto simp: bit_simps bit_mask1 dest: bit_imp_le_length)

lemma bit_clear_mask [mask_simps]:
  "bit (x AND NOT y :: 'a::len word) i \<longleftrightarrow> bit x i \<and> \<not> bit y i"
  by (auto simp: bit_simps dest: bit_imp_le_length)

lemma and_mask1_eq_0 [mask_simps]:
  "(x AND mask1 n :: 'a::len word) = 0 \<longleftrightarrow> \<not> bit x n"
  by (auto simp: word_eq_0_bits bit_simps bit_mask1 dest: bit_imp_le_length)

lemma mask1_and_not [simp]: "(mask1 n AND NOT (mask1 n) :: 'a::len word) = 0"
  by (rule bit_word_eqI) (auto simp: bit_clear_mask1 bit_mask1)

lemma of_flag_eq_0 [simp]: "(of_flag b :: 'a::len word) = 0 \<longleftrightarrow> \<not> b"
  by (simp add: of_flag_def)

text \<open>The eight inputs of a byte-wide register, enumerated.\<close>

lemma all_less_8:
  "(\<forall>j<8::nat. P j) \<longleftrightarrow> P 0 \<and> P 1 \<and> P 2 \<and> P 3 \<and> P 4 \<and> P 5 \<and> P 6 \<and> P 7"
  by (simp add: numeral_eq_Suc All_less_Suc conj_ac)

text \<open>A predicate that holds of both branches holds of the conditional; splits the long case
  analyses on register numbers into one goal per register.\<close>

lemma if_pred: "P x \<Longrightarrow> P y \<Longrightarrow> P (if b then x else y)"
  by simp

section \<open>Ring buffers\<close>

text \<open>The live slots of a ring of \<open>N\<close> slots, from the read index \<open>r\<close> up to the write index \<open>w\<close>.\<close>

definition ring_list :: "nat \<Rightarrow> (nat \<Rightarrow> 'a) \<Rightarrow> nat \<Rightarrow> nat \<Rightarrow> 'a list" where
  "ring_list N b r w = map (\<lambda>i. b ((r + i) mod N)) [0..<(w + N - r) mod N]"

lemma ring_distance:
  "r < N \<Longrightarrow> w < N \<Longrightarrow> (w + N - r) mod N = (if r \<le> w then w - r else w + N - r)" for N :: nat
  by (auto simp: mod_if)

lemma length_ring: "r < N \<Longrightarrow> w < N \<Longrightarrow> length (ring_list N b r w) < N"
  by (simp add: ring_list_def)

lemma ring_empty_iff: "r < N \<Longrightarrow> w < N \<Longrightarrow> ring_list N b r w = [] \<longleftrightarrow> r = w"
  by (auto simp: ring_list_def ring_distance)

lemma ring_self [simp]: "ring_list N b r r = []"
  by (simp add: ring_list_def)

lemma ring_full_iff: "r < N \<Longrightarrow> w < N \<Longrightarrow> Suc w mod N = r \<longleftrightarrow> length (ring_list N b r w) = N - 1"
  by (auto simp: ring_list_def ring_distance mod_Suc split: if_splits)

lemma ring_push:
  assumes "r < N" "w < N" "Suc w mod N \<noteq> r"
  shows "ring_list N (b(w := x)) r (Suc w mod N) = ring_list N b r w @ [x]"
proof -
  have "Suc w mod N < N" using assms by simp
  then have d: "(Suc w mod N + N - r) mod N = Suc ((w + N - r) mod N)"
    using assms by (auto simp: ring_distance mod_Suc split: if_splits)
  have "(r + (w + N - r) mod N) mod N = w"
    using assms by (auto simp: ring_distance)
  moreover have "(r + i) mod N \<noteq> w" if "i < (w + N - r) mod N" for i
    using that assms by (cases "r + i < N") (auto simp: ring_distance le_mod_geq split: if_splits)
  ultimately show ?thesis by (simp add: ring_list_def d)
qed

lemma ring_pop:
  assumes "r < N" "w < N" "r \<noteq> w"
  shows "ring_list N b r w = b r # ring_list N b (Suc r mod N) w"
proof -
  have s: "Suc r mod N < N" using assms by simp
  have d: "(w + N - r) mod N = Suc ((w + N - Suc r mod N) mod N)"
    using assms by (auto simp: ring_distance [OF s] ring_distance mod_Suc split: if_splits)
  have "(Suc r mod N + i) mod N = (r + Suc i) mod N" for i by (simp add: mod_simps)
  then show ?thesis
    using assms(1) by (simp add: ring_list_def d upt_conv_Cons map_Suc_upt [symmetric] comp_def del: upt_Suc)
qed

section \<open>Counting loops\<close>

text \<open>A loop that counts up until a condition holds finds the least such number.\<close>

lemma while_Suc_Least:
  assumes "P n"
  shows "while (\<lambda>k. \<not> P k) Suc 0 = (LEAST k. P k)"
proof (rule while_rule [where P = "\<lambda>k. k \<le> (LEAST k. P k)"
      and r = "measure (\<lambda>k. (LEAST k. P k) - k)"])
  show "Suc k \<le> (LEAST k. P k)" if "k \<le> (LEAST k. P k)" and "\<not> P k" for k
    using that LeastI [of P, OF assms] by (metis Suc_leI le_neq_implies_less)
  show "k = (LEAST k. P k)" if "k \<le> (LEAST k. P k)" and "\<not> \<not> P k" for k
    using that by (simp add: Least_le antisym)
  show "(Suc k, k) \<in> measure (\<lambda>k. (LEAST k. P k) - k)"
    if "k \<le> (LEAST k. P k)" and "\<not> P k" for k
    using that LeastI [of P, OF assms] by (metis diff_less_mono2 in_measure le_neq_implies_less lessI)
qed simp_all

section \<open>A machine with an invariant\<close>

text \<open>
  A component is a state type and a step function per request. The client of a
  component only issues requests; what it relies on is that the component's invariant
  survives any sequence of them.
\<close>

locale invariant_machine =
  fixes step :: "'s \<Rightarrow> 'op \<Rightarrow> 's"
    and ok :: "'s \<Rightarrow> 'op \<Rightarrow> bool"
    and inv :: "'s \<Rightarrow> bool"
  assumes step_inv: "inv s \<Longrightarrow> ok s x \<Longrightarrow> inv (step s x)"
begin

text \<open>A run whose every request is allowed in the state it meets.\<close>

fun admissible :: "'s \<Rightarrow> 'op list \<Rightarrow> bool" where
  "admissible s [] = True"
| "admissible s (x # xs) = (ok s x \<and> admissible (step s x) xs)"

lemma run_inv: "inv s \<Longrightarrow> admissible s xs \<Longrightarrow> inv (foldl step s xs)"
  by (induction xs arbitrary: s) (auto intro: step_inv)

end

text \<open>The common case, in which every request is always allowed.\<close>

locale total_machine =
  fixes step :: "'s \<Rightarrow> 'op \<Rightarrow> 's" and inv :: "'s \<Rightarrow> bool"
  assumes step_inv: "inv s \<Longrightarrow> inv (step s x)"

sublocale total_machine \<subseteq> guarded: invariant_machine step "\<lambda>_ _. True" inv
  by unfold_locales (rule step_inv)

context total_machine
begin

lemma admissible_always: "guarded.admissible s xs"
  by (induction xs arbitrary: s) auto

lemma run_total: "inv s \<Longrightarrow> inv (foldl step s xs)"
  by (rule guarded.run_inv) (auto simp: admissible_always)

end

end
