(* ===== verification/Interrupt_Lines.thy ===== *)
theory Interrupt_Lines
  imports Axp_Prelude
begin

text \<open>
  \<^verbatim>\<open>CInterruptLines\<close> (\<^verbatim>\<open>src/src/system/InterruptLines.hpp\<close>): the chipset's device
  interrupt inputs as wires. Each wire is the OR of the sources that assert it now, kept
  as an unordered vector of requests. A source is an address and a line number; the
  address is only compared, so it is a \<open>nat\<close>. \<open>drive\<close> runs under the object's lock,
  so a call is one step; its \<open>deliver\<close> callback receives the input and the level that
  \<open>drive\<close> returns.
\<close>

record request =
  r_input :: int
  r_source :: nat
  r_line :: int

text \<open>\<open>find\<close>: the first matching index, the vector's size when there is none.\<close>

fun find_request :: "request list \<Rightarrow> int \<Rightarrow> nat \<Rightarrow> int \<Rightarrow> nat" where
  "find_request [] i s l = 0"
| "find_request (r # rs) i s l =
     (if r_input r = i \<and> r_source r = s \<and> r_line r = l then 0 else Suc (find_request rs i s l))"

fun asserted :: "request list \<Rightarrow> int \<Rightarrow> bool" where
  "asserted [] i = False"
| "asserted (r # rs) i = (if r_input r = i then True else asserted rs i)"

text \<open>
  \<open>drive\<close>: a rising source is pushed, a falling one is overwritten with the last
  element and the vector is popped. The result is the new vector and the wire's level.
\<close>

definition drive :: "request list \<Rightarrow> int \<Rightarrow> nat \<Rightarrow> int \<Rightarrow> bool \<Rightarrow> request list \<times> bool" where
  "drive m_on i s l level =
     (let k = find_request m_on i s l;
          m = (if level \<and> k = length m_on
               then m_on @ [\<lparr>r_input = i, r_source = s, r_line = l\<rparr>]
               else if \<not> level \<and> k \<noteq> length m_on
               then butlast (m_on[k := last m_on])
               else m_on)
      in (m, asserted m i))"

definition lines_level :: "request list \<Rightarrow> int \<Rightarrow> bool" where
  "lines_level m_on i = asserted m_on i"

definition lines_reset :: "request list \<Rightarrow> request list" where
  "lines_reset m_on = []"

lemma request_eq_iff:
  "r = \<lparr>r_input = i, r_source = s, r_line = l\<rparr> \<longleftrightarrow>
     r_input r = i \<and> r_source r = s \<and> r_line r = l"
  by (cases r) auto

section \<open>The contract: a wired OR\<close>

text \<open>
  What a user of the wires relies on: the abstract state is the set of sources that
  assert, \<open>drive\<close> inserts or removes exactly one of them, and a wire is high when some
  source asserts it.
\<close>

locale wired_or =
  fixes drv :: "'w \<Rightarrow> int \<Rightarrow> nat \<Rightarrow> int \<Rightarrow> bool \<Rightarrow> 'w \<times> bool"
    and lvl :: "'w \<Rightarrow> int \<Rightarrow> bool"
    and srcs :: "'w \<Rightarrow> request set"
    and wok :: "'w \<Rightarrow> bool"
  assumes srcs_up: "wok w \<Longrightarrow> srcs (fst (drv w i s l True)) =
      insert \<lparr>r_input = i, r_source = s, r_line = l\<rparr> (srcs w)"
    and srcs_down: "wok w \<Longrightarrow> srcs (fst (drv w i s l False)) =
      srcs w - {\<lparr>r_input = i, r_source = s, r_line = l\<rparr>}"
    and wok_drv: "wok w \<Longrightarrow> wok (fst (drv w i s l b))"
    and snd_drv: "wok w \<Longrightarrow> snd (drv w i s l b) = lvl (fst (drv w i s l b)) i"
    and lvl_iff: "wok w \<Longrightarrow> lvl w i \<longleftrightarrow> (\<exists>r \<in> srcs w. r_input r = i)"
begin

text \<open>A wire falls only when its last source lets go, and rises with its first.\<close>

lemma drv_high: "wok w \<Longrightarrow> snd (drv w i s l True)"
  by (auto simp: snd_drv lvl_iff wok_drv srcs_up)

lemma drv_low_iff:
  "wok w \<Longrightarrow> snd (drv w i s l False) \<longleftrightarrow>
     (\<exists>r \<in> srcs w. r_input r = i \<and> (r_source r \<noteq> s \<or> r_line r \<noteq> l))"
  by (simp add: snd_drv lvl_iff wok_drv srcs_down Bex_def request_eq_iff) blast

lemma drv_frame: "wok w \<Longrightarrow> j \<noteq> i \<Longrightarrow> lvl (fst (drv w i s l b)) j = lvl w j"
  by (cases b) (auto simp: lvl_iff wok_drv srcs_up srcs_down)

text \<open>
  The level after a whole history of calls: the wire is high exactly when some source's
  last call on it was a rising one (or it asserted from the start and never called).
\<close>

fun lastcall :: "(int \<times> nat \<times> int \<times> bool) list \<Rightarrow> request \<Rightarrow> bool option" where
  "lastcall [] r = None"
| "lastcall ((i, s, l, b) # cs) r =
     (case lastcall cs r of
        Some x \<Rightarrow> Some x
      | None \<Rightarrow> if r = \<lparr>r_input = i, r_source = s, r_line = l\<rparr> then Some b else None)"

fun calls :: "'w \<Rightarrow> (int \<times> nat \<times> int \<times> bool) list \<Rightarrow> 'w" where
  "calls w [] = w"
| "calls w ((i, s, l, b) # cs) = calls (fst (drv w i s l b)) cs"

lemma wok_calls: "wok w \<Longrightarrow> wok (calls w cs)"
  by (induction w cs rule: calls.induct) (auto simp: wok_drv)

lemma srcs_calls:
  "wok w \<Longrightarrow> r \<in> srcs (calls w cs) \<longleftrightarrow>
     (case lastcall cs r of Some b \<Rightarrow> b | None \<Rightarrow> r \<in> srcs w)"
proof (induction w cs rule: calls.induct)
  case (1 w)
  then show ?case by simp
next
  case (2 w i s l b cs)
  then show ?case
    by (cases b) (auto simp: wok_drv srcs_up srcs_down split: option.splits)
qed

lemma lvl_calls:
  assumes "wok w"
  shows "lvl (calls w cs) i \<longleftrightarrow>
    (\<exists>r. r_input r = i \<and> (case lastcall cs r of Some b \<Rightarrow> b | None \<Rightarrow> r \<in> srcs w))"
  using assms by (auto simp: lvl_iff wok_calls srcs_calls)

end

section \<open>The vector implements the wired OR\<close>

lemma find_request_le: "find_request m i s l \<le> length m"
  by (induction m) auto

lemma find_request_nth:
  "find_request m i s l < length m \<Longrightarrow> m ! find_request m i s l = \<lparr>r_input = i, r_source = s, r_line = l\<rparr>"
  by (induction m) auto

lemma find_request_length_iff:
  "find_request m i s l = length m \<longleftrightarrow> \<lparr>r_input = i, r_source = s, r_line = l\<rparr> \<notin> set m"
  by (induction m) auto

lemma asserted_iff: "asserted m i \<longleftrightarrow> (\<exists>r \<in> set m. r_input r = i)"
  by (induction m) auto

text \<open>Swapping the last element in and popping removes exactly the element at \<open>k\<close>.\<close>

lemma swap_pop:
  assumes "distinct m" and "k < length m"
  shows "set (butlast (m[k := last m])) = set m - {m ! k}"
    and "distinct (butlast (m[k := last m]))"
proof -
  from \<open>k < length m\<close> have "m \<noteq> []" by auto
  then obtain xs x where m: "m = xs @ [x]" by (metis rev_exhaust)
  show "set (butlast (m[k := last m])) = set m - {m ! k}"
  proof (cases "k = length xs")
    case True
    then show ?thesis using m assms(1) by auto
  next
    case False
    then have k: "k < length xs" using m assms(2) by simp
    then have "butlast (m[k := last m]) = xs[k := x]"
      by (simp add: m list_update_append)
    moreover have "set (xs[k := x]) = insert x (set xs - {xs ! k})"
      using k m assms(1) by (simp add: set_update_distinct)
    ultimately show ?thesis using k m assms(1) by (auto simp: nth_append)
  qed
  show "distinct (butlast (m[k := last m]))"
  proof (cases "k = length xs")
    case True
    then show ?thesis using m assms(1) by simp
  next
    case False
    then have k: "k < length xs" using m assms(2) by simp
    then have "butlast (m[k := last m]) = xs[k := x]"
      by (simp add: m list_update_append)
    then show ?thesis using m assms(1) by (simp add: distinct_list_update)
  qed
qed

lemma drive_up:
  "set (fst (drive m i s l True)) = insert \<lparr>r_input = i, r_source = s, r_line = l\<rparr> (set m)"
  by (auto simp: drive_def Let_def find_request_length_iff)

lemma drive_down:
  assumes "distinct m"
  shows "set (fst (drive m i s l False)) = set m - {\<lparr>r_input = i, r_source = s, r_line = l\<rparr>}"
proof (cases "find_request m i s l = length m")
  case True
  then show ?thesis by (simp add: drive_def Let_def find_request_length_iff)
next
  case False
  then have "find_request m i s l < length m" using find_request_le [of m i s l] by simp
  then show ?thesis using swap_pop(1) [OF assms] False
    by (simp add: drive_def Let_def find_request_nth)
qed

lemma drive_distinct:
  assumes "distinct m"
  shows "distinct (fst (drive m i s l b))"
proof (cases "find_request m i s l = length m")
  case True
  then show ?thesis using assms by (auto simp: drive_def Let_def find_request_length_iff)
next
  case False
  then have "find_request m i s l < length m" using find_request_le [of m i s l] by simp
  then show ?thesis using swap_pop(2) [OF assms] False assms
    by (simp add: drive_def Let_def)
qed

interpretation wires: wired_or drive lines_level set distinct
  by unfold_locales
    (simp_all add: drive_up drive_down drive_distinct lines_level_def asserted_iff,
     simp_all add: drive_def Let_def asserted_iff)

end
