(* ===== verification/I8259.thy ===== *)
theory I8259
  imports Axp_Prelude
begin

text \<open>
  \<^verbatim>\<open>CI8259\<close> (\<^verbatim>\<open>src/src/devices/isa/I8259.hpp\<close>, \<^verbatim>\<open>I8259.cpp\<close>): the two cascaded
  8259A interrupt controllers of the ALi bridge. \<open>spic\<close> is \<open>SPic_state\<close>: every field
  is the source's array of two bytes, indexed by the controller (0 the master, 1 the
  slave). \<open>int_line\<close>, the master's INT output, is a callback; the model logs the levels
  it is called with, newest first, in \<open>p_int\<close>. Every public entry holds the pair's lock
  for its whole length, so an entry is one step. The statistics counters of
  \<^verbatim>\<open>IrqStats.hpp\<close> and the \<open>DEBUG_PIC\<close> messages are left out: nothing reads them back.
\<close>

record spic =
  p_irr :: "nat \<Rightarrow> u8"
  p_imr :: "nat \<Rightarrow> u8"
  p_isr :: "nat \<Rightarrow> u8"
  p_last_irr :: "nat \<Rightarrow> u8"
  p_irq_base :: "nat \<Rightarrow> u8"
  p_priority_add :: "nat \<Rightarrow> u8"
  p_read_reg_select :: "nat \<Rightarrow> u8"
  p_poll :: "nat \<Rightarrow> u8"
  p_special_mask :: "nat \<Rightarrow> u8"
  p_init_state :: "nat \<Rightarrow> u8"
  p_auto_eoi :: "nat \<Rightarrow> u8"
  p_rotate_on_aeoi :: "nat \<Rightarrow> u8"
  p_special_fnm :: "nat \<Rightarrow> u8"
  p_init4 :: "nat \<Rightarrow> u8"
  p_single_mode :: "nat \<Rightarrow> u8"
  p_elcr :: "nat \<Rightarrow> u8"
  p_ltim :: "nat \<Rightarrow> u8"
  p_int :: "bool list"

text \<open>The loop of \<open>pic_priority_of\<close>: the mask is not empty, so one of eight bits stops it.\<close>

definition pic_priority_of :: "u8 \<Rightarrow> u8 \<Rightarrow> nat" where
  "pic_priority_of m add =
     (if m = 0 then 8
      else while (\<lambda>p. m AND mask1 ((p + unat add) mod 8) = 0) Suc 0)"

text \<open>The in-service bits that block, after special mask mode and special fully nested mode.\<close>

definition blocking_isr :: "spic \<Rightarrow> nat \<Rightarrow> u8" where
  "blocking_isr s x =
     (let a = p_isr s x;
          b = (if p_special_mask s x \<noteq> 0 then a AND NOT (p_imr s x) else a)
      in if p_special_fnm s x \<noteq> 0 \<and> x = 0 then b AND NOT (mask1 2) else b)"

definition get_irq :: "spic \<Rightarrow> nat \<Rightarrow> nat option" where
  "get_irq s x =
     (let priority = pic_priority_of (p_irr s x AND NOT (p_imr s x)) (p_priority_add s x)
      in if priority = 8 then None
         else let cur_priority = pic_priority_of (blocking_isr s x) (p_priority_add s x)
              in if priority < cur_priority
                 then Some ((priority + unat (p_priority_add s x)) mod 8) else None)"

text \<open>\<open>(s.elcr[index] & mask) || s.ltim[index]\<close>\<close>

definition is_level :: "spic \<Rightarrow> nat \<Rightarrow> nat \<Rightarrow> bool" where
  "is_level s x i \<longleftrightarrow> p_elcr s x AND mask1 i \<noteq> 0 \<or> p_ltim s x \<noteq> 0"

text \<open>The slave's output as the master's IR2 input.\<close>

definition cascade :: "spic \<Rightarrow> spic" where
  "cascade s =
     (if get_irq s 1 \<noteq> None
      then s\<lparr>p_irr := (if is_level s 0 2 \<or> p_last_irr s 0 AND mask1 2 = 0
                       then (p_irr s)(0 := p_irr s 0 OR mask1 2) else p_irr s),
             p_last_irr := (p_last_irr s)(0 := p_last_irr s 0 OR mask1 2)\<rparr>
      else s\<lparr>p_irr := (p_irr s)(0 := p_irr s 0 AND NOT (mask1 2)),
             p_last_irr := (p_last_irr s)(0 := p_last_irr s 0 AND NOT (mask1 2))\<rparr>)"

definition drive_int :: "spic \<Rightarrow> spic" where
  "drive_int s = s\<lparr>p_int := (get_irq s 0 \<noteq> None) # p_int s\<rparr>"

definition update_output :: "spic \<Rightarrow> nat \<Rightarrow> spic" where
  "update_output s x = (if x = 1 then drive_int (cascade s) else drive_int s)"

definition init_reset :: "spic \<Rightarrow> nat \<Rightarrow> spic" where
  "init_reset s x = update_output
     (s\<lparr>p_last_irr := (p_last_irr s)(x := 0),
        p_irr := (p_irr s)(x := p_irr s x AND p_elcr s x),
        p_imr := (p_imr s)(x := 0),
        p_isr := (p_isr s)(x := 0),
        p_priority_add := (p_priority_add s)(x := 0),
        p_irq_base := (p_irq_base s)(x := 0),
        p_read_reg_select := (p_read_reg_select s)(x := 0),
        p_poll := (p_poll s)(x := 0),
        p_special_mask := (p_special_mask s)(x := 0),
        p_init_state := (p_init_state s)(x := 0),
        p_auto_eoi := (p_auto_eoi s)(x := 0),
        p_rotate_on_aeoi := (p_rotate_on_aeoi s)(x := 0),
        p_special_fnm := (p_special_fnm s)(x := 0),
        p_init4 := (p_init4 s)(x := 0),
        p_single_mode := (p_single_mode s)(x := 0)\<rparr>) x"

definition pic_reset :: "spic \<Rightarrow> spic" where
  "pic_reset s =
     (let a = init_reset (s\<lparr>p_elcr := (p_elcr s)(0 := 0), p_ltim := (p_ltim s)(0 := 0)\<rparr>) 0
      in init_reset (a\<lparr>p_elcr := (p_elcr a)(1 := 0), p_ltim := (p_ltim a)(1 := 0)\<rparr>) 1)"

definition intack :: "spic \<Rightarrow> nat \<Rightarrow> nat \<Rightarrow> spic" where
  "intack s x irq =
     (let a = (if p_auto_eoi s x \<noteq> 0
               then (if p_rotate_on_aeoi s x \<noteq> 0
                     then s\<lparr>p_priority_add := (p_priority_add s)(x := of_nat ((irq + 1) mod 8))\<rparr>
                     else s)
               else s\<lparr>p_isr := (p_isr s)(x := p_isr s x OR mask1 irq)\<rparr>);
          b = (if is_level a x irq then a
               else a\<lparr>p_irr := (p_irr a)(x := p_irr a x AND NOT (mask1 irq))\<rparr>)
      in update_output b x)"

text \<open>\<open>read\<close>: port 0 or 1 of a controller; in poll mode the read acknowledges.\<close>

definition pic_read :: "spic \<Rightarrow> nat \<Rightarrow> u32 \<Rightarrow> spic \<times> u8" where
  "pic_read s x address =
     (if p_poll s x \<noteq> 0
      then (case get_irq s x of
              Some irq \<Rightarrow> (let a = intack s x irq
                           in (a\<lparr>p_poll := (p_poll a)(x := 0)\<rparr>, of_nat irq OR 0x80))
            | None \<Rightarrow> (s\<lparr>p_poll := (p_poll s)(x := 0)\<rparr>, 0))
      else (s, if address = 0
               then (if p_read_reg_select s x \<noteq> 0 then p_isr s x else p_irr s x)
               else p_imr s x))"

definition read_elcr :: "spic \<Rightarrow> nat \<Rightarrow> u8" where
  "read_elcr s x = p_elcr s x"

text \<open>\<open>read_vector\<close>: the interrupt acknowledge cycle, with the hand-off to the slave.\<close>

definition read_vector :: "spic \<Rightarrow> spic \<times> u8" where
  "read_vector s =
     (case get_irq s 0 of
        Some irq \<Rightarrow>
          (if irq = 2
           then (case get_irq s 1 of
                   Some irq2 \<Rightarrow>
                     (let a = intack s 1 irq2
                      in (intack a 0 irq, p_irq_base a 1 + of_nat irq2))
                 | None \<Rightarrow> (intack s 0 irq, p_irq_base s 1 + 7))
           else (intack s 0 irq, p_irq_base s 0 + of_nat irq))
      | None \<Rightarrow> (s, p_irq_base s 0 + 7))"

text \<open>The writes: ICW1, OCW3 and OCW2 on port 0, the mask and ICW2 to ICW4 on port 1.\<close>

definition write_icw1 :: "spic \<Rightarrow> nat \<Rightarrow> u8 \<Rightarrow> spic" where
  "write_icw1 s x data =
     (let a = init_reset s x
      in a\<lparr>p_init_state := (p_init_state a)(x := 1),
           p_init4 := (p_init4 a)(x := of_flag (data AND 0x01 \<noteq> 0)),
           p_single_mode := (p_single_mode a)(x := of_flag (data AND 0x02 \<noteq> 0)),
           p_ltim := (p_ltim a)(x := of_flag (data AND 0x08 \<noteq> 0))\<rparr>)"

definition write_ocw3 :: "spic \<Rightarrow> nat \<Rightarrow> u8 \<Rightarrow> spic" where
  "write_ocw3 s x data =
     (let a = (if data AND 0x04 \<noteq> 0 then s\<lparr>p_poll := (p_poll s)(x := 1)\<rparr> else s);
          b = (if data AND 0x02 \<noteq> 0
               then a\<lparr>p_read_reg_select := (p_read_reg_select a)(x := data AND 0x01)\<rparr> else a)
      in if data AND 0x40 \<noteq> 0
         then let smm = drop_bit 5 data AND 0x01
              in if smm \<noteq> p_special_mask b x
                 then update_output (b\<lparr>p_special_mask := (p_special_mask b)(x := smm)\<rparr>) x
                 else b
         else b)"

definition write_ocw2 :: "spic \<Rightarrow> nat \<Rightarrow> u8 \<Rightarrow> spic" where
  "write_ocw2 s x data =
     (let cmd = unat (drop_bit 5 data AND 7); level = unat (data AND 7)
      in if cmd = 0 \<or> cmd = 4
         then s\<lparr>p_rotate_on_aeoi := (p_rotate_on_aeoi s)(x := of_nat (cmd div 4))\<rparr>
         else if cmd = 1 \<or> cmd = 5
         then let priority = pic_priority_of (p_isr s x) (p_priority_add s x)
              in if priority \<noteq> 8
                 then let eoi_irq = (priority + unat (p_priority_add s x)) mod 8;
                          a = s\<lparr>p_isr := (p_isr s)(x := p_isr s x AND NOT (mask1 eoi_irq))\<rparr>;
                          b = (if cmd = 5
                               then a\<lparr>p_priority_add :=
                                        (p_priority_add a)(x := of_nat ((eoi_irq + 1) mod 8))\<rparr>
                               else a)
                      in update_output b x
                 else s
         else if cmd = 3
         then update_output (s\<lparr>p_isr := (p_isr s)(x := p_isr s x AND NOT (mask1 level))\<rparr>) x
         else if cmd = 6
         then update_output
                (s\<lparr>p_priority_add := (p_priority_add s)(x := of_nat ((level + 1) mod 8))\<rparr>) x
         else if cmd = 7
         then update_output
                (s\<lparr>p_isr := (p_isr s)(x := p_isr s x AND NOT (mask1 level)),
                   p_priority_add := (p_priority_add s)(x := of_nat ((level + 1) mod 8))\<rparr>) x
         else s)"

definition write_port1 :: "spic \<Rightarrow> nat \<Rightarrow> u8 \<Rightarrow> spic" where
  "write_port1 s x data =
     (if p_init_state s x = 0
      then update_output (s\<lparr>p_imr := (p_imr s)(x := data)\<rparr>) x
      else if p_init_state s x = 1
      then s\<lparr>p_irq_base := (p_irq_base s)(x := data AND 0xf8),
             p_init_state := (p_init_state s)
               (x := if p_single_mode s x \<noteq> 0
                     then (if p_init4 s x \<noteq> 0 then 3 else 0) else 2)\<rparr>
      else if p_init_state s x = 2
      then s\<lparr>p_init_state := (p_init_state s)(x := if p_init4 s x \<noteq> 0 then 3 else 0)\<rparr>
      else if p_init_state s x = 3
      then s\<lparr>p_special_fnm := (p_special_fnm s)(x := drop_bit 4 data AND 0x01),
             p_auto_eoi := (p_auto_eoi s)(x := drop_bit 1 data AND 0x01),
             p_init_state := (p_init_state s)(x := 0)\<rparr>
      else s)"

definition pic_write :: "spic \<Rightarrow> nat \<Rightarrow> u32 \<Rightarrow> u8 \<Rightarrow> spic" where
  "pic_write s x address data =
     (if address = 0
      then (if data AND 0x10 \<noteq> 0 then write_icw1 s x data
            else if data AND 0x08 \<noteq> 0 then write_ocw3 s x data
            else write_ocw2 s x data)
      else write_port1 s x data)"

definition write_elcr :: "spic \<Rightarrow> nat \<Rightarrow> u8 \<Rightarrow> spic" where
  "write_elcr s x data = update_output (s\<lparr>p_elcr := (p_elcr s)(x := data)\<rparr>) x"

text \<open>The device side: \<open>interrupt\<close>, \<open>deassert\<close> and \<open>set_line\<close>.\<close>

definition pic_interrupt :: "spic \<Rightarrow> nat \<Rightarrow> nat \<Rightarrow> spic" where
  "pic_interrupt s x intno = update_output
     (s\<lparr>p_irr := (p_irr s)(x := p_irr s x OR mask1 intno),
        p_last_irr := (p_last_irr s)
          (x := (p_last_irr s x AND NOT (mask1 intno)) OR mask1 intno)\<rparr>) x"

definition pic_deassert :: "spic \<Rightarrow> nat \<Rightarrow> nat \<Rightarrow> spic" where
  "pic_deassert s x intno =
     (let a = (if is_level s x intno
               then s\<lparr>p_irr := (p_irr s)(x := p_irr s x AND NOT (mask1 intno))\<rparr> else s)
      in update_output
           (a\<lparr>p_last_irr := (p_last_irr a)(x := p_last_irr a x AND NOT (mask1 intno))\<rparr>) x)"

definition pic_set_line :: "spic \<Rightarrow> nat \<Rightarrow> nat \<Rightarrow> bool \<Rightarrow> spic" where
  "pic_set_line s x intno active =
     (let irr_up = (p_irr s)(x := p_irr s x OR mask1 intno);
          irr_down = (p_irr s)(x := p_irr s x AND NOT (mask1 intno));
          last_up = (p_last_irr s)(x := p_last_irr s x OR mask1 intno);
          last_down = (p_last_irr s)(x := p_last_irr s x AND NOT (mask1 intno))
      in update_output
           (if is_level s x intno
            then (if active then s\<lparr>p_irr := irr_up, p_last_irr := last_up\<rparr>
                  else s\<lparr>p_irr := irr_down, p_last_irr := last_down\<rparr>)
            else (if active
                  then (if p_last_irr s x AND mask1 intno = 0
                        then s\<lparr>p_irr := irr_up, p_last_irr := last_up\<rparr>
                        else s\<lparr>p_last_irr := last_up\<rparr>)
                  else s\<lparr>p_irr := irr_down, p_last_irr := last_down\<rparr>)) x)"

definition pic_requested :: "spic \<Rightarrow> nat \<Rightarrow> bool" where
  "pic_requested s irq \<longleftrightarrow> bit (p_irr s (irq div 8)) (irq mod 8)"

text \<open>Every entry of the class that changes state, as one request type.\<close>

datatype pic_op =
    Pic_reset
  | Pic_read nat u32
  | Pic_write nat u32 u8
  | Pic_write_elcr nat u8
  | Pic_read_vector
  | Pic_interrupt nat nat
  | Pic_deassert nat nat
  | Pic_set_line nat nat bool

fun pic_step :: "spic \<Rightarrow> pic_op \<Rightarrow> spic" where
  "pic_step s Pic_reset = pic_reset s"
| "pic_step s (Pic_read x a) = fst (pic_read s x a)"
| "pic_step s (Pic_write x a d) = pic_write s x a d"
| "pic_step s (Pic_write_elcr x d) = write_elcr s x d"
| "pic_step s Pic_read_vector = fst (read_vector s)"
| "pic_step s (Pic_interrupt x i) = pic_interrupt s x i"
| "pic_step s (Pic_deassert x i) = pic_deassert s x i"
| "pic_step s (Pic_set_line x i b) = pic_set_line s x i b"

text \<open>The controller after construction: an all-zero state, no level driven yet.\<close>

definition pic_zero :: spic where
  "pic_zero = \<lparr>p_irr = \<lambda>_. 0, p_imr = \<lambda>_. 0, p_isr = \<lambda>_. 0, p_last_irr = \<lambda>_. 0,
     p_irq_base = \<lambda>_. 0, p_priority_add = \<lambda>_. 0, p_read_reg_select = \<lambda>_. 0,
     p_poll = \<lambda>_. 0, p_special_mask = \<lambda>_. 0, p_init_state = \<lambda>_. 0, p_auto_eoi = \<lambda>_. 0,
     p_rotate_on_aeoi = \<lambda>_. 0, p_special_fnm = \<lambda>_. 0, p_init4 = \<lambda>_. 0,
     p_single_mode = \<lambda>_. 0, p_elcr = \<lambda>_. 0, p_ltim = \<lambda>_. 0, p_int = []\<rparr>"

section \<open>Rotating priority\<close>

text \<open>
  The rank of input \<open>i\<close> when \<open>add\<close> is the highest-priority input: 0 is served first.
\<close>

definition rank :: "u8 \<Rightarrow> nat \<Rightarrow> nat" where
  "rank add i = (i + (8 - unat add mod 8)) mod 8"

lemma rank_less [simp]: "rank add i < 8"
  by (simp add: rank_def)

lemma rank_neq_8 [simp]: "rank add i \<noteq> 8"
  using rank_less [of add i] by linarith

lemma rank_inv:
  assumes "i < 8"
  shows "(rank add i + unat add) mod 8 = i"
proof -
  have "unat add mod 8 \<le> 8" by (simp add: less_imp_le)
  have "(rank add i + unat add) mod 8 = (i + (8 - unat add mod 8) + unat add mod 8) mod 8"
    unfolding rank_def by (metis mod_add_left_eq mod_add_right_eq)
  also have "\<dots> = (i + 8) mod 8" using \<open>unat add mod 8 \<le> 8\<close> by simp
  finally show ?thesis using assms by simp
qed

lemma inv_rank:
  assumes "p < 8"
  shows "rank add ((p + unat add) mod 8) = p"
proof -
  have "unat add mod 8 \<le> 8" by (simp add: less_imp_le)
  have "rank add ((p + unat add) mod 8) =
      (p + unat add mod 8 + (8 - unat add mod 8)) mod 8"
    unfolding rank_def by (metis mod_add_left_eq mod_add_right_eq)
  also have "\<dots> = (p + 8) mod 8" using \<open>unat add mod 8 \<le> 8\<close> by simp
  finally show ?thesis using assms by simp
qed

lemma rank_inj: "i < 8 \<Longrightarrow> j < 8 \<Longrightarrow> rank add i = rank add j \<longleftrightarrow> i = j"
  by (metis rank_inv)

lemma u8_nonzero_bit: "(m :: u8) \<noteq> 0 \<longleftrightarrow> (\<exists>i<8. bit m i)"
  by (simp add: word_eq_0_bits)

lemma pic_priority_of_Least:
  assumes "m \<noteq> 0"
  shows "pic_priority_of m add = (LEAST p. bit m ((p + unat add) mod 8))"
proof -
  obtain i where i: "i < 8" "bit m i" using assms by (auto simp: u8_nonzero_bit)
  then have "bit m ((rank add i + unat add) mod 8)" by (simp add: rank_inv)
  from while_Suc_Least [where P = "\<lambda>p. bit m ((p + unat add) mod 8)", OF this] show ?thesis
    using assms by (simp add: pic_priority_of_def mask_simps)
qed

text \<open>The loop ends, and finds the set bit of least rank.\<close>

lemma pic_priority_of_rank:
  assumes "m \<noteq> 0"
  obtains i where "i < 8" "bit m i" "pic_priority_of m add = rank add i"
    "\<And>j. j < 8 \<Longrightarrow> bit m j \<Longrightarrow> rank add i \<le> rank add j"
proof -
  define P where "P p \<longleftrightarrow> bit m ((p + unat add) mod 8)" for p
  obtain k where k: "k < 8" "bit m k" using assms by (auto simp: u8_nonzero_bit)
  have P_rank: "P (rank add j) \<longleftrightarrow> bit m j" if "j < 8" for j
    using that by (simp add: P_def rank_inv)
  define p where "p = (LEAST p. P p)"
  have "P p" unfolding p_def by (rule LeastI [of P "rank add k"]) (simp add: P_rank k)
  have least: "p \<le> rank add j" if "j < 8" "bit m j" for j
    unfolding p_def by (rule Least_le) (simp add: P_rank that)
  have "p < 8" using least [OF k] rank_less [of add k] by linarith
  then have r: "rank add ((p + unat add) mod 8) = p" by (rule inv_rank)
  show thesis
  proof (rule that [of "(p + unat add) mod 8"])
    show "bit m ((p + unat add) mod 8)" using \<open>P p\<close> by (simp add: P_def)
    show "pic_priority_of m add = rank add ((p + unat add) mod 8)"
      using pic_priority_of_Least [OF assms] r by (simp add: p_def P_def)
  qed (use r least in auto)
qed

lemma pic_priority_of_8: "pic_priority_of m add = 8 \<longleftrightarrow> m = 0"
proof (cases "m = 0")
  case False
  then obtain i where "pic_priority_of m add = rank add i"
    by (rule pic_priority_of_rank)
  then show ?thesis using False by simp
qed (simp add: pic_priority_of_def)

lemma less_pic_priority_of:
  "rank add i < pic_priority_of m add \<longleftrightarrow> (\<forall>j<8. bit m j \<longrightarrow> rank add i < rank add j)"
proof (cases "m = 0")
  case False
  then obtain k where "k < 8" "bit m k" "pic_priority_of m add = rank add k"
    "\<And>j. j < 8 \<Longrightarrow> bit m j \<Longrightarrow> rank add k \<le> rank add j"
    by (rule pic_priority_of_rank [of m add]) blast
  then show ?thesis by (metis less_le_trans)
qed (simp add: pic_priority_of_def)

text \<open>Input \<open>i\<close> of controller \<open>x\<close> is requested and not masked.\<close>

definition pending :: "spic \<Rightarrow> nat \<Rightarrow> nat \<Rightarrow> bool" where
  "pending s x i \<longleftrightarrow> bit (p_irr s x) i \<and> \<not> bit (p_imr s x) i"

lemma get_irq_iff:
  "get_irq s x = Some i \<longleftrightarrow>
     i < 8 \<and> pending s x i \<and>
     (\<forall>j<8. pending s x j \<longrightarrow> rank (p_priority_add s x) i \<le> rank (p_priority_add s x) j) \<and>
     (\<forall>j<8. bit (blocking_isr s x) j \<longrightarrow>
        rank (p_priority_add s x) i < rank (p_priority_add s x) j)"
proof (cases "p_irr s x AND NOT (p_imr s x) = 0")
  case True
  then have "\<not> pending s x i" if "i < 8" for i
    using that by (simp add: word_eq_0_bits mask_simps pending_def)
  then show ?thesis using True by (auto simp: get_irq_def pic_priority_of_def)
next
  case False
  let ?a = "p_priority_add s x"
  from False obtain k where k: "k < 8" "pending s x k"
      "pic_priority_of (p_irr s x AND NOT (p_imr s x)) ?a = rank ?a k"
      "\<And>j. j < 8 \<Longrightarrow> pending s x j \<Longrightarrow> rank ?a k \<le> rank ?a j"
    by (rule pic_priority_of_rank) (auto simp: mask_simps pending_def)
  have "get_irq s x =
      (if \<forall>j<8. bit (blocking_isr s x) j \<longrightarrow> rank ?a k < rank ?a j then Some k else None)"
    using k(1) by (simp add: get_irq_def Let_def k(3) less_pic_priority_of rank_inv)
  moreover have "(\<forall>j<8. pending s x j \<longrightarrow> rank ?a i \<le> rank ?a j) \<longleftrightarrow> i = k"
    if "i < 8" "pending s x i"
    using that k by (metis order_antisym order_refl rank_inj)
  ultimately show ?thesis using k by auto
qed

section \<open>The INT output\<close>

text \<open>
  What the pair drives on INT: high exactly while the master has something to deliver.
  \<open>int_follows\<close> says that the level driven last is the one the registers now call for.
\<close>

definition int_follows :: "spic \<Rightarrow> bool" where
  "int_follows s \<longleftrightarrow> p_int s \<noteq> [] \<and> hd (p_int s) = (get_irq s 0 \<noteq> None)"

text \<open>The registers the decision reads.\<close>

lemma blocking_isr_cong:
  assumes "p_isr s x = p_isr t x" and "p_imr s x = p_imr t x"
    and "p_special_mask s x = p_special_mask t x" and "p_special_fnm s x = p_special_fnm t x"
  shows "blocking_isr s x = blocking_isr t x"
  unfolding blocking_isr_def assms ..

lemma get_irq_cong:
  assumes "p_irr s x = p_irr t x" and "p_imr s x = p_imr t x"
    and "blocking_isr s x = blocking_isr t x" and "p_priority_add s x = p_priority_add t x"
  shows "get_irq s x = get_irq t x"
  unfolding get_irq_def assms ..

lemma get_irq_regs:
  assumes "p_irr s x = p_irr t x" and "p_imr s x = p_imr t x" and "p_isr s x = p_isr t x"
    and "p_special_mask s x = p_special_mask t x" and "p_special_fnm s x = p_special_fnm t x"
    and "p_priority_add s x = p_priority_add t x"
  shows "get_irq s x = get_irq t x"
  by (intro get_irq_cong blocking_isr_cong assms)

lemma get_irq_p_int [simp]: "get_irq (s\<lparr>p_int := xs\<rparr>) x = get_irq s x"
  by (rule get_irq_regs) simp_all

lemma int_follows_update_output: "int_follows (update_output s x)"
  by (simp add: int_follows_def update_output_def drive_int_def)

text \<open>Registers the master's decision does not read.\<close>

lemma get_irq_frame [simp]:
  "get_irq (s\<lparr>p_poll := f\<rparr>) x = get_irq s x"
  "get_irq (s\<lparr>p_read_reg_select := f\<rparr>) x = get_irq s x"
  "get_irq (s\<lparr>p_rotate_on_aeoi := f\<rparr>) x = get_irq s x"
  "get_irq (s\<lparr>p_auto_eoi := f\<rparr>) x = get_irq s x"
  "get_irq (s\<lparr>p_irq_base := f\<rparr>) x = get_irq s x"
  "get_irq (s\<lparr>p_init_state := f\<rparr>) x = get_irq s x"
  "get_irq (s\<lparr>p_init4 := f\<rparr>) x = get_irq s x"
  "get_irq (s\<lparr>p_single_mode := f\<rparr>) x = get_irq s x"
  "get_irq (s\<lparr>p_ltim := f\<rparr>) x = get_irq s x"
  by (rule get_irq_regs; simp)+

lemma int_follows_frame [simp]:
  "int_follows (s\<lparr>p_poll := f\<rparr>) = int_follows s"
  "int_follows (s\<lparr>p_read_reg_select := f\<rparr>) = int_follows s"
  "int_follows (s\<lparr>p_rotate_on_aeoi := f\<rparr>) = int_follows s"
  "int_follows (s\<lparr>p_auto_eoi := f\<rparr>) = int_follows s"
  "int_follows (s\<lparr>p_irq_base := f\<rparr>) = int_follows s"
  "int_follows (s\<lparr>p_init_state := f\<rparr>) = int_follows s"
  "int_follows (s\<lparr>p_init4 := f\<rparr>) = int_follows s"
  "int_follows (s\<lparr>p_single_mode := f\<rparr>) = int_follows s"
  "int_follows (s\<lparr>p_ltim := f\<rparr>) = int_follows s"
  by (simp_all add: int_follows_def)

text \<open>
  ICW4 sets special fully nested mode without driving INT again; that matters only while
  IR2 is in service in the master, where the mode stops it from blocking.
\<close>

definition icw4_quiet :: "spic \<Rightarrow> nat \<Rightarrow> u32 \<Rightarrow> bool" where
  "icw4_quiet s x address \<longleftrightarrow>
     \<not> (address \<noteq> 0 \<and> x = 0 \<and> p_init_state s 0 = 3 \<and> bit (p_isr s 0) 2)"

lemma clear_unset_bit: "\<not> bit (b :: 'a::len word) n \<Longrightarrow> b AND NOT (mask1 n) = b"
  by (rule bit_word_eqI) (auto simp: mask_simps)

lemma int_follows_fnm:
  assumes "int_follows s" and "x \<noteq> 0 \<or> \<not> bit (p_isr s 0) 2"
  shows "int_follows (s\<lparr>p_special_fnm := (p_special_fnm s)(x := v)\<rparr>)"
proof -
  have "blocking_isr (s\<lparr>p_special_fnm := (p_special_fnm s)(x := v)\<rparr>) 0 = blocking_isr s 0"
    using assms(2) by (auto simp: blocking_isr_def Let_def clear_unset_bit mask_simps)
  then have "get_irq (s\<lparr>p_special_fnm := (p_special_fnm s)(x := v)\<rparr>) 0 = get_irq s 0"
    by (intro get_irq_cong) simp_all
  then show ?thesis using assms(1) by (simp add: int_follows_def)
qed

lemma int_follows_intack: "int_follows (intack s x irq)"
  by (simp add: intack_def Let_def int_follows_update_output)

lemma int_follows_init_reset: "int_follows (init_reset s x)"
  by (simp add: init_reset_def int_follows_update_output)

lemmas int_follows_intros =
  int_follows_update_output int_follows_intack int_follows_init_reset

lemma int_follows_port1:
  assumes "int_follows s" and "icw4_quiet s x 1"
  shows "int_follows (write_port1 s x data)"
proof (cases "p_init_state s x = 3")
  case True
  then have "x \<noteq> 0 \<or> \<not> bit (p_isr s 0) 2" using assms(2) by (auto simp: icw4_quiet_def)
  then show ?thesis using True int_follows_fnm [OF assms(1)] by (simp add: write_port1_def)
next
  case False
  then show ?thesis using assms(1) by (simp add: write_port1_def int_follows_intros)
qed

lemma int_follows_write:
  assumes "int_follows s" and "icw4_quiet s x address"
  shows "int_follows (pic_write s x address data)"
proof (cases "address = 0")
  case True
  then show ?thesis using assms(1)
    by (auto simp: pic_write_def write_icw1_def write_ocw3_def write_ocw2_def Let_def
        int_follows_intros)
next
  case False
  then show ?thesis using assms int_follows_port1 [of s x data]
    by (simp add: pic_write_def icw4_quiet_def)
qed

lemma int_follows_read: "int_follows s \<Longrightarrow> int_follows (fst (pic_read s x address))"
  by (auto simp: pic_read_def Let_def int_follows_intros split: option.splits)

lemma int_follows_vector: "int_follows s \<Longrightarrow> int_follows (fst (read_vector s))"
  by (auto simp: read_vector_def Let_def int_follows_intros split: option.splits)

fun pic_ok :: "spic \<Rightarrow> pic_op \<Rightarrow> bool" where
  "pic_ok s (Pic_write x address data) = icw4_quiet s x address"
| "pic_ok s _ = True"

interpretation pic: invariant_machine pic_step pic_ok int_follows
proof
  fix s op
  assume "int_follows s" and "pic_ok s op"
  then show "int_follows (pic_step s op)"
    by (cases op)
       (simp_all add: int_follows_read int_follows_vector int_follows_write pic_reset_def Let_def
         write_elcr_def pic_interrupt_def pic_deassert_def pic_set_line_def int_follows_intros)
qed

section \<open>What the guest and the devices see\<close>

lemma get_irq_none: "p_irr s x = 0 \<Longrightarrow> get_irq s x = None"
  by (simp add: get_irq_def pic_priority_of_def)

lemma blocking_isr_idle: "p_isr s x = 0 \<Longrightarrow> blocking_isr s x = 0"
  by (simp add: blocking_isr_def)

lemma get_irq_only:
  assumes "p_irr s x = mask1 i" and "i < 8" and "\<not> bit (p_imr s x) i" and "p_isr s x = 0"
  shows "get_irq s x = Some i"
  using assms by (simp add: get_irq_iff pending_def mask_simps blocking_isr_idle)

lemma pic_priority_of_mask1:
  assumes "i < 8"
  shows "pic_priority_of (mask1 i) add = rank add i"
proof -
  have "(mask1 i :: u8) \<noteq> 0" using assms by (auto simp: u8_nonzero_bit mask_simps)
  then obtain j where "j < 8" "bit (mask1 i :: u8) j" "pic_priority_of (mask1 i) add = rank add j"
    by (rule pic_priority_of_rank)
  then show ?thesis by (simp add: mask_simps)
qed

text \<open>A non-specific EOI with one level in service retires it.\<close>

lemma nonspecific_eoi:
  assumes "p_isr s x = mask1 i" and "i < 8"
  shows "pic_write s x 0 0x20 = update_output (s\<lparr>p_isr := (p_isr s)(x := 0)\<rparr>) x"
  using assms by (simp add: pic_write_def write_ocw2_def Let_def pic_priority_of_mask1 rank_inv)

text \<open>A controller with nothing requested, nothing in service and edge inputs.\<close>

definition idle_edge :: "spic \<Rightarrow> nat \<Rightarrow> bool" where
  "idle_edge s x \<longleftrightarrow> p_irr s x = 0 \<and> p_isr s x = 0 \<and> p_elcr s x = 0 \<and> p_ltim s x = 0 \<and>
     p_auto_eoi s x = 0"

text \<open>
  C28. The controller delivers the right interrupt. \<open>get_irq\<close> answers \<open>i\<close> exactly when
  \<open>i\<close> is requested and not masked, no other such input ranks higher under the current
  rotation, and every level in service that blocks ranks strictly lower.
\<close>

theorem pic_delivers_highest_priority:
  "get_irq s x = Some i \<longleftrightarrow>
     i < 8 \<and> pending s x i \<and>
     (\<forall>j<8. pending s x j \<longrightarrow> rank (p_priority_add s x) i \<le> rank (p_priority_add s x) j) \<and>
     (\<forall>j<8. bit (blocking_isr s x) j \<longrightarrow>
        rank (p_priority_add s x) i < rank (p_priority_add s x) j)"
  by (rule get_irq_iff)

theorem pic_delivers_highest_priority_witness:
  "get_irq (pic_zero\<lparr>p_irr := \<lambda>_. 0x0a, p_imr := \<lambda>_. 0x02, p_isr := \<lambda>_. 0x80\<rparr>) 0 = Some 3"
  by (subst pic_delivers_highest_priority)
     (simp add: pending_def rank_def blocking_isr_def pic_zero_def all_less_8)

text \<open>An entry drives INT as its last act on the registers that decide it, or leaves the level alone.\<close>

lemma step_drives: "int_follows (pic_step s op) \<or> p_int (pic_step s op) = p_int s"
proof (cases op)
  case (Pic_write x a d)
  then show ?thesis
    by (auto simp: pic_write_def write_icw1_def write_ocw3_def write_ocw2_def write_port1_def Let_def int_follows_intros)
qed (auto simp: pic_read_def read_vector_def pic_reset_def write_elcr_def pic_interrupt_def pic_deassert_def
    pic_set_line_def Let_def int_follows_intros split: option.splits)

text \<open>An ICW4 to the master while it has IR2 in service.\<close>

fun icw4_over_cascade :: "spic \<Rightarrow> pic_op \<Rightarrow> bool" where
  "icw4_over_cascade s (Pic_write x a d) = (a \<noteq> 0 \<and> x = 0 \<and> p_init_state s 0 = 3 \<and> bit (p_isr s 0) 2)"
| "icw4_over_cascade s _ = False"

lemma not_pic_ok: "\<not> pic_ok s op \<longleftrightarrow> icw4_over_cascade s op"
  by (cases op) (auto simp: icw4_quiet_def)

text \<open>Such an ICW4 is among the entries \<open>ops\<close> after a reset of \<open>s0\<close>, and no level was driven from then on.\<close>

definition int_stale :: "spic \<Rightarrow> pic_op list \<Rightarrow> bool" where
  "int_stale s0 ops \<longleftrightarrow> (\<exists>before op after. ops = before @ op # after \<and>
     icw4_over_cascade (foldl pic_step (pic_reset s0) before) op \<and>
     p_int (foldl pic_step (pic_reset s0) ops) = p_int (foldl pic_step (pic_reset s0) before))"

lemma int_stale_step:
  assumes "p_int (foldl pic_step (pic_reset s0) (xs @ [x])) = p_int (foldl pic_step (pic_reset s0) xs)"
    and "icw4_over_cascade (foldl pic_step (pic_reset s0) xs) x \<or> int_stale s0 xs"
  shows "int_stale s0 (xs @ [x])"
  using assms(2)
proof
  assume "int_stale s0 xs"
  then obtain before op after where "xs = before @ op # after" "icw4_over_cascade (foldl pic_step (pic_reset s0) before) op"
    "p_int (foldl pic_step (pic_reset s0) xs) = p_int (foldl pic_step (pic_reset s0) before)"
    unfolding int_stale_def by blast
  then show ?thesis unfolding int_stale_def
    using assms(1) by (intro exI [of _ before] exI [of _ op] exI [of _ "after @ [x]"]) simp
next
  assume "icw4_over_cascade (foldl pic_step (pic_reset s0) xs) x"
  then show ?thesis unfolding int_stale_def
    using assms(1) by (intro exI [of _ xs] exI [of _ x] exI [of _ "[]"]) simp
qed

lemma int_line_history:
  "p_int (foldl pic_step (pic_reset s0) ops) \<noteq> [] \<and> (int_follows (foldl pic_step (pic_reset s0) ops) \<or> int_stale s0 ops)"
proof (induction ops rule: rev_induct)
  case Nil
  have "int_follows (pic_reset s0)" by (simp add: pic_reset_def Let_def int_follows_init_reset)
  then show ?case by (simp add: int_follows_def)
next
  case (snoc x xs)
  let ?s = "foldl pic_step (pic_reset s0) xs"
  consider (driven) "int_follows (pic_step ?s x)" | (kept) "\<not> int_follows (pic_step ?s x)" "p_int (pic_step ?s x) = p_int ?s"
    using step_drives by blast
  then show ?case
  proof cases
    case driven
    then show ?thesis by (simp add: int_follows_def)
  next
    case kept
    then have "icw4_over_cascade ?s x \<or> int_stale s0 xs" using snoc pic.step_inv not_pic_ok by blast
    with kept(2) have "int_stale s0 (xs @ [x])" by (intro int_stale_step) simp_all
    with kept(2) snoc show ?thesis by simp
  qed
qed

text \<open>
  C27. After a reset and any sequence of the class's entries, the INT level driven last is high exactly when
  the master has an interrupt to deliver: no entry leaves the chipset with a stale line. The one exception is
  stated in full: an ICW4 was written to the master while IR2 was in service, and no level was driven since.
\<close>

theorem pic_int_line_follows:
  "p_int (foldl pic_step (pic_reset s0) ops) \<noteq> [] \<and>
   (hd (p_int (foldl pic_step (pic_reset s0) ops)) = (get_irq (foldl pic_step (pic_reset s0) ops) 0 \<noteq> None) \<or>
    int_stale s0 ops)"
  using int_line_history [of s0 ops] unfolding int_follows_def by blast

theorem pic_int_line_follows_witness:
  "hd (p_int (foldl pic_step (pic_reset pic_zero) [Pic_interrupt 0 1])) =
     (get_irq (foldl pic_step (pic_reset pic_zero) [Pic_interrupt 0 1]) 0 \<noteq> None)"
  using pic_int_line_follows [of pic_zero "[Pic_interrupt 0 1]"] by (auto simp: int_stale_def Cons_eq_append_conv)

text \<open>
  C31. A slave interrupt from request to end. On an idle pair an edge on slave input \<open>i\<close>
  raises INT; the acknowledge cycle returns the slave's vector for \<open>i\<close>, puts \<open>i\<close> and the
  cascade in service and drops INT; a non-specific EOI to each leaves the pair idle again.
\<close>

theorem slave_irq_cycle:
  assumes "i < 8" and "idle_edge s 0" and "idle_edge s 1"
    and "\<not> bit (p_imr s 1) i" and "\<not> bit (p_imr s 0) 2" and "\<not> bit (p_last_irr s 0) 2"
  shows "let a = pic_interrupt s 1 i; (b, v) = read_vector a;
             c = pic_write b 1 0 0x20; d = pic_write c 0 0 0x20
         in hd (p_int a) \<and> v = p_irq_base s 1 + of_nat i \<and>
            p_isr b 1 = mask1 i \<and> p_isr b 0 = mask1 2 \<and> \<not> hd (p_int b) \<and>
            idle_edge d 0 \<and> idle_edge d 1 \<and> \<not> hd (p_int d)"
proof -
  note defs = idle_edge_def update_output_def cascade_def drive_int_def is_level_def mask_simps
  define a where "a = pic_interrupt s 1 i"
  have a: "p_irr a 1 = mask1 i" "p_irr a 0 = mask1 2" "p_isr a = p_isr s" "p_imr a = p_imr s"
    "p_auto_eoi a = p_auto_eoi s" "p_elcr a = p_elcr s" "p_ltim a = p_ltim s"
    "p_irq_base a = p_irq_base s" "hd (p_int a)"
    using assms by (simp_all add: a_def pic_interrupt_def defs get_irq_only del: One_nat_def)
  have v: "get_irq a 0 = Some 2" "get_irq a 1 = Some i"
    using a assms by (simp_all add: get_irq_only idle_edge_def del: One_nat_def)
  define b where "b = fst (read_vector a)"
  have b: "p_isr b 1 = mask1 i" "p_isr b 0 = mask1 2" "p_irr b 1 = 0" "p_irr b 0 = 0"
    "\<not> hd (p_int b)" "p_auto_eoi b = p_auto_eoi s" "p_elcr b = p_elcr s" "p_ltim b = p_ltim s"
    using a assms
    by (simp_all add: b_def read_vector_def v intack_def Let_def defs get_irq_none
        del: One_nat_def)
  have v': "snd (read_vector a) = p_irq_base s 1 + of_nat i"
    using a by (simp add: read_vector_def v intack_def Let_def defs del: One_nat_def)
  define c where "c = pic_write b 1 0 0x20"
  have c: "p_isr c 1 = 0" "p_isr c 0 = mask1 2" "p_irr c 1 = 0" "p_irr c 0 = 0"
    "p_auto_eoi c = p_auto_eoi s" "p_elcr c = p_elcr s" "p_ltim c = p_ltim s"
    using b assms by (simp_all add: c_def nonspecific_eoi defs get_irq_none del: One_nat_def)
  define d where "d = pic_write c 0 0 0x20"
  have d: "idle_edge d 0" "idle_edge d 1" "\<not> hd (p_int d)"
    using c assms by (simp_all add: d_def nonspecific_eoi defs get_irq_none del: One_nat_def)
  show ?thesis
    using a b v' d
    by (simp add: Let_def case_prod_beta flip: a_def b_def c_def d_def del: One_nat_def)
qed

theorem slave_irq_cycle_witness:
  "let a = pic_interrupt (pic_zero\<lparr>p_irq_base := \<lambda>_. 0x28\<rparr>) 1 4; (b, v) = read_vector a
   in hd (p_int a) \<and> v = 0x2c \<and> p_isr b 1 = mask1 4 \<and> p_isr b 0 = mask1 2"
  using slave_irq_cycle [of 4 "pic_zero\<lparr>p_irq_base := \<lambda>_. 0x28\<rparr>"]
  by (simp add: idle_edge_def pic_zero_def Let_def case_prod_beta)

text \<open>
  C34. An edge that arrives behind a higher-priority interrupt is not lost: it is not
  delivered while that one is in service, and the EOI that retires it raises INT with the
  late edge as the next interrupt.
\<close>

theorem edge_refires_after_eoi:
  assumes "i < 8" and "h < 8" and "p_isr s 0 = mask1 h" and "p_irr s 0 = 0"
    and "\<not> bit (p_imr s 0) i" and "rank (p_priority_add s 0) h < rank (p_priority_add s 0) i"
    and "p_special_mask s 0 = 0" and "p_special_fnm s 0 = 0"
  shows "let a = pic_interrupt s 0 i; b = pic_write a 0 0 0x20
         in get_irq a 0 = None \<and> \<not> hd (p_int a) \<and> get_irq b 0 = Some i \<and> hd (p_int b)"
proof -
  define a where "a = pic_interrupt s 0 i"
  have a: "p_irr a 0 = mask1 i" "p_isr a 0 = mask1 h" "p_imr a = p_imr s"
    "p_priority_add a = p_priority_add s" "blocking_isr a 0 = mask1 h"
    using assms
    by (simp_all add: a_def pic_interrupt_def update_output_def drive_int_def blocking_isr_def)
  have none: "get_irq a 0 = None"
  proof (cases "get_irq a 0")
    case (Some k)
    then have "k = i" "rank (p_priority_add s 0) k < rank (p_priority_add s 0) h"
      using a assms(2) by (auto simp: get_irq_iff pending_def mask_simps)
    then show ?thesis using assms(6) by simp
  qed
  have "int_follows a" by (simp add: a_def pic_interrupt_def int_follows_update_output)
  define b where "b = pic_write a 0 0 0x20"
  have b: "p_irr b 0 = mask1 i" "p_isr b 0 = 0" "p_imr b = p_imr s" "int_follows b"
    using a assms(2)
    by (simp_all add: b_def nonspecific_eoi update_output_def drive_int_def int_follows_def)
  then have "get_irq b 0 = Some i" using assms by (simp add: get_irq_only)
  with none \<open>int_follows a\<close> b show ?thesis
    by (simp add: int_follows_def flip: a_def b_def)
qed

theorem edge_refires_after_eoi_witness:
  "let a = pic_interrupt (pic_zero\<lparr>p_isr := \<lambda>_. mask1 1\<rparr>) 0 6; b = pic_write a 0 0 0x20
   in get_irq a 0 = None \<and> \<not> hd (p_int a) \<and> get_irq b 0 = Some 6 \<and> hd (p_int b)"
  by (rule edge_refires_after_eoi [where h = 1]) (simp_all add: pic_zero_def rank_def)

text \<open>In special fully nested mode an IR2 in service blocks no input of the master, the lower ones included.\<close>

lemma sfnm_delivers:
  assumes "i < 8" and "p_special_fnm s 0 \<noteq> 0" and "p_special_mask s 0 = 0"
    and "p_isr s 0 = mask1 2" and "p_irr s 0 = mask1 i" and "\<not> bit (p_imr s 0) i"
  shows "get_irq s 0 = Some i"
  using assms by (simp add: get_irq_iff pending_def blocking_isr_def mask_simps)

text \<open>
  The exception in \<open>pic_int_line_follows\<close> is needed: an ICW4 that sets special fully nested mode while
  IR2 is in service makes IR3 deliverable and leaves INT low.
\<close>

lemma icw4_leaves_int_low:
  assumes "p_init_state s 0 = 3" and "p_isr s 0 = mask1 2" and "p_irr s 0 = mask1 3"
    and "p_imr s 0 = 0" and "p_special_mask s 0 = 0" and "\<not> hd (p_int s)"
  shows "get_irq (pic_write s 0 1 0x11) 0 = Some 3 \<and> \<not> hd (p_int (pic_write s 0 1 0x11))"
  using assms by (simp add: pic_write_def write_port1_def sfnm_delivers)

end
