(* ===== verification/Alpha_Operate.thy ===== *)
theory Alpha_Operate
  imports Axp_Prelude
begin

text \<open>
  The integer operate instructions of the processor, one function per \<open>DO_\<close> macro of
  \<^verbatim>\<open>src/src/cpu/cpu_arith.hpp\<close>, \<^verbatim>\<open>cpu_logical.hpp\<close>, \<^verbatim>\<open>cpu_bwx.hpp\<close> and
  \<^verbatim>\<open>cpu_mvi.hpp\<close> (the portable branches of the \<open>#if\<close>s), with the extensions of
  \<^verbatim>\<open>src/src/common/datatypes.hpp\<close> and the 64 by 64 bit multiplication of
  \<^verbatim>\<open>cpu_defs.hpp\<close>. A macro's operands are \<open>a\<close> (Ra's value), \<open>b\<close> (Rb's value or the
  literal) and, where it reads it, \<open>c\<close> (Rc's old value). The \<open>/V\<close> forms return the
  result and whether the overflow test of the macro fires. The dispatch on the function
  code is the inner \<open>switch\<close> of \<open>CAlphaCPU::execute\<close> (\<^verbatim>\<open>AlphaCPU.cpp\<close>).
\<close>

section \<open>Extensions and field masks\<close>

definition sext_u64_8 :: "u64 \<Rightarrow> u64" where
  "sext_u64_8 a = scast (ucast a :: u8)"

definition sext_u64_16 :: "u64 \<Rightarrow> u64" where
  "sext_u64_16 a = scast (ucast a :: u16)"

definition sext_u64_32 :: "u64 \<Rightarrow> u64" where
  "sext_u64_32 a = scast (ucast a :: u32)"

definition sext_u64_21 :: "u64 \<Rightarrow> u64" where
  "sext_u64_21 a =
     (if a AND 0x100000 \<noteq> 0 then a OR 0xffffffffffe00000 else a AND 0x1fffff)"

definition zext_u64_8 :: "u64 \<Rightarrow> u64" where
  "zext_u64_8 a = a AND 0xff"

definition zext_u64_16 :: "u64 \<Rightarrow> u64" where
  "zext_u64_16 a = a AND 0xffff"

abbreviation X64_BYTE :: u64 where "X64_BYTE \<equiv> 0xff"
abbreviation X64_WORD :: u64 where "X64_WORD \<equiv> 0xffff"
abbreviation X64_LONG :: u64 where "X64_LONG \<equiv> 0xffffffff"
abbreviation X64_QUAD :: u64 where "X64_QUAD \<equiv> 0xffffffffffffffff"
abbreviation L_SIGN :: u64 where "L_SIGN \<equiv> 0x80000000"
abbreviation Q_SIGN :: u64 where "Q_SIGN \<equiv> 0x8000000000000000"

section \<open>Multiplication\<close>

text \<open>\<open>uemul64\<close> with a 128-bit type: the high and the low half of the product.\<close>

definition uemul64 :: "u64 \<Rightarrow> u64 \<Rightarrow> u64 \<times> u64" where
  "uemul64 a b =
     (let p = (ucast a :: 128 word) * ucast b in (ucast (drop_bit 64 p), ucast p))"

text \<open>\<open>uemul64\<close> without one: four 32-bit partial products and the two carries.\<close>

definition uemul64_portable :: "u64 \<Rightarrow> u64 \<Rightarrow> u64 \<times> u64" where
  "uemul64_portable a b =
     (let ahi = drop_bit 32 a AND X64_LONG; alo = a AND X64_LONG;
          bhi = drop_bit 32 b AND X64_LONG; blo = b AND X64_LONG;
          rhi = ahi * bhi; rmid1 = ahi * blo; rmid2 = alo * bhi; rlo = alo * blo;
          rhi = rhi + (drop_bit 32 rmid1 AND X64_LONG) + (drop_bit 32 rmid2 AND X64_LONG);
          rmid1 = push_bit 32 rmid1 AND X64_QUAD;
          rmid2 = push_bit 32 rmid2 AND X64_QUAD;
          rlo = (rlo + rmid1) AND X64_QUAD;
          rhi = (if rlo < rmid1 then rhi + 1 else rhi);
          rlo = (rlo + rmid2) AND X64_QUAD;
          rhi = (if rlo < rmid2 then rhi + 1 else rhi)
      in (rhi AND X64_QUAD, rlo))"

section \<open>Arithmetic: \<open>cpu_arith.hpp\<close>\<close>

definition do_CMPEQ :: "u64 \<Rightarrow> u64 \<Rightarrow> u64" where "do_CMPEQ a b = of_flag (a = b)"
definition do_CMPLT :: "u64 \<Rightarrow> u64 \<Rightarrow> u64" where "do_CMPLT a b = of_flag (sint a < sint b)"
definition do_CMPLE :: "u64 \<Rightarrow> u64 \<Rightarrow> u64" where "do_CMPLE a b = of_flag (sint a \<le> sint b)"
definition do_CMPULT :: "u64 \<Rightarrow> u64 \<Rightarrow> u64" where "do_CMPULT a b = of_flag (a < b)"
definition do_CMPULE :: "u64 \<Rightarrow> u64 \<Rightarrow> u64" where "do_CMPULE a b = of_flag (a \<le> b)"

definition do_ADDQ :: "u64 \<Rightarrow> u64 \<Rightarrow> u64" where "do_ADDQ a b = a + b"
definition do_S4ADDQ :: "u64 \<Rightarrow> u64 \<Rightarrow> u64" where "do_S4ADDQ a b = a * 4 + b"
definition do_S8ADDQ :: "u64 \<Rightarrow> u64 \<Rightarrow> u64" where "do_S8ADDQ a b = a * 8 + b"
definition do_ADDL :: "u64 \<Rightarrow> u64 \<Rightarrow> u64" where "do_ADDL a b = sext_u64_32 (a + b)"
definition do_S4ADDL :: "u64 \<Rightarrow> u64 \<Rightarrow> u64" where "do_S4ADDL a b = sext_u64_32 (a * 4 + b)"
definition do_S8ADDL :: "u64 \<Rightarrow> u64 \<Rightarrow> u64" where "do_S8ADDL a b = sext_u64_32 (a * 8 + b)"
definition do_SUBQ :: "u64 \<Rightarrow> u64 \<Rightarrow> u64" where "do_SUBQ a b = a - b"
definition do_S4SUBQ :: "u64 \<Rightarrow> u64 \<Rightarrow> u64" where "do_S4SUBQ a b = a * 4 - b"
definition do_S8SUBQ :: "u64 \<Rightarrow> u64 \<Rightarrow> u64" where "do_S8SUBQ a b = a * 8 - b"
definition do_SUBL :: "u64 \<Rightarrow> u64 \<Rightarrow> u64" where "do_SUBL a b = sext_u64_32 (a - b)"
definition do_S4SUBL :: "u64 \<Rightarrow> u64 \<Rightarrow> u64" where "do_S4SUBL a b = sext_u64_32 (a * 4 - b)"
definition do_S8SUBL :: "u64 \<Rightarrow> u64 \<Rightarrow> u64" where "do_S8SUBL a b = sext_u64_32 (a * 8 - b)"
definition do_MULL :: "u64 \<Rightarrow> u64 \<Rightarrow> u64" where
  "do_MULL a b = sext_u64_32 (sext_u64_32 a * sext_u64_32 b)"
definition do_MULQ :: "u64 \<Rightarrow> u64 \<Rightarrow> u64" where "do_MULQ a b = a * b"
definition do_UMULH :: "u64 \<Rightarrow> u64 \<Rightarrow> u64" where "do_UMULH a b = fst (uemul64 a b)"

text \<open>The \<open>/V\<close> forms: the result, and whether the macro's overflow test holds.\<close>

definition do_ADDQ_V :: "u64 \<Rightarrow> u64 \<Rightarrow> u64 \<times> bool" where
  "do_ADDQ_V a b = (let c = a + b
     in (c, ((NOT a XOR b) AND (a XOR c)) AND Q_SIGN \<noteq> 0))"

definition do_ADDL_V :: "u64 \<Rightarrow> u64 \<Rightarrow> u64 \<times> bool" where
  "do_ADDL_V a b = (let c = sext_u64_32 (a + b)
     in (c, ((NOT a XOR b) AND (a XOR c)) AND L_SIGN \<noteq> 0))"

definition do_SUBQ_V :: "u64 \<Rightarrow> u64 \<Rightarrow> u64 \<times> bool" where
  "do_SUBQ_V a b = (let c = a - b
     in (c, ((a XOR b) AND (a XOR c)) AND Q_SIGN \<noteq> 0))"

definition do_SUBL_V :: "u64 \<Rightarrow> u64 \<Rightarrow> u64 \<times> bool" where
  "do_SUBL_V a b = (let c = sext_u64_32 (a - b)
     in (c, ((a XOR b) AND (a XOR c)) AND L_SIGN \<noteq> 0))"

definition do_MULL_V :: "u64 \<Rightarrow> u64 \<Rightarrow> u64 \<times> bool" where
  "do_MULL_V a b = (let sr = sext_u64_32 a * sext_u64_32 b; c = sext_u64_32 sr
     in (c, (c XOR sr) AND 0xffffffff00000000 \<noteq> 0))"

definition q_getsign :: "u64 \<Rightarrow> bool" where
  "q_getsign x \<longleftrightarrow> drop_bit 63 x AND 1 \<noteq> 0"

definition do_MULQ_V :: "u64 \<Rightarrow> u64 \<Rightarrow> u64 \<times> bool" where
  "do_MULQ_V a b =
     (let (hi, c) = uemul64 a b;
          t64 = (if q_getsign a then hi - b else hi);
          t64 = (if q_getsign b then t64 - a else t64)
      in (c, if q_getsign c then t64 \<noteq> X64_QUAD else t64 \<noteq> 0))"

text \<open>The counting loops: \<open>i\<close> runs over the bits, \<open>n\<close> is \<open>temp_64\<close>.\<close>

fun ctlz_loop :: "u64 \<Rightarrow> nat \<Rightarrow> u64 \<Rightarrow> u64" where
  "ctlz_loop x 0 n = n"
| "ctlz_loop x (Suc i) n = (if drop_bit i x AND 1 \<noteq> 0 then n else ctlz_loop x i (n + 1))"

definition do_CTLZ :: "u64 \<Rightarrow> u64" where "do_CTLZ b = ctlz_loop b 64 0"

definition do_CTPOP :: "u64 \<Rightarrow> u64" where
  "do_CTPOP b = foldl (\<lambda>n i. if drop_bit i b AND 1 \<noteq> 0 then n + 1 else n) 0 [0..<64]"

fun cttz_loop :: "u64 \<Rightarrow> nat \<Rightarrow> u64 \<Rightarrow> u64" where
  "cttz_loop x 0 n = n"
| "cttz_loop x (Suc k) n =
     (if drop_bit (63 - k) x AND 1 \<noteq> 0 then n else cttz_loop x k (n + 1))"

definition do_CTTZ :: "u64 \<Rightarrow> u64" where "do_CTTZ b = cttz_loop b 64 0"

section \<open>Logical operations and shifts: \<open>cpu_logical.hpp\<close>\<close>

definition do_AND :: "u64 \<Rightarrow> u64 \<Rightarrow> u64" where "do_AND a b = a AND b"
definition do_BIC :: "u64 \<Rightarrow> u64 \<Rightarrow> u64" where "do_BIC a b = a AND NOT b"
definition do_BIS :: "u64 \<Rightarrow> u64 \<Rightarrow> u64" where "do_BIS a b = a OR b"
definition do_EQV :: "u64 \<Rightarrow> u64 \<Rightarrow> u64" where "do_EQV a b = a XOR NOT b"
definition do_ORNOT :: "u64 \<Rightarrow> u64 \<Rightarrow> u64" where "do_ORNOT a b = a OR NOT b"
definition do_XOR :: "u64 \<Rightarrow> u64 \<Rightarrow> u64" where "do_XOR a b = a XOR b"

text \<open>The conditional moves: whether Rc is written.\<close>

definition do_CMOVEQ :: "u64 \<Rightarrow> bool" where "do_CMOVEQ a \<longleftrightarrow> a = 0"
definition do_CMOVGE :: "u64 \<Rightarrow> bool" where "do_CMOVGE a \<longleftrightarrow> sint a \<ge> 0"
definition do_CMOVGT :: "u64 \<Rightarrow> bool" where "do_CMOVGT a \<longleftrightarrow> sint a > 0"
definition do_CMOVLBC :: "u64 \<Rightarrow> bool" where "do_CMOVLBC a \<longleftrightarrow> a AND 1 = 0"
definition do_CMOVLBS :: "u64 \<Rightarrow> bool" where "do_CMOVLBS a \<longleftrightarrow> a AND 1 \<noteq> 0"
definition do_CMOVLE :: "u64 \<Rightarrow> bool" where "do_CMOVLE a \<longleftrightarrow> sint a \<le> 0"
definition do_CMOVLT :: "u64 \<Rightarrow> bool" where "do_CMOVLT a \<longleftrightarrow> sint a < 0"
definition do_CMOVNE :: "u64 \<Rightarrow> bool" where "do_CMOVNE a \<longleftrightarrow> a \<noteq> 0"

definition shamt :: "u64 \<Rightarrow> nat" where "shamt b = unat (b AND 63)"

definition do_SLL :: "u64 \<Rightarrow> u64 \<Rightarrow> u64" where "do_SLL a b = push_bit (shamt b) a"
definition do_SRL :: "u64 \<Rightarrow> u64 \<Rightarrow> u64" where "do_SRL a b = drop_bit (shamt b) a"

definition do_SRA :: "u64 \<Rightarrow> u64 \<Rightarrow> u64" where
  "do_SRA a b =
     (if shamt b \<noteq> 0
      then drop_bit (shamt b) a OR
           (if drop_bit 63 a \<noteq> 0 then push_bit (64 - shamt b) X64_QUAD else 0)
      else a)"

section \<open>Byte manipulation: \<open>cpu_bwx.hpp\<close>\<close>

text \<open>\<open>(V_2 & 7) * 8\<close>, and \<open>(64 - (V_2 & 7) * 8) & 63\<close>.\<close>

definition byte_sh :: "u64 \<Rightarrow> nat" where "byte_sh b = unat (b AND 7) * 8"
definition high_sh :: "u64 \<Rightarrow> nat" where "high_sh b = (64 - byte_sh b) mod 64"

definition cmp_lane :: "u64 \<Rightarrow> u64 \<Rightarrow> nat \<Rightarrow> u64 \<Rightarrow> u64" where
  "cmp_lane a b i v =
     (if (ucast (drop_bit i a AND 0xff) :: u8) \<ge> ucast (drop_bit i b AND 0xff) then v else 0)"

definition do_CMPBGE :: "u64 \<Rightarrow> u64 \<Rightarrow> u64" where
  "do_CMPBGE a b =
     cmp_lane a b 0 1 OR cmp_lane a b 8 2 OR cmp_lane a b 16 4 OR cmp_lane a b 24 8 OR
     cmp_lane a b 32 16 OR cmp_lane a b 40 32 OR cmp_lane a b 48 64 OR cmp_lane a b 56 128"

definition do_EXTBL :: "u64 \<Rightarrow> u64 \<Rightarrow> u64" where "do_EXTBL a b = drop_bit (byte_sh b) a AND X64_BYTE"
definition do_EXTWL :: "u64 \<Rightarrow> u64 \<Rightarrow> u64" where "do_EXTWL a b = drop_bit (byte_sh b) a AND X64_WORD"
definition do_EXTLL :: "u64 \<Rightarrow> u64 \<Rightarrow> u64" where "do_EXTLL a b = drop_bit (byte_sh b) a AND X64_LONG"
definition do_EXTQL :: "u64 \<Rightarrow> u64 \<Rightarrow> u64" where "do_EXTQL a b = drop_bit (byte_sh b) a"
definition do_EXTWH :: "u64 \<Rightarrow> u64 \<Rightarrow> u64" where "do_EXTWH a b = push_bit (high_sh b) a AND X64_WORD"
definition do_EXTLH :: "u64 \<Rightarrow> u64 \<Rightarrow> u64" where "do_EXTLH a b = push_bit (high_sh b) a AND X64_LONG"
definition do_EXTQH :: "u64 \<Rightarrow> u64 \<Rightarrow> u64" where "do_EXTQH a b = push_bit (high_sh b) a AND X64_QUAD"

definition do_INSBL :: "u64 \<Rightarrow> u64 \<Rightarrow> u64" where "do_INSBL a b = push_bit (byte_sh b) (a AND X64_BYTE)"
definition do_INSWL :: "u64 \<Rightarrow> u64 \<Rightarrow> u64" where "do_INSWL a b = push_bit (byte_sh b) (a AND X64_WORD)"
definition do_INSLL :: "u64 \<Rightarrow> u64 \<Rightarrow> u64" where "do_INSLL a b = push_bit (byte_sh b) (a AND X64_LONG)"
definition do_INSQL :: "u64 \<Rightarrow> u64 \<Rightarrow> u64" where "do_INSQL a b = push_bit (byte_sh b) a"
definition do_INSWH :: "u64 \<Rightarrow> u64 \<Rightarrow> u64" where
  "do_INSWH a b = (if b AND 7 \<noteq> 0 then drop_bit (high_sh b) (a AND X64_WORD) else 0)"
definition do_INSLH :: "u64 \<Rightarrow> u64 \<Rightarrow> u64" where
  "do_INSLH a b = (if b AND 7 \<noteq> 0 then drop_bit (high_sh b) (a AND X64_LONG) else 0)"
definition do_INSQH :: "u64 \<Rightarrow> u64 \<Rightarrow> u64" where
  "do_INSQH a b = (if b AND 7 \<noteq> 0 then drop_bit (high_sh b) (a AND X64_QUAD) else 0)"

definition do_MSKBL :: "u64 \<Rightarrow> u64 \<Rightarrow> u64" where "do_MSKBL a b = a AND NOT (push_bit (byte_sh b) X64_BYTE)"
definition do_MSKWL :: "u64 \<Rightarrow> u64 \<Rightarrow> u64" where "do_MSKWL a b = a AND NOT (push_bit (byte_sh b) X64_WORD)"
definition do_MSKLL :: "u64 \<Rightarrow> u64 \<Rightarrow> u64" where "do_MSKLL a b = a AND NOT (push_bit (byte_sh b) X64_LONG)"
definition do_MSKQL :: "u64 \<Rightarrow> u64 \<Rightarrow> u64" where "do_MSKQL a b = a AND NOT (push_bit (byte_sh b) X64_QUAD)"
definition do_MSKWH :: "u64 \<Rightarrow> u64 \<Rightarrow> u64" where
  "do_MSKWH a b = (if b AND 7 \<noteq> 0 then a AND NOT (drop_bit (high_sh b) X64_WORD) else a)"
definition do_MSKLH :: "u64 \<Rightarrow> u64 \<Rightarrow> u64" where
  "do_MSKLH a b = (if b AND 7 \<noteq> 0 then a AND NOT (drop_bit (high_sh b) X64_LONG) else a)"
definition do_MSKQH :: "u64 \<Rightarrow> u64 \<Rightarrow> u64" where
  "do_MSKQH a b = (if b AND 7 \<noteq> 0 then a AND NOT (drop_bit (high_sh b) X64_QUAD) else a)"

definition do_SEXTB :: "u64 \<Rightarrow> u64" where "do_SEXTB b = sext_u64_8 b"
definition do_SEXTW :: "u64 \<Rightarrow> u64" where "do_SEXTW b = sext_u64_16 b"

definition zap_lane :: "u64 \<Rightarrow> u64 \<Rightarrow> u64 \<Rightarrow> u64" where
  "zap_lane b v m = (if b AND v \<noteq> 0 then 0 else m)"

definition do_ZAP :: "u64 \<Rightarrow> u64 \<Rightarrow> u64" where
  "do_ZAP a b = a AND
     (zap_lane b 1 0xff OR zap_lane b 2 0xff00 OR zap_lane b 4 0xff0000 OR
      zap_lane b 8 0xff000000 OR zap_lane b 16 0xff00000000 OR zap_lane b 32 0xff0000000000 OR
      zap_lane b 64 0xff000000000000 OR zap_lane b 128 0xff00000000000000)"

definition zapnot_lane :: "u64 \<Rightarrow> u64 \<Rightarrow> u64 \<Rightarrow> u64" where
  "zapnot_lane b v m = (if b AND v \<noteq> 0 then m else 0)"

definition do_ZAPNOT :: "u64 \<Rightarrow> u64 \<Rightarrow> u64" where
  "do_ZAPNOT a b = a AND
     (zapnot_lane b 1 0xff OR zapnot_lane b 2 0xff00 OR zapnot_lane b 4 0xff0000 OR
      zapnot_lane b 8 0xff000000 OR zapnot_lane b 16 0xff00000000 OR
      zapnot_lane b 32 0xff0000000000 OR zapnot_lane b 64 0xff000000000000 OR
      zapnot_lane b 128 0xff00000000000000)"

section \<open>Multimedia: \<open>cpu_mvi.hpp\<close>\<close>

text \<open>
  The loops over byte (word) lanes: \<open>i\<close> steps by 8 (16), each lane's result is shifted
  into \<open>temp_64\<close>.
\<close>

definition lanes8 :: "(u8 \<Rightarrow> u8 \<Rightarrow> u8) \<Rightarrow> u64 \<Rightarrow> u64 \<Rightarrow> u64" where
  "lanes8 f a b =
     foldl (\<lambda>t i. t OR push_bit i
        (ucast (f (ucast (drop_bit i a AND X64_BYTE)) (ucast (drop_bit i b AND X64_BYTE)))))
       0 [0, 8, 16, 24, 32, 40, 48, 56]"

definition lanes16 :: "(u16 \<Rightarrow> u16 \<Rightarrow> u16) \<Rightarrow> u64 \<Rightarrow> u64 \<Rightarrow> u64" where
  "lanes16 f a b =
     foldl (\<lambda>t i. t OR push_bit i
        (ucast (f (ucast (drop_bit i a AND X64_WORD)) (ucast (drop_bit i b AND X64_WORD)))))
       0 [0, 16, 32, 48]"

definition do_MINUB8 :: "u64 \<Rightarrow> u64 \<Rightarrow> u64" where "do_MINUB8 = lanes8 (\<lambda>a b. if a < b then a else b)"
definition do_MINSB8 :: "u64 \<Rightarrow> u64 \<Rightarrow> u64" where "do_MINSB8 = lanes8 (\<lambda>a b. if sint a < sint b then a else b)"
definition do_MINUW4 :: "u64 \<Rightarrow> u64 \<Rightarrow> u64" where "do_MINUW4 = lanes16 (\<lambda>a b. if a < b then a else b)"
definition do_MINSW4 :: "u64 \<Rightarrow> u64 \<Rightarrow> u64" where "do_MINSW4 = lanes16 (\<lambda>a b. if sint a < sint b then a else b)"
definition do_MAXUB8 :: "u64 \<Rightarrow> u64 \<Rightarrow> u64" where "do_MAXUB8 = lanes8 (\<lambda>a b. if a > b then a else b)"
definition do_MAXSB8 :: "u64 \<Rightarrow> u64 \<Rightarrow> u64" where "do_MAXSB8 = lanes8 (\<lambda>a b. if sint a > sint b then a else b)"
definition do_MAXUW4 :: "u64 \<Rightarrow> u64 \<Rightarrow> u64" where "do_MAXUW4 = lanes16 (\<lambda>a b. if a > b then a else b)"
definition do_MAXSW4 :: "u64 \<Rightarrow> u64 \<Rightarrow> u64" where "do_MAXSW4 = lanes16 (\<lambda>a b. if sint a > sint b then a else b)"

definition do_PERR :: "u64 \<Rightarrow> u64 \<Rightarrow> u64" where
  "do_PERR a b =
     foldl (\<lambda>t i. let x = ucast (drop_bit i a AND X64_BYTE) :: u8;
                      y = ucast (drop_bit i b AND X64_BYTE) :: u8
                  in t + (if x > y then ucast x - ucast y else ucast y - ucast x))
       0 [0, 8, 16, 24, 32, 40, 48, 56]"

definition do_PKLB :: "u64 \<Rightarrow> u64" where
  "do_PKLB t = (t AND 0xff) OR drop_bit 24 (t AND 0xff00000000)"
definition do_PKWB :: "u64 \<Rightarrow> u64" where
  "do_PKWB t = (t AND 0xff) OR drop_bit 8 (t AND 0xff0000) OR
     drop_bit 16 (t AND 0xff00000000) OR drop_bit 24 (t AND 0xff000000000000)"
definition do_UNPKBL :: "u64 \<Rightarrow> u64" where
  "do_UNPKBL t = (t AND 0xff) OR push_bit 24 (t AND 0xff00)"
definition do_UNPKBW :: "u64 \<Rightarrow> u64" where
  "do_UNPKBW t = (t AND 0xff) OR push_bit 8 (t AND 0xff00) OR
     push_bit 16 (t AND 0xff0000) OR push_bit 24 (t AND 0xff000000)"

end
