(* ===== verification/Alpha_Integer.thy ===== *)
theory Alpha_Integer
  imports Alpha_Operate
begin

text \<open>
  The integer arithmetic of \<^verbatim>\<open>Alpha_Operate\<close> against the integers: the overflow test
  of every \<open>/V\<close> instruction fires exactly when the mathematical result does not fit, the
  portable 64 by 64 bit multiplication is the exact 128-bit product, and the counting
  loops count.
\<close>

section \<open>Signed overflow\<close>

text \<open>Whether an integer fits a signed register of the word's width.\<close>

definition fits :: "'a::len itself \<Rightarrow> int \<Rightarrow> bool" where
  "fits _ k \<longleftrightarrow> - (2 ^ (LENGTH('a) - 1)) \<le> k \<and> k < 2 ^ (LENGTH('a) - 1)"

lemma fits_sint: "fits TYPE('a) (sint (x :: 'a::len word))"
  using sint_greater_eq [of x] sint_less [of x] by (simp add: fits_def)

lemma sign_bit: "bit (x :: 'a::len word) (LENGTH('a) - 1) \<longleftrightarrow> sint x < 0"
  using bit_last_iff [of x] by (simp add: One_nat_def)

lemma sign_wrap:
  assumes "\<not> fits TYPE('a::len) k" and "- (2 ^ LENGTH('a)) \<le> k" and "k < 2 ^ LENGTH('a)"
  shows "signed_take_bit (LENGTH('a) - 1) k < 0 \<longleftrightarrow> 0 \<le> k"
proof -
  let ?n = "LENGTH('a) - 1"
  have n: "(2::int) ^ LENGTH('a) = 2 ^ Suc ?n" by simp
  show ?thesis
  proof (cases "2 ^ ?n \<le> k")
    case True
    then have "signed_take_bit ?n k \<le> k - 2 ^ Suc ?n" by (rule signed_take_bit_int_less_eq)
    moreover have "0 \<le> k" using True by (meson order_trans zero_le_numeral zero_le_power)
    ultimately show ?thesis using assms(3) n by linarith
  next
    case False
    then have "k < - (2 ^ ?n)" using assms(1) by (simp add: fits_def)
    moreover from this have "k + 2 ^ Suc ?n \<le> signed_take_bit ?n k"
      by (rule signed_take_bit_int_greater_eq)
    moreover have "(0::int) \<le> 2 ^ ?n" by simp
    ultimately show ?thesis using assms(2) n by linarith
  qed
qed

lemma sint_sum_bounds:
  fixes a b :: "'a::len word"
  shows "- (2 ^ LENGTH('a)) \<le> sint a + sint b" "sint a + sint b < 2 ^ LENGTH('a)"
    "- (2 ^ LENGTH('a)) \<le> sint a - sint b" "sint a - sint b < 2 ^ LENGTH('a)"
proof -
  have "(2::int) ^ LENGTH('a) = 2 * 2 ^ (LENGTH('a) - 1)"
    by (metis One_nat_def Suc_pred len_gt_0 power_Suc)
  then show "- (2 ^ LENGTH('a)) \<le> sint a + sint b" "sint a + sint b < 2 ^ LENGTH('a)"
    "- (2 ^ LENGTH('a)) \<le> sint a - sint b" "sint a - sint b < 2 ^ LENGTH('a)"
    using fits_sint [of a] fits_sint [of b] by (auto simp: fits_def)
qed

lemma add_overflow:
  fixes a b :: "'a::len word"
  shows "bit a (LENGTH('a) - 1) = bit b (LENGTH('a) - 1) \<and>
      bit a (LENGTH('a) - 1) \<noteq> bit (a + b) (LENGTH('a) - 1) \<longleftrightarrow> \<not> fits TYPE('a) (sint a + sint b)"
proof (cases "fits TYPE('a) (sint a + sint b)")
  case True
  then have "sint (a + b) = sint a + sint b"
    by (simp add: sint_word_ariths signed_take_bit_int_eq_self_iff fits_def)
  then show ?thesis using True unfolding sign_bit by linarith
next
  case False
  then have "sint (a + b) < 0 \<longleftrightarrow> 0 \<le> sint a + sint b"
    using sign_wrap [OF False sint_sum_bounds(1,2)] by (simp add: sint_word_ariths)
  moreover have "sint a < 0 \<longleftrightarrow> sint b < 0"
    using False fits_sint [of a] fits_sint [of b] by (auto simp: fits_def)
  ultimately show ?thesis using False unfolding sign_bit by linarith
qed

lemma sub_overflow:
  fixes a b :: "'a::len word"
  shows "bit a (LENGTH('a) - 1) \<noteq> bit b (LENGTH('a) - 1) \<and>
      bit a (LENGTH('a) - 1) \<noteq> bit (a - b) (LENGTH('a) - 1) \<longleftrightarrow> \<not> fits TYPE('a) (sint a - sint b)"
proof (cases "fits TYPE('a) (sint a - sint b)")
  case True
  then have "sint (a - b) = sint a - sint b"
    by (simp add: sint_word_ariths signed_take_bit_int_eq_self_iff fits_def)
  then show ?thesis using True unfolding sign_bit by linarith
next
  case False
  then have "sint (a - b) < 0 \<longleftrightarrow> 0 \<le> sint a - sint b"
    using sign_wrap [OF False sint_sum_bounds(3,4)] by (simp add: sint_word_ariths)
  moreover have "sint a < 0 \<longleftrightarrow> \<not> sint b < 0"
    using False fits_sint [of a] fits_sint [of b] by (auto simp: fits_def)
  ultimately show ?thesis using False unfolding sign_bit by linarith
qed

lemma and_Q_SIGN: "x AND Q_SIGN = 0 \<longleftrightarrow> \<not> bit (x::u64) 63"
  using and_mask1_eq_0 [of x 63] by (simp add: mask1_def)

lemma and_L_SIGN: "x AND L_SIGN = 0 \<longleftrightarrow> \<not> bit (x::u64) 31"
  using and_mask1_eq_0 [of x 31] by (simp add: mask1_def)

lemma bit_sext_u64_32: "bit (sext_u64_32 x) n \<longleftrightarrow> n < 64 \<and> bit x (min n 31)"
  by (auto simp: sext_u64_32_def bit_simps min_def)

lemma ADDQ_V_overflow: "snd (do_ADDQ_V a b) \<longleftrightarrow> \<not> fits TYPE(64) (sint a + sint b)"
  using add_overflow [of a b]
  by (auto simp: do_ADDQ_V_def Let_def and_Q_SIGN bit_and_iff bit_xor_iff bit_not_iff)

lemma SUBQ_V_overflow: "snd (do_SUBQ_V a b) \<longleftrightarrow> \<not> fits TYPE(64) (sint a - sint b)"
  using sub_overflow [of a b]
  by (auto simp: do_SUBQ_V_def Let_def and_Q_SIGN bit_and_iff bit_xor_iff bit_not_iff)

abbreviation low32 :: "u64 \<Rightarrow> u32" where "low32 \<equiv> ucast"

lemma low32_plus: "low32 (a + b) = low32 a + low32 b"
proof transfer
  fix a b :: int
  show "take_bit LENGTH(32) (take_bit LENGTH(64) (a + b)) =
      take_bit LENGTH(32) (take_bit LENGTH(64) a + take_bit LENGTH(64) b)"
    using take_bit_add [of 32 "take_bit 64 a" "take_bit 64 b"] take_bit_add [of 32 a b] by simp
qed

lemma low32_minus: "low32 (a - b) = low32 a - low32 b"
proof transfer
  fix a b :: int
  show "take_bit LENGTH(32) (take_bit LENGTH(64) (a - b)) =
      take_bit LENGTH(32) (take_bit LENGTH(64) a - take_bit LENGTH(64) b)"
    using take_bit_diff [of 32 "take_bit 64 a" "take_bit 64 b"] take_bit_diff [of 32 a b] by simp
qed

lemma low32_times: "low32 (a * b) = low32 a * low32 b"
proof transfer
  fix a b :: int
  show "take_bit LENGTH(32) (take_bit LENGTH(64) (a * b)) =
      take_bit LENGTH(32) (take_bit LENGTH(64) a * take_bit LENGTH(64) b)"
    using take_bit_mult [of 32 "take_bit 64 a" "take_bit 64 b"] take_bit_mult [of 32 a b] by simp
qed

lemma bit_low32: "bit (low32 x) n \<longleftrightarrow> n < 32 \<and> bit x n"
  by (simp add: bit_simps)

lemma ADDL_V_overflow:
  "snd (do_ADDL_V a b) \<longleftrightarrow> \<not> fits TYPE(32) (sint (low32 a) + sint (low32 b))"
  using add_overflow [of "low32 a" "low32 b"]
  by (auto simp: do_ADDL_V_def Let_def and_L_SIGN bit_and_iff bit_xor_iff bit_not_iff
      bit_sext_u64_32 bit_low32 simp flip: low32_plus)

lemma SUBL_V_overflow:
  "snd (do_SUBL_V a b) \<longleftrightarrow> \<not> fits TYPE(32) (sint (low32 a) - sint (low32 b))"
  using sub_overflow [of "low32 a" "low32 b"]
  by (auto simp: do_SUBL_V_def Let_def and_L_SIGN bit_and_iff bit_xor_iff bit_not_iff
      bit_sext_u64_32 bit_low32 simp flip: low32_minus)

lemma sint_sext_u64_32: "sint (sext_u64_32 x) = sint (low32 x)"
  unfolding sext_u64_32_def by (rule sint_up_scast) (simp add: is_up)

lemma sint_low32: "sint (low32 x) = signed_take_bit 31 (sint x)"
  by transfer (simp add: signed_take_bit_take_bit)

lemma sext_eq_iff: "sext_u64_32 x = x \<longleftrightarrow> fits TYPE(32) (sint x)"
proof -
  have "sext_u64_32 x = x \<longleftrightarrow> sint (sext_u64_32 x) = sint x"
    by (auto intro: signed_word_eqI)
  also have "\<dots> \<longleftrightarrow> fits TYPE(32) (sint x)"
    by (simp add: sint_sext_u64_32 sint_low32 signed_take_bit_int_eq_self_iff fits_def)
  finally show ?thesis .
qed

lemma high_half_eq_0:
  assumes "\<And>n. n < 32 \<Longrightarrow> \<not> bit (x::u64) n"
  shows "x AND 0xffffffff00000000 = 0 \<longleftrightarrow> x = 0"
proof -
  have "(0xffffffff00000000 :: u64) = NOT (mask 32)" by (simp add: mask_eq_decr_exp)
  then have "x AND 0xffffffff00000000 = x AND NOT (mask 32)" by (rule arg_cong)
  also have "\<dots> = x" using assms by (intro bit_word_eqI) (auto simp: bit_simps)
  finally show ?thesis by simp
qed

lemma sint_long_product_fits: "fits TYPE(64) (sint (low32 a) * sint (low32 b))"
proof -
  have "\<bar>sint (low32 a)\<bar> \<le> 2 ^ 31" "\<bar>sint (low32 b)\<bar> \<le> 2 ^ 31"
    using fits_sint [of "low32 a"] fits_sint [of "low32 b"] by (auto simp: fits_def)
  then have "\<bar>sint (low32 a) * sint (low32 b)\<bar> \<le> 2 ^ 31 * 2 ^ 31"
    unfolding abs_mult by (intro mult_mono) auto
  then show ?thesis by (auto simp: fits_def)
qed

lemma sint_long_product:
  "sint (sext_u64_32 a * sext_u64_32 b) = sint (low32 a) * sint (low32 b)"
  using sint_long_product_fits [of a b]
  by (simp add: sint_word_ariths sint_sext_u64_32 signed_take_bit_int_eq_self_iff fits_def)

lemma MULL_V_overflow:
  "snd (do_MULL_V a b) \<longleftrightarrow> \<not> fits TYPE(32) (sint (low32 a) * sint (low32 b))"
proof -
  let ?sr = "sext_u64_32 a * sext_u64_32 b"
  have "(sext_u64_32 ?sr XOR ?sr) AND 0xffffffff00000000 = 0 \<longleftrightarrow> sext_u64_32 ?sr XOR ?sr = 0"
    by (rule high_half_eq_0) (auto simp: bit_xor_iff bit_sext_u64_32)
  also have "\<dots> \<longleftrightarrow> sext_u64_32 ?sr = ?sr" by (rule xor_eq_0_iff)
  finally show ?thesis
    by (simp add: do_MULL_V_def Let_def sext_eq_iff sint_long_product)
qed


lemma uint_bounds64: "0 \<le> uint (x::u64)" "uint (x::u64) < 2 ^ 64"
  using uint_bounded [of x] by simp_all

lemma product_128: "0 \<le> uint (a::u64) * uint (b::u64)" "uint (a::u64) * uint (b::u64) < 2 ^ 128"
proof -
  show "0 \<le> uint a * uint b" by simp
  have "uint a * uint b < 2 ^ 64 * 2 ^ 64"
    using uint_bounds64 [of a] uint_bounds64 [of b] by (intro mult_strict_mono) auto
  then show "uint a * uint b < 2 ^ 128" by simp
qed

lemma uemul64_halves:
  "uint (fst (uemul64 a b)) = uint a * uint b div 2 ^ 64"
  "uint (snd (uemul64 a b)) = uint a * uint b mod 2 ^ 64"
proof -
  let ?p = "(ucast a :: 128 word) * ucast b"
  have up: "uint (ucast x :: 128 word) = uint x" for x :: u64
    by (rule uint_up_ucast) (simp add: is_up)
  have p: "uint ?p = uint a * uint b"
    using product_128 [of a b] by (simp add: uint_word_ariths up)
  show "uint (snd (uemul64 a b)) = uint a * uint b mod 2 ^ 64"
    by (simp add: uemul64_def Let_def unsigned_ucast_eq p take_bit_eq_mod)
  have "uint a * uint b div 2 ^ 64 < 2 ^ 64"
    using product_128 [of a b] by (auto intro!: zdiv_mono_strict)
  moreover have "0 \<le> uint a * uint b div 2 ^ 64"
    using product_128 [of a b] by (simp add: pos_imp_zdiv_nonneg_iff)
  ultimately show "uint (fst (uemul64 a b)) = uint a * uint b div 2 ^ 64"
    by (simp add: uemul64_def Let_def unsigned_ucast_eq unsigned_drop_bit_eq p take_bit_eq_mod [where 'a = int]
        drop_bit_eq_div [where 'a = int])
qed

lemma word_carry:
  fixes r y :: "'a::len word"
  shows "uint (r + y) + 2 ^ LENGTH('a) * of_bool (r + y < y) = uint r + uint y"
  using uint_bounded [of r] uint_bounded [of y] by (auto simp: word_less_def uint_plus_if')

lemma uint_low_part: "uint (x AND X64_LONG) = uint (x::u64) mod 2 ^ 32"
proof -
  have "x AND X64_LONG = take_bit 32 x" by (simp add: take_bit_eq_mask mask_eq_decr_exp)
  then show ?thesis by (simp add: unsigned_take_bit_eq take_bit_eq_mod [where 'a = int])
qed

lemma uint_high_part: "uint (drop_bit 32 x) = uint (x::u64) div 2 ^ 32"
  using uint_bounds64 [of x]
  by (simp add: unsigned_drop_bit_eq drop_bit_eq_div [where 'a = int] take_bit_int_eq_self)

lemma and_QUAD [simp]: "(x::u64) AND X64_QUAD = x"
proof -
  have "X64_QUAD = (-1 :: u64)" by simp
  then show ?thesis by (metis and.right_neutral)
qed

lemma high_AND_LONG: "drop_bit 32 (x::u64) AND X64_LONG = drop_bit 32 x"
proof -
  have "uint x div 2 ^ 32 < 2 ^ 32" using uint_bounds64 [of x] by auto
  moreover have "0 \<le> uint x div 2 ^ 32" by (simp add: pos_imp_zdiv_nonneg_iff)
  ultimately show ?thesis by (intro word_uint_eqI) (simp add: uint_low_part uint_high_part)
qed

lemma uint_push32: "uint (push_bit 32 (x::u64)) = uint x mod 2 ^ 32 * 2 ^ 32"
  using mult_mod_left [of "uint x" "2 ^ 32" "2 ^ 32"]
  by (simp add: unsigned_push_bit_eq take_bit_push_bit take_bit_eq_mod [where 'a = int]
      push_bit_eq_mult [where 'a = int])

lemma mult_no_wrap:
  fixes x y :: u64
  assumes "uint x < 2 ^ 32" and "uint y < 2 ^ 32"
  shows "uint (x * y) = uint x * uint y"
proof -
  have "uint x * uint y < 2 ^ 32 * 2 ^ 32" using assms by (intro mult_strict_mono) auto
  then show ?thesis by (simp add: uint_word_ariths)
qed

lemma uemul64_portable_split:
  fixes a b :: u64
  defines "ah \<equiv> drop_bit 32 a" and "al \<equiv> a AND X64_LONG"
    and "bh \<equiv> drop_bit 32 b" and "bl \<equiv> b AND X64_LONG"
  shows "uint a * uint b = 2 ^ 64 * uint (ah * bh) + 2 ^ 32 * uint (ah * bl)
    + 2 ^ 32 * uint (al * bh) + uint (al * bl)"
proof -
  have lt: "uint ah < 2 ^ 32" "uint al < 2 ^ 32" "uint bh < 2 ^ 32" "uint bl < 2 ^ 32"
    using uint_bounds64 [of a] uint_bounds64 [of b]
    by (auto simp: ah_def al_def bh_def bl_def uint_low_part uint_high_part)
  have "uint a = 2 ^ 32 * uint ah + uint al" "uint b = 2 ^ 32 * uint bh + uint bl"
    by (simp_all add: ah_def al_def bh_def bl_def uint_low_part uint_high_part)
  then show ?thesis using lt by (simp add: mult_no_wrap algebra_simps)
qed

text \<open>The schoolbook sum, with the two carries put where they belong.\<close>

lemma schoolbook_carries:
  fixes P Q :: int
  assumes "l1 + 2 ^ 64 * c1 = lo + P mod 2 ^ 32 * 2 ^ 32" and "l2 + 2 ^ 64 * c2 = l1 + Q mod 2 ^ 32 * 2 ^ 32"
  shows "2 ^ 64 * hh + 2 ^ 32 * P + 2 ^ 32 * Q + lo =
    2 ^ 64 * (hh + P div 2 ^ 32 + Q div 2 ^ 32 + c1 + c2) + l2"
proof -
  obtain p1 p0 q1 q0 where "P div 2 ^ 32 = p1" "P mod 2 ^ 32 = p0" "Q div 2 ^ 32 = q1" "Q mod 2 ^ 32 = q0"
    by blast
  moreover have "P = 2 ^ 32 * (P div 2 ^ 32) + P mod 2 ^ 32" "Q = 2 ^ 32 * (Q div 2 ^ 32) + Q mod 2 ^ 32"
    by simp_all
  ultimately show ?thesis using assms by (simp only:) (simp add: algebra_simps)
qed

text \<open>
  C36. The portable 64 by 64 bit multiplication, from four 32-bit partial products with two carry
  corrections, computes the same high and low halves as the 128-bit multiplication of the
  builds that have one, for all operands.
\<close>

theorem uemul64_portable_eq: "uemul64_portable a b = uemul64 a b"
proof -
  define ah al bh bl where "ah = drop_bit 32 a" and "al = a AND X64_LONG"
    and "bh = drop_bit 32 b" and "bl = b AND X64_LONG"
  define m1 m2 where "m1 = push_bit 32 (ah * bl)" and "m2 = push_bit 32 (al * bh)"
  define l1 l2 where "l1 = al * bl + m1" and "l2 = l1 + m2"
  define h where "h = ah * bh + drop_bit 32 (ah * bl) + drop_bit 32 (al * bh)"
  define h' where "h' = (let r = (if l1 < m1 then h + 1 else h) in if l2 < m2 then r + 1 else r)"
  have port: "uemul64_portable a b = (h', l2)"
    by (simp add: uemul64_portable_def Let_def h'_def h_def l2_def l1_def m1_def m2_def
        ah_def al_def bh_def bl_def high_AND_LONG)
  define H where "H = uint (ah * bh) + uint (ah * bl) div 2 ^ 32 + uint (al * bh) div 2 ^ 32
    + of_bool (l1 < m1) + of_bool (l2 < m2)"
  have "uint l1 + 2 ^ 64 * of_bool (l1 < m1) = uint (al * bl) + uint (ah * bl) mod 2 ^ 32 * 2 ^ 32"
    "uint l2 + 2 ^ 64 * of_bool (l2 < m2) = uint l1 + uint (al * bh) mod 2 ^ 32 * 2 ^ 32"
    using word_carry [of "al * bl" m1] word_carry [of l1 m2]
    by (simp_all add: l1_def l2_def m1_def m2_def uint_push32)
  from schoolbook_carries [OF this, of "uint (ah * bh)"]
  have "uint a * uint b = 2 ^ 64 * H + uint l2"
    using uemul64_portable_split [of a b]
    unfolding ah_def [symmetric] al_def [symmetric] bh_def [symmetric] bl_def [symmetric] H_def
    by simp
  then have q: "H = uint a * uint b div 2 ^ 64" "uint l2 = uint a * uint b mod 2 ^ 64"
    using uint_bounds64 [of l2] by (simp_all)
  have div32: "word_of_int (uint x div 4294967296) = drop_bit 32 x" for x :: u64
    using arg_cong [OF uint_high_part [of x], of "word_of_int :: int \<Rightarrow> u64"] by simp
  have "h' = word_of_int H"
    unfolding h'_def H_def h_def Let_def by (simp add: div32)
  then have "uint h' = H"
    using q(1) uemul64_halves(1) [of a b] by (metis word_of_int_uint)
  then have "uint h' = uint (fst (uemul64 a b))" "uint l2 = uint (snd (uemul64 a b))"
    using q uemul64_halves [of a b] by simp_all
  then show ?thesis unfolding port by (metis prod.collapse word_uint_eqI)
qed

lemma X64_QUAD_m1: "X64_QUAD = -1"
  by simp

lemma q_getsign_iff: "q_getsign x \<longleftrightarrow> bit x 63"
  by (simp add: q_getsign_def and_one_eq bit_iff_odd_drop_bit odd_iff_mod_2_eq_one)

lemma sint_uint64: "sint (x::u64) = uint x - 2 ^ 64 * of_bool (bit x 63)"
proof -
  have "sint x = signed_take_bit 63 (uint x)" by (simp add: sint_uint)
  then show ?thesis using uint_bounds64 [of x]
    by (simp add: signed_take_bit_eq_take_bit_minus bit_uint_iff take_bit_int_eq_self)
qed

text \<open>The high half, corrected for the operands' signs, is the signed product's high half.\<close>

lemma signed_product_split:
  fixes a b :: u64
  defines "t \<equiv> fst (uemul64 a b) - (if bit a 63 then b else 0) - (if bit b 63 then a else 0)"
  shows "sint a * sint b = 2 ^ 64 * sint t + uint (snd (uemul64 a b))"
proof -
  define T where "T = uint (fst (uemul64 a b)) - of_bool (bit a 63) * uint b
    - of_bool (bit b 63) * uint a + 2 ^ 64 * of_bool (bit a 63 \<and> bit b 63)"
  have prod: "uint a * uint b = 2 ^ 64 * uint (fst (uemul64 a b)) + uint (snd (uemul64 a b))"
    by (simp add: uemul64_halves)
  then have P: "sint a * sint b = 2 ^ 64 * T + uint (snd (uemul64 a b))"
    by (simp add: sint_uint64 T_def algebra_simps)
  have "\<bar>sint a\<bar> \<le> 2 ^ 63" "\<bar>sint b\<bar> \<le> 2 ^ 63"
    using fits_sint [of a] fits_sint [of b] by (auto simp: fits_def)
  then have "\<bar>sint a * sint b\<bar> \<le> 2 ^ 63 * 2 ^ 63"
    unfolding abs_mult by (intro mult_mono) auto
  then have "2 ^ 64 * T + uint (snd (uemul64 a b)) \<le> 2 ^ 126"
    "- (2 ^ 126) \<le> 2 ^ 64 * T + uint (snd (uemul64 a b))"
    unfolding P abs_le_iff by simp_all
  moreover have "0 \<le> uint (snd (uemul64 a b))" "uint (snd (uemul64 a b)) < 2 ^ 64"
    using uint_bounds64 [of "snd (uemul64 a b)"] by simp_all
  ultimately have "- (2 ^ 63) \<le> T" "T < 2 ^ 63"
    by (simp_all, linarith+)
  moreover have "t = word_of_int T"
    by (simp add: t_def T_def)
  ultimately have "sint t = T"
    by (simp add: sint_sbintrunc' signed_take_bit_int_eq_self_iff)
  then show ?thesis using P by simp
qed

lemma MULQ_V_overflow: "snd (do_MULQ_V a b) \<longleftrightarrow> \<not> fits TYPE(64) (sint a * sint b)"
proof -
  let ?lo = "snd (uemul64 a b)"
  define t where "t = fst (uemul64 a b) - (if bit a 63 then b else 0) - (if bit b 63 then a else 0)"
  have P: "sint a * sint b = 2 ^ 64 * sint t + uint ?lo"
    unfolding t_def by (rule signed_product_split)
  have lo: "bit ?lo 63 \<longleftrightarrow> 2 ^ 63 \<le> uint ?lo"
    using sint_uint64 [of ?lo] fits_sint [of ?lo] uint_bounds64 [of ?lo]
    by (cases "bit ?lo 63") (auto simp: fits_def)
  have m1: "t = -1 \<longleftrightarrow> sint t = -1" by (metis signed_word_eqI sint_n1)
  have z: "t = 0 \<longleftrightarrow> sint t = 0" by (metis signed_word_eqI sint_0)
  have "snd (do_MULQ_V a b) \<longleftrightarrow> (if bit ?lo 63 then t \<noteq> -1 else t \<noteq> 0)"
    by (simp add: do_MULQ_V_def Let_def case_prod_beta q_getsign_iff t_def X64_QUAD_m1)
  also have "\<dots> \<longleftrightarrow> \<not> fits TYPE(64) (2 ^ 64 * sint t + uint ?lo)"
    using uint_bounds64 [of ?lo] uint_ge_0 [of ?lo] unfolding m1 z lo fits_def
    by (simp, linarith)
  finally show ?thesis unfolding P .
qed


section \<open>The counting loops\<close>

lemma lsb_test: "drop_bit i (x::u64) AND 1 \<noteq> 0 \<longleftrightarrow> bit x i"
  by (simp add: and_one_eq bit_iff_odd_drop_bit odd_iff_mod_2_eq_one)

lemma ctlz_loop_eq:
  assumes "m \<le> k" "\<forall>j. k - m \<le> j \<and> j < k \<longrightarrow> \<not> bit x j" "m < k \<Longrightarrow> bit x (k - 1 - m)"
  shows "ctlz_loop x k n = n + of_nat m"
  using assms
proof (induction k arbitrary: m n)
  case (Suc k)
  show ?case
  proof (cases m)
    case 0
    then show ?thesis using Suc.prems(3) by (simp add: lsb_test)
  next
    case (Suc m')
    then have "\<not> bit x k" using Suc.prems(1,2) by auto
    moreover have "ctlz_loop x k (n + 1) = n + 1 + of_nat m'"
      using Suc Suc.prems by (intro Suc.IH) auto
    ultimately show ?thesis using Suc by (simp add: lsb_test)
  qed
qed simp

lemma cttz_loop_eq:
  assumes "k \<le> 64" "m \<le> k" "\<forall>j. 64 - k \<le> j \<and> j < 64 - k + m \<longrightarrow> \<not> bit x j"
    "m < k \<Longrightarrow> bit x (64 - k + m)"
  shows "cttz_loop x k n = n + of_nat m"
  using assms
proof (induction k arbitrary: m n)
  case (Suc k)
  show ?case
  proof (cases m)
    case 0
    then show ?thesis using Suc.prems by (simp add: lsb_test)
  next
    case (Suc m')
    then have "\<not> bit x (63 - k)" using Suc.prems(1,3) by auto
    moreover have "64 - k = Suc (63 - k)" "64 - Suc k = 63 - k" using Suc.prems(1) by arith+
    then have "cttz_loop x k (n + 1) = n + 1 + of_nat m'"
      using Suc Suc.prems by (intro Suc.IH) auto
    ultimately show ?thesis using Suc by (simp add: lsb_test)
  qed
qed simp

lemma ctpop_fold:
  "foldl (\<lambda>n i. if drop_bit i b AND 1 \<noteq> 0 then n + 1 else n) (0::u64) [0..<k]
     = of_nat (card {i. i < k \<and> bit (b::u64) i})"
proof (induction k)
  case (Suc k)
  have "{i. i < Suc k \<and> bit b i} = (if bit b k then insert k {i. i < k \<and> bit b i} else {i. i < k \<and> bit b i})"
    by (auto simp: less_Suc_eq)
  then show ?case using Suc by (simp add: lsb_test)
qed simp

text \<open>
  CTPOP counts the set bits; CTLZ is the number of clear bits above the highest set one, CTTZ
  below the lowest set one, and both are 64 for zero.
\<close>

theorem count_instructions:
  "unat (do_CTPOP b) = card {i. bit b i} \<and>
   unat (do_CTLZ b) = (LEAST m. m = 64 \<or> bit b (63 - m)) \<and>
   unat (do_CTTZ b) = (LEAST m. m = 64 \<or> bit b m)"
proof (intro conjI)
  have "card {i. bit b i} \<le> card {..<64::nat}"
    by (intro card_mono) (auto dest: bit_imp_le_length)
  moreover have "{i. i < 64 \<and> bit b i} = {i. bit b i}" by (auto dest: bit_imp_le_length)
  ultimately show "unat (do_CTPOP b) = card {i. bit b i}"
    by (simp add: do_CTPOP_def ctpop_fold unat_of_nat)
next
  let ?P = "\<lambda>m. m = 64 \<or> bit b (63 - m)"
  define m where "m = (LEAST m. ?P m)"
  have P: "?P m" unfolding m_def by (rule LeastI) blast
  have le: "m \<le> 64" unfolding m_def by (rule Least_le) blast
  have min: "\<not> bit b (63 - j)" if "j < m" for j
    using not_less_Least [of j ?P] that by (auto simp: m_def)
  have "do_CTLZ b = 0 + of_nat m" unfolding do_CTLZ_def
  proof (rule ctlz_loop_eq)
    show "\<forall>j. 64 - m \<le> j \<and> j < 64 \<longrightarrow> \<not> bit b j"
    proof (intro allI impI)
      fix j assume j: "64 - m \<le> j \<and> j < 64"
      then have "63 - j < m" using le by arith
      from min [OF this] show "\<not> bit b j" using j by simp
    qed
  qed (use P le in auto)
  then show "unat (do_CTLZ b) = (LEAST m. ?P m)" using le by (simp add: m_def [symmetric] unat_of_nat)
next
  let ?P = "\<lambda>m. m = 64 \<or> bit b m"
  define m where "m = (LEAST m. ?P m)"
  have P: "?P m" unfolding m_def by (rule LeastI) blast
  have le: "m \<le> 64" unfolding m_def by (rule Least_le) blast
  have min: "\<not> bit b j" if "j < m" for j
    using not_less_Least [of j ?P] that by (auto simp: m_def)
  have "do_CTTZ b = 0 + of_nat m" unfolding do_CTTZ_def
    by (rule cttz_loop_eq) (use P le min in auto)
  then show "unat (do_CTTZ b) = (LEAST m. ?P m)" using le by (simp add: m_def [symmetric] unat_of_nat)
qed

end
