(* ===== verification/Alpha_Bytes.thy ===== *)
theory Alpha_Bytes
  imports Alpha_Integer
begin

text \<open>
  The byte instructions of \<^verbatim>\<open>cpu_bwx.hpp\<close> as operations on the eight bytes of a
  quadword, and what the extract, insert and mask instructions are for: with the
  \<open>LDQ_U\<close>/\<open>STQ_U\<close> addresses they read and write a quadword at any byte address of a
  little-endian memory.
\<close>

section \<open>A quadword as eight bytes\<close>

definition byte_of :: "u64 \<Rightarrow> nat \<Rightarrow> u8" where
  "byte_of x i = ucast (drop_bit (8 * i) x)"

named_theorems byte_simps \<open>the bytes of the results of the byte instructions\<close>

lemma bit_byte_of: "bit (byte_of x i) n \<longleftrightarrow> n < 8 \<and> bit x (8 * i + n)"
  by (simp add: byte_of_def bit_simps)

lemma bit_via_byte: "n < 64 \<Longrightarrow> bit x n \<longleftrightarrow> bit (byte_of x (n div 8)) (n mod 8)"
  by (simp add: bit_byte_of)

lemma byte_of_eqI: "(\<And>i. i < 8 \<Longrightarrow> byte_of x i = byte_of y i) \<Longrightarrow> x = y"
  by (rule bit_word_eqI) (simp add: bit_via_byte)

lemma byte_of_high [simp]: "8 \<le> i \<Longrightarrow> byte_of x i = 0"
  by (rule bit_word_eqI) (auto simp: bit_byte_of dest: bit_imp_le_length)

lemma byte_of_OR [byte_simps]: "byte_of (x OR y) i = byte_of x i OR byte_of y i"
  and byte_of_AND [byte_simps]: "byte_of (x AND y) i = byte_of x i AND byte_of y i"
  and byte_of_0 [byte_simps]: "byte_of 0 i = 0"
  by (rule bit_word_eqI; simp add: bit_byte_of bit_simps)+

lemma byte_of_NOT [byte_simps]: "byte_of (NOT y) i = (if i < 8 then NOT (byte_of y i) else 0)"
  by (rule bit_word_eqI) (auto simp: bit_byte_of bit_simps dest: bit_imp_le_length)

lemma byte_of_drop [byte_simps]: "8 dvd s \<Longrightarrow> byte_of (drop_bit s x) i = byte_of x (i + s div 8)"
  by (rule bit_word_eqI) (auto simp: bit_byte_of bit_simps algebra_simps)

lemma byte_of_push [byte_simps]:
  assumes "8 dvd s"
  shows "byte_of (push_bit s x) i = (if s div 8 \<le> i \<and> i < 8 then byte_of x (i - s div 8) else 0)"
proof -
  obtain k where k: "s = 8 * k" using assms by auto
  show ?thesis
  proof (rule bit_word_eqI)
    fix n assume "n < LENGTH(8)"
    moreover have "8 * i + n - 8 * k = 8 * (i - k) + n" if "k \<le> i"
      using that by (simp add: diff_mult_distrib2)
    moreover have "8 * k \<le> 8 * i + n \<longleftrightarrow> k \<le> i" "8 * i + n < 64 \<longleftrightarrow> i < 8" if "n < 8"
      using that by arith+
    ultimately show "bit (byte_of (push_bit s x) i) n =
        bit (if s div 8 \<le> i \<and> i < 8 then byte_of x (i - s div 8) else 0) n"
      by (auto simp: k bit_byte_of bit_simps)
  qed
qed

text \<open>The masks of 1, 2, 4 and 8 bytes.\<close>

lemma byte_of_mask: "byte_of (mask (8 * w)) i = (if i < w \<and> i < 8 then - 1 else 0)"
proof (rule bit_word_eqI)
  fix n assume "n < LENGTH(8)"
  then have n: "n < 8" by simp
  have "8 * i + n < 8 * w \<longleftrightarrow> i < w" "8 * i + n < 64 \<longleftrightarrow> i < 8" using n by arith+
  then show "bit (byte_of (mask (8 * w)) i) n = bit (if i < w \<and> i < 8 then - 1 else 0 :: u8) n"
    using n by (auto simp: bit_byte_of bit_simps)
qed

lemma X64_masks: "X64_BYTE = mask (8 * 1)" "X64_WORD = mask (8 * 2)" "X64_LONG = mask (8 * 4)" "X64_QUAD = mask (8 * 8)"
  by (simp_all add: mask_eq_exp_minus_1)

section \<open>Byte memory\<close>

type_synonym bytes = "u64 \<Rightarrow> u8"

definition quad :: "bytes \<Rightarrow> u64 \<Rightarrow> u64" where
  "quad m a = foldr (\<lambda>i x. push_bit (8 * i) (ucast (m (a + of_nat i))) OR x) [0, 1, 2, 3, 4, 5, 6, 7] 0"

definition put_bytes :: "nat \<Rightarrow> bytes \<Rightarrow> u64 \<Rightarrow> u64 \<Rightarrow> bytes" where
  "put_bytes n m a v =
     (\<lambda>p. if unat (p - a) < n then byte_of v (unat (p - a)) else m p)"

lemma byte_of_ucast [byte_simps]: "byte_of (ucast (b :: u8)) i = (if i = 0 then b else 0)"
  by (rule bit_word_eqI) (auto simp: bit_byte_of bit_simps dest: bit_imp_le_length)

lemma byte_of_quad [byte_simps]: "byte_of (quad m a) i = (if i < 8 then m (a + of_nat i) else 0)"
proof (cases "i < 8")
  case True
  then have "i \<in> {0, 1, 2, 3, 4, 5, 6, 7}" by auto
  then show ?thesis
    unfolding quad_def by (auto simp: byte_simps)
qed simp

lemma unat_take_bit_3: "unat (take_bit 3 (va::u64)) = unat va mod 8"
  by (simp add: take_bit_eq_mod unat_mod)

lemma and_7_mod: "unat ((va::u64) AND 7) = unat va mod 8"
proof -
  have "va AND 7 = take_bit 3 va" by (simp add: take_bit_eq_mask mask_eq_exp_minus_1)
  then show ?thesis by (simp add: unat_take_bit_3)
qed

lemma and_m8: "(va::u64) AND - 8 = va - of_nat (unat va mod 8)"
proof -
  have "(- 8 :: u64) = NOT (mask 3)" by (simp add: mask_eq_exp_minus_1)
  then have m8: "bit (- 8 :: u64) n \<longleftrightarrow> n < 64 \<and> 3 \<le> n" for n
    by (simp only: bit_not_iff bit_mask_iff) auto
  have "va AND - 8 = push_bit 3 (drop_bit 3 va)"
  proof (rule bit_word_eqI)
    fix n assume "n < LENGTH(64)"
    then show "bit (va AND - 8) n = bit (push_bit 3 (drop_bit 3 va)) n"
      by (simp only: bit_and_iff m8 bit_push_bit_iff bit_drop_bit_eq) auto
  qed
  moreover have "take_bit 3 va = of_nat (unat va mod 8)"
    using arg_cong [OF unat_take_bit_3 [of va], of "of_nat :: nat \<Rightarrow> u64"] by simp
  ultimately show ?thesis using bits_ident [of 3 va] by (metis add_diff_cancel_right')
qed

lemma address_split:
  obtains k where "k < 8" "va = (va AND - 8) + of_nat k" "unat ((va::u64) AND 7) = k"
    "(va + 7) AND - 8 = (if k = 0 then va else (va AND - 8) + 8)"
proof (rule that)
  let ?k = "unat va mod 8"
  show "?k < 8" by simp
  show "va = (va AND - 8) + of_nat ?k" by (simp add: and_m8)
  show "unat (va AND 7) = ?k" by (rule and_7_mod)
  show "(va + 7) AND - 8 = (if ?k = 0 then va else (va AND - 8) + 8)"
  proof -
    have "unat (va + 7) mod 8 = (unat va + 7) mod 8"
      by (simp add: unat_word_ariths mod_mod_cancel)
    also have "\<dots> = (if ?k = 0 then 7 else ?k - 1)" by presburger
    finally have "unat (va + 7) mod 8 = (if ?k = 0 then 7 else ?k - 1)" .
    then show ?thesis by (simp add: and_m8 of_nat_diff)
  qed
qed



abbreviation lane :: "u64 \<Rightarrow> nat" where "lane va \<equiv> unat (va AND 7)"

lemma lane_less [simp]: "lane va < 8"
  by (simp add: and_7_mod)

lemma and_7_eq_0 [simp]: "(va::u64) AND 7 = 0 \<longleftrightarrow> lane va = 0"
  by (simp add: unat_eq_0)

lemma byte_sh_lane: "8 dvd byte_sh va" "byte_sh va div 8 = lane va"
  by (simp_all add: byte_sh_def)

lemma high_sh_lane: "8 dvd high_sh va" "high_sh va div 8 = (8 - lane va) mod 8"
proof -
  have "\<forall>k<8::nat. (64 - k * 8) mod 64 = 8 * ((8 - k) mod 8)" unfolding all_less_8 by simp
  then have "high_sh va = 8 * ((8 - lane va) mod 8)"
    unfolding high_sh_def byte_sh_def using lane_less by blast
  then show "8 dvd high_sh va" "high_sh va div 8 = (8 - lane va) mod 8" by simp_all
qed

lemmas byte_masks = byte_of_mask [of 1, folded X64_masks, simplified] byte_of_mask [of 2, folded X64_masks, simplified]
  byte_of_mask [of 4, folded X64_masks] byte_of_mask [of 8, folded X64_masks]

lemmas ext_ins_defs = do_EXTBL_def do_EXTWL_def do_EXTLL_def do_EXTQL_def do_EXTWH_def do_EXTLH_def
  do_EXTQH_def do_INSBL_def do_INSWL_def do_INSLL_def do_INSQL_def do_INSWH_def do_INSLH_def
  do_INSQH_def do_MSKBL_def do_MSKWL_def do_MSKLL_def do_MSKQL_def do_MSKWH_def do_MSKLH_def do_MSKQH_def

lemma bytes_EXTQL [byte_simps]: "byte_of (do_EXTQL x va) i = byte_of x (i + lane va)"
  by (simp add: ext_ins_defs byte_simps byte_sh_lane byte_masks)

lemma bytes_EXTLL [byte_simps]: "byte_of (do_EXTLL x va) i = (if i < 4 then byte_of x (i + lane va) else 0)"
  by (simp add: ext_ins_defs byte_simps byte_sh_lane byte_masks)

lemma bytes_EXTQH [byte_simps]:
  "byte_of (do_EXTQH x va) i =
     (if lane va = 0 then byte_of x i
      else if 8 \<le> i + lane va \<and> i < 8 then byte_of x (i - (8 - lane va)) else 0)"
  using lane_less [of va]
  by (auto simp add: ext_ins_defs byte_simps high_sh_lane byte_masks)

lemma bytes_EXTLH [byte_simps]:
  "byte_of (do_EXTLH x va) i =
     (if i < 4 then if lane va = 0 then byte_of x i
      else if 8 \<le> i + lane va then byte_of x (i - (8 - lane va)) else 0 else 0)"
  using lane_less [of va]
  by (auto simp add: ext_ins_defs byte_simps high_sh_lane byte_masks)

lemma bytes_INSQL [byte_simps]:
  "byte_of (do_INSQL x va) i = (if lane va \<le> i \<and> i < 8 then byte_of x (i - lane va) else 0)"
  by (simp add: ext_ins_defs byte_simps byte_sh_lane byte_masks)

lemma bytes_INSLL [byte_simps]:
  "byte_of (do_INSLL x va) i =
     (if lane va \<le> i \<and> i < 8 \<and> i - lane va < 4 then byte_of x (i - lane va) else 0)"
  by (simp add: ext_ins_defs byte_simps byte_sh_lane byte_masks)

lemma bytes_INSQH [byte_simps]:
  "byte_of (do_INSQH x va) i = (if i < lane va then byte_of x (i + (8 - lane va)) else 0)"
  using lane_less [of va]
  by (auto simp add: ext_ins_defs byte_simps high_sh_lane byte_masks)

lemma bytes_INSLH [byte_simps]:
  "byte_of (do_INSLH x va) i =
     (if i < lane va \<and> i + (8 - lane va) < 4 then byte_of x (i + (8 - lane va)) else 0)"
  using lane_less [of va]
  by (auto simp add: ext_ins_defs byte_simps high_sh_lane byte_masks)

lemma bytes_MSKQL [byte_simps]:
  "byte_of (do_MSKQL x va) i = (if lane va \<le> i then 0 else byte_of x i)"
  using lane_less [of va]
  by (auto simp add: ext_ins_defs byte_simps byte_sh_lane byte_masks)

lemma bytes_MSKLL [byte_simps]:
  "byte_of (do_MSKLL x va) i = (if lane va \<le> i \<and> i - lane va < 4 then 0 else byte_of x i)"
  using lane_less [of va]
  by (auto simp add: ext_ins_defs byte_simps byte_sh_lane byte_masks)

lemma bytes_MSKQH [byte_simps]:
  "byte_of (do_MSKQH x va) i = (if i < lane va then 0 else byte_of x i)"
  using lane_less [of va]
  by (auto simp add: ext_ins_defs byte_simps high_sh_lane byte_masks)

lemma bytes_MSKLH [byte_simps]:
  "byte_of (do_MSKLH x va) i = (if i < lane va \<and> i + (8 - lane va) < 4 then 0 else byte_of x i)"
  using lane_less [of va]
  by (auto simp add: ext_ins_defs byte_simps high_sh_lane byte_masks)

text \<open>
  C37. The load sequence for a quadword at any byte address: EXTQL of the aligned quadword that
  holds the address (LDQ_U) combined with EXTQH of the one that holds the last byte is the
  little-endian quadword at that address, for every alignment and across the address wrap.
\<close>

theorem unaligned_load_quad:
  "do_EXTQL (quad m (va AND NOT 7)) va OR do_EXTQH (quad m ((va + 7) AND NOT 7)) va = quad m va"
proof (rule address_split [of va])
  fix k assume k: "k < 8" "va = (va AND - 8) + of_nat k" "unat (va AND 7) = k"
    "(va + 7) AND - 8 = (if k = 0 then va else (va AND - 8) + 8)"
  define b where "b = va AND - 8"
  show ?thesis
  proof (rule byte_of_eqI)
    fix i :: nat assume i: "i < 8"
    have "b + of_nat (i + k) = va + of_nat i" using k(2) by (simp add: b_def [symmetric])
    moreover have "b + 8 + of_nat (i - (8 - k)) = va + of_nat i" if "8 \<le> i + k"
      using k(1,2) that i by (simp add: b_def [symmetric] of_nat_diff)
    moreover have "i + k - 8 < 8" using i k(1) by arith
    ultimately show "byte_of (do_EXTQL (quad m (va AND NOT 7)) va OR
        do_EXTQH (quad m ((va + 7) AND NOT 7)) va) i = byte_of (quad m va) i"
      using i k(1,3,4) lane_less [of va] by (auto simp: byte_simps b_def [symmetric] less_imp_diff_less simp del: of_nat_add)
  qed
qed


lemma unat_minus_small:
  "c \<le> 8 \<Longrightarrow> unat ((x::u64) - of_nat c) = (if c \<le> unat x then unat x - c else 2 ^ 64 + unat x - c)"
proof -
  assume c: "c \<le> 8"
  then have "unat (of_nat c :: u64) = c" by (simp add: unat_of_nat)
  moreover have "unat x < 2 ^ 64" using unsigned_less [of x] by simp
  ultimately show ?thesis using c
    by (auto simp: unat_sub_if' )
qed

text \<open>
  C38. The store sequence for a quadword at any byte address: MSKQH/INSQH into the upper aligned
  quadword and MSKQL/INSQL into the lower one, stored with STQ_U in this order, changes exactly
  the eight bytes from the address on, and to the bytes of the value.
\<close>

theorem unaligned_store_quad:
  "put_bytes 8
     (put_bytes 8 m ((va + 7) AND NOT 7)
        (do_MSKQH (quad m ((va + 7) AND NOT 7)) va OR do_INSQH v va))
     (va AND NOT 7) (do_MSKQL (quad m (va AND NOT 7)) va OR do_INSQL v va)
   = put_bytes 8 m va v"
proof (rule address_split [of va])
  fix k assume k: "k < 8" "va = (va AND - 8) + of_nat k" "unat (va AND 7) = k"
    "(va + 7) AND - 8 = (if k = 0 then va else (va AND - 8) + 8)"
  define b where "b = va AND - 8"
  show ?thesis
  proof (rule ext)
    fix p
    define d where "d = unat (p - b)"
    have va: "p - va = (p - b) - of_nat k" "(p - (b + 8)) = (p - b) - of_nat 8" 
      using k(2) by (simp_all add: b_def [symmetric])
    have bd: "b + of_nat d = p" by (simp add: d_def)
    have hd: "b + 8 + of_nat (d - 8) = p" if "8 \<le> d" using that bd by (simp add: of_nat_diff)
    have d: "d < 2 ^ 64" using unsigned_less [of "p - b"] by (simp add: d_def)
    have u: "unat (p - va) = (if k \<le> d then d - k else 2 ^ 64 + d - k)"
      "unat (p - (b + 8)) = (if 8 \<le> d then d - 8 else 2 ^ 64 + d - 8)"
      unfolding va using k(1) unat_minus_small [of k "p - b"] unat_minus_small [of 8 "p - b"] by (simp_all add: d_def)
    show "put_bytes 8
     (put_bytes 8 m ((va + 7) AND NOT 7)
        (do_MSKQH (quad m ((va + 7) AND NOT 7)) va OR do_INSQH v va))
     (va AND NOT 7) (do_MSKQL (quad m (va AND NOT 7)) va OR do_INSQL v va) p = put_bytes 8 m va v p"
    proof (cases "k = 0")
      case True
      then have "va AND - 8 = va" using k(2) by simp
      then show ?thesis using True k(3,4) by (auto simp: put_bytes_def byte_simps)
    next
      case False
      consider "d < k" | "k \<le> d" "d < 8" | "8 \<le> d" by linarith
      then show ?thesis
      proof cases
        case 1
        then have "\<not> 2 ^ 64 + d - k < 8" using k(1) by simp
        with 1 show ?thesis using k(1,3,4) d u bd False
          by (simp add: put_bytes_def byte_simps b_def [symmetric] d_def [symmetric])
      next
        case 2
        then have "d - k < 8" by simp
        with 2 show ?thesis using k(1,3,4) d u bd False
          by (simp add: put_bytes_def byte_simps b_def [symmetric] d_def [symmetric])
      next
        case 3
        then have "d - k < 8 \<longleftrightarrow> d - 8 < k" using k(1) by arith
        with 3 show ?thesis using k(1,3,4) d u hd False
          by (simp add: put_bytes_def byte_simps b_def [symmetric] d_def [symmetric])
      qed
    qed
  qed
qed

section \<open>Byte masks\<close>

text \<open>The source writes the eight lanes out; lane \<open>k\<close> has value \<open>1 << k\<close> and mask \<open>0xff << 8k\<close>.\<close>

lemma lanes_written_out:
  "do_ZAP a b = a AND foldr (\<lambda>k. (OR) (zap_lane b (mask1 k) (push_bit (8 * k) X64_BYTE))) [0, 1, 2, 3, 4, 5, 6, 7] 0"
  "do_ZAPNOT a b = a AND foldr (\<lambda>k. (OR) (zapnot_lane b (mask1 k) (push_bit (8 * k) X64_BYTE))) [0, 1, 2, 3, 4, 5, 6, 7] 0"
  "do_CMPBGE a b = foldr (\<lambda>k. (OR) (cmp_lane a b (8 * k) (mask1 k))) [0, 1, 2, 3, 4, 5, 6, 7] 0"
  by (simp_all add: do_ZAP_def do_ZAPNOT_def do_CMPBGE_def mask1_def)

lemma up_to_8: "set [0, 1, 2, 3, 4, 5, 6, 7] = {..<8::nat}"
  by auto

lemma bit_OR_foldr:
  "bit (foldr (\<lambda>k. (OR) (f k)) ks (0::'a::len word)) n \<longleftrightarrow> (\<exists>k\<in>set ks. bit (f k) n)"
  by (induction ks) (auto simp: bit_simps)

lemma bit_X64_BYTE: "bit X64_BYTE j \<longleftrightarrow> j < 8"
  by (simp only: X64_masks(1) bit_mask_iff) auto

lemma bit_lane_mask: "k < 8 \<Longrightarrow> bit (push_bit (8 * k) X64_BYTE) n \<longleftrightarrow> n div 8 = k"
  by (simp only: bit_push_bit_iff bit_X64_BYTE) (auto; arith)

lemma bit_ZAP: "bit (do_ZAP a b) n \<longleftrightarrow> bit a n \<and> \<not> bit b (n div 8)"
proof -
  have "bit (zap_lane b (mask1 k) (push_bit (8 * k) X64_BYTE)) n \<longleftrightarrow> k = n div 8 \<and> \<not> bit b k"
    if "k < 8" for k
    using bit_lane_mask [OF that] by (auto simp only: zap_lane_def and_mask1_eq_0 bit_0_eq bot_apply bot_bool_def split: if_splits)
  then have "bit (do_ZAP a b) n \<longleftrightarrow> bit a n \<and> (\<exists>k<8. k = n div 8 \<and> \<not> bit b k)"
    unfolding lanes_written_out bit_and_iff bit_OR_foldr up_to_8 by auto
  then show ?thesis by (auto dest: bit_imp_le_length)
qed

lemma bit_ZAPNOT: "bit (do_ZAPNOT a b) n \<longleftrightarrow> bit a n \<and> bit b (n div 8)"
proof -
  have "bit (zapnot_lane b (mask1 k) (push_bit (8 * k) X64_BYTE)) n \<longleftrightarrow> k = n div 8 \<and> bit b k"
    if "k < 8" for k
    using bit_lane_mask [OF that] by (auto simp only: zapnot_lane_def and_mask1_eq_0 bit_0_eq bot_apply bot_bool_def split: if_splits)
  then have "bit (do_ZAPNOT a b) n \<longleftrightarrow> bit a n \<and> (\<exists>k<8. k = n div 8 \<and> bit b k)"
    unfolding lanes_written_out bit_and_iff bit_OR_foldr up_to_8 by auto
  then show ?thesis by (auto dest: bit_imp_le_length)
qed

lemma bytes_ZAP [byte_simps]: "byte_of (do_ZAP a b) i = (if bit b i then 0 else byte_of a i)"
  by (rule bit_word_eqI) (auto simp: bit_byte_of bit_ZAP)

lemma bytes_ZAPNOT [byte_simps]: "byte_of (do_ZAPNOT a b) i = (if bit b i then byte_of a i else 0)"
  by (rule bit_word_eqI) (auto simp: bit_byte_of bit_ZAPNOT)

lemma bit_CMPBGE: "bit (do_CMPBGE a b) n \<longleftrightarrow> n < 8 \<and> byte_of b n \<le> byte_of a n"
proof -
  have byte: "(ucast (drop_bit (8 * k) x AND 0xff) :: u8) = byte_of x k" for x k
    by (rule bit_word_eqI) (simp add: bit_byte_of bit_ucast_iff bit_and_iff bit_X64_BYTE bit_drop_bit_eq del: bit_numeral_word_iff)
  show ?thesis
    unfolding lanes_written_out bit_OR_foldr up_to_8 cmp_lane_def byte
    by (auto simp: bit_mask1)
qed


text \<open>
  CMPBGE makes the byte mask that ZAP takes: zapping a register with it clears exactly the bytes
  in which the first operand is not below the second (unsigned).
\<close>

theorem cmpbge_zap:
  "byte_of (do_ZAP c (do_CMPBGE a b)) i =
     (if i < 8 \<and> byte_of b i \<le> byte_of a i then 0 else byte_of c i) \<and>
   byte_of (do_ZAPNOT c (do_CMPBGE a b)) i =
     (if i < 8 \<and> byte_of b i \<le> byte_of a i then byte_of c i else 0)"
  by (simp add: byte_simps bit_CMPBGE)

end
