(* ===== verification/Ev8_Simd.thy ===== *)
theory Ev8_Simd
  imports Alpha_Bytes
begin

text \<open>
  The 21464's short-vector instructions under opcode 1C: \<^verbatim>\<open>src/src/cpu/Ev8Simd.cpp\<close>,
  one definition per function of the file. An \<open>s64\<close> is an \<open>int\<close> here; the theory shows
  that every value it takes in the file is in the range of an \<open>s64\<close> (\<open>el_range\<close> and
  \<open>tree_sum_range\<close>), so that no operation on it overflows. The results are then
  stated lane by lane: element \<open>i\<close> of a result is the saturated (clamped, shifted,
  permuted) value of the elements \<open>i\<close> of the operands.
\<close>

section \<open>The routines of \<open>Ev8Simd.cpp\<close>\<close>

record Shape =
  sh_w :: nat
  sh_signed :: bool

definition zz :: "u32 \<Rightarrow> Shape" where
  "zz f = \<lparr>sh_w = (if f AND 1 \<noteq> 0 then 16 else 8), sh_signed = (f AND 2 \<noteq> 0)\<rparr>"

definition l2 :: "u32 \<Rightarrow> Shape" where
  "l2 f = \<lparr>sh_w = 32, sh_signed = (f AND 2 \<noteq> 0)\<rparr>"

definition mask_of :: "nat \<Rightarrow> u64" where
  "mask_of w = (if w = 64 then NOT 0 else push_bit w 1 - 1)"

definition el :: "u64 \<Rightarrow> nat \<Rightarrow> nat \<Rightarrow> bool \<Rightarrow> int" where
  "el x w i sg =
     (let v = drop_bit (w * i) x AND mask_of w
      in if sg \<and> drop_bit (w - 1) v \<noteq> 0 then sint (v OR NOT (mask_of w)) else sint v)"

definition sat :: "int \<Rightarrow> nat \<Rightarrow> bool \<Rightarrow> int" where
  "sat v w sg =
     (let lo = (if sg then - (2 ^ (w - 1)) else 0);
          hi = (if sg then 2 ^ (w - 1) - 1 else 2 ^ w - 1)
      in if v < lo then lo else if v > hi then hi else v)"

definition put :: "u64 \<Rightarrow> int \<Rightarrow> nat \<Rightarrow> nat \<Rightarrow> u64" where
  "put r v w i = r OR push_bit (w * i) (word_of_int v AND mask_of w)"

definition vaddsub :: "u64 \<Rightarrow> u64 \<Rightarrow> Shape \<Rightarrow> bool \<Rightarrow> u64" where
  "vaddsub a b s sub =
     foldl (\<lambda>r i. let x = el a (sh_w s) i (sh_signed s); y = el b (sh_w s) i (sh_signed s)
                  in put r (sat (if sub then x - y else x + y) (sh_w s) (sh_signed s)) (sh_w s) i)
       0 [0..<64 div sh_w s]"

definition vminmax :: "u64 \<Rightarrow> u64 \<Rightarrow> Shape \<Rightarrow> u64" where
  "vminmax a b s =
     (let (mn, mx) = foldl (\<lambda>(mn, mx) i. let x = el a (sh_w s) i (sh_signed s)
             in (if x < mn then x else mn, if x > mx then x else mx))
           (el b (sh_w s) 0 (sh_signed s), el (drop_bit 32 b) (sh_w s) 0 (sh_signed s))
           [0..<64 div sh_w s]
      in (word_of_int mn AND 0xffffffff) OR push_bit 32 (word_of_int mx))"

text \<open>One term of the tree adder's sum, and the sum.\<close>

definition tree_term :: "u32 \<Rightarrow> int \<Rightarrow> int \<Rightarrow> int" where
  "tree_term op x y =
     (if op = 0x10 then x + y
      else if op = 0x11 then x - y
      else if op = 0x12 then if x > y then x - y else y - x
      else if op = 0x13 then (x - y) * (x - y)
      else x * y)"

definition tree_sum :: "u32 \<Rightarrow> u64 \<Rightarrow> u64 \<Rightarrow> int" where
  "tree_sum f a b =
     (let s = zz f; op = drop_bit 2 f AND 0x1f
      in foldl (\<lambda>sum i.
           let (sa, sb) = (if op = 0x15 then (False, True) else (sh_signed s, sh_signed s))
           in sum + tree_term op (el a (sh_w s) i sa) (el b (sh_w s) i sb))
         0 [0..<64 div sh_w s])"

definition tree :: "u32 \<Rightarrow> u64 \<Rightarrow> u64 \<Rightarrow> u64" where
  "tree f a b = word_of_int (tree_sum f a b)"

definition shift_w :: "u32 \<Rightarrow> nat" where
  "shift_w f = (if f \<in> {0x60, 0x62, 0x68} then 8 else if f \<in> {0x61, 0x63, 0x69} then 16 else 32)"

text \<open>\<open>(s64)((u64)x << n)\<close> on the left, an arithmetic shift of an \<open>s64\<close> on the right.\<close>

definition shift :: "u32 \<Rightarrow> u64 \<Rightarrow> u64 \<Rightarrow> u64" where
  "shift f a b =
     (let w = shift_w f; n = unat (b AND of_nat (w - 1));
          left = (f \<ge> 0x68); arith = (f \<in> {0x62, 0x63, 0x66})
      in foldl (\<lambda>r i. let x = el a w i arith
             in put r (if left then sint (push_bit n (word_of_int x :: u64)) else x div 2 ^ n) w i)
           0 [0..<64 div w])"

definition permb8_byte :: "u64 \<Rightarrow> u64 \<Rightarrow> nat \<Rightarrow> u64 \<Rightarrow> u64" where
  "permb8_byte a b i prev =
     (let s = unat (drop_bit (4 * i) b AND 0xf)
      in if s \<le> 7 then drop_bit (8 * s) a AND 0xff
         else if s \<le> 11 then drop_bit (8 * (s - 4)) b AND 0xff
         else if s = 12 then if i \<noteq> 0 \<and> prev AND 0x80 \<noteq> 0 then 0xff else 0
         else if s = 14 then 0xff
         else 0)"

definition permb8 :: "u64 \<Rightarrow> u64 \<Rightarrow> u64" where
  "permb8 a b =
     fst (foldl (\<lambda>(r, prev) i. let v = permb8_byte a b i prev in (r OR push_bit (8 * i) v, v))
       (0, 0) [0..<8])"

definition assigned :: "u32 \<Rightarrow> bool" where
  "assigned f \<longleftrightarrow>
     f \<in> {0x04, 0x05, 0x08, 0x09, 0x14, 0x16, 0x1c, 0x1e, 0x24, 0x26, 0x54, 0x55, 0x59, 0x5b,
           0x60, 0x61, 0x62, 0x63, 0x64, 0x66, 0x68, 0x69, 0x6c} \<or>
     (f \<ge> 0x10 \<and> f \<le> 0x13) \<or> (f \<ge> 0x18 \<and> f \<le> 0x1b) \<or> (f \<ge> 0x20 \<and> f \<le> 0x23) \<or>
     (f \<ge> 0x28 \<and> f \<le> 0x2f) \<or> (f \<ge> 0x40 \<and> f \<le> 0x53)"

text \<open>The cases of \<open>exec\<close>'s switch.\<close>

definition exec_CMPWGE :: "u64 \<Rightarrow> u64 \<Rightarrow> u64" where
  "exec_CMPWGE a b =
     foldl (\<lambda>r i. if el a 16 i False \<ge> el b 16 i False then r OR push_bit (2 * i) 3 else r) 0 [0..<4]"

definition exec_CMPLGE :: "u64 \<Rightarrow> u64 \<Rightarrow> u64" where
  "exec_CMPLGE a b =
     foldl (\<lambda>r i. if el a 32 i False \<ge> el b 32 i False then r OR push_bit (4 * i) 0xf else r) 0 [0..<2]"

definition exec_GPKBLB4 :: "u64 \<Rightarrow> u64 \<Rightarrow> u64" where
  "exec_GPKBLB4 a b =
     (let v = [el a 32 0 True, el a 32 1 True, el b 32 0 True, el b 32 1 True]
      in foldl (\<lambda>r i. put r (if v ! i < 0 then 0 else if v ! i > 255 then 255 else v ! i) 8 i) 0 [0..<4])"

definition exec_pack :: "u32 \<Rightarrow> u64 \<Rightarrow> u64 \<Rightarrow> u64" where
  "exec_pack f a b =
     (let w = (if f AND 1 \<noteq> 0 then 32 else 16); sg = (f AND 2 \<noteq> 0); n = 64 div w
      in foldl (\<lambda>r i. put (put r (sat (el a w i sg) (w div 2) sg) (w div 2) i)
             (sat (el b w i sg) (w div 2) sg) (w div 2) (n + i)) 0 [0..<n])"

definition exec_unpack :: "u32 \<Rightarrow> u64 \<Rightarrow> u64" where
  "exec_unpack f b =
     (let w = (if f AND 1 \<noteq> 0 then 16 else 8); sg = (f AND 2 \<noteq> 0)
      in foldl (\<lambda>r i. put r (el b w i sg) (2 * w) i) 0 [0..<32 div w])"

definition exec_VMULUW4 :: "u32 \<Rightarrow> u64 \<Rightarrow> u64 \<Rightarrow> u64" where
  "exec_VMULUW4 f a b =
     (let sh = (if f = 0x5b then 16 else 0)
      in foldl (\<lambda>r i. put r (sint (drop_bit sh (word_of_int (el a 16 i False * el b 16 i False) :: u64))) 16 i)
           0 [0..<4])"

definition exec :: "u32 \<Rightarrow> u64 \<Rightarrow> u64 \<Rightarrow> u64" where
  "exec f a b =
     (if f = 0x04 then exec_CMPWGE a b
      else if f = 0x05 then exec_CMPLGE a b
      else if f = 0x08 then permb8 a b
      else if f = 0x09 then exec_GPKBLB4 a b
      else if f \<in> {0x28, 0x29, 0x2a, 0x2b} then exec_pack f a b
      else if f \<in> {0x2c, 0x2d, 0x2e, 0x2f} then exec_unpack f b
      else if f \<in> {0x59, 0x5b} then exec_VMULUW4 f a b
      else if f \<in> {0x14, 0x16} then vaddsub a b (l2 f) False
      else if f \<in> {0x1c, 0x1e} then vaddsub a b (l2 f) True
      else if f \<in> {0x24, 0x26} then vminmax a b (l2 f)
      else if f \<ge> 0x10 \<and> f \<le> 0x13 then vaddsub a b (zz f) False
      else if f \<ge> 0x18 \<and> f \<le> 0x1b then vaddsub a b (zz f) True
      else if f \<ge> 0x20 \<and> f \<le> 0x23 then vminmax a b (zz f)
      else if f \<ge> 0x40 \<and> f \<le> 0x55 then tree f a b
      else shift f a b)"

section \<open>Elements\<close>

lemma mask_of_mask: "mask_of w = mask w"
  by (auto simp: mask_of_def mask_eq_exp_minus_1 push_bit_eq_mult)

lemma bit_field: "bit (drop_bit k x AND mask_of w) n \<longleftrightarrow> n < w \<and> bit x (k + n)"
  unfolding mask_of_mask by (auto simp: bit_simps dest: bit_imp_le_length)

lemma uint_field: "uint (drop_bit k (x::u64) AND mask_of w) = take_bit w (drop_bit k (uint x))"
proof (rule bit_eqI)
  fix n
  show "bit (uint (drop_bit k x AND mask_of w)) n = bit (take_bit w (drop_bit k (uint x))) n"
    unfolding bit_uint_iff bit_field by (auto simp: bit_simps dest: bit_imp_le_length)
qed

text \<open>An element is the field, read unsigned or as a two's-complement number.\<close>

lemma el_unsigned:
  assumes "w < 64"
  shows "el x w i False = take_bit w (drop_bit (w * i) (uint x))"
proof -
  define u where "u = take_bit w (drop_bit (w * i) (uint x))"
  have "0 \<le> u" "u < 2 ^ w" by (simp_all add: u_def)
  moreover have "(2::int) ^ w \<le> 2 ^ 63" using assms by (intro power_increasing) auto
  ultimately have "- (2 ^ 63) \<le> u" "u < 2 ^ 63" by auto
  then have "signed_take_bit 63 u = u" by (simp add: signed_take_bit_int_eq_self_iff)
  then show ?thesis by (simp add: el_def Let_def sint_uint uint_field u_def)
qed

lemma el_signed:
  assumes "0 < w" "w < 64"
  shows "el x w i True = signed_take_bit (w - 1) (drop_bit (w * i) (uint x))"
proof -
  define v where "v = drop_bit (w * i) x AND mask_of w"
  have bv: "bit v n \<longleftrightarrow> n < w \<and> bit x (w * i + n)" for n unfolding v_def by (rule bit_field)
  have "n = 0" if "bit v (w - 1 + n)" for n using that assms(1) unfolding bv by arith
  then have top: "drop_bit (w - 1) v \<noteq> 0 \<longleftrightarrow> bit v (w - 1)"
    unfolding word_eq_0_bits bit_drop_bit_eq o_def by (metis add.right_neutral bit_imp_le_length bv len_gt_0)
  have "bit (el x w i True) n = bit (signed_take_bit (w - 1) (drop_bit (w * i) (uint x))) n" for n
  proof -
    consider "n < w - 1" | "n = w - 1" | "w \<le> n" by linarith
    then show ?thesis using assms unfolding el_def Let_def v_def [symmetric] top
      by cases (auto simp: bit_sint_iff bit_or_iff bit_not_iff mask_of_mask bit_mask_iff bv
        bit_drop_bit_eq bit_signed_take_bit_iff bit_uint_iff min_def dest: bit_imp_le_length)
  qed
  then show ?thesis by (intro bit_eqI) blast
qed


text \<open>The range of an element of width \<open>w\<close>.\<close>

definition in_range :: "nat \<Rightarrow> bool \<Rightarrow> int \<Rightarrow> bool" where
  "in_range w sg v \<longleftrightarrow>
     (if sg then - (2 ^ (w - 1)) \<le> v \<and> v < 2 ^ (w - 1) else 0 \<le> v \<and> v < 2 ^ w)"

lemma el_range: "0 < w \<Longrightarrow> w < 64 \<Longrightarrow> in_range w sg (el x w i sg)"
  by (cases sg) (simp_all add: in_range_def el_unsigned el_signed)

lemma sat_range: "0 < w \<Longrightarrow> in_range w sg (sat v w sg)"
  by (simp add: in_range_def sat_def Let_def)

lemma sat_id: "in_range w sg v \<Longrightarrow> sat v w sg = v"
  by (auto simp: in_range_def sat_def Let_def split: if_splits)

text \<open>Saturation answers the closest value of the range.\<close>

lemma sat_closest: "in_range w sg u \<Longrightarrow> \<bar>sat v w sg - v\<bar> \<le> \<bar>u - v\<bar>"
  by (auto simp: in_range_def sat_def Let_def split: if_splits)

section \<open>Lanes\<close>

text \<open>A loop that puts \<open>v i\<close> into element \<open>i\<close> of a register that starts at zero.\<close>

lemma bit_put: "bit (put r v w i) n \<longleftrightarrow> bit r n \<or> (n < 64 \<and> w * i \<le> n \<and> n - w * i < w \<and> bit v (n - w * i))"
  unfolding put_def mask_of_mask by (auto simp: bit_simps)

lemma bit_put_loop:
  assumes "0 < w" "w * m \<le> 64"
  shows "bit (foldl (\<lambda>r i. put r (v i) w i) 0 [0..<m]) n \<longleftrightarrow> n < w * m \<and> bit (v (n div w)) (n mod w)"
  using assms
proof (induction m)
  case (Suc m)
  have "n < w * Suc m \<longleftrightarrow> n < w * m \<or> (w * m \<le> n \<and> n - w * m < w)" by auto
  moreover have "n div w = m \<and> n mod w = n - w * m" if "w * m \<le> n" "n - w * m < w"
  proof -
    from that have "n = w * m + (n - w * m)" by simp
    then show ?thesis using that(2) by (metis add.right_neutral div_less div_mult_self2 mod_less mod_mult_self2 add.commute assms(1) bot_nat_0.not_eq_extremum)
  qed
  ultimately show ?case using Suc by (auto simp: bit_put)
qed simp

lemma el_put_loop:
  assumes "0 < w" "w < 64" "w * m \<le> 64" "i < m" "in_range w sg (v i)"
  shows "el (foldl (\<lambda>r i. put r (v i) w i) 0 [0..<m]) w i sg = v i"
proof -
  let ?x = "foldl (\<lambda>r i. put r (v i) w i) 0 [0..<m]"
  have "w * Suc i \<le> w * m" using assms(4) by (intro mult_le_mono2) simp
  then have b: "bit (drop_bit (w * i) (uint ?x)) n \<longleftrightarrow> bit (v i) n" if "n < w" for n
    using that assms(1,3) by (simp add: bit_drop_bit_eq bit_uint_iff bit_put_loop)
  show ?thesis
  proof (cases sg)
    case False
    have "take_bit w (drop_bit (w * i) (uint ?x)) = take_bit w (v i)"
      by (rule bit_eqI) (auto simp: bit_take_bit_iff b)
    then show ?thesis using assms False by (simp add: el_unsigned in_range_def take_bit_int_eq_self)
  next
    case True
    have "signed_take_bit (w - 1) (drop_bit (w * i) (uint ?x)) = signed_take_bit (w - 1) (v i)"
      by (rule bit_eqI) (use assms(1) in \<open>auto simp: bit_signed_take_bit_iff min_def b\<close>)
    then show ?thesis using assms True by (simp add: el_signed in_range_def signed_take_bit_int_eq_self)
  qed
qed


lemma vaddsub_lane:
  assumes "sh_w s \<in> {8, 16, 32}" "i < 64 div sh_w s"
  shows "el (vaddsub a b s sub) (sh_w s) i (sh_signed s) =
    sat (if sub then el a (sh_w s) i (sh_signed s) - el b (sh_w s) i (sh_signed s)
         else el a (sh_w s) i (sh_signed s) + el b (sh_w s) i (sh_signed s)) (sh_w s) (sh_signed s)"
  unfolding vaddsub_def Let_def using assms
  by (intro el_put_loop [where v = "\<lambda>i. sat (if sub
      then el a (sh_w s) i (sh_signed s) - el b (sh_w s) i (sh_signed s)
      else el a (sh_w s) i (sh_signed s) + el b (sh_w s) i (sh_signed s)) (sh_w s) (sh_signed s)"]
    sat_range) auto

text \<open>
  C39. VADD and VSUB saturate: in every lane of the result, for bytes, words and longwords,
  signed and unsigned, the element is in the range of the shape, is the exact sum (difference)
  of the operands' elements when that is in range, and is otherwise the value of the range
  closest to it.
\<close>

theorem simd_add_saturates:
  assumes "sh_w s \<in> {8, 16, 32}" and "i < 64 div sh_w s"
  shows "let w = sh_w s; sg = sh_signed s;
      exact = (if sub then el a w i sg - el b w i sg else el a w i sg + el b w i sg);
      r = el (vaddsub a b s sub) w i sg
    in in_range w sg r \<and> (in_range w sg exact \<longrightarrow> r = exact)
      \<and> (\<forall>u. in_range w sg u \<longrightarrow> \<bar>r - exact\<bar> \<le> \<bar>u - exact\<bar>)"
proof -
  have "0 < sh_w s" using assms(1) by auto
  then show ?thesis
    unfolding Let_def vaddsub_lane [OF assms] by (blast intro: sat_range sat_id sat_closest)
qed

theorem simd_add_saturates_witness:
  "sh_w (zz 0x12) \<in> {8, 16, 32} \<and> 0 < 64 div sh_w (zz 0x12) \<and>
   el (vaddsub 0x7f 1 (zz 0x12) False) 8 0 True = 127"
proof -
  have shape: "zz 0x12 = \<lparr>sh_w = 8, sh_signed = True\<rparr>" by (simp add: zz_def)
  have "el 0x7f 8 0 True = 127" "el 1 8 0 True = 1" by (simp_all add: el_def mask_of_def)
  then have "in_range 8 True (el (vaddsub 0x7f 1 (zz 0x12) False) 8 0 True) \<and>
      \<bar>el (vaddsub 0x7f 1 (zz 0x12) False) 8 0 True - 128\<bar> \<le> \<bar>127 - 128\<bar>"
    using simd_add_saturates [of "zz 0x12" 0 False "0x7f" 1]
    unfolding shape Let_def by (auto simp: in_range_def)
  then show ?thesis unfolding shape by (auto simp: in_range_def)
qed

section \<open>The tree adder\<close>

lemma el_abs_bound:
  assumes "w \<in> {8, 16}" shows "\<bar>el x w i sg\<bar> \<le> 2 ^ 16"
proof -
  have "in_range w sg (el x w i sg)" using assms by (intro el_range) auto
  then show ?thesis using assms by (auto simp: in_range_def split: if_splits)
qed

lemma square_bound: "\<bar>x\<bar> \<le> (c::int) \<Longrightarrow> \<bar>y\<bar> \<le> c \<Longrightarrow> \<bar>x * y\<bar> \<le> c * c"
  unfolding abs_mult by (intro mult_mono) auto

lemma tree_term_bound:
  assumes "\<bar>x\<bar> \<le> 2 ^ 16" "\<bar>y\<bar> \<le> 2 ^ 16" shows "\<bar>tree_term op x y\<bar> \<le> 2 ^ 34"
proof -
  have "\<bar>x - y\<bar> \<le> 2 ^ 17" using assms by auto
  then have "\<bar>(x - y) * (x - y)\<bar> \<le> 2 ^ 17 * 2 ^ 17" by (intro square_bound)
  moreover have "\<bar>x * y\<bar> \<le> 2 ^ 16 * 2 ^ 16" using assms by (intro square_bound)
  ultimately show ?thesis using assms by (auto simp: tree_term_def)
qed

lemma foldl_sum_bound:
  fixes t :: "nat \<Rightarrow> int"
  assumes "\<And>i. \<bar>t i\<bar> \<le> c"
  shows "\<bar>foldl (\<lambda>s i. s + t i) 0 [0..<n]\<bar> \<le> int n * c"
proof (induction n)
  case (Suc n)
  then show ?case using assms [of n] by (simp add: algebra_simps)
qed simp

lemma zz_w: "sh_w (zz f) \<in> {8, 16}"
  by (simp add: zz_def)

lemma tree_sum_range: "\<bar>tree_sum f a b\<bar> \<le> 2 ^ 37"
proof -
  let ?w = "sh_w (zz f)" and ?op = "drop_bit 2 f AND 0x1f :: u32"
  define t where "t i = (let (sa, sb) = (if ?op = 0x15 then (False, True) else (sh_signed (zz f), sh_signed (zz f)))
    in tree_term ?op (el a ?w i sa) (el b ?w i sb))" for i
  have "\<bar>t i\<bar> \<le> 2 ^ 34" for i
    unfolding t_def Let_def case_prod_beta using zz_w by (intro tree_term_bound el_abs_bound)
  then have "\<bar>foldl (\<lambda>s i. s + t i) 0 [0..<64 div ?w]\<bar> \<le> int (64 div ?w) * 2 ^ 34"
    by (rule foldl_sum_bound)
  also have "\<dots> \<le> 2 ^ 37" using zz_w [of f] by auto
  finally show ?thesis by (simp add: tree_sum_def t_def Let_def case_prod_beta)
qed

text \<open>
  The tree adder's result is exact: the eight byte or four word terms, products and squares
  included, never leave the range of the 64-bit accumulator, so the register read as a signed
  integer is the mathematical sum.
\<close>

theorem tree_sum_exact: "sint (tree f a b) = tree_sum f a b"
proof -
  have "- (2 ^ 63) \<le> tree_sum f a b \<and> tree_sum f a b < 2 ^ 63" using tree_sum_range [of f a b] by auto
  then show ?thesis by (simp add: tree_def sint_sbintrunc' signed_take_bit_int_eq_self_iff)
qed

section \<open>Packing\<close>

lemma bit_put_pair_loop:
  assumes "0 < w" "w * (2 * m) \<le> 64" "k \<le> m"
  shows "bit (foldl (\<lambda>r i. put (put r (u i) w i) (v i) w (m + i)) 0 [0..<k]) n \<longleftrightarrow>
    (n div w < k \<and> bit (u (n div w)) (n mod w)) \<or>
    (m \<le> n div w \<and> n div w < m + k \<and> bit (v (n div w - m)) (n mod w))"
  using assms(3)
proof (induction k)
  case (Suc k)
  have lane: "n < 64 \<and> w * j \<le> n \<and> n - w * j < w \<and> P (n - w * j) \<longleftrightarrow> n div w = j \<and> P (n mod w)"
    if "j < 2 * m" for j P
  proof -
    have "n div w = j \<longleftrightarrow> w * j \<le> n \<and> n - w * j < w"
      using assms(1) by (metis div_nat_eqI div_mult_self1_is_m dividend_less_times_div less_diff_conv2 mult_Suc_right add.commute times_div_less_eq_dividend)
    moreover have "w * Suc j \<le> 64"
      using that assms(2) by (meson Suc_leI le_trans mult_le_mono2)
    moreover have "n < w * Suc (n div w)" using assms(1) dividend_less_times_div [of w n] by simp
    ultimately show ?thesis by (auto simp: minus_mult_div_eq_mod)
  qed
  show ?case using Suc by (auto simp: bit_put lane less_Suc_eq)
qed simp


lemma unpack_lane:
  assumes "w \<in> {8, 16}" "i < 32 div w"
  shows "el (foldl (\<lambda>r i. put r (el b w i sg) (2 * w) i) 0 [0..<32 div w]) (2 * w) i sg = el b w i sg"
proof -
  have "in_range w sg (el b w i sg)" using assms(1) by (intro el_range) auto
  then have "in_range (2 * w) sg (el b w i sg)" using assms(1) by (auto simp: in_range_def split: if_splits)
  then show ?thesis using assms by (intro el_put_loop) auto
qed

lemma bit_el: "0 < w \<Longrightarrow> w < 64 \<Longrightarrow> n < w \<Longrightarrow> w * i + n < 64 \<Longrightarrow> bit (el x w i sg) n \<longleftrightarrow> bit x (w * i + n)"
  by (cases "n = w - 1"; cases sg) (auto simp: el_unsigned el_signed bit_simps bit_uint_iff)

text \<open>
  C40. Packing undoes unpacking: widening the low and the high half of a register
  (UPKUBW4, UPKUWL2, UPKSBW4, UPKSWL2) and packing the two results with the matching pack
  (PKUWB8, PKULW4, PKSWB8, PKSLW4) gives the register back.
\<close>

theorem pack_unpack_roundtrip:
  assumes "f \<in> {0x2c, 0x2d, 0x2e, 0x2f}"
  shows "exec (f - 4) (exec f 0 b) (exec f 0 (drop_bit 32 b)) = b"
proof -
  define w where "w = (if f AND 1 \<noteq> 0 then 16 else 8 :: nat)"
  define sg where "sg = (f AND 2 \<noteq> 0)"
  define U where "U x = foldl (\<lambda>r i. put r (el x w i sg) (2 * w) i) 0 [0..<32 div w]" for x
  have w: "w \<in> {8, 16}" by (simp add: w_def)
  have "exec f 0 x = U x" for x
    using assms by (auto simp: exec_def exec_unpack_def Let_def U_def w_def sg_def)
  moreover have "exec (f - 4) x y = foldl (\<lambda>r i. put (put r (sat (el x (2 * w) i sg) w sg) w i)
             (sat (el y (2 * w) i sg) w sg) w (32 div w + i)) 0 [0..<32 div w]" for x y
    using assms by (auto simp: exec_def exec_pack_def Let_def w_def sg_def)
  ultimately have e: "exec (f - 4) (exec f 0 b) (exec f 0 (drop_bit 32 b)) =
    foldl (\<lambda>r i. put (put r (sat (el (U b) (2 * w) i sg) w sg) w i)
       (sat (el (U (drop_bit 32 b)) (2 * w) i sg) w sg) w (32 div w + i)) 0 [0..<32 div w]" by simp
  have lane: "sat (el (U x) (2 * w) i sg) w sg = el x w i sg" if "i < 32 div w" for x i
    using unpack_lane [OF w that] sat_id el_range w unfolding U_def by auto
  show ?thesis unfolding e
  proof (rule bit_word_eqI)
    fix n assume "n < LENGTH(64)"
    then have n: "n < 64" by simp
    have w8: "0 < w" "w * (2 * (32 div w)) \<le> 64" "w < 64" using w by auto
    have d: "n div w < 64 div w" "w * (n div w) + n mod w = n" "n mod w < w" using n w by auto
    have h: "32 + (w * (n div w - 32 div w) + n mod w) = n" if "32 div w \<le> n div w" 
      using that w n d by (auto simp: diff_mult_distrib2)
    show "bit (foldl (\<lambda>r i. put (put r (sat (el (U b) (2 * w) i sg) w sg) w i)
       (sat (el (U (drop_bit 32 b)) (2 * w) i sg) w sg) w (32 div w + i)) 0 [0..<32 div w]) n = bit b n"
    proof (cases "n div w < 32 div w")
      case True
      then show ?thesis using w8 d n by (subst bit_put_pair_loop) (simp_all add: lane bit_el)
    next
      case False
      then have "n div w - 32 div w < 32 div w" "n div w < 32 div w + 32 div w" using d w by auto
      then show ?thesis using False w8 d h n
        by (subst bit_put_pair_loop) (simp_all add: lane bit_el bit_drop_bit_eq)
    qed
  qed
qed

theorem pack_unpack_roundtrip_witness:
  "(0x2e::u32) \<in> {0x2c, 0x2d, 0x2e, 0x2f} \<and>
   exec (0x2e - 4) (exec 0x2e 0 0x80ff7f0001fe) (exec 0x2e 0 (drop_bit 32 0x80ff7f0001fe)) = 0x80ff7f0001fe"
  using pack_unpack_roundtrip [of "0x2e" "0x80ff7f0001fe"] by simp

section \<open>Compare\<close>

lemma bit_OR_loop:
  "bit (foldl (\<lambda>r i. if P i then r OR f i else r) (0::'a::len word) xs) n \<longleftrightarrow> (\<exists>i\<in>set xs. P i \<and> bit (f i) n)"
  by (induction xs rule: rev_induct) (auto simp: bit_or_iff)

lemma bit_CMPWGE: "bit (exec 0x04 a b) n \<longleftrightarrow> n < 8 \<and> el b 16 (n div 2) False \<le> el a 16 (n div 2) False"
proof -
  have three: "bit (push_bit (2 * i) (3::u64)) n \<longleftrightarrow> n div 2 = i" if "i < 4" for i
  proof -
    have "(3::u64) = mask 2" by (simp add: mask_eq_exp_minus_1)
    then show ?thesis using that by (simp only: bit_push_bit_iff bit_mask_iff) auto
  qed
  have "bit (exec 0x04 a b) n \<longleftrightarrow> (\<exists>i<4. el b 16 i False \<le> el a 16 i False \<and> n div 2 = i)"
    by (simp only: exec_def exec_CMPWGE_def if_True simp_thms bit_OR_loop)
      (use three in auto)
  moreover have "n < 8 \<longleftrightarrow> n div 2 < 4" by auto
  ultimately show ?thesis by auto
qed

text \<open>
  CMPWGE's result is a byte mask for the core's ZAPNOT: masking a register with it keeps the
  words in which the first operand is not below the second (unsigned), whole, and clears the
  others.
\<close>

theorem word_compare_selects:
  assumes "i < 4"
  shows "el (do_ZAPNOT c (exec 0x04 a b)) 16 i False =
    (if el b 16 i False \<le> el a 16 i False then el c 16 i False else 0)"
proof -
  have d: "(16 * i + n) div 8 = 2 * i + n div 8" "(2 * i + n div 8) div 2 = i \<and> 2 * i + n div 8 < 8" if "n < 16" for n
    using that assms by auto
  have "bit (drop_bit (16 * i) (do_ZAPNOT c (exec 0x04 a b))) n \<longleftrightarrow>
     bit (drop_bit (16 * i) c) n \<and> el b 16 i False \<le> el a 16 i False" if "n < 16" for n
    using d [OF that] by (simp add: bit_drop_bit_eq bit_ZAPNOT bit_CMPWGE)
  then have "take_bit 16 (drop_bit (16 * i) (uint (do_ZAPNOT c (exec 0x04 a b)))) =
    (if el b 16 i False \<le> el a 16 i False then take_bit 16 (drop_bit (16 * i) (uint c)) else 0)"
    by (intro bit_eqI) (auto simp: bit_simps bit_uint_iff)
  then show ?thesis by (simp add: el_unsigned [symmetric])
qed

theorem word_compare_selects_witness:
  "(1::nat) < 4 \<and> el (do_ZAPNOT 0x1122334455667788 (exec 0x04 0x50000 0x40009)) 16 1 False = 0x5566
     \<and> el (do_ZAPNOT 0x1122334455667788 (exec 0x04 0x50000 0x40009)) 16 0 False = 0"
  using word_compare_selects [of 1 "0x1122334455667788" "0x50000" "0x40009"]
    word_compare_selects [of 0 "0x1122334455667788" "0x50000" "0x40009"]
  by (simp add: el_def mask_of_def)

section \<open>Permute\<close>

definition selector :: "u64 \<Rightarrow> nat \<Rightarrow> nat" where
  "selector b i = unat (drop_bit (4 * i) b AND 0xf)"

definition perm_spec :: "u64 \<Rightarrow> u64 \<Rightarrow> nat \<Rightarrow> u8 \<Rightarrow> u8" where
  "perm_spec a b i prev =
     (let s = selector b i
      in if s \<le> 7 then byte_of a s else if s \<le> 11 then byte_of b (s - 4)
         else if s = 12 then if i \<noteq> 0 \<and> bit prev 7 then - 1 else 0
         else if s = 14 then - 1 else 0)"

lemma and_ff_byte: "drop_bit (8 * s) x AND X64_BYTE = ucast (byte_of x s)"
  by (rule bit_word_eqI) (auto simp: bit_and_iff bit_drop_bit_eq bit_X64_BYTE bit_ucast_iff bit_byte_of simp del: bit_numeral_word_iff)

lemma permb8_byte_spec: "permb8_byte a b i (ucast prev) = ucast (perm_spec a b i prev)"
proof -
  have "(ucast prev AND 0x80 :: u64) \<noteq> 0 \<longleftrightarrow> bit prev 7"
    using and_mask1_eq_0 [of "ucast prev :: u64" 7] by (simp add: mask1_def bit_simps)
  moreover have "(ucast (- 1 :: u8) :: u64) = 0xff" by (simp add: unsigned_minus_1_eq_mask mask_eq_exp_minus_1)
  ultimately show ?thesis
    by (simp add: permb8_byte_def perm_spec_def selector_def Let_def and_ff_byte)
qed

definition prev_byte :: "u64 \<Rightarrow> nat \<Rightarrow> u8" where
  "prev_byte r i = (if i = 0 then 0 else byte_of r (i - 1))"

lemma permb8_loop:
  assumes "k \<le> 8"
  shows "\<exists>r. foldl (\<lambda>(r, prev) i. let v = permb8_byte a b i prev in (r OR push_bit (8 * i) v, v)) (0, 0) [0..<k] =
     (r, ucast (prev_byte r k)) \<and> (\<forall>i<k. byte_of r i = perm_spec a b i (prev_byte r i)) \<and> (\<forall>i\<ge>k. byte_of r i = 0)"
  using assms
proof (induction k)
  case (Suc k)
  then obtain r where r: "foldl (\<lambda>(r, prev) i. let v = permb8_byte a b i prev in (r OR push_bit (8 * i) v, v)) (0, 0) [0..<k]
      = (r, ucast (prev_byte r k))"
    "\<forall>i<k. byte_of r i = perm_spec a b i (prev_byte r i)" "\<forall>i\<ge>k. byte_of r i = 0" by auto
  define v where "v = perm_spec a b k (prev_byte r k)"
  define r' where "r' = r OR push_bit (8 * k) (ucast v)"
  have b: "byte_of r' i = (if i = k then v else byte_of r i)" for i
    using r(3) Suc.prems by (auto simp: r'_def byte_simps)
  then have p: "prev_byte r' i = prev_byte r i" if "i \<le> k" for i using that by (auto simp: prev_byte_def)
  have "foldl (\<lambda>(r, prev) i. let v = permb8_byte a b i prev in (r OR push_bit (8 * i) v, v)) (0, 0) [0..<Suc k]
      = (r', ucast (prev_byte r' (Suc k)))"
  proof -
    have "prev_byte r' (Suc k) = v" by (simp add: prev_byte_def b)
    then show ?thesis
      using r(1) by (simp add: permb8_byte_spec Let_def v_def [symmetric] r'_def [symmetric])
  qed
  moreover have "\<forall>i<Suc k. byte_of r' i = perm_spec a b i (prev_byte r' i)"
    using r(2) by (auto simp: b p v_def less_Suc_eq)
  moreover have "\<forall>i\<ge>Suc k. byte_of r' i = 0" using r(3) by (auto simp: b)
  ultimately show ?case by blast
qed (simp add: prev_byte_def byte_simps)

theorem permb8_bytes: "\<forall>i<8. byte_of (exec 0x08 a b) i = perm_spec a b i (prev_byte (exec 0x08 a b) i)"
  using permb8_loop [of 8 a b] by (auto simp: exec_def permb8_def)


section \<open>The function codes\<close>

text \<open>The codes of the set do not collide with the core's own codes under opcode 1C.\<close>

lemma assigned_not_core:
  "f \<in> {0x00, 0x01, 0x70, 0x78} \<or> (0x30 \<le> f \<and> f \<le> 0x3f) \<Longrightarrow> \<not> assigned f"
  by (auto simp: assigned_def word_le_nat_alt)

end
