(* ===== verification/Alpha_TB.thy ===== *)
theory Alpha_TB
  imports Axp_Prelude
begin

text \<open>
  The translation buffers of the processor: \<open>CAlphaCPU::FindTBEntry\<close>, the refill from the
  shadow, \<open>add_tb\<close> and the invalidations of \<^verbatim>\<open>src/src/cpu/AlphaCPU.cpp\<close>, with the 8-way
  index of \<^verbatim>\<open>AlphaCPU.hpp\<close> that makes a lookup two probes instead of a scan. The data page
  cache is not modelled here: what is asked of it is kept as the list of flush requests
  (\<open>tb_flushes\<close>). The rows other than the native EV8 are modelled (\<open>m_ev8n\<close> is false).
\<close>

section \<open>State\<close>

record STBEntry =
  tb_virt :: u64
  tb_phys :: u64
  tb_match_mask :: u64
  tb_keep_mask :: u64
  tb_asn :: int
  tb_asm_bit :: bool
  tb_access :: "nat \<Rightarrow> nat \<Rightarrow> bool"
  tb_fault :: "nat \<Rightarrow> bool"
  tb_valid :: bool

datatype dpc_flush = Flush_all | Flush_range u64 u64

text \<open>\<open>asn\<close>, \<open>asn0\<close>, \<open>asn1\<close> are the address space numbers of PCTX and DTB_ASN0/1.\<close>

record tbs =
  tb_entry :: "nat \<Rightarrow> nat \<Rightarrow> STBEntry"
  tb_next :: "nat \<Rightarrow> nat"
  tb_last :: "nat \<Rightarrow> nat \<Rightarrow> nat"
  tb_idx :: "nat \<Rightarrow> nat \<Rightarrow> nat list"
  tb_lost :: "nat \<Rightarrow> nat \<Rightarrow> bool"
  tb_gh_live :: "nat \<Rightarrow> int"
  tb_shadow :: "nat \<Rightarrow> STBEntry"
  tb_dpc_keep :: bool
  tb_flushes :: "dpc_flush list"
  asn :: int
  asn0 :: int
  asn1 :: int

abbreviation (input) TB_ENTRIES :: nat where "TB_ENTRIES \<equiv> 128"
abbreviation (input) TB_INDEX_DATA :: nat where "TB_INDEX_DATA \<equiv> 0"
abbreviation (input) TB_INDEX_ITB :: nat where "TB_INDEX_ITB \<equiv> 1"
abbreviation (input) kTbIdxWays :: nat where "kTbIdxWays \<equiv> 8"

abbreviation (input) ACCESS_READ :: u32 where "ACCESS_READ \<equiv> 0"
abbreviation (input) ACCESS_WRITE :: u32 where "ACCESS_WRITE \<equiv> 1"
abbreviation (input) ACCESS_EXEC :: u32 where "ACCESS_EXEC \<equiv> 2"

definition tb_of :: "u32 \<Rightarrow> nat" where
  "tb_of flags = (if flags AND ACCESS_EXEC \<noteq> 0 then TB_INDEX_ITB else TB_INDEX_DATA)"

definition rw_of :: "u32 \<Rightarrow> nat" where
  "rw_of flags = (if flags AND ACCESS_WRITE \<noteq> 0 then 1 else 0)"

text \<open>The granularity hints: which bits of the address the entry matches, maps and keeps.\<close>

abbreviation (input) GH_0_MATCH :: u64 where "GH_0_MATCH \<equiv> 0x0000ffffffffe000"

definition gh_masks :: "u64 \<Rightarrow> u64 \<times> u64 \<times> u64" where
  "gh_masks pte_flags =
     (if pte_flags AND 0x60 = 0 then (0x0000ffffffffe000, 0x00000fffffffe000, 0x1fff)
      else if pte_flags AND 0x60 = 0x20 then (0x0000ffffffff0000, 0x00000fffffff0000, 0xffff)
      else if pte_flags AND 0x60 = 0x40 then (0x0000fffffff80000, 0x00000ffffff80000, 0x7ffff)
      else (0x0000ffffffc00000, 0x00000fffffc00000, 0x3fffff))"

section \<open>The index\<close>

definition tb_idx_set :: "u64 \<Rightarrow> nat" where
  "tb_idx_set virt = unat (drop_bit 13 virt AND 2047)"

text \<open>The way at which the search of \<open>tb_idx_insert\<close> stops: the slot's, an empty one, or the last.\<close>

definition way_pos :: "nat \<Rightarrow> nat list \<Rightarrow> nat" where
  "way_pos v w = length (takeWhile (\<lambda>x. x \<noteq> v \<and> x \<noteq> 0) (take (kTbIdxWays - 1) w))"

definition way_insert :: "nat \<Rightarrow> nat list \<Rightarrow> nat list" where
  "way_insert v w = v # take (way_pos v w) w @ drop (Suc (way_pos v w)) w"

definition tb_idx_insert :: "tbs \<Rightarrow> nat \<Rightarrow> u64 \<Rightarrow> nat \<Rightarrow> tbs" where
  "tb_idx_insert s t virt slot =
     (let ix = tb_idx_set virt; w = tb_idx s t ix; v = slot + 1; x = w ! way_pos v w;
          s = (if x \<noteq> v \<and> x \<noteq> 0
               then s\<lparr>tb_lost := (tb_lost s)(t := (tb_lost s t)(ix := True))\<rparr> else s)
      in s\<lparr>tb_idx := (tb_idx s)(t := (tb_idx s t)(ix := way_insert v w))\<rparr>)"

definition way_remove :: "nat \<Rightarrow> nat list \<Rightarrow> nat list" where
  "way_remove v w = (if v \<in> set w then remove1 v w @ [0] else w)"

definition tb_idx_remove :: "tbs \<Rightarrow> nat \<Rightarrow> u64 \<Rightarrow> nat \<Rightarrow> tbs" where
  "tb_idx_remove s t virt slot =
     (let ix = tb_idx_set virt
      in s\<lparr>tb_idx := (tb_idx s)(t := (tb_idx s t)(ix := way_remove (slot + 1) (tb_idx s t ix)))\<rparr>)"

definition tb_idx_8k :: "u64 \<Rightarrow> bool" where
  "tb_idx_8k match_mask \<longleftrightarrow> match_mask AND GH_0_MATCH = GH_0_MATCH"

definition tb_idx_drop :: "tbs \<Rightarrow> nat \<Rightarrow> nat \<Rightarrow> tbs" where
  "tb_idx_drop s t slot =
     (if tb_idx_8k (tb_match_mask (tb_entry s t slot))
      then tb_idx_remove s t (tb_virt (tb_entry s t slot)) slot
      else s\<lparr>tb_gh_live := (tb_gh_live s)(t := tb_gh_live s t - 1)\<rparr>)"

definition tb_idx_add :: "tbs \<Rightarrow> nat \<Rightarrow> nat \<Rightarrow> tbs" where
  "tb_idx_add s t slot =
     (if tb_idx_8k (tb_match_mask (tb_entry s t slot))
      then tb_idx_insert s t (tb_virt (tb_entry s t slot)) slot
      else s\<lparr>tb_gh_live := (tb_gh_live s)(t := tb_gh_live s t + 1)\<rparr>)"

definition tb_idx_rebuild :: "tbs \<Rightarrow> tbs" where
  "tb_idx_rebuild s =
     (let s0 = s\<lparr>tb_idx := \<lambda>_ _. replicate kTbIdxWays 0, tb_lost := \<lambda>_ _. False,
                 tb_gh_live := (tb_gh_live s)(0 := 0, 1 := 0)\<rparr>
      in foldl (\<lambda>s t. foldl (\<lambda>s i. if tb_valid (tb_entry s t i) then tb_idx_add s t i else s)
           s [0..<TB_ENTRIES]) s0 [0, 1])"

section \<open>Lookup\<close>

definition tb_shadow_index :: "u64 \<Rightarrow> nat" where
  "tb_shadow_index va = unat (drop_bit 13 va AND 4095)"

definition tb_hit :: "STBEntry \<Rightarrow> u64 \<Rightarrow> int \<Rightarrow> bool" where
  "tb_hit e virt as \<longleftrightarrow>
     tb_valid e \<and> (tb_virt e XOR virt) AND tb_match_mask e = 0 \<and> (tb_asm_bit e \<or> tb_asn e = as)"

text \<open>\<open>for (j = 0; j < TB_ENTRIES; j++) if (...) ...\<close>: the first slot that hits.\<close>

definition tb_scan :: "tbs \<Rightarrow> nat \<Rightarrow> u64 \<Rightarrow> int \<Rightarrow> nat option" where
  "tb_scan s t virt as = find (\<lambda>j. tb_hit (tb_entry s t j) virt as) [0..<TB_ENTRIES]"

definition tb_probe :: "tbs \<Rightarrow> nat \<Rightarrow> u64 \<Rightarrow> int \<Rightarrow> nat option" where
  "tb_probe s t virt as =
     find (\<lambda>i. tb_hit (tb_entry s t i) virt as)
       (map (\<lambda>v. v - 1) (takeWhile (\<lambda>v. v \<noteq> 0) (tb_idx s t (tb_idx_set virt))))"

definition set_last :: "tbs \<Rightarrow> nat \<Rightarrow> nat \<Rightarrow> nat \<Rightarrow> tbs" where
  "set_last s t rw i = s\<lparr>tb_last := (tb_last s)(t := (tb_last s t)(rw := i))\<rparr>"

definition set_entry :: "tbs \<Rightarrow> nat \<Rightarrow> nat \<Rightarrow> STBEntry \<Rightarrow> tbs" where
  "set_entry s t i e = s\<lparr>tb_entry := (tb_entry s)(t := (tb_entry s t)(i := e))\<rparr>"

definition flush_range :: "tbs \<Rightarrow> u64 \<Rightarrow> u64 \<Rightarrow> tbs" where
  "flush_range s virt mm = s\<lparr>tb_flushes := tb_flushes s @ [Flush_range virt mm]\<rparr>"

definition flush_all :: "tbs \<Rightarrow> tbs" where
  "flush_all s = s\<lparr>tb_flushes := tb_flushes s @ [Flush_all]\<rparr>"

definition same_page :: "STBEntry \<Rightarrow> STBEntry \<Rightarrow> bool" where
  "same_page e x \<longleftrightarrow>
     tb_valid x \<and> tb_match_mask x = GH_0_MATCH \<and> tb_virt x = tb_virt e \<and>
     (if tb_asm_bit x then tb_asm_bit e else \<not> tb_asm_bit e \<and> tb_asn x = tb_asn e)"

definition dtb_still_maps :: "tbs \<Rightarrow> STBEntry \<Rightarrow> bool" where
  "dtb_still_maps s e =
     (if tb_match_mask e \<noteq> GH_0_MATCH then False
      else if same_page e (tb_shadow s (tb_shadow_index (tb_virt e))) then True
      else if \<exists>v \<in> set (takeWhile (\<lambda>v. v \<noteq> 0) (tb_idx s TB_INDEX_DATA (tb_idx_set (tb_virt e)))).
                same_page e (tb_entry s TB_INDEX_DATA (v - 1)) then True
      else tb_lost s TB_INDEX_DATA (tb_idx_set (tb_virt e)) \<and>
           (\<exists>j \<in> set [0..<TB_ENTRIES]. same_page e (tb_entry s TB_INDEX_DATA j)))"

definition drop_unmapped_page :: "tbs \<Rightarrow> STBEntry \<Rightarrow> tbs" where
  "drop_unmapped_page s e =
     (if tb_valid e \<and> \<not> dtb_still_maps s e then flush_range s (tb_virt e) (tb_match_mask e) else s)"

definition next_slot :: "nat \<Rightarrow> nat" where
  "next_slot i = (if i + 1 = TB_ENTRIES then 0 else i + 1)"

definition tb_refill_from_shadow :: "tbs \<Rightarrow> u64 \<Rightarrow> int \<Rightarrow> tbs \<times> nat option" where
  "tb_refill_from_shadow s virt as =
     (let sh = tb_shadow s (tb_shadow_index virt)
      in if \<not> tb_valid sh \<or> tb_virt sh \<noteq> virt AND tb_match_mask sh \<or>
            \<not> (tb_asm_bit sh \<or> tb_asn sh = as)
         then (s, None)
         else let t = TB_INDEX_DATA; i = tb_next s t;
                  s = s\<lparr>tb_next := (tb_next s)(t := next_slot i)\<rparr>;
                  victim = tb_entry s t i;
                  s = (if tb_valid victim
                       then tb_idx_drop (if tb_dpc_keep s then s
                              else flush_range s (tb_virt victim) (tb_match_mask victim)) t i
                       else s);
                  s = tb_idx_add (set_entry s t i sh) t i;
                  s = (if tb_dpc_keep s then drop_unmapped_page s victim else s)
              in (s, Some i))"

definition FindTBEntry :: "tbs \<Rightarrow> u64 \<Rightarrow> u32 \<Rightarrow> tbs \<times> nat option" where
  "FindTBEntry s virt flags =
     (let t = tb_of flags; rw = rw_of flags;
          as = (if t = TB_INDEX_ITB then asn s else asn0 s);
          shadow = (\<lambda>s. if t = TB_INDEX_DATA
             then case tb_refill_from_shadow s virt (asn0 s) of
                 (s', Some j) \<Rightarrow> (set_last s' t rw j, Some j)
               | (s', None) \<Rightarrow> (s', None)
             else (s, None))
      in if tb_hit (tb_entry s t (tb_last s t rw)) virt as then (s, Some (tb_last s t rw))
         else if tb_gh_live s t = 0
         then case tb_probe s t virt as of
             Some i \<Rightarrow> (set_last s t rw i, Some i)
           | None \<Rightarrow>
               if tb_lost s t (tb_idx_set virt)
               then case tb_scan s t virt as of
                   Some j \<Rightarrow>
                     (set_last (tb_idx_insert s t (tb_virt (tb_entry s t j)) j) t rw j, Some j)
                 | None \<Rightarrow> shadow s
               else shadow s
         else case tb_scan s t virt as of
             Some i \<Rightarrow> (set_last s t rw i, Some i)
           | None \<Rightarrow> shadow s)"

section \<open>Fills\<close>

definition make_entry :: "u64 \<Rightarrow> u64 \<Rightarrow> u64 \<Rightarrow> int \<Rightarrow> STBEntry" where
  "make_entry virt pte_phys pte_flags as =
     (let (match_mask, phys_mask, keep_mask) = gh_masks pte_flags
      in \<lparr>tb_virt = virt AND match_mask, tb_phys = pte_phys AND phys_mask,
          tb_match_mask = match_mask, tb_keep_mask = keep_mask, tb_asn = as,
          tb_asm_bit = (pte_flags AND 0x10 \<noteq> 0),
          tb_access = (\<lambda>rw cm. pte_flags AND push_bit (4 * rw + cm) 0x100 \<noteq> 0),
          tb_fault = (\<lambda>k. pte_flags AND push_bit k 2 \<noteq> 0),
          tb_valid = True\<rparr>)"

definition add_tb :: "tbs \<Rightarrow> u64 \<Rightarrow> u64 \<Rightarrow> u64 \<Rightarrow> u32 \<Rightarrow> int \<Rightarrow> tbs" where
  "add_tb s virt pte_phys pte_flags flags as =
     (let t = tb_of flags; rw = rw_of flags;
          match_mask = fst (gh_masks pte_flags);
          (i, s) = (case tb_scan s t virt as of
              Some j \<Rightarrow> (j, s)
            | None \<Rightarrow> (tb_next s t, s\<lparr>tb_next := (tb_next s)(t := next_slot (tb_next s t))\<rparr>));
          old = tb_entry s t i;
          s = set_entry s t i (make_entry virt pte_phys pte_flags as);
          s = (if tb_valid old
               then if tb_match_mask old = GH_0_MATCH then tb_idx_remove s t (tb_virt old) i
                    else s\<lparr>tb_gh_live := (tb_gh_live s)(t := tb_gh_live s t - 1)\<rparr>
               else s);
          s = tb_idx_add s t i;
          k = tb_shadow_index virt;
          shadowed = (t = TB_INDEX_DATA \<and> match_mask = GH_0_MATCH);
          old_shadow = tb_shadow s k;
          s = (if shadowed then s\<lparr>tb_shadow := (tb_shadow s)(k := tb_entry s t i)\<rparr> else s);
          s = set_last s t rw i
      in if t = TB_INDEX_DATA
         then let s = (if tb_valid old \<and> \<not> tb_dpc_keep s
                       then flush_range s (tb_virt old) (tb_match_mask old)
                       else if tb_valid old then drop_unmapped_page s old else s);
                  s = (if tb_dpc_keep s \<and> shadowed then drop_unmapped_page s old_shadow else s)
              in flush_range s virt match_mask
         else s)"

definition add_tb_d :: "tbs \<Rightarrow> u64 \<Rightarrow> u64 \<Rightarrow> nat \<Rightarrow> tbs" where
  "add_tb_d s virt pte dtb =
     add_tb s virt (drop_bit (32 - 13) pte) pte ACCESS_READ (if dtb \<noteq> 0 then asn1 s else asn0 s)"

definition add_tb_i :: "tbs \<Rightarrow> u64 \<Rightarrow> u64 \<Rightarrow> tbs" where
  "add_tb_i s virt pte = add_tb s virt pte (pte AND 0xf70) ACCESS_EXEC (asn s)"

section \<open>Invalidations\<close>

definition invalidate :: "STBEntry \<Rightarrow> STBEntry" where
  "invalidate e = e\<lparr>tb_valid := False\<rparr>"

definition tbia :: "tbs \<Rightarrow> u32 \<Rightarrow> tbs" where
  "tbia s flags =
     (let s = (if flags AND ACCESS_EXEC = 0
               then s\<lparr>tb_shadow := (\<lambda>k. invalidate (tb_shadow s k))\<rparr> else s);
          t = tb_of flags;
          s = foldl (\<lambda>s i. set_entry s t i (invalidate (tb_entry s t i))) s [0..<TB_ENTRIES];
          s = s\<lparr>tb_idx := (tb_idx s)(t := \<lambda>_. replicate kTbIdxWays 0),
                tb_lost := (tb_lost s)(t := \<lambda>_. False),
                tb_gh_live := (tb_gh_live s)(t := 0),
                tb_last := (tb_last s)(t := (tb_last s t)(0 := 0, 1 := 0)),
                tb_next := (tb_next s)(t := 0)\<rparr>
      in if t = TB_INDEX_DATA then flush_all s else s)"

definition tb_drop_slot :: "tbs \<Rightarrow> nat \<Rightarrow> nat \<Rightarrow> tbs" where
  "tb_drop_slot s t i = tb_idx_drop (set_entry s t i (invalidate (tb_entry s t i))) t i"

definition tbiap :: "tbs \<Rightarrow> u32 \<Rightarrow> tbs" where
  "tbiap s flags =
     (let s = (if flags AND ACCESS_EXEC = 0
               then s\<lparr>tb_shadow := (\<lambda>k. if tb_asm_bit (tb_shadow s k) then tb_shadow s k
                                        else invalidate (tb_shadow s k))\<rparr> else s);
          t = tb_of flags;
          s = foldl (\<lambda>s i. if \<not> tb_asm_bit (tb_entry s t i) \<and> tb_valid (tb_entry s t i)
                           then tb_drop_slot s t i else s) s [0..<TB_ENTRIES]
      in if t = TB_INDEX_DATA then flush_all s else s)"

definition tbis_d :: "tbs \<Rightarrow> u64 \<Rightarrow> int \<Rightarrow> tbs" where
  "tbis_d s virt as =
     (let k = tb_shadow_index virt; sh = tb_shadow s k;
          s = (if tb_valid sh \<and> tb_virt sh = virt AND tb_match_mask sh \<and>
                  (tb_asm_bit sh \<or> tb_asn sh = as)
               then s\<lparr>tb_shadow := (tb_shadow s)(k := invalidate sh)\<rparr> else s);
          s = foldl (\<lambda>s i. let e = tb_entry s TB_INDEX_DATA i
                  in if tb_hit e virt as
                     then flush_range (tb_drop_slot s TB_INDEX_DATA i) (tb_virt e) (tb_match_mask e)
                     else s) s [0..<TB_ENTRIES]
      in flush_range s virt (0xfffffffffffff000 OR 0x2000))"

definition tbis :: "tbs \<Rightarrow> u64 \<Rightarrow> u32 \<Rightarrow> tbs" where
  "tbis s virt flags =
     (let k = tb_shadow_index virt; sh = tb_shadow s k;
          s = (if flags AND ACCESS_EXEC = 0 \<and> tb_valid sh \<and> tb_virt sh = virt AND tb_match_mask sh
               then s\<lparr>tb_shadow := (tb_shadow s)(k := invalidate sh)\<rparr> else s);
          t = tb_of flags
      in if t = TB_INDEX_DATA
         then let s = tbis_d s virt (asn0 s)
              in if asn1 s \<noteq> asn0 s then tbis_d s virt (asn1 s) else s
         else case FindTBEntry s virt flags of
             (s, Some i) \<Rightarrow> tb_drop_slot s t i
           | (s, None) \<Rightarrow> s)"


section \<open>Translation\<close>

definition sext_u64_48 :: "u64 \<Rightarrow> u64" where
  "sext_u64_48 a = (if a AND 0x0000800000000000 \<noteq> 0 then a OR 0xffff000000000000 else a AND 0x0000ffffffffffff)"

definition alpha_sext_u64_43 :: "u64 \<Rightarrow> u64" where
  "alpha_sext_u64_43 a =
     (if a AND 0x0000040000000000 \<noteq> 0 then a OR 0xfffff80000000000 else a AND 0x000007ffffffffff)"

definition alpha_valid_va_form :: "u64 \<Rightarrow> bool \<Rightarrow> bool" where
  "alpha_valid_va_form virt va48 \<longleftrightarrow> (if va48 then sext_u64_48 virt else alpha_sext_u64_43 virt) = virt"

abbreviation (input) NO_CHECK :: u32 where "NO_CHECK \<equiv> 4"
abbreviation (input) VPTE :: u32 where "VPTE \<equiv> 8"
abbreviation (input) FAKE :: u32 where "FAKE \<equiv> 16"
abbreviation (input) ALT :: u32 where "ALT \<equiv> 32"
abbreviation (input) WRCHK :: u32 where "WRCHK \<equiv> 64"

text \<open>The control bits the translation reads: I_CTL and VA_CTL's VA modes, the superpage enables.\<close>

record mmu_ctl =
  i_ctl_va_mode :: u32
  va_ctl_va_mode :: u32
  i_ctl_spe :: u32
  m_ctl_spe :: u32

text \<open>XL_OK with the physical address and the ASM bit; XL_ACV, XL_FAULT with the entry, if one was used.\<close>

datatype xlate = XL_OK u64 bool | XL_ACV | XL_MISS | XL_FAULT nat

definition superpage :: "u32 \<Rightarrow> u64 \<Rightarrow> u64 option" where
  "superpage spe virt =
     (if spe = 0 then None
      else if virt AND 0x0000c00000000000 = 0x0000800000000000 \<and> spe AND 4 \<noteq> 0
      then Some (virt AND 0x00000fffffffffff)
      else if virt AND 0x0000fe0000000000 = 0x0000fc0000000000 \<and> spe AND 2 \<noteq> 0
      then Some ((virt AND 0x000001ffffffffff) OR
                 (if virt AND 0x0000010000000000 \<noteq> 0 then 0x00000e0000000000 else 0))
      else if virt AND 0x0000ffffc0000000 = 0x0000ffff80000000 \<and> spe AND 1 \<noteq> 0
      then Some (virt AND 0x000000003fffffff)
      else None)"

definition virt2phys_fast :: "mmu_ctl \<Rightarrow> tbs \<Rightarrow> u64 \<Rightarrow> u32 \<Rightarrow> nat \<Rightarrow> tbs \<times> xlate" where
  "virt2phys_fast c s virt flags cm =
     (let exec = (flags AND ACCESS_EXEC \<noteq> 0)
      in if \<not> alpha_valid_va_form virt
              ((if exec then i_ctl_va_mode c else va_ctl_va_mode c) AND 1 \<noteq> 0)
         then (s, XL_ACV)
         else case superpage (if exec then i_ctl_spe c else m_ctl_spe c) virt of
             Some phys \<Rightarrow> (s, if cm \<noteq> 0 then XL_ACV else XL_OK phys True)
           | None \<Rightarrow>
               (case FindTBEntry s virt flags of
                  (s, None) \<Rightarrow> (s, XL_MISS)
                | (s, Some i) \<Rightarrow>
                    (let e = tb_entry s (if exec then TB_INDEX_ITB else TB_INDEX_DATA) i;
                         check = (flags AND NO_CHECK = 0);
                         wrchk = (flags AND WRCHK \<noteq> 0)
                     in (s, if check \<and> (\<not> tb_access e (unat (flags AND ACCESS_WRITE)) cm \<or>
                                        wrchk \<and> \<not> tb_access e 1 cm)
                            then XL_ACV
                            else if check \<and> (tb_fault e (unat (flags AND 3)) \<or> wrchk \<and> tb_fault e 1)
                            then XL_FAULT i
                            else XL_OK (tb_phys e OR (virt AND tb_keep_mask e)) (tb_asm_bit e)))))"


section \<open>Histories\<close>

text \<open>What PALcode does to the translation buffers: fills, invalidations, ASN changes, and lookups.\<close>

datatype tb_op = Add_d u64 u64 nat | Add_i u64 u64 | Tbia u32 | Tbiap u32 | Tbis u64 u32
  | Tbis_d u64 nat | Find u64 u32 | Set_asn int | Set_asn0 int | Set_asn1 int

fun tb_step :: "tbs \<Rightarrow> tb_op \<Rightarrow> tbs" where
  "tb_step s (Add_d virt pte dtb) = add_tb_d s virt pte dtb"
| "tb_step s (Add_i virt pte) = add_tb_i s virt pte"
| "tb_step s (Tbia flags) = tbia s flags"
| "tb_step s (Tbiap flags) = tbiap s flags"
| "tb_step s (Tbis virt flags) = tbis s virt flags"
| "tb_step s (Tbis_d virt dtb) = tbis_d s virt (if dtb \<noteq> 0 then asn1 s else asn0 s)"
| "tb_step s (Find virt flags) = fst (FindTBEntry s virt flags)"
| "tb_step s (Set_asn a) = s\<lparr>asn := a\<rparr>"
| "tb_step s (Set_asn0 a) = s\<lparr>asn0 := a\<rparr>"
| "tb_step s (Set_asn1 a) = s\<lparr>asn1 := a\<rparr>"

text \<open>The reset state: \<open>tbia\<close> of both buffers on zeroed storage.\<close>

definition tb_zero :: tbs where
  "tb_zero = (let e = \<lparr>tb_virt = 0, tb_phys = 0, tb_match_mask = 0, tb_keep_mask = 0, tb_asn = 0,
      tb_asm_bit = False, tb_access = (\<lambda>_ _. False), tb_fault = (\<lambda>_. False), tb_valid = False\<rparr>
    in \<lparr>tb_entry = \<lambda>_ _. e, tb_next = \<lambda>_. 0, tb_last = \<lambda>_ _. 0, tb_idx = \<lambda>_ _. replicate kTbIdxWays 0,
        tb_lost = \<lambda>_ _. False, tb_gh_live = \<lambda>_. 0, tb_shadow = \<lambda>_. e, tb_dpc_keep = True,
        tb_flushes = [], asn = 0, asn0 = 0, asn1 = 0\<rparr>)"

definition tb_reset :: tbs where
  "tb_reset = tbia (tbia tb_zero ACCESS_READ) ACCESS_EXEC"

end
