(* ===== verification/Alpha_Cpu.thy ===== *)
theory Alpha_Cpu
  imports Ev8_Simd Alpha_TB
begin

text \<open>
  One instruction of the interpreter: \<open>CAlphaCPU::execute\<close> of \<^verbatim>\<open>src/src/cpu/AlphaCPU.cpp\<close>
  (the interrupt poll and the dispatch on the opcode), the control, PALcode and miscellaneous
  macros of \<^verbatim>\<open>cpu_control.hpp\<close>, \<^verbatim>\<open>cpu_misc.hpp\<close> and \<^verbatim>\<open>cpu_debug.hpp\<close>, the internal processor
  registers (\<open>hw_mfpr\<close>, \<open>hw_mtpr\<close>, \<open>HW_RET\<close>) of \<^verbatim>\<open>cpu_pal.hpp\<close>, and the interrupt lines of
  \<^verbatim>\<open>AlphaCPU.hpp\<close> (\<open>irq_h\<close>, \<open>count_down_irq\<close>). The word executed is an argument: the
  instruction fetch is not modelled. Loads, stores, floating point and the vector and paired
  single sets are other parts of the processor; on their words \<open>execute\<close> answers \<open>None\<close>. The
  rows other than the native EV8 are modelled (\<open>m_ev8n\<close> is false, no Tarantula unit).
\<close>

section \<open>State\<close>

datatype cpu_family = CPU_FAMILY_EV6 | CPU_FAMILY_EV7 | CPU_FAMILY_EV8

definition cpu_family_unused_misc_is_nop :: "cpu_family \<Rightarrow> bool" where
  "cpu_family_unused_misc_is_nop f \<longleftrightarrow>
     f = CPU_FAMILY_EV6 \<or> f = CPU_FAMILY_EV7 \<or> f = CPU_FAMILY_EV8"

record cpu_model =
  mdl_family :: cpu_family
  mdl_amask :: u64
  mdl_implver :: u64
  mdl_chip_id :: u64
  mdl_ext :: u32

datatype icache_flush = Ic_flush | Ic_flush_asm

text \<open>
  The fields of \<open>SCPU_state\<close> (and the \<open>m_\<close> members) that these parts read or write. \<open>c_lock\<close>
  and \<open>c_watch\<close> are this processor's lock and watch flags in \<open>CSystem\<close>; \<open>c_icache\<close> is
  the list of instruction cache flushes asked for.
\<close>

record cpu =
  c_model :: cpu_model
  c_r :: "nat \<Rightarrow> u64"
  c_pc :: u64
  c_current_pc :: u64
  c_pc_phys :: u64
  c_rem_ins :: nat
  c_seq_remaining :: nat
  c_pal_base :: u64
  c_exc_addr :: u64
  c_exc_sum :: u64
  c_sde :: bool
  c_hwe :: bool
  c_fpen :: bool
  c_ppcen :: bool
  c_cm :: nat
  c_alt_cm :: nat
  c_lock :: bool
  c_watch :: bool
  c_check_int :: bool
  c_check_timers :: bool
  c_int_resignal :: bool
  c_irq_timer :: "nat \<Rightarrow> int"
  c_eien :: u32
  c_eir :: u32
  c_sien :: u32
  c_sir :: u32
  c_slen :: u32
  c_slr :: u32
  c_cren :: u32
  c_crr :: u32
  c_pcen :: u32
  c_pcr :: u32
  c_asten :: u32
  c_aster :: u32
  c_astrr :: u32
  c_smc :: u32
  c_ctl :: mmu_ctl
  c_i_ctl_vptb :: u64
  c_va_ctl_vptb :: u64
  c_i_ctl_other :: u64
  c_fault_va :: u64
  c_va_form_va :: u64
  c_mm_stat :: u64
  c_dc_stat :: u64
  c_dc_ctl :: u64
  c_i_stat :: u64
  c_pctr_ctl :: u64
  c_pmpc :: u64
  c_cc :: u64
  c_cc_offset :: u32
  c_cc_ena :: bool
  c_cc_last_read :: u64
  c_cc_borrow :: u64
  c_cc_wall_remainder :: u64
  c_last_tb_virt :: u64
  c_last_dtb_virt :: "nat \<Rightarrow> u64"
  c_dpc_key :: u64
  c_dpc_flush_req :: bool
  c_tb :: tbs
  c_icache :: "icache_flush list"
  c_intr_flag :: bool
  c_exit_on_pal_halt :: bool
  c_exit_requested :: bool

section \<open>Registers and the program counter\<close>

definition pal_mode :: "cpu \<Rightarrow> bool" where
  "pal_mode c \<longleftrightarrow> c_pc c AND 1 \<noteq> 0"

text \<open>\<open>RREG_A\<close> and \<open>RREG_B\<close> (equal on these rows): PALshadow R4-R7, R20-R23 with SDE.\<close>

definition rreg :: "cpu \<Rightarrow> u32 \<Rightarrow> nat" where
  "rreg c a = unat (a AND 0x1f) +
     (if pal_mode c then if a AND 0xc = 4 \<and> c_sde c then 32 else 0 else 0)"

definition REG_1 :: "cpu \<Rightarrow> u32 \<Rightarrow> nat" where "REG_1 c ins = rreg c (drop_bit 21 ins AND 0x1f)"
definition REG_2 :: "cpu \<Rightarrow> u32 \<Rightarrow> nat" where "REG_2 c ins = rreg c (drop_bit 16 ins AND 0x1f)"
definition REG_3 :: "cpu \<Rightarrow> u32 \<Rightarrow> nat" where "REG_3 c ins = rreg c (ins AND 0x1f)"

definition V_2 :: "cpu \<Rightarrow> u32 \<Rightarrow> u64" where
  "V_2 c ins = (if ins AND 0x1000 \<noteq> 0 then ucast (drop_bit 13 ins AND 0xff) else c_r c (REG_2 c ins))"

definition DISP_16 :: "u32 \<Rightarrow> u64" where "DISP_16 ins = sext_u64_16 (ucast ins)"
definition DISP_21 :: "u32 \<Rightarrow> u64" where "DISP_21 ins = sext_u64_21 (ucast ins)"

definition set_r :: "cpu \<Rightarrow> nat \<Rightarrow> u64 \<Rightarrow> cpu" where
  "set_r c i v = c\<lparr>c_r := (c_r c)(i := v)\<rparr>"

definition next_pc :: "cpu \<Rightarrow> cpu" where
  "next_pc c = c\<lparr>c_pc := c_pc c + 4, c_pc_phys := c_pc_phys c + 4, c_rem_ins := c_rem_ins c - 1\<rparr>"

definition set_pc :: "cpu \<Rightarrow> u64 \<Rightarrow> cpu" where
  "set_pc c p = c\<lparr>c_pc := p, c_rem_ins := 0, c_seq_remaining := 0\<rparr>"

definition add_pc :: "cpu \<Rightarrow> u64 \<Rightarrow> cpu" where
  "add_pc c a = c\<lparr>c_pc := c_pc c + a, c_rem_ins := 0, c_seq_remaining := 0\<rparr>"

abbreviation (input) DTBM_DOUBLE_3 :: u64 where "DTBM_DOUBLE_3 \<equiv> 0x100"
abbreviation (input) DTBM_DOUBLE_4 :: u64 where "DTBM_DOUBLE_4 \<equiv> 0x180"
abbreviation (input) DTBM_SINGLE :: u64 where "DTBM_SINGLE \<equiv> 0x300"
abbreviation (input) DFAULT :: u64 where "DFAULT \<equiv> 0x380"
abbreviation (input) OPCDEC :: u64 where "OPCDEC \<equiv> 0x400"
abbreviation (input) IACV :: u64 where "IACV \<equiv> 0x480"
abbreviation (input) ITB_MISS :: u64 where "ITB_MISS \<equiv> 0x580"
abbreviation (input) ARITH :: u64 where "ARITH \<equiv> 0x600"
abbreviation (input) INTERRUPT :: u64 where "INTERRUPT \<equiv> 0x680"

text \<open>\<open>CSystem::cpu_clear_lock\<close>: the load lock and the watch of this processor.\<close>

definition cpu_clear_lock :: "cpu \<Rightarrow> cpu" where
  "cpu_clear_lock c = c\<lparr>c_lock := False, c_watch := False\<rparr>"

text \<open>\<open>GO_PAL\<close>; every trap but a TB miss clears the lock flag.\<close>

definition go_pal :: "cpu \<Rightarrow> u64 \<Rightarrow> cpu" where
  "go_pal c offset =
     (let c = set_pc (c\<lparr>c_exc_addr := c_current_pc c\<rparr>) (c_pal_base c OR offset OR 1)
      in if offset \<notin> {DTBM_SINGLE, DTBM_DOUBLE_3, DTBM_DOUBLE_4, ITB_MISS}
         then cpu_clear_lock c else c)"

text \<open>\<open>ARITH_TRAP_I\<close>: \<open>TRAP_INT | flags\<close> and the register number in EXC_SUM.\<close>

definition arith_trap_i :: "cpu \<Rightarrow> u64 \<Rightarrow> nat \<Rightarrow> cpu" where
  "arith_trap_i c flags reg =
     go_pal (c\<lparr>c_exc_sum := (0x80 OR flags) OR push_bit 8 (of_nat reg AND 0x1f)\<rparr>) ARITH"

section \<open>Interrupt lines\<close>

definition ast_mask :: "cpu \<Rightarrow> u32" where
  "ast_mask c = push_bit (c_cm c + 1) 1 - 1"

definition int_deliverable :: "cpu \<Rightarrow> bool" where
  "int_deliverable c \<longleftrightarrow>
     c_eien c AND c_eir c \<noteq> 0 \<or> c_sien c AND c_sir c \<noteq> 0 \<or>
     (c_asten c \<noteq> 0 \<and> c_aster c AND c_astrr c AND ast_mask c \<noteq> 0)"

definition kick :: "cpu \<Rightarrow> cpu" where
  "kick c = (if int_deliverable c then c\<lparr>c_check_int := True\<rparr> else c)"

definition count_down_irq :: "cpu \<Rightarrow> nat \<Rightarrow> int \<Rightarrow> cpu" where
  "count_down_irq c line stp =
     (let t = c_irq_timer c line in
      if t > 0
      then let nxt = (if t \<le> stp then 0 else t - stp);
               c = c\<lparr>c_irq_timer := (c_irq_timer c)(line := nxt)\<rparr>
           in if nxt = 0 then c\<lparr>c_eir := c_eir c OR mask1 line, c_check_int := True\<rparr>
              else c\<lparr>c_check_timers := True\<rparr>
      else c)"

definition irq_h :: "cpu \<Rightarrow> nat \<Rightarrow> bool \<Rightarrow> int \<Rightarrow> cpu" where
  "irq_h c number assert delay =
     (let high = (c_eir c AND mask1 number \<noteq> 0);
          active = (high \<or> c_irq_timer c number \<noteq> 0)
      in if assert \<and> \<not> active
         then if delay \<noteq> 0
              then c\<lparr>c_irq_timer := (c_irq_timer c)(number := delay), c_check_timers := True\<rparr>
              else c\<lparr>c_eir := c_eir c OR mask1 number, c_check_int := True\<rparr>
         else if assert \<and> high then c\<lparr>c_check_int := True\<rparr>
         else if \<not> assert \<and> active
         then let tm = (c_irq_timer c)(number := 0)
              in c\<lparr>c_eir := c_eir c AND NOT (mask1 number), c_irq_timer := tm,
                   c_check_timers := (\<exists>i\<in>set [0..<6]. tm i \<noteq> 0)\<rparr>
         else c)"

section \<open>Internal processor registers\<close>

definition va_form :: "cpu \<Rightarrow> u64 \<Rightarrow> bool \<Rightarrow> u64" where
  "va_form c address ibox =
     (let mode = (if ibox then i_ctl_va_mode (c_ctl c) else va_ctl_va_mode (c_ctl c));
          vptb = (if ibox then c_i_ctl_vptb c else c_va_ctl_vptb c);
          vpn = drop_bit 10 address
      in if mode = 0 then vptb AND 0xfffffffe00000000 OR (vpn AND 0x00000001fffffff8)
         else if mode = 1
         then vptb AND 0xfffff80000000000 OR (vpn AND 0x0000003ffffffff8) OR
              ((vpn AND 0x0000002000000000) * 0x3e)
         else if mode = 2
         then vptb AND 0xffffffffc0000000 OR (vpn AND 0x00000000003ffff8)
         else 0)"

definition isum :: "cpu \<Rightarrow> u64" where
  "isum c =
     push_bit 33 (ucast (c_eir c AND c_eien c)) OR push_bit 32 (ucast (c_slr c AND c_slen c)) OR
     push_bit 31 (ucast (c_crr c AND c_cren c)) OR push_bit 29 (ucast (c_pcr c AND c_pcen c)) OR
     push_bit 13 (ucast (c_sir c AND c_sien c)) OR
     push_bit 3 (ucast (ast_mask c AND c_aster c AND c_astrr c AND (c_asten c * 0x3))) OR
     push_bit 7 (ucast (ast_mask c AND c_aster c AND c_astrr c AND (c_asten c * 0xc)))"

definition ier_cm :: "cpu \<Rightarrow> u64" where
  "ier_cm c =
     push_bit 33 (ucast (c_eien c)) OR push_bit 32 (ucast (c_slen c)) OR
     push_bit 31 (ucast (c_cren c)) OR push_bit 29 (ucast (c_pcen c)) OR
     push_bit 13 (ucast (c_sien c)) OR push_bit 13 (ucast (c_asten c)) OR
     push_bit 3 (of_nat (c_cm c))"

definition i_ctl :: "cpu \<Rightarrow> u64" where
  "i_ctl c =
     c_i_ctl_other c OR push_bit 24 (mdl_chip_id (c_model c)) OR c_i_ctl_vptb c OR
     push_bit 15 (ucast (i_ctl_va_mode (c_ctl c))) OR push_bit 12 (of_flag (c_hwe c)) OR
     push_bit 7 (of_flag (c_sde c)) OR push_bit 3 (ucast (i_ctl_spe (c_ctl c)))"

definition pctx :: "cpu \<Rightarrow> u64" where
  "pctx c =
     push_bit 39 (of_int (asn (c_tb c))) OR push_bit 9 (ucast (c_astrr c)) OR
     push_bit 5 (ucast (c_aster c)) OR push_bit 2 (of_flag (c_fpen c)) OR
     push_bit 1 (of_flag (c_ppcen c))"

definition hw_mfpr :: "cpu \<Rightarrow> u32 \<Rightarrow> u64" where
  "hw_mfpr c f =
     (if f AND 0xc0 = 0x40 then pctx c
      else if f = 0x05 then c_pmpc c
      else if f = 0x06 then c_exc_addr c
      else if f = 0x07 then va_form c (c_exc_addr c) True
      else if f = 0x08 \<or> f = 0x09 \<or> f = 0x0a \<or> f = 0x0b then ier_cm c
      else if f = 0x0c then push_bit 13 (ucast (c_sir c))
      else if f = 0x0d then isum c
      else if f = 0x0f then c_exc_sum c
      else if f = 0x10 then c_pal_base c
      else if f = 0x11 then i_ctl c
      else if f = 0x14 then c_pctr_ctl c
      else if f = 0x16 then c_i_stat c
      else if f = 0x27 then c_mm_stat c
      else if f = 0x2a then c_dc_stat c
      else if f = 0x2b then 0
      else if f = 0xc0 then push_bit 32 (ucast (c_cc_offset c)) OR (c_cc c AND 0xffffffff)
      else if f = 0xc2 then c_fault_va c
      else if f = 0xc3 then va_form c (c_va_form_va c) False
      else 0)"

text \<open>A field of a written value: \<open>(int)(value >> n) & m\<close>.\<close>

definition fld :: "u64 \<Rightarrow> nat \<Rightarrow> u32 \<Rightarrow> u32" where
  "fld v n m = ucast (drop_bit n v) AND m"

definition upd_tb :: "(tbs \<Rightarrow> tbs) \<Rightarrow> cpu \<Rightarrow> cpu" where
  "upd_tb f c = c\<lparr>c_tb := f (c_tb c)\<rparr>"

definition dpc_context_changed :: "cpu \<Rightarrow> cpu" where
  "dpc_context_changed c =
     c\<lparr>c_dpc_key := push_bit 2 (of_int (asn0 (c_tb c)) AND 0xff) OR (of_nat (c_cm c) AND 3)\<rparr>"

definition mtpr_pctx :: "cpu \<Rightarrow> u32 \<Rightarrow> u64 \<Rightarrow> cpu" where
  "mtpr_pctx c f v =
     (let c = (if f AND 1 \<noteq> 0
               then upd_tb (\<lambda>t. flush_all (t\<lparr>asn := uint (fld v 39 0xff)\<rparr>)) c else c);
          c = (if f AND 2 \<noteq> 0 then kick (c\<lparr>c_aster := fld v 5 0xf\<rparr>) else c);
          c = (if f AND 4 \<noteq> 0 then kick (c\<lparr>c_astrr := fld v 9 0xf\<rparr>) else c);
          c = (if f AND 8 \<noteq> 0 then c\<lparr>c_ppcen := (fld v 1 1 \<noteq> 0)\<rparr> else c)
      in if f AND 16 \<noteq> 0 then c\<lparr>c_fpen := (fld v 2 1 \<noteq> 0)\<rparr> else c)"

definition mtpr_cm :: "cpu \<Rightarrow> u64 \<Rightarrow> cpu" where
  "mtpr_cm c v = kick (dpc_context_changed (c\<lparr>c_cm := unat (fld v 3 3)\<rparr>))"

definition mtpr_ier :: "cpu \<Rightarrow> u64 \<Rightarrow> cpu" where
  "mtpr_ier c v =
     kick (c\<lparr>c_asten := fld v 13 1, c_sien := fld v 13 0xfffe, c_pcen := fld v 29 3,
             c_cren := fld v 31 1, c_slen := fld v 32 1, c_eien := fld v 33 0x3f\<rparr>)"

definition mtpr_i_ctl :: "cpu \<Rightarrow> u64 \<Rightarrow> cpu" where
  "mtpr_i_ctl c v =
     c\<lparr>c_i_ctl_other := v AND 0x00000000007e2f67,
       c_i_ctl_vptb := sext_u64_48 (v AND 0x0000ffffc0000000),
       c_ctl := (c_ctl c)\<lparr>i_ctl_spe := fld v 3 7, i_ctl_va_mode := fld v 15 3\<rparr>,
       c_sde := (fld v 7 1 \<noteq> 0), c_hwe := (fld v 12 1 \<noteq> 0)\<rparr>"

definition mtpr_va_ctl :: "cpu \<Rightarrow> u64 \<Rightarrow> cpu" where
  "mtpr_va_ctl c v =
     c\<lparr>c_va_ctl_vptb := sext_u64_48 (v AND 0x0000ffffc0000000),
       c_ctl := (c_ctl c)\<lparr>va_ctl_va_mode := fld v 1 3\<rparr>,
       c_tb := tbia (flush_all (c_tb c)) ACCESS_READ\<rparr>"

definition mtpr_cc_ctl :: "cpu \<Rightarrow> u64 \<Rightarrow> cpu" where
  "mtpr_cc_ctl c v =
     c\<lparr>c_cc_ena := (fld v 32 1 \<noteq> 0), c_cc := v AND 0xfffffff0,
       c_cc_last_read := v AND 0xfffffff0, c_cc_borrow := 0, c_cc_wall_remainder := 0\<rparr>"

definition hw_mtpr :: "cpu \<Rightarrow> u32 \<Rightarrow> u64 \<Rightarrow> cpu" where
  "hw_mtpr c f v =
     (if f AND 0xc0 = 0x40 then mtpr_pctx c f v
      else if f = 0x00 then c\<lparr>c_last_tb_virt := v\<rparr>
      else if f = 0x01 then upd_tb (\<lambda>t. add_tb_i t (c_last_tb_virt c) v) c
      else if f = 0x02 then upd_tb (\<lambda>t. tbiap t ACCESS_EXEC) c
      else if f = 0x03 then upd_tb (\<lambda>t. tbia t ACCESS_EXEC) c
      else if f = 0x04 then upd_tb (\<lambda>t. tbis t v ACCESS_EXEC) c
      else if f = 0x09 then mtpr_cm c v
      else if f = 0x0b then mtpr_ier (mtpr_cm c v) v
      else if f = 0x0a then mtpr_ier c v
      else if f = 0x0c then kick (c\<lparr>c_sir := fld v 13 0xfffe\<rparr>)
      else if f = 0x0e then c\<lparr>c_pcr := c_pcr c AND NOT (fld v 29 3),
                               c_crr := c_crr c AND NOT (fld v 31 1),
                               c_slr := c_slr c AND NOT (fld v 32 1)\<rparr>
      else if f = 0x10 then c\<lparr>c_pal_base := v AND 0x00000fffffff8000\<rparr>
      else if f = 0x11 then mtpr_i_ctl c v
      else if f = 0x12 then c\<lparr>c_icache := Ic_flush_asm # c_icache c\<rparr>
      else if f = 0x13 then c\<lparr>c_icache := Ic_flush # c_icache c\<rparr>
      else if f = 0x14 then c\<lparr>c_pctr_ctl := v AND 0xffffffffffffffdf\<rparr>
      else if f = 0x16 then c\<lparr>c_i_stat := c_i_stat c AND NOT v\<rparr>
      else if f = 0x20 then c\<lparr>c_last_dtb_virt := (c_last_dtb_virt c)(0 := v)\<rparr>
      else if f = 0x21 then upd_tb (\<lambda>t. add_tb_d t (c_last_dtb_virt c 0) v 0) c
      else if f = 0x24 then upd_tb (\<lambda>t. tbis_d t v (asn0 t)) c
      else if f = 0x25
      then upd_tb flush_all (dpc_context_changed (upd_tb (\<lambda>t. t\<lparr>asn0 := uint (drop_bit 56 v)\<rparr>) c))
      else if f = 0x26 then c\<lparr>c_alt_cm := unat (fld v 0 3)\<rparr>
      else if f = 0x28 then upd_tb flush_all
                              (c\<lparr>c_smc := fld v 4 3, c_ctl := (c_ctl c)\<lparr>m_ctl_spe := fld v 1 7\<rparr>\<rparr>)
      else if f = 0x29 then c\<lparr>c_dc_ctl := v\<rparr>
      else if f = 0x2a then c\<lparr>c_dc_stat := c_dc_stat c AND NOT v\<rparr>
      else if f = 0xa0 then c\<lparr>c_last_dtb_virt := (c_last_dtb_virt c)(1 := v)\<rparr>
      else if f = 0xa1 then upd_tb (\<lambda>t. add_tb_d t (c_last_dtb_virt c 1) v 1) c
      else if f = 0xa2 then upd_tb (\<lambda>t. tbiap t ACCESS_READ) c
      else if f = 0xa3 then upd_tb (\<lambda>t. tbia t ACCESS_READ) c
      else if f = 0xa4 then upd_tb (\<lambda>t. tbis_d t v (asn1 t)) c
      else if f = 0xa5 then upd_tb (\<lambda>t. flush_all (t\<lparr>asn1 := uint (drop_bit 56 v)\<rparr>)) c
      else if f = 0xc0 then c\<lparr>c_cc_offset := ucast (drop_bit 32 v)\<rparr>
      else if f = 0xc1 then mtpr_cc_ctl c v
      else if f = 0xc4 then mtpr_va_ctl c v
      else c)"

definition do_HW_RET :: "cpu \<Rightarrow> u32 \<Rightarrow> cpu" where
  "do_HW_RET c ins =
     (let target = c_r c (REG_2 c ins) AND NOT 2; c = set_pc c target
      in if target AND 1 = 0 \<and> c_int_resignal c
         then c\<lparr>c_int_resignal := False, c_check_int := True\<rparr> else c)"

section \<open>The operate formats\<close>

text \<open>What an operate instruction does with RC: a result, a result with the overflow flag of the
  /V forms, nothing (an unsatisfied CMOV), or the OPCDEC trap.\<close>

datatype alu = Write u64 | Write_iov "u64 \<times> bool" | Keep | Opcdec

definition cmov :: "bool \<Rightarrow> u64 \<Rightarrow> alu" where
  "cmov p b = (if p then Write b else Keep)"

definition op_inta :: "u32 \<Rightarrow> u64 \<Rightarrow> u64 \<Rightarrow> alu" where
  "op_inta f a b =
     (if f = 0x40 then Write_iov (do_ADDL_V a b)
      else if f = 0x00 then Write (do_ADDL a b)
      else if f = 0x02 then Write (do_S4ADDL a b)
      else if f = 0x49 then Write_iov (do_SUBL_V a b)
      else if f = 0x09 then Write (do_SUBL a b)
      else if f = 0x0b then Write (do_S4SUBL a b)
      else if f = 0x0f then Write (do_CMPBGE a b)
      else if f = 0x12 then Write (do_S8ADDL a b)
      else if f = 0x1b then Write (do_S8SUBL a b)
      else if f = 0x1d then Write (do_CMPULT a b)
      else if f = 0x60 then Write_iov (do_ADDQ_V a b)
      else if f = 0x20 then Write (do_ADDQ a b)
      else if f = 0x22 then Write (do_S4ADDQ a b)
      else if f = 0x69 then Write_iov (do_SUBQ_V a b)
      else if f = 0x29 then Write (do_SUBQ a b)
      else if f = 0x2b then Write (do_S4SUBQ a b)
      else if f = 0x2d then Write (do_CMPEQ a b)
      else if f = 0x32 then Write (do_S8ADDQ a b)
      else if f = 0x3b then Write (do_S8SUBQ a b)
      else if f = 0x3d then Write (do_CMPULE a b)
      else if f = 0x4d then Write (do_CMPLT a b)
      else if f = 0x6d then Write (do_CMPLE a b)
      else Opcdec)"

text \<open>\<open>ra\<close> is the number of RA, which AMASK requires to be 31.\<close>

definition op_intl :: "cpu_model \<Rightarrow> nat \<Rightarrow> u32 \<Rightarrow> u64 \<Rightarrow> u64 \<Rightarrow> alu" where
  "op_intl m ra f a b =
     (if f = 0x00 then Write (do_AND a b)
      else if f = 0x08 then Write (do_BIC a b)
      else if f = 0x14 then cmov (do_CMOVLBS a) b
      else if f = 0x16 then cmov (do_CMOVLBC a) b
      else if f = 0x20 then Write (do_BIS a b)
      else if f = 0x24 then cmov (do_CMOVEQ a) b
      else if f = 0x26 then cmov (do_CMOVNE a) b
      else if f = 0x28 then Write (do_ORNOT a b)
      else if f = 0x40 then Write (do_XOR a b)
      else if f = 0x44 then cmov (do_CMOVLT a) b
      else if f = 0x46 then cmov (do_CMOVGE a) b
      else if f = 0x48 then Write (do_EQV a b)
      else if f = 0x61 then if ra \<noteq> 31 then Opcdec else Write (b AND NOT (mdl_amask m))
      else if f = 0x64 then cmov (do_CMOVLE a) b
      else if f = 0x66 then cmov (do_CMOVGT a) b
      else if f = 0x68 then if mdl_ext m AND 1 \<noteq> 0 then Write a else Opcdec
      else if f = 0x6c then Write (mdl_implver m)
      else Opcdec)"

definition op_ints :: "u32 \<Rightarrow> u64 \<Rightarrow> u64 \<Rightarrow> alu" where
  "op_ints f a b =
     (if f = 0x02 then Write (do_MSKBL a b)
      else if f = 0x06 then Write (do_EXTBL a b)
      else if f = 0x0b then Write (do_INSBL a b)
      else if f = 0x12 then Write (do_MSKWL a b)
      else if f = 0x16 then Write (do_EXTWL a b)
      else if f = 0x1b then Write (do_INSWL a b)
      else if f = 0x22 then Write (do_MSKLL a b)
      else if f = 0x26 then Write (do_EXTLL a b)
      else if f = 0x2b then Write (do_INSLL a b)
      else if f = 0x30 then Write (do_ZAP a b)
      else if f = 0x31 then Write (do_ZAPNOT a b)
      else if f = 0x32 then Write (do_MSKQL a b)
      else if f = 0x34 then Write (do_SRL a b)
      else if f = 0x36 then Write (do_EXTQL a b)
      else if f = 0x39 then Write (do_SLL a b)
      else if f = 0x3b then Write (do_INSQL a b)
      else if f = 0x3c then Write (do_SRA a b)
      else if f = 0x52 then Write (do_MSKWH a b)
      else if f = 0x57 then Write (do_INSWH a b)
      else if f = 0x5a then Write (do_EXTWH a b)
      else if f = 0x62 then Write (do_MSKLH a b)
      else if f = 0x67 then Write (do_INSLH a b)
      else if f = 0x6a then Write (do_EXTLH a b)
      else if f = 0x72 then Write (do_MSKQH a b)
      else if f = 0x77 then Write (do_INSQH a b)
      else if f = 0x7a then Write (do_EXTQH a b)
      else Opcdec)"

definition op_intm :: "u32 \<Rightarrow> u64 \<Rightarrow> u64 \<Rightarrow> alu" where
  "op_intm f a b =
     (if f = 0x40 then Write_iov (do_MULL_V a b)
      else if f = 0x00 then Write (do_MULL a b)
      else if f = 0x60 then Write_iov (do_MULQ_V a b)
      else if f = 0x20 then Write (do_MULQ a b)
      else if f = 0x30 then Write (do_UMULH a b)
      else Opcdec)"

text \<open>Opcode 1C. FTOIT and FTOIS read the floating-point registers: \<open>None\<close>.\<close>

definition op_fpti :: "cpu_model \<Rightarrow> u32 \<Rightarrow> u64 \<Rightarrow> u64 \<Rightarrow> alu option" where
  "op_fpti m f a b =
     (if f = 0x70 \<or> f = 0x78 then None else Some
     (if f = 0x00 then Write (do_SEXTB b)
      else if f = 0x01 then Write (do_SEXTW b)
      else if f = 0x30 then Write (do_CTPOP b)
      else if f = 0x31 then Write (do_PERR a b)
      else if f = 0x32 then Write (do_CTLZ b)
      else if f = 0x33 then Write (do_CTTZ b)
      else if f = 0x34 then Write (do_UNPKBW b)
      else if f = 0x35 then Write (do_UNPKBL b)
      else if f = 0x36 then Write (do_PKWB b)
      else if f = 0x37 then Write (do_PKLB b)
      else if f = 0x38 then Write (do_MINSB8 a b)
      else if f = 0x39 then Write (do_MINSW4 a b)
      else if f = 0x3a then Write (do_MINUB8 a b)
      else if f = 0x3b then Write (do_MINUW4 a b)
      else if f = 0x3c then Write (do_MAXUB8 a b)
      else if f = 0x3d then Write (do_MAXUW4 a b)
      else if f = 0x3e then Write (do_MAXSB8 a b)
      else if f = 0x3f then Write (do_MAXSW4 a b)
      else if mdl_ext m AND 1 \<noteq> 0 \<and> assigned f then Write (exec f a b)
      else Opcdec))"

definition retire :: "cpu \<Rightarrow> nat \<Rightarrow> alu \<Rightarrow> cpu" where
  "retire c rc x =
     (case x of
        Write v \<Rightarrow> set_r c rc v
      | Write_iov (v, ov) \<Rightarrow>
          if rc \<noteq> 31 \<and> ov then arith_trap_i (set_r c rc v) 0x40 rc else set_r c rc v
      | Keep \<Rightarrow> c
      | Opcdec \<Rightarrow> go_pal c OPCDEC)"

section \<open>Miscellaneous and control instructions\<close>

definition honour_dpc_flush_request :: "cpu \<Rightarrow> cpu" where
  "honour_dpc_flush_request c =
     (if c_dpc_flush_req c then upd_tb flush_all (c\<lparr>c_dpc_flush_req := False\<rparr>) else c)"

definition op_misc :: "cpu \<Rightarrow> u32 \<Rightarrow> u32 \<Rightarrow> cpu option" where
  "op_misc c f ins =
     (let ev8 = (mdl_ext (c_model c) AND 1 \<noteq> 0);
          unused = (if cpu_family_unused_misc_is_nop (mdl_family (c_model c)) then c
                    else go_pal c OPCDEC)
      in if f = 0x0000 \<or> f = 0x0400 \<or> f = 0x4400 \<or> f = 0x8000 \<or> f = 0xa000 \<or> f = 0xe800
             \<or> f = 0xf800 \<or> f = 0xfc00 then Some c
         else if f = 0x4000 \<or> f = 0x4800 \<or> f = 0x4c00 then Some (honour_dpc_flush_request c)
         else if f = 0xc000 then None
         else if f = 0xe000
         then Some ((set_r c (REG_1 c ins) (of_flag (c_intr_flag c)))\<lparr>c_intr_flag := False\<rparr>)
         else if f = 0xf000
         then Some ((set_r c (REG_1 c ins) (of_flag (c_intr_flag c)))\<lparr>c_intr_flag := True\<rparr>)
         else if f = 0xec00 \<and> ev8 then Some c
         else if (f = 0xb000 \<or> f = 0xb400 \<or> f = 0xb800) \<and> ev8 then None
         else Some unused)"

definition do_CALL_PAL :: "cpu \<Rightarrow> u32 \<Rightarrow> cpu" where
  "do_CALL_PAL c f =
     (if f < 0x40 \<and> c_cm c \<noteq> 0 \<or> 0x3f < f \<and> f < 0x80 \<or> 0xbf < f then go_pal c OPCDEC
      else let c = (if f = 0 \<and> c_exit_on_pal_halt c then c\<lparr>c_exit_requested := True\<rparr> else c);
               c = c\<lparr>c_watch := False\<rparr>;
               c = set_r c (32 + 23) (c_pc c AND NOT 2)
           in set_pc c (c_pal_base c OR push_bit 13 1 OR push_bit 5 (ucast f AND 0x80) OR
                        push_bit 6 (ucast f AND 0x3f) OR 1))"

definition do_BR :: "cpu \<Rightarrow> u32 \<Rightarrow> cpu" where
  "do_BR c ins = add_pc (set_r c (REG_1 c ins) (c_pc c AND NOT 3)) (DISP_21 ins * 4)"

definition do_JMP :: "cpu \<Rightarrow> u32 \<Rightarrow> cpu" where
  "do_JMP c ins =
     (let t = c_r c (REG_2 c ins) AND NOT 3
      in set_pc (set_r c (REG_1 c ins) (c_pc c AND NOT 3)) (t OR (c_pc c AND 3)))"

definition taken :: "u32 \<Rightarrow> u64 \<Rightarrow> bool" where
  "taken opc a =
     (if opc = 0x38 then a AND 1 = 0
      else if opc = 0x39 then a = 0
      else if opc = 0x3a then sint a < 0
      else if opc = 0x3b then sint a \<le> 0
      else if opc = 0x3c then a AND 1 \<noteq> 0
      else if opc = 0x3d then a \<noteq> 0
      else if opc = 0x3e then sint a \<ge> 0
      else sint a > 0)"

section \<open>One instruction\<close>

definition palres_denied :: "cpu \<Rightarrow> bool" where
  "palres_denied c \<longleftrightarrow> \<not> pal_mode c \<and> \<not> (c_cm c = 0 \<and> c_hwe c)"

definition dispatch :: "cpu \<Rightarrow> u32 \<Rightarrow> cpu option" where
  "dispatch c ins =
     (let opc = drop_bit 26 ins; f = drop_bit 5 ins AND 0x7f;
          a = c_r c (REG_1 c ins); b = V_2 c ins; rc = REG_3 c ins; m = c_model c
      in if opc = 0x00 then Some (do_CALL_PAL c (ins AND 0x1fffffff))
         else if opc = 0x08 then Some (set_r c (REG_1 c ins) (c_r c (REG_2 c ins) + DISP_16 ins))
         else if opc = 0x09
         then Some (set_r c (REG_1 c ins) (c_r c (REG_2 c ins) + push_bit 16 (DISP_16 ins)))
         else if opc = 0x10 then Some (retire c rc (op_inta f a b))
         else if opc = 0x11 then Some (retire c rc (op_intl m (REG_1 c ins) f a b))
         else if opc = 0x12 then Some (retire c rc (op_ints f a b))
         else if opc = 0x13 then Some (retire c rc (op_intm f a b))
         else if opc = 0x18 then op_misc c (ins AND 0xffff) ins
         else if opc = 0x19
         then Some (if palres_denied c then go_pal c OPCDEC
                    else set_r c (REG_1 c ins) (hw_mfpr c (drop_bit 8 ins AND 0xff)))
         else if opc = 0x1a then Some (do_JMP c ins)
         else if opc = 0x1b \<or> opc = 0x1f
         then if palres_denied c then Some (go_pal c OPCDEC) else None
         else if opc = 0x1c then map_option (retire c rc) (op_fpti m f a b)
         else if opc = 0x1d
         then Some (if palres_denied c then go_pal c OPCDEC
                    else hw_mtpr c (drop_bit 8 ins AND 0xff) (c_r c (REG_2 c ins)))
         else if opc = 0x1e
         then Some (if palres_denied c then go_pal c OPCDEC else do_HW_RET c ins)
         else if opc = 0x30 \<or> opc = 0x34 then Some (do_BR c ins)
         else if 0x38 \<le> opc then Some (if taken opc a then add_pc c (DISP_21 ins * 4) else c)
         else if 0x01 \<le> opc \<and> opc \<le> 0x06 then Some (go_pal c OPCDEC)
         else if opc = 0x07
         then if mdl_ext m AND 1 \<noteq> 0 then None else Some (go_pal c OPCDEC)
         else None)"

text \<open>The interrupt poll: \<open>Inl\<close> when an interrupt is taken and the instruction is not executed.\<close>

definition poll :: "cpu \<Rightarrow> cpu + cpu" where
  "poll c =
     (if c_check_int c \<and> \<not> pal_mode c
      then let c = c\<lparr>c_check_int := False\<rparr>
           in if int_deliverable c
              then Inl ((go_pal c INTERRUPT)\<lparr>c_int_resignal := True, c_seq_remaining := 0\<rparr>)
              else Inr c
      else Inr c)"

definition execute :: "cpu \<Rightarrow> u32 \<Rightarrow> cpu option" where
  "execute c ins =
     (case poll (c\<lparr>c_current_pc := c_pc c\<rparr>) of
        Inl c \<Rightarrow> Some c
      | Inr c \<Rightarrow> dispatch (set_r (next_pc c) 31 0) ins)"

end
