(* ===== verification/Alpha_TB_Facts.thy ===== *)
theory Alpha_TB_Facts
  imports Alpha_TB
begin

text \<open>
  The translation buffers keep their invariant (\<open>tb_ok\<close>: the index reflects the slots in use, page
  by page) under every operation, so lookups through the index are exact after any history; a
  filled translation is used, an invalidated one is gone from the buffer, the index, the hint
  and the shadow.
\<close>

section \<open>One set of the index\<close>

text \<open>The occupied ways; they are packed at the front and no slot is there twice.\<close>

definition ways :: "nat list \<Rightarrow> nat list" where
  "ways w = takeWhile (\<lambda>v. v \<noteq> 0) w"

definition ways_ok :: "nat list \<Rightarrow> bool" where
  "ways_ok w \<longleftrightarrow> length w = kTbIdxWays \<and> distinct (ways w)
     \<and> w = ways w @ replicate (kTbIdxWays - length (ways w)) 0"

lemma ways_packed:
  "0 \<notin> set xs \<Longrightarrow> ways (xs @ replicate n 0) = xs"
  unfolding ways_def by (induction xs) auto

lemma ways_okI:
  assumes "w = xs @ replicate n 0" "0 \<notin> set xs" "distinct xs" "length xs + n = kTbIdxWays"
  shows "ways_ok w \<and> ways w = xs"
  using assms by (auto simp: ways_ok_def ways_packed)

lemma ways_okE:
  assumes "ways_ok w"
  obtains xs n where "ways w = xs" "w = xs @ replicate n 0" "0 \<notin> set xs" "distinct xs"
    "length xs + n = kTbIdxWays"
proof
  show "ways w = ways w" "w = ways w @ replicate (kTbIdxWays - length (ways w)) 0" "distinct (ways w)"
    using assms by (auto simp: ways_ok_def)
  show "0 \<notin> set (ways w)" unfolding ways_def by (metis set_takeWhileD)
  show "length (ways w) + (kTbIdxWays - length (ways w)) = kTbIdxWays"
    using assms length_takeWhile_le [of "\<lambda>v. v \<noteq> 0" w] by (auto simp: ways_ok_def ways_def)
qed

lemma way_remove_ok:
  assumes "ways_ok w" "v \<noteq> 0"
  shows "ways_ok (way_remove v w) \<and> ways (way_remove v w) = remove1 v (ways w)"
proof -
  from assms(1) obtain xs n where w: "ways w = xs" "w = xs @ replicate n 0" "0 \<notin> set xs" "distinct xs"
    "length xs + n = kTbIdxWays" by (rule ways_okE)
  show ?thesis
  proof (cases "v \<in> set xs")
    case True
    have "way_remove v w = remove1 v xs @ replicate (Suc n) 0"
      using True by (simp add: way_remove_def w(2) remove1_append replicate_append_same)
    moreover have "length (remove1 v xs) + Suc n = kTbIdxWays"
      unfolding length_remove1 if_P [OF True] using w(5) length_pos_if_in_set [OF True] by arith
    ultimately show ?thesis unfolding w(1)
      using w(3,4) notin_set_remove1 distinct_remove1 by (intro ways_okI [where n = "Suc n"]) auto
  next
    case False
    then have "v \<notin> set w" using w(2) assms(2) by simp
    then show ?thesis using False assms(1) w(1) by (simp add: way_remove_def remove1_idem)
  qed
qed

lemma way_insert_ok:
  assumes "ways_ok w" "v \<noteq> 0"
  defines "x \<equiv> w ! way_pos v w"
  shows "ways_ok (way_insert v w)" "v \<in> set (ways (way_insert v w))"
    "set (ways (way_insert v w)) \<subseteq> insert v (set (ways w))"
    "x = v \<or> x = 0 \<Longrightarrow> set (ways w) \<subseteq> set (ways (way_insert v w))"
proof -
  from assms(1) obtain xs n where w: "ways w = xs" "w = xs @ replicate n 0" "0 \<notin> set xs" "distinct xs"
    "length xs + n = kTbIdxWays" by (rule ways_okE)
  have tt: "takeWhile P (take k ys) = take k (takeWhile P ys)" for P k and ys :: "nat list"
    by (induction ys arbitrary: k) (auto simp: take_Cons')
  have pos: "way_pos v w = min 7 (length (takeWhile (\<lambda>x. x \<noteq> v \<and> x \<noteq> 0) w))"
    unfolding way_pos_def tt by simp
  have ok: "ways_ok (way_insert v w) \<and> ways (way_insert v w) = ys"
    if "way_insert v w = ys @ replicate k 0" "0 \<notin> set ys" "distinct ys" "length ys + k = kTbIdxWays" for ys k
    using that by (rule ways_okI)
  have main: "ways_ok (way_insert v w) \<and> v \<in> set (ways (way_insert v w)) \<and>
    set (ways (way_insert v w)) \<subseteq> insert v (set xs) \<and>
    (x = v \<or> x = 0 \<longrightarrow> set xs \<subseteq> set (ways (way_insert v w)))"
  proof (cases "v \<in> set xs")
    case True
    then obtain as bs where ab: "xs = as @ v # bs" "v \<notin> set as" by (metis split_list_first)
    then have as: "0 \<notin> set as" "length as \<le> 7" using w(3,5) by auto
    then have "takeWhile (\<lambda>x. x \<noteq> v \<and> x \<noteq> 0) w = as"
      unfolding w(2) ab(1) using ab(2) by (induction as) auto
    then have "way_pos v w = length as" using pos as(2) by simp
    then have "way_insert v w = (v # as @ bs) @ replicate n 0"
      by (simp add: way_insert_def w(2) ab(1))
    then show ?thesis using ok [of "v # as @ bs" n] w(3-5) ab assms(2) by auto
  next
    case False
    then have tw: "takeWhile (\<lambda>x. x \<noteq> v \<and> x \<noteq> 0) w = xs"
      unfolding w(2) using w(3) by (induction xs) (auto simp: takeWhile_replicate)
    show ?thesis
    proof (cases n)
      case (Suc m)
      then have "way_pos v w = length xs" using pos tw w(5) by simp
      then have "way_insert v w = (v # xs) @ replicate m 0"
        by (simp add: way_insert_def w(2) Suc)
      then show ?thesis using ok [of "v # xs" m] w(3-5) False assms(2) Suc by auto
    next
      case 0
      then have p: "way_pos v w = 7" "length xs = 8" using pos tw w(5) by auto
      then have "way_insert v w = (v # take 7 xs) @ replicate 0 0"
        by (simp add: way_insert_def w(2) 0)
      then have "ways_ok (way_insert v w) \<and> ways (way_insert v w) = v # take 7 xs"
        using p w(3-5) False assms(2) by (intro ok) (auto dest: in_set_takeD)
      moreover have "x = xs ! 7" using p by (simp add: x_def w(2) 0)
      then have "x \<in> set xs" using p by simp
      then have "x \<noteq> v \<and> x \<noteq> 0" using False w(3) by metis
      ultimately show ?thesis by (auto dest: in_set_takeD)
    qed
  qed
  then show "ways_ok (way_insert v w)" "v \<in> set (ways (way_insert v w))"
    "set (ways (way_insert v w)) \<subseteq> insert v (set (ways w))"
    "x = v \<or> x = 0 \<Longrightarrow> set (ways w) \<subseteq> set (ways (way_insert v w))"
    unfolding w(1) by blast+
qed


section \<open>The index of one buffer\<close>

text \<open>
  The index reflects the slots \<open>L\<close>: an occupied way names such a slot, of an 8 KB page whose
  set it is in; a slot of an 8 KB page is in its set, unless the set is marked as having lost
  one; and the slots of larger pages are counted.
\<close>

definition idx_inv :: "nat set \<Rightarrow> (nat \<Rightarrow> STBEntry) \<Rightarrow> (nat \<Rightarrow> nat list) \<Rightarrow> (nat \<Rightarrow> bool) \<Rightarrow> int \<Rightarrow> bool" where
  "idx_inv L ent idx lost gh \<longleftrightarrow>
     L \<subseteq> {..<TB_ENTRIES} \<and>
     (\<forall>x. ways_ok (idx x)) \<and>
     (\<forall>x. \<forall>v\<in>set (ways (idx x)). v \<noteq> 0 \<and> v - 1 \<in> L \<and> tb_idx_8k (tb_match_mask (ent (v - 1)))
        \<and> tb_idx_set (tb_virt (ent (v - 1))) = x) \<and>
     (\<forall>j\<in>L. tb_idx_8k (tb_match_mask (ent j)) \<longrightarrow>
        Suc j \<in> set (ways (idx (tb_idx_set (tb_virt (ent j))))) \<or> lost (tb_idx_set (tb_virt (ent j)))) \<and>
     gh = int (card {j \<in> L. \<not> tb_idx_8k (tb_match_mask (ent j))})"

lemma idx_invD:
  assumes "idx_inv L ent idx lost gh"
  shows "L \<subseteq> {..<TB_ENTRIES}" "ways_ok (idx x)"
    "v \<in> set (ways (idx x)) \<Longrightarrow> v \<noteq> 0 \<and> v - 1 \<in> L \<and> tb_idx_8k (tb_match_mask (ent (v - 1)))
       \<and> tb_idx_set (tb_virt (ent (v - 1))) = x"
    "j \<in> L \<Longrightarrow> tb_idx_8k (tb_match_mask (ent j)) \<Longrightarrow>
       Suc j \<in> set (ways (idx (tb_idx_set (tb_virt (ent j))))) \<or> lost (tb_idx_set (tb_virt (ent j)))"
    "gh = int (card {j \<in> L. \<not> tb_idx_8k (tb_match_mask (ent j))})"
  using assms unfolding idx_inv_def by blast+

lemma idx_invI:
  assumes "L \<subseteq> {..<TB_ENTRIES}" "\<And>x. ways_ok (idx x)"
    "\<And>x v. v \<in> set (ways (idx x)) \<Longrightarrow> v \<noteq> 0 \<and> v - 1 \<in> L \<and> tb_idx_8k (tb_match_mask (ent (v - 1)))
       \<and> tb_idx_set (tb_virt (ent (v - 1))) = x"
    "\<And>j. j \<in> L \<Longrightarrow> tb_idx_8k (tb_match_mask (ent j)) \<Longrightarrow>
       Suc j \<in> set (ways (idx (tb_idx_set (tb_virt (ent j))))) \<or> lost (tb_idx_set (tb_virt (ent j)))"
    "gh = int (card {j \<in> L. \<not> tb_idx_8k (tb_match_mask (ent j))})"
  shows "idx_inv L ent idx lost gh"
  unfolding idx_inv_def using assms by blast

lemma idx_inv_finite: "idx_inv L ent idx lost gh \<Longrightarrow> finite L"
  by (meson idx_invD(1) finite_lessThan finite_subset)

lemma idx_inv_entry: "j \<notin> L \<Longrightarrow> idx_inv L ent idx lost gh \<Longrightarrow> idx_inv L (ent(j := e)) idx lost gh"
proof -
  assume j: "j \<notin> L" and I: "idx_inv L ent idx lost gh"
  have "{i \<in> L. \<not> tb_idx_8k (tb_match_mask ((ent(j := e)) i))} = {i \<in> L. \<not> tb_idx_8k (tb_match_mask (ent i))}"
    using j by auto
  moreover have "(ent(j := e)) i = ent i" if "i \<in> L" for i using that j by auto
  ultimately show ?thesis using I unfolding idx_inv_def by metis
qed

lemma idx_inv_insert:
  assumes I: "idx_inv L ent idx lost gh" and j: "j < TB_ENTRIES" "tb_idx_8k (tb_match_mask (ent j))"
    and x: "x = tb_idx_set (tb_virt (ent j))"
    and l: "l = (let y = idx x ! way_pos (Suc j) (idx x) in if y \<noteq> Suc j \<and> y \<noteq> 0 then lost(x := True) else lost)"
  shows "idx_inv (insert j L) ent (idx(x := way_insert (Suc j) (idx x))) l gh"
proof -
  note ins = way_insert_ok [OF idx_invD(2) [OF I, of x], of "Suc j"]
  let ?w = "way_insert (Suc j) (idx x)"
  have l': "lost y \<Longrightarrow> l y" for y unfolding l Let_def by auto
  have keep: "set (ways (idx x)) \<subseteq> set (ways ?w) \<or> l x"
    using ins(4) unfolding l Let_def by auto
  have c: "{i \<in> insert j L. \<not> tb_idx_8k (tb_match_mask (ent i))} = {i \<in> L. \<not> tb_idx_8k (tb_match_mask (ent i))}"
    using j(2) by auto
  show ?thesis
  proof (rule idx_invI)
  show "ways_ok ((idx(x := ?w)) y)" for y using ins(1) idx_invD(2) [OF I] by auto
  show "v \<noteq> 0 \<and> v - 1 \<in> insert j L \<and> tb_idx_8k (tb_match_mask (ent (v - 1))) \<and> tb_idx_set (tb_virt (ent (v - 1))) = y"
    if "v \<in> set (ways ((idx(x := ?w)) y))" for v y
  proof (cases "v = Suc j \<and> y = x")
    case False
    then have "v \<in> set (ways (idx y))" using that ins(3) by (auto split: if_splits)
    then show ?thesis using idx_invD(3) [OF I, of v y] by blast
  qed (use j x in auto)
  show "Suc i \<in> set (ways ((idx(x := ?w)) (tb_idx_set (tb_virt (ent i))))) \<or> l (tb_idx_set (tb_virt (ent i)))"
    if "i \<in> insert j L" "tb_idx_8k (tb_match_mask (ent i))" for i
  proof (cases "i = j")
    case True
    then show ?thesis using ins(2) x by simp
  next
    case False
    then show ?thesis using that idx_invD(4) [OF I, of i] keep l' by (auto split: if_splits)
  qed
  show "insert j L \<subseteq> {..<TB_ENTRIES}" using idx_invD(1) [OF I] j(1) by auto
  show "gh = int (card {i \<in> insert j L. \<not> tb_idx_8k (tb_match_mask (ent i))})"
    unfolding c by (rule idx_invD(5) [OF I])
  qed
qed

lemma idx_inv_remove:
  assumes I: "idx_inv L ent idx lost gh" and j: "j \<in> L" "tb_idx_8k (tb_match_mask (ent j))"
    and x: "x = tb_idx_set (tb_virt (ent j))"
  shows "idx_inv (L - {j}) ent (idx(x := way_remove (Suc j) (idx x))) lost gh"
proof -
  have rem: "ways_ok (way_remove (Suc j) (idx x))"
    "ways (way_remove (Suc j) (idx x)) = remove1 (Suc j) (ways (idx x))"
    using way_remove_ok [OF idx_invD(2) [OF I, of x], of "Suc j"] by simp_all
  have d: "distinct (ways (idx x))" using idx_invD(2) [OF I, of x] by (simp add: ways_ok_def)
  let ?idx = "idx(x := way_remove (Suc j) (idx x))"
  have sub: "v \<in> set (ways (idx y)) \<and> (y = x \<longrightarrow> v \<noteq> Suc j)" if "v \<in> set (ways (?idx y))" for v y
    using that d unfolding fun_upd_apply by (auto simp: rem(2) set_remove1_eq split: if_splits)
  have sup: "v \<in> set (ways (?idx y))" if "v \<in> set (ways (idx y))" "v \<noteq> Suc j" for v y
    using that d by (auto simp: rem(2) set_remove1_eq)
  have c: "{i \<in> L - {j}. \<not> tb_idx_8k (tb_match_mask (ent i))} = {i \<in> L. \<not> tb_idx_8k (tb_match_mask (ent i))}"
    using j(2) by auto
  show ?thesis
  proof (rule idx_invI)
  show "ways_ok (?idx y)" for y using rem(1) idx_invD(2) [OF I] by auto
  show "v \<noteq> 0 \<and> v - 1 \<in> L - {j} \<and> tb_idx_8k (tb_match_mask (ent (v - 1))) \<and> tb_idx_set (tb_virt (ent (v - 1))) = y"
    if "v \<in> set (ways (?idx y))" for v y
    using sub [OF that] idx_invD(3) [OF I, of v y] x by (cases v) auto
  show "Suc i \<in> set (ways (?idx (tb_idx_set (tb_virt (ent i))))) \<or> lost (tb_idx_set (tb_virt (ent i)))"
    if "i \<in> L - {j}" "tb_idx_8k (tb_match_mask (ent i))" for i
    using that idx_invD(4) [OF I, of i] sup [of "Suc i"] by blast
  show "L - {j} \<subseteq> {..<TB_ENTRIES}" using idx_invD(1) [OF I] by auto
  show "gh = int (card {i \<in> L - {j}. \<not> tb_idx_8k (tb_match_mask (ent i))})"
    unfolding c by (rule idx_invD(5) [OF I])
  qed
qed

lemma idx_inv_count:
  assumes I: "idx_inv L ent idx lost gh" and j: "\<not> tb_idx_8k (tb_match_mask (ent j))"
  shows "j \<notin> L \<Longrightarrow> j < TB_ENTRIES \<Longrightarrow> idx_inv (insert j L) ent idx lost (gh + 1)"
    and "j \<in> L \<Longrightarrow> idx_inv (L - {j}) ent idx lost (gh - 1)"
proof -
  let ?B = "\<lambda>L. {i \<in> L. \<not> tb_idx_8k (tb_match_mask (ent i))}"
  have f: "finite (?B L)" using idx_inv_finite [OF I] by simp
  have no: "v - 1 \<noteq> j" if "v \<in> set (ways (idx x))" for v x
    using idx_invD(3) [OF I that] j by blast
  {
    assume jL: "j \<notin> L" and jn: "j < TB_ENTRIES"
    have "?B (insert j L) = insert j (?B L)" using j by auto
    then have "int (card (?B (insert j L))) = gh + 1" using f jL idx_invD(5) [OF I] by simp
    then show "idx_inv (insert j L) ent idx lost (gh + 1)"
      using I jn j unfolding idx_inv_def by auto
  }
  {
    assume jL: "j \<in> L"
    have "?B (L - {j}) = ?B L - {j}" by auto
    moreover have "j \<in> ?B L" using jL j by simp
    ultimately have "int (card (?B (L - {j}))) = gh - 1"
      using f idx_invD(5) [OF I] card_Suc_Diff1 [of "?B L" j] by simp
    then show "idx_inv (L - {j}) ent idx lost (gh - 1)"
      using I no unfolding idx_inv_def by auto
  }
qed


section \<open>The buffers\<close>

text \<open>The slots of buffer \<open>t\<close> that hold a translation, and the index kept for the slots \<open>L\<close>.\<close>

definition live :: "tbs \<Rightarrow> nat \<Rightarrow> nat set" where
  "live s t = {j. j < TB_ENTRIES \<and> tb_valid (tb_entry s t j)}"

definition ix :: "tbs \<Rightarrow> nat \<Rightarrow> nat set \<Rightarrow> bool" where
  "ix s t L \<longleftrightarrow> idx_inv L (tb_entry s t) (tb_idx s t) (tb_lost s t) (tb_gh_live s t)"

named_theorems tb_frame \<open>what the steps of a translation buffer operation leave alone\<close>

lemma tb_idx_insert_frame [tb_frame]:
  "tb_entry (tb_idx_insert s t v i) = tb_entry s" "tb_next (tb_idx_insert s t v i) = tb_next s"
  "tb_last (tb_idx_insert s t v i) = tb_last s" "tb_shadow (tb_idx_insert s t v i) = tb_shadow s"
  "tb_gh_live (tb_idx_insert s t v i) = tb_gh_live s" "tb_dpc_keep (tb_idx_insert s t v i) = tb_dpc_keep s"
  "asn (tb_idx_insert s t v i) = asn s" "asn0 (tb_idx_insert s t v i) = asn0 s" "asn1 (tb_idx_insert s t v i) = asn1 s"
  by (simp_all add: tb_idx_insert_def Let_def)

lemma tb_idx_drop_frame [tb_frame]:
  "tb_entry (tb_idx_drop s t i) = tb_entry s" "tb_next (tb_idx_drop s t i) = tb_next s"
  "tb_last (tb_idx_drop s t i) = tb_last s" "tb_shadow (tb_idx_drop s t i) = tb_shadow s"
  "tb_dpc_keep (tb_idx_drop s t i) = tb_dpc_keep s" "tb_lost (tb_idx_drop s t i) = tb_lost s"
  "asn (tb_idx_drop s t i) = asn s" "asn0 (tb_idx_drop s t i) = asn0 s" "asn1 (tb_idx_drop s t i) = asn1 s"
  by (simp_all add: tb_idx_drop_def tb_idx_remove_def Let_def)

lemma tb_idx_add_frame [tb_frame]:
  "tb_entry (tb_idx_add s t i) = tb_entry s" "tb_next (tb_idx_add s t i) = tb_next s"
  "tb_last (tb_idx_add s t i) = tb_last s" "tb_shadow (tb_idx_add s t i) = tb_shadow s"
  "tb_dpc_keep (tb_idx_add s t i) = tb_dpc_keep s"
  "asn (tb_idx_add s t i) = asn s" "asn0 (tb_idx_add s t i) = asn0 s" "asn1 (tb_idx_add s t i) = asn1 s"
  by (simp_all add: tb_idx_add_def tb_frame)

lemma set_entry_frame [tb_frame]:
  "tb_entry (set_entry s t i e) = (tb_entry s)(t := (tb_entry s t)(i := e))"
  "tb_next (set_entry s t i e) = tb_next s" "tb_last (set_entry s t i e) = tb_last s"
  "tb_shadow (set_entry s t i e) = tb_shadow s" "tb_idx (set_entry s t i e) = tb_idx s"
  "tb_lost (set_entry s t i e) = tb_lost s" "tb_gh_live (set_entry s t i e) = tb_gh_live s"
  "tb_dpc_keep (set_entry s t i e) = tb_dpc_keep s"
  "asn (set_entry s t i e) = asn s" "asn0 (set_entry s t i e) = asn0 s" "asn1 (set_entry s t i e) = asn1 s"
  by (simp_all add: set_entry_def)

lemma set_last_frame [tb_frame]:
  "tb_entry (set_last s t r i) = tb_entry s" "tb_next (set_last s t r i) = tb_next s"
  "tb_last (set_last s t r i) = (tb_last s)(t := (tb_last s t)(r := i))"
  "tb_shadow (set_last s t r i) = tb_shadow s" "tb_idx (set_last s t r i) = tb_idx s"
  "tb_lost (set_last s t r i) = tb_lost s" "tb_gh_live (set_last s t r i) = tb_gh_live s"
  "tb_dpc_keep (set_last s t r i) = tb_dpc_keep s"
  "asn (set_last s t r i) = asn s" "asn0 (set_last s t r i) = asn0 s" "asn1 (set_last s t r i) = asn1 s"
  by (simp_all add: set_last_def)

lemma flush_frame [tb_frame]:
  "tb_entry (flush_range s v k) = tb_entry s" "tb_next (flush_range s v k) = tb_next s"
  "tb_last (flush_range s v k) = tb_last s" "tb_shadow (flush_range s v k) = tb_shadow s"
  "tb_idx (flush_range s v k) = tb_idx s" "tb_lost (flush_range s v k) = tb_lost s"
  "tb_gh_live (flush_range s v k) = tb_gh_live s" "tb_dpc_keep (flush_range s v k) = tb_dpc_keep s"
  "asn (flush_range s v k) = asn s" "asn0 (flush_range s v k) = asn0 s" "asn1 (flush_range s v k) = asn1 s"
  "tb_entry (flush_all s) = tb_entry s" "tb_next (flush_all s) = tb_next s"
  "tb_last (flush_all s) = tb_last s" "tb_shadow (flush_all s) = tb_shadow s"
  "tb_idx (flush_all s) = tb_idx s" "tb_lost (flush_all s) = tb_lost s"
  "tb_gh_live (flush_all s) = tb_gh_live s" "tb_dpc_keep (flush_all s) = tb_dpc_keep s"
  "asn (flush_all s) = asn s" "asn0 (flush_all s) = asn0 s" "asn1 (flush_all s) = asn1 s"
  by (simp_all add: flush_range_def flush_all_def)

lemma drop_unmapped_frame [tb_frame]:
  "tb_entry (drop_unmapped_page s e) = tb_entry s" "tb_next (drop_unmapped_page s e) = tb_next s"
  "tb_last (drop_unmapped_page s e) = tb_last s" "tb_shadow (drop_unmapped_page s e) = tb_shadow s"
  "tb_idx (drop_unmapped_page s e) = tb_idx s" "tb_lost (drop_unmapped_page s e) = tb_lost s"
  "tb_gh_live (drop_unmapped_page s e) = tb_gh_live s" "tb_dpc_keep (drop_unmapped_page s e) = tb_dpc_keep s"
  "asn (drop_unmapped_page s e) = asn s" "asn0 (drop_unmapped_page s e) = asn0 s" "asn1 (drop_unmapped_page s e) = asn1 s"
  by (simp_all add: drop_unmapped_page_def tb_frame)

text \<open>What each step does to the index, on its own buffer and on the other one.\<close>

lemma ix_insert:
  assumes "ix s t L" "j < TB_ENTRIES" "tb_idx_8k (tb_match_mask (tb_entry s t j))"
  shows "ix (tb_idx_insert s t (tb_virt (tb_entry s t j)) j) t (insert j L)"
proof -
  let ?x = "tb_idx_set (tb_virt (tb_entry s t j))"
  let ?l = "let y = tb_idx s t ?x ! way_pos (Suc j) (tb_idx s t ?x)
    in if y \<noteq> Suc j \<and> y \<noteq> 0 then (tb_lost s t)(?x := True) else tb_lost s t"
  have "idx_inv (insert j L) (tb_entry s t) ((tb_idx s t)(?x := way_insert (Suc j) (tb_idx s t ?x))) ?l (tb_gh_live s t)"
    using assms unfolding ix_def by (intro idx_inv_insert) auto
  then show ?thesis by (auto simp: ix_def tb_idx_insert_def Let_def split: if_splits)
qed

lemma ix_add:
  assumes "ix s t L" "j < TB_ENTRIES" "j \<notin> L"
  shows "ix (tb_idx_add s t j) t (insert j L)"
proof (cases "tb_idx_8k (tb_match_mask (tb_entry s t j))")
  case True
  then show ?thesis using ix_insert [OF assms(1,2)] by (simp add: tb_idx_add_def)
next
  case False
  then show ?thesis using assms idx_inv_count(1) by (simp add: tb_idx_add_def ix_def)
qed

lemma ix_drop:
  assumes "ix s t L" "j \<in> L"
  shows "ix (tb_idx_drop s t j) t (L - {j})"
proof (cases "tb_idx_8k (tb_match_mask (tb_entry s t j))")
  case True
  then show ?thesis using assms idx_inv_remove [where ent = "tb_entry s t", OF _ assms(2) True refl]
    by (simp add: tb_idx_drop_def tb_idx_remove_def ix_def Let_def)
next
  case False
  then show ?thesis using assms idx_inv_count(2) by (simp add: tb_idx_drop_def ix_def)
qed

lemma ix_set_entry: "ix s t L \<Longrightarrow> j \<notin> L \<Longrightarrow> ix (set_entry s t j e) t L"
  by (simp add: ix_def tb_frame idx_inv_entry)

lemma ix_invalidate: "ix (set_entry s t j (invalidate (tb_entry s t j))) t L \<longleftrightarrow> ix s t L"
proof -
  have "tb_match_mask (((tb_entry s t)(j := invalidate (tb_entry s t j))) i) = tb_match_mask (tb_entry s t i)"
    "tb_virt (((tb_entry s t)(j := invalidate (tb_entry s t j))) i) = tb_virt (tb_entry s t i)" for i
    by (simp_all add: invalidate_def)
  then show ?thesis by (simp only: ix_def idx_inv_def tb_frame fun_upd_same)
qed

lemma ix_other:
  assumes "t' \<noteq> t"
  shows "ix (tb_idx_insert s t v j) t' L \<longleftrightarrow> ix s t' L" "ix (tb_idx_add s t j) t' L \<longleftrightarrow> ix s t' L"
    "ix (tb_idx_drop s t j) t' L \<longleftrightarrow> ix s t' L" "ix (set_entry s t j e) t' L \<longleftrightarrow> ix s t' L"
  using assms
  by (simp_all add: ix_def tb_idx_insert_def tb_idx_add_def tb_idx_drop_def tb_idx_remove_def set_entry_def Let_def)

lemma ix_cong:
  "tb_entry s' t = tb_entry s t \<Longrightarrow> tb_idx s' t = tb_idx s t \<Longrightarrow> tb_lost s' t = tb_lost s t \<Longrightarrow>
   tb_gh_live s' t = tb_gh_live s t \<Longrightarrow> ix s' t L \<longleftrightarrow> ix s t L"
  by (simp add: ix_def)

lemma tb_drop_slot_frame [tb_frame]:
  "tb_entry (tb_drop_slot s t i) = (tb_entry s)(t := (tb_entry s t)(i := invalidate (tb_entry s t i)))"
  "tb_next (tb_drop_slot s t i) = tb_next s" "tb_last (tb_drop_slot s t i) = tb_last s"
  "tb_shadow (tb_drop_slot s t i) = tb_shadow s" "tb_dpc_keep (tb_drop_slot s t i) = tb_dpc_keep s"
  "asn (tb_drop_slot s t i) = asn s" "asn0 (tb_drop_slot s t i) = asn0 s" "asn1 (tb_drop_slot s t i) = asn1 s"
  by (simp_all add: tb_drop_slot_def tb_frame)

section \<open>The invariant\<close>

definition entry_ok :: "STBEntry \<Rightarrow> bool" where
  "entry_ok e \<longleftrightarrow> tb_virt e AND tb_match_mask e = tb_virt e \<and>
     (tb_match_mask e = GH_0_MATCH \<or> \<not> tb_idx_8k (tb_match_mask e))"

definition tb_inv :: "tbs \<Rightarrow> nat \<Rightarrow> bool" where
  "tb_inv s t \<longleftrightarrow> ix s t (live s t) \<and> (\<forall>j\<in>live s t. entry_ok (tb_entry s t j)) \<and>
     tb_next s t < TB_ENTRIES \<and> tb_last s t 0 < TB_ENTRIES \<and> tb_last s t 1 < TB_ENTRIES"

definition shadow_ok :: "tbs \<Rightarrow> bool" where
  "shadow_ok s \<longleftrightarrow> (\<forall>k. tb_valid (tb_shadow s k) \<longrightarrow>
     entry_ok (tb_shadow s k) \<and> tb_match_mask (tb_shadow s k) = GH_0_MATCH)"

definition tb_ok :: "tbs \<Rightarrow> bool" where
  "tb_ok s \<longleftrightarrow> tb_inv s 0 \<and> tb_inv s 1 \<and> shadow_ok s"


lemma gh_masks_ok:
  "entry_ok (make_entry virt pp pf as)" "tb_valid (make_entry virt pp pf as)"
  "tb_match_mask (make_entry virt pp pf as) = fst (gh_masks pf)"
  "tb_virt (make_entry virt pp pf as) = virt AND fst (gh_masks pf)"
  "tb_asn (make_entry virt pp pf as) = as"
  by (simp_all add: make_entry_def entry_ok_def gh_masks_def tb_idx_8k_def and.assoc)

lemma entry_ok_8k: "entry_ok e \<Longrightarrow> tb_idx_8k (tb_match_mask e) \<longleftrightarrow> tb_match_mask e = GH_0_MATCH"
  by (auto simp: entry_ok_def tb_idx_8k_def)

text \<open>The state after a step that changed only the buffer \<open>t\<close>.\<close>

lemma tb_inv_cong:
  assumes "tb_entry s' t = tb_entry s t" "tb_idx s' t = tb_idx s t" "tb_lost s' t = tb_lost s t"
    "tb_gh_live s' t = tb_gh_live s t" "tb_next s' t = tb_next s t" "tb_last s' t = tb_last s t"
  shows "tb_inv s' t \<longleftrightarrow> tb_inv s t"
  using assms by (simp add: tb_inv_def ix_def live_def)

lemma live_drop: "live (tb_drop_slot s t j) t = live s t - {j}"
  by (auto simp: live_def tb_frame invalidate_def)

lemma tb_inv_drop_slot:
  assumes "tb_inv s t" "j \<in> live s t"
  shows "tb_inv (tb_drop_slot s t j) t"
proof -
  have "ix (set_entry s t j (invalidate (tb_entry s t j))) t (live s t)"
    using assms(1) by (simp add: ix_invalidate tb_inv_def)
  from ix_drop [OF this assms(2)] have "ix (tb_drop_slot s t j) t (live (tb_drop_slot s t j) t)"
    unfolding live_drop by (simp add: tb_drop_slot_def)
  moreover have "\<forall>i\<in>live (tb_drop_slot s t j) t. entry_ok (tb_entry (tb_drop_slot s t j) t i)"
    unfolding live_drop using assms(1) by (auto simp: tb_frame tb_inv_def)
  ultimately show ?thesis using assms(1) by (simp add: tb_inv_def tb_frame)
qed

lemma tb_inv_drop_other: "t' \<noteq> t \<Longrightarrow> tb_inv (tb_drop_slot s t j) t' \<longleftrightarrow> tb_inv s t'"
  by (simp add: tb_inv_def tb_frame live_def tb_drop_slot_def ix_other)

lemma tb_ok_drop_slot: "tb_ok s \<Longrightarrow> j \<in> live s t \<Longrightarrow> t < 2 \<Longrightarrow> tb_ok (tb_drop_slot s t j)"
  using tb_inv_drop_slot [of s t j] tb_inv_drop_other [of 0 t s j] tb_inv_drop_other [of 1 t s j]
  by (cases "t = 0"; cases "t = 1") (auto simp: tb_ok_def shadow_ok_def tb_frame)

lemma tb_ok_flush [simp]: "tb_ok (flush_range s v k) \<longleftrightarrow> tb_ok s" "tb_ok (flush_all s) \<longleftrightarrow> tb_ok s"
  "tb_ok (drop_unmapped_page s e) \<longleftrightarrow> tb_ok s"
  by (simp_all add: tb_ok_def tb_inv_def ix_def live_def shadow_ok_def tb_frame)

lemma tb_ok_set_last: "tb_ok s \<Longrightarrow> i < TB_ENTRIES \<Longrightarrow> tb_ok (set_last s t r i)"
  by (auto simp: tb_ok_def tb_inv_def ix_def live_def shadow_ok_def tb_frame)

text \<open>A slot of the index set moves to the front of its set.\<close>

lemma tb_ok_insert:
  assumes "tb_ok s" "t < 2" "j \<in> live s t" "tb_idx_8k (tb_match_mask (tb_entry s t j))"
  shows "tb_ok (tb_idx_insert s t (tb_virt (tb_entry s t j)) j)"
proof -
  let ?s = "tb_idx_insert s t (tb_virt (tb_entry s t j)) j"
  have l: "live ?s t' = live s t'" for t' by (simp add: live_def tb_frame)
  have "ix ?s t (insert j (live s t))" if "tb_inv s t"
    using that assms(3,4) by (intro ix_insert) (auto simp: tb_inv_def live_def)
  then have "tb_inv s t \<Longrightarrow> tb_inv ?s t"
    using assms(3) by (auto simp: tb_inv_def l tb_frame insert_absorb)
  moreover have "tb_inv ?s t' \<longleftrightarrow> tb_inv s t'" if "t' \<noteq> t" for t'
    using that by (simp add: tb_inv_def l tb_frame ix_other)
  ultimately have "tb_inv s t' \<Longrightarrow> tb_inv ?s t'" for t' by metis
  then show ?thesis using assms(1) by (auto simp: tb_ok_def shadow_ok_def tb_frame)
qed

text \<open>
  A slot is refilled: the translation in it, if any, leaves the index, the new one is written
  and enters it.
\<close>

lemma ix_refill:
  assumes "ix s t (live s t)" "i < TB_ENTRIES" "tb_valid e"
  defines "s1 \<equiv> (if tb_valid (tb_entry s t i) then tb_idx_drop s t i else s)"
  shows "ix (tb_idx_add (set_entry s1 t i e) t i) t (insert i (live s t))"
proof -
  have "ix s1 t (live s t - {i})"
    using assms(1,2) ix_drop [of s t "live s t" i] by (auto simp: s1_def live_def)
  then have "ix (set_entry s1 t i e) t (live s t - {i})" by (intro ix_set_entry) auto
  from ix_add [OF this assms(2)] show ?thesis by simp
qed


text \<open>\<open>add_tb\<close> writes the slot before it takes the old page out of the index; the order does not matter.\<close>

lemma drop_after_write:
  assumes "entry_ok (tb_entry s t i)"
  shows "(if tb_match_mask (tb_entry s t i) = GH_0_MATCH
          then tb_idx_remove (set_entry s t i e) t (tb_virt (tb_entry s t i)) i
          else (set_entry s t i e)\<lparr>tb_gh_live := (tb_gh_live (set_entry s t i e))(t := tb_gh_live (set_entry s t i e) t - 1)\<rparr>)
       = set_entry (tb_idx_drop s t i) t i e"
  using entry_ok_8k [OF assms] by (simp add: tb_idx_drop_def tb_idx_remove_def set_entry_def Let_def)

definition refill_slot :: "tbs \<Rightarrow> nat \<Rightarrow> nat \<Rightarrow> STBEntry \<Rightarrow> tbs" where
  "refill_slot s t i e =
     tb_idx_add (set_entry (if tb_valid (tb_entry s t i) then tb_idx_drop s t i else s) t i e) t i"

lemma refill_slot_frame [tb_frame]:
  "tb_entry (refill_slot s t i e) = (tb_entry s)(t := (tb_entry s t)(i := e))"
  "tb_next (refill_slot s t i e) = tb_next s" "tb_last (refill_slot s t i e) = tb_last s"
  "tb_shadow (refill_slot s t i e) = tb_shadow s" "tb_dpc_keep (refill_slot s t i e) = tb_dpc_keep s"
  "asn (refill_slot s t i e) = asn s" "asn0 (refill_slot s t i e) = asn0 s" "asn1 (refill_slot s t i e) = asn1 s"
  by (simp_all add: refill_slot_def tb_frame)

lemma tb_ok_refill_slot:
  assumes "tb_ok s" "t < 2" "i < TB_ENTRIES" "tb_valid e" "entry_ok e"
  shows "tb_ok (refill_slot s t i e)"
proof -
  have "tb_inv (refill_slot s t i e) t" if I: "tb_inv s t"
  proof -
    have "live (refill_slot s t i e) t = insert i (live s t)"
      using assms(3,4) by (auto simp: live_def tb_frame)
    moreover have "ix (refill_slot s t i e) t (insert i (live s t))"
      using I assms(3,4) ix_refill by (simp add: refill_slot_def tb_inv_def)
    ultimately show ?thesis using I assms(5) by (auto simp: tb_inv_def tb_frame)
  qed
  moreover have "tb_inv (refill_slot s t i e) t' \<longleftrightarrow> tb_inv s t'" if "t' \<noteq> t" for t'
    using that by (simp add: tb_inv_def tb_frame live_def) (simp add: refill_slot_def ix_other)
  ultimately have "tb_inv s t' \<Longrightarrow> tb_inv (refill_slot s t i e) t'" for t' by metis
  then show ?thesis using assms(1) by (auto simp: tb_ok_def shadow_ok_def tb_frame)
qed

lemma tb_ok_next: "tb_ok s \<Longrightarrow> tb_ok (s\<lparr>tb_next := (tb_next s)(t := next_slot (tb_next s t))\<rparr>)"
  by (auto simp: tb_ok_def tb_inv_def ix_def live_def shadow_ok_def next_slot_def)

lemma tb_ok_shadow: "tb_ok s \<Longrightarrow> (tb_valid e \<Longrightarrow> entry_ok e \<and> tb_match_mask e = GH_0_MATCH) \<Longrightarrow>
    tb_ok (s\<lparr>tb_shadow := (tb_shadow s)(k := e)\<rparr>)"
  by (auto simp: tb_ok_def tb_inv_def ix_def live_def shadow_ok_def)

lemma tb_okD: "tb_ok s \<Longrightarrow> t < 2 \<Longrightarrow> tb_next s t < TB_ENTRIES" "tb_ok s \<Longrightarrow> t < 2 \<Longrightarrow> r < 2 \<Longrightarrow> tb_last s t r < TB_ENTRIES"
  "tb_ok s \<Longrightarrow> t < 2 \<Longrightarrow> tb_inv s t"
  by (auto simp: tb_ok_def tb_inv_def less_Suc_eq numeral_2_eq_2)

lemma tb_scan_Some: "tb_scan s t virt as = Some j \<Longrightarrow> j < TB_ENTRIES \<and> tb_hit (tb_entry s t j) virt as"
  by (auto simp: tb_scan_def find_Some_iff)

lemma tb_scan_None: "tb_scan s t virt as = None \<longleftrightarrow> (\<forall>j<TB_ENTRIES. \<not> tb_hit (tb_entry s t j) virt as)"
  by (auto simp: tb_scan_def find_None_iff)

text \<open>What \<open>add_tb\<close> leaves in the buffers, in the order of the code.\<close>

lemma add_tb_state:
  fixes virt pp pf :: u64 and as :: int
  assumes "tb_ok s" and t: "t = tb_of flags"
  defines "i \<equiv> (case tb_scan s t virt as of Some j \<Rightarrow> j | None \<Rightarrow> tb_next s t)"
    and "e \<equiv> make_entry virt pp pf as"
  shows "tb_ok (add_tb s virt pp pf flags as) \<and> i < TB_ENTRIES \<and>
    tb_entry (add_tb s virt pp pf flags as) = (tb_entry s)(t := (tb_entry s t)(i := e)) \<and>
    tb_last (add_tb s virt pp pf flags as) = (tb_last s)(t := (tb_last s t)(rw_of flags := i)) \<and>
    asn (add_tb s virt pp pf flags as) = asn s \<and> asn0 (add_tb s virt pp pf flags as) = asn0 s \<and>
    asn1 (add_tb s virt pp pf flags as) = asn1 s \<and>
    (tb_scan s t virt as = None \<longrightarrow> tb_next (add_tb s virt pp pf flags as) t = next_slot (tb_next s t))"
proof -
  have t2: "t < 2" by (simp add: t tb_of_def)
  define s0 where "s0 = (case tb_scan s t virt as of Some j \<Rightarrow> s
    | None \<Rightarrow> s\<lparr>tb_next := (tb_next s)(t := next_slot (tb_next s t))\<rparr>)"
  have i: "i < TB_ENTRIES"
    using tb_okD(1) [OF assms(1) t2] tb_scan_Some [of s t virt as] by (auto simp: i_def split: option.splits)
  have s0: "tb_ok s0" "tb_entry s0 = tb_entry s" "tb_last s0 = tb_last s" "asn s0 = asn s" "asn0 s0 = asn0 s" "asn1 s0 = asn1 s"
    using assms(1) tb_ok_next by (auto simp: s0_def split: option.splits)
  have scan: "(case tb_scan s t virt as of Some j \<Rightarrow> (j, s)
            | None \<Rightarrow> (tb_next s t, s\<lparr>tb_next := (tb_next s)(t := next_slot (tb_next s t))\<rparr>)) = (i, s0)"
    by (simp add: i_def s0_def split: option.splits)
  have e: "tb_valid e" "entry_ok e" "tb_match_mask e = fst (gh_masks pf)" by (simp_all add: e_def gh_masks_ok)
  define s1 where "s1 = refill_slot s0 t i e"
  have s1: "tb_ok s1" unfolding s1_def by (rule tb_ok_refill_slot) (use s0 t2 i e in auto)
  have old_ok: "tb_valid (tb_entry s0 t i) \<Longrightarrow> entry_ok (tb_entry s0 t i)"
    using tb_okD(3) [OF s0(1) t2] i by (auto simp: tb_inv_def live_def)
  have step: "tb_idx_add (if tb_valid (tb_entry s0 t i)
       then if tb_match_mask (tb_entry s0 t i) = GH_0_MATCH
            then tb_idx_remove (set_entry s0 t i e) t (tb_virt (tb_entry s0 t i)) i
            else (set_entry s0 t i e)\<lparr>tb_gh_live := (tb_gh_live (set_entry s0 t i e))(t := tb_gh_live (set_entry s0 t i e) t - 1)\<rparr>
       else set_entry s0 t i e) t i = s1"
    using drop_after_write [OF old_ok, of e] by (auto simp: s1_def refill_slot_def)
  have sh: "tb_ok (s1\<lparr>tb_shadow := (tb_shadow s1)(k := tb_entry s1 t i)\<rparr>)" if "fst (gh_masks pf) = GH_0_MATCH" for k
    using s1 e that by (intro tb_ok_shadow) (auto simp: s1_def tb_frame)
  have f: "tb_entry s1 = (tb_entry s)(t := (tb_entry s t)(i := e))" "tb_last s1 = tb_last s"
    "asn s1 = asn s" "asn0 s1 = asn0 s" "asn1 s1 = asn1 s"
    "tb_scan s t virt as = None \<longrightarrow> tb_next s1 t = next_slot (tb_next s t)"
    by (simp_all add: s1_def tb_frame s0) (simp add: s0_def)
  show ?thesis
    unfolding add_tb_def Let_def t [symmetric] scan prod.case e_def [symmetric] step
    using s1 sh i tb_ok_set_last f(6) by (auto simp: tb_frame f(1-5))
qed


section \<open>Lookup\<close>

lemma tb_hit_set:
  assumes "tb_hit e virt as" "tb_idx_8k (tb_match_mask e)"
  shows "tb_idx_set (tb_virt e) = tb_idx_set virt"
proof -
  have 1: "(tb_virt e XOR virt) AND tb_match_mask e = 0" using assms(1) by (simp add: tb_hit_def)
  have 2: "tb_match_mask e AND GH_0_MATCH = GH_0_MATCH" using assms(2) by (simp add: tb_idx_8k_def)
  have "bit (tb_virt e) n \<longleftrightarrow> bit virt n" if "13 \<le> n" "n < 24" for n
  proof -
    have "(GH_0_MATCH :: u64) = push_bit 13 (mask 35)" by (simp add: mask_eq_exp_minus_1)
    then have "bit GH_0_MATCH n" using that by (simp only: bit_push_bit_iff bit_mask_iff) auto
    then have "bit (tb_match_mask e) n" using arg_cong [OF 2, of "\<lambda>x. bit x n"] by (simp add: bit_and_iff)
    then show ?thesis using arg_cong [OF 1, of "\<lambda>x. bit x n"] by (simp add: bit_and_iff bit_xor_iff)
  qed
  then have "drop_bit 13 (tb_virt e) AND mask 11 = drop_bit 13 virt AND mask 11"
    by (intro bit_word_eqI) (auto simp: bit_and_iff bit_mask_iff bit_drop_bit_eq)
  moreover have "(mask 11 :: u64) = 2047" by (simp add: mask_eq_exp_minus_1)
  ultimately show ?thesis by (simp add: tb_idx_set_def)
qed

lemma tb_probe_Some:
  assumes "tb_inv s t" "tb_probe s t virt as = Some i"
  shows "i \<in> live s t \<and> tb_hit (tb_entry s t i) virt as"
proof -
  have "i \<in> (\<lambda>v. v - 1) ` set (ways (tb_idx s t (tb_idx_set virt)))" "tb_hit (tb_entry s t i) virt as"
    using assms(2) by (auto simp: tb_probe_def find_Some_iff ways_def)
  then show ?thesis using idx_invD(3) assms(1) by (auto simp: tb_inv_def ix_def)
qed

text \<open>A probe that finds nothing in a set that lost nothing is proof of absence.\<close>

lemma tb_probe_None:
  assumes "tb_inv s t" "tb_gh_live s t = 0" "tb_probe s t virt as = None" "\<not> tb_lost s t (tb_idx_set virt)"
  shows "tb_scan s t virt as = None"
proof -
  have I: "idx_inv (live s t) (tb_entry s t) (tb_idx s t) (tb_lost s t) (tb_gh_live s t)"
    using assms(1) by (simp add: tb_inv_def ix_def)
  have False if j: "j < TB_ENTRIES" "tb_hit (tb_entry s t j) virt as" for j
  proof -
    have jl: "j \<in> live s t" using j by (simp add: live_def tb_hit_def)
    have "{j \<in> live s t. \<not> tb_idx_8k (tb_match_mask (tb_entry s t j))} = {}"
      using idx_invD(5) [OF I] idx_inv_finite [OF I] assms(2) by simp
    then have k8: "tb_idx_8k (tb_match_mask (tb_entry s t j))" using jl by blast
    then have "Suc j \<in> set (ways (tb_idx s t (tb_idx_set virt)))"
      using idx_invD(4) [OF I jl k8] tb_hit_set [OF j(2) k8] assms(4) by simp
    then show False using assms(3) j(2) by (auto simp: tb_probe_def find_None_iff ways_def) 
  qed
  then show ?thesis unfolding tb_scan_None by blast
qed

definition shadow_hit :: "tbs \<Rightarrow> u64 \<Rightarrow> int \<Rightarrow> bool" where
  "shadow_hit s virt as \<longleftrightarrow> tb_hit (tb_shadow s (tb_shadow_index virt)) virt as"

lemma entry_ok_hit:
  assumes "entry_ok e"
  shows "tb_virt e = virt AND tb_match_mask e \<longleftrightarrow> (tb_virt e XOR virt) AND tb_match_mask e = 0"
proof -
  have "(tb_virt e XOR virt) AND tb_match_mask e = tb_virt e XOR (virt AND tb_match_mask e)"
    using assms by (simp add: entry_ok_def bit.conj_xor_distrib2)
  then show ?thesis by (simp add: xor_eq_0_iff)
qed

lemma shadow_test:
  fixes virt :: u64
  assumes "shadow_ok s"
  defines "sh \<equiv> tb_shadow s (tb_shadow_index virt)"
  shows "(\<not> tb_valid sh \<or> tb_virt sh \<noteq> virt AND tb_match_mask sh \<or> \<not> (tb_asm_bit sh \<or> tb_asn sh = as))
    \<longleftrightarrow> \<not> shadow_hit s virt as"
  using assms entry_ok_hit [of sh virt] by (auto simp: shadow_hit_def tb_hit_def shadow_ok_def sh_def)


lemma refill_from_shadow_hit:
  assumes "tb_ok s" "shadow_hit s virt as"
  shows "case tb_refill_from_shadow s virt as of (s', r) \<Rightarrow>
    tb_ok s' \<and> r = Some (tb_next s 0) \<and>
    tb_entry s' = (tb_entry s)(0 := (tb_entry s 0)(tb_next s 0 := tb_shadow s (tb_shadow_index virt))) \<and>
    tb_shadow s' = tb_shadow s \<and> tb_last s' = tb_last s \<and> asn s' = asn s \<and> asn0 s' = asn0 s \<and> asn1 s' = asn1 s"
proof -
  let ?sh = "tb_shadow s (tb_shadow_index virt)" and ?i = "tb_next s 0"
  have hit: "\<not> (\<not> tb_valid ?sh \<or> tb_virt ?sh \<noteq> virt AND tb_match_mask ?sh \<or> \<not> (tb_asm_bit ?sh \<or> tb_asn ?sh = as))"
    using shadow_test [of s virt as] assms by (simp add: tb_ok_def)
  define s1 where "s1 = s\<lparr>tb_next := (tb_next s)(0 := next_slot ?i)\<rparr>"
  define s2 where "s2 = (if tb_valid (tb_entry s 0 ?i) \<and> \<not> tb_dpc_keep s
    then flush_range s1 (tb_virt (tb_entry s 0 ?i)) (tb_match_mask (tb_entry s 0 ?i)) else s1)"
  have s1: "tb_ok s1" "tb_entry s1 = tb_entry s" "tb_dpc_keep s1 = tb_dpc_keep s" "tb_shadow s1 = tb_shadow s"
    "tb_last s1 = tb_last s" "asn s1 = asn s" "asn0 s1 = asn0 s" "asn1 s1 = asn1 s"
    using tb_ok_next [OF assms(1)] by (auto simp: s1_def)
  have s2: "tb_ok s2" "tb_entry s2 = tb_entry s" "tb_dpc_keep s2 = tb_dpc_keep s" "tb_shadow s2 = tb_shadow s"
    "tb_last s2 = tb_last s" "asn s2 = asn s" "asn0 s2 = asn0 s" "asn1 s2 = asn1 s"
    using s1 by (auto simp: s2_def tb_frame)
  have sh: "tb_valid ?sh" "entry_ok ?sh" using hit assms(1) by (auto simp: tb_ok_def shadow_ok_def)
  have ok: "tb_ok (refill_slot s2 0 ?i ?sh)"
    using tb_okD(1) [OF assms(1), of 0] sh s2(1) by (intro tb_ok_refill_slot) auto
  have *: "tb_idx_add (set_entry (if tb_valid (tb_entry s 0 ?i)
       then tb_idx_drop (if tb_dpc_keep s then s1 else flush_range s1 (tb_virt (tb_entry s 0 ?i)) (tb_match_mask (tb_entry s 0 ?i))) 0 ?i
       else s1) 0 ?i ?sh) 0 ?i = refill_slot s2 0 ?i ?sh"
    unfolding refill_slot_def s2(2) by (auto simp: s2_def)
  show ?thesis
    using hit unfolding tb_refill_from_shadow_def Let_def s1_def [symmetric] s1(2,3) * 
    using ok s2 by (auto simp: tb_frame)
qed

lemma refill_from_shadow_miss:
  "tb_ok s \<Longrightarrow> \<not> shadow_hit s virt as \<Longrightarrow> tb_refill_from_shadow s virt as = (s, None)"
  using shadow_test [of s virt as] by (simp add: tb_refill_from_shadow_def Let_def tb_ok_def)

definition lookup_asn :: "tbs \<Rightarrow> u32 \<Rightarrow> int" where
  "lookup_asn s flags = (if tb_of flags = TB_INDEX_ITB then asn s else asn0 s)"

text \<open>
  What a lookup answers, on every path: a slot with a translation that hits, or nothing, and then
  neither the buffer nor the shadow has one.
\<close>

lemma FindTBEntry_cases:
  assumes "tb_ok s"
  obtains (found) s' i where "FindTBEntry s virt flags = (s', Some i)" "tb_ok s'" "i < TB_ENTRIES"
      "tb_hit (tb_entry s' (tb_of flags) i) virt (lookup_asn s flags)"
      "tb_shadow s' = tb_shadow s" "asn s' = asn s" "asn0 s' = asn0 s" "asn1 s' = asn1 s"
      "(\<exists>j<TB_ENTRIES. tb_hit (tb_entry s (tb_of flags) j) virt (lookup_asn s flags)) \<or>
       tb_of flags = TB_INDEX_DATA \<and> shadow_hit s virt (asn0 s)"
      "tb_entry s' (tb_of flags) i = tb_entry s (tb_of flags) i \<or>
       tb_of flags = TB_INDEX_DATA \<and> tb_entry s' (tb_of flags) i = tb_shadow s (tb_shadow_index virt)"
  | (absent) "FindTBEntry s virt flags = (s, None)"
      "tb_scan s (tb_of flags) virt (lookup_asn s flags) = None"
      "tb_of flags = TB_INDEX_DATA \<Longrightarrow> \<not> shadow_hit s virt (asn0 s)"
proof -
  let ?t = "tb_of flags" and ?rw = "rw_of flags"
  define as where "as = lookup_asn s flags"
  have t2: "?t < 2" "?rw < 2" by (auto simp: tb_of_def rw_of_def)
  have I: "tb_inv s ?t" by (rule tb_okD(3) [OF assms t2(1)])
  define sw where "sw = (if ?t = TB_INDEX_DATA
             then case tb_refill_from_shadow s virt (asn0 s) of
                 (s', Some j) \<Rightarrow> (set_last s' ?t ?rw j, Some j)
               | (s', None) \<Rightarrow> (s', None)
             else (s, None))"
  have F: "FindTBEntry s virt flags =
    (if tb_hit (tb_entry s ?t (tb_last s ?t ?rw)) virt as then (s, Some (tb_last s ?t ?rw))
     else if tb_gh_live s ?t = 0
     then case tb_probe s ?t virt as of
         Some i \<Rightarrow> (set_last s ?t ?rw i, Some i)
       | None \<Rightarrow>
           if tb_lost s ?t (tb_idx_set virt)
           then case tb_scan s ?t virt as of
               Some j \<Rightarrow> (set_last (tb_idx_insert s ?t (tb_virt (tb_entry s ?t j)) j) ?t ?rw j, Some j)
             | None \<Rightarrow> sw
           else sw
     else case tb_scan s ?t virt as of
         Some i \<Rightarrow> (set_last s ?t ?rw i, Some i)
       | None \<Rightarrow> sw)"
    by (simp only: FindTBEntry_def Let_def sw_def as_def lookup_asn_def)
  have scan_case: thesis if "tb_scan s ?t virt as = Some j" "FindTBEntry s virt flags = (set_last s ?t ?rw j, Some j)" for j
    using tb_scan_Some [OF that(1)] tb_ok_set_last [OF assms, of j ?t ?rw]
    by (intro found [OF that(2)]) (auto simp: tb_frame as_def)
  have shadow: thesis if sc: "tb_scan s ?t virt as = None" and r: "FindTBEntry s virt flags = sw"
  proof (cases "?t = TB_INDEX_DATA \<and> shadow_hit s virt (asn0 s)")
    case True
    then obtain s' where s': "tb_refill_from_shadow s virt (asn0 s) = (s', Some (tb_next s 0))" "tb_ok s'"
      "tb_entry s' = (tb_entry s)(0 := (tb_entry s 0)(tb_next s 0 := tb_shadow s (tb_shadow_index virt)))"
      "tb_shadow s' = tb_shadow s" "asn s' = asn s" "asn0 s' = asn0 s" "asn1 s' = asn1 s"
      using refill_from_shadow_hit [OF assms, of virt "asn0 s"] by (auto split: prod.splits)
    then have f: "FindTBEntry s virt flags = (set_last s' ?t ?rw (tb_next s 0), Some (tb_next s 0))"
      using True r by (simp add: sw_def)
    show thesis using True s' tb_okD(1) [OF assms, of 0] tb_ok_set_last [OF s'(2)]
      by (intro found [OF f]) (auto simp: tb_frame lookup_asn_def shadow_hit_def)
  next
    case False
    then have "sw = (s, None)" using refill_from_shadow_miss [OF assms] by (auto simp: sw_def)
    then show thesis using r sc False by (intro absent) (auto simp: as_def)
  qed
  show thesis
  proof (cases "tb_hit (tb_entry s ?t (tb_last s ?t ?rw)) virt as")
    case True
    then have f: "FindTBEntry s virt flags = (s, Some (tb_last s ?t ?rw))" using F by simp
    show thesis using True assms tb_okD(2) [OF assms t2] by (intro found [OF f]) (auto simp: as_def)
  next
    case miss: False
    show thesis
    proof (cases "tb_gh_live s ?t = 0")
      case False
      then show thesis using miss F scan_case shadow by (cases "tb_scan s ?t virt as") auto
    next
      case gh: True
      show thesis
      proof (cases "tb_probe s ?t virt as")
        case (Some i)
        then have f: "FindTBEntry s virt flags = (set_last s ?t ?rw i, Some i)" using miss gh F by simp
        show thesis using tb_probe_Some [OF I Some] tb_ok_set_last [OF assms, of i ?t ?rw]
          by (intro found [OF f]) (auto simp: tb_frame as_def live_def)
      next
        case None
        show thesis
        proof (cases "tb_lost s ?t (tb_idx_set virt)")
          case False
          then show thesis using miss gh None F shadow tb_probe_None [OF I gh None] by auto
        next
          case lost: True
          show thesis
          proof (cases "tb_scan s ?t virt as")
            case none: None
            then show thesis using miss gh None F lost shadow by auto
          next
            case (Some j)
            have j: "j < TB_ENTRIES" "tb_hit (tb_entry s ?t j) virt as" using tb_scan_Some [OF Some] by auto
            then have jl: "j \<in> live s ?t" by (simp add: live_def tb_hit_def)
            have "{j \<in> live s ?t. \<not> tb_idx_8k (tb_match_mask (tb_entry s ?t j))} = {}"
              using I gh idx_invD(5) idx_inv_finite by (fastforce simp: tb_inv_def ix_def)
            then have "tb_idx_8k (tb_match_mask (tb_entry s ?t j))" using jl by blast
            then have "tb_ok (set_last (tb_idx_insert s ?t (tb_virt (tb_entry s ?t j)) j) ?t ?rw j)"
              using j jl t2 assms by (intro tb_ok_set_last tb_ok_insert) auto
            moreover have f: "FindTBEntry s virt flags =
              (set_last (tb_idx_insert s ?t (tb_virt (tb_entry s ?t j)) j) ?t ?rw j, Some j)"
              using miss gh None F lost Some by simp
            ultimately show thesis using j by (intro found [OF f]) (auto simp: tb_frame as_def)
          qed
        qed
      qed
    qed
  qed
qed


section \<open>Invalidations\<close>

lemma invalidate_simps [simp]:
  "tb_valid (invalidate e) = False" "tb_virt (invalidate e) = tb_virt e"
  "tb_match_mask (invalidate e) = tb_match_mask e" "tb_asm_bit (invalidate e) = tb_asm_bit e"
  "\<not> tb_hit (invalidate e) virt as"
  by (simp_all add: invalidate_def tb_hit_def)

text \<open>The loop over the slots of \<open>tbiap\<close> and \<open>tbis_d\<close>: every slot that satisfies \<open>P\<close> is dropped.\<close>

definition drop_loop :: "(STBEntry \<Rightarrow> bool) \<Rightarrow> (STBEntry \<Rightarrow> tbs \<Rightarrow> tbs) \<Rightarrow> nat \<Rightarrow> nat \<Rightarrow> tbs \<Rightarrow> tbs" where
  "drop_loop P post t n s =
     foldl (\<lambda>s i. if P (tb_entry s t i) then post (tb_entry s t i) (tb_drop_slot s t i) else s) s [0..<n]"

definition page_cache_only :: "(STBEntry \<Rightarrow> tbs \<Rightarrow> tbs) \<Rightarrow> bool" where
  "page_cache_only post \<longleftrightarrow> (\<forall>e s. \<exists>f. post e s = s\<lparr>tb_flushes := f\<rparr>)"

lemma tb_ok_flushes [simp]: "tb_ok (s\<lparr>tb_flushes := f\<rparr>) \<longleftrightarrow> tb_ok s"
  by (simp add: tb_ok_def tb_inv_def ix_def live_def shadow_ok_def)

lemma drop_loop_spec:
  assumes "page_cache_only post" "\<And>e. P e \<Longrightarrow> tb_valid e" "t < 2" "n \<le> TB_ENTRIES" "tb_ok s"
  shows "tb_ok (drop_loop P post t n s) \<and>
    tb_entry (drop_loop P post t n s) = (tb_entry s)(t := (\<lambda>j. if j < n \<and> P (tb_entry s t j)
      then invalidate (tb_entry s t j) else tb_entry s t j)) \<and>
    tb_shadow (drop_loop P post t n s) = tb_shadow s \<and> tb_last (drop_loop P post t n s) = tb_last s \<and>
    asn (drop_loop P post t n s) = asn s \<and> asn0 (drop_loop P post t n s) = asn0 s \<and>
    asn1 (drop_loop P post t n s) = asn1 s"
  using assms(4)
proof (induction n)
  case 0
  then show ?case using assms(5) by (simp add: drop_loop_def)
next
  case (Suc n)
  let ?s = "drop_loop P post t n s"
  have S: "drop_loop P post t (Suc n) s =
      (if P (tb_entry ?s t n) then post (tb_entry ?s t n) (tb_drop_slot ?s t n) else ?s)"
    by (simp add: drop_loop_def)
  have IH: "tb_ok ?s" "tb_entry ?s = (tb_entry s)(t := (\<lambda>j. if j < n \<and> P (tb_entry s t j)
      then invalidate (tb_entry s t j) else tb_entry s t j))"
    "tb_shadow ?s = tb_shadow s" "tb_last ?s = tb_last s" "asn ?s = asn s" "asn0 ?s = asn0 s" "asn1 ?s = asn1 s"
    using Suc by auto
  have n: "tb_entry ?s t n = tb_entry s t n" by (simp add: IH(2))
  show ?case
  proof (cases "P (tb_entry s t n)")
    case True
    obtain f where f: "post (tb_entry ?s t n) (tb_drop_slot ?s t n) = (tb_drop_slot ?s t n)\<lparr>tb_flushes := f\<rparr>"
      using assms(1) by (auto simp: page_cache_only_def)
    have "n \<in> live ?s t" using True assms(2) n Suc.prems by (auto simp: live_def)
    then have "tb_ok (tb_drop_slot ?s t n)" using IH(1) assms(3) by (intro tb_ok_drop_slot)
    then show ?thesis unfolding S f using True n IH(2-) by (auto simp: tb_frame fun_eq_iff less_Suc_eq)
  next
    case False
    then show ?thesis unfolding S using n IH by (auto simp: fun_eq_iff less_Suc_eq)
  qed
qed

definition cleared :: "tbs \<Rightarrow> nat \<Rightarrow> nat \<Rightarrow> nat \<Rightarrow> STBEntry" where
  "cleared s t n = (\<lambda>j. if j < n then invalidate (tb_entry s t j) else tb_entry s t j)"

lemma tbia_loop:
  "foldl (\<lambda>s i. set_entry s t i (invalidate (tb_entry s t i))) s [0..<n] =
     s\<lparr>tb_entry := (tb_entry s)(t := cleared s t n)\<rparr>"
proof (induction n)
  case 0
  show ?case by (simp add: cleared_def)
next
  case (Suc n)
  have "(cleared s t n)(n := invalidate (tb_entry s t n)) = cleared s t (Suc n)" "cleared s t n n = tb_entry s t n"
    by (auto simp: cleared_def fun_eq_iff less_Suc_eq)
  then show ?case using Suc by (simp add: set_entry_def fun_upd_def cong: if_cong)
qed

lemma ways_empty: "ways_ok (replicate kTbIdxWays 0)" "ways (replicate kTbIdxWays 0) = []"
  by (simp_all add: ways_ok_def ways_def)

lemma idx_inv_empty: "idx_inv {} ent (\<lambda>_. replicate kTbIdxWays 0) (\<lambda>_. False) 0"
  by (rule idx_invI) (auto simp: ways_empty)

lemma tbia_spec:
  assumes "tb_of flags = t"
  shows "tb_inv (tbia s flags) t" "tb_entry (tbia s flags) t j = (if j < TB_ENTRIES then invalidate (tb_entry s t j) else tb_entry s t j)"
    "t' \<noteq> t \<Longrightarrow> tb_inv (tbia s flags) t' \<longleftrightarrow> tb_inv s t'" "t' \<noteq> t \<Longrightarrow> tb_entry (tbia s flags) t' = tb_entry s t'"
    "tb_shadow (tbia s flags) k = (if t = TB_INDEX_DATA then invalidate (tb_shadow s k) else tb_shadow s k)"
    "asn (tbia s flags) = asn s" "asn0 (tbia s flags) = asn0 s" "asn1 (tbia s flags) = asn1 s"
proof -
  define s1 where "s1 = (if flags AND ACCESS_EXEC = 0
     then s\<lparr>tb_shadow := (\<lambda>k. invalidate (tb_shadow s k))\<rparr> else s)"
  define m where "m = cleared s t TB_ENTRIES"
  have L: "foldl (\<lambda>s i. set_entry s t i (invalidate (tb_entry s t i))) s1 [0..<TB_ENTRIES]
      = s1\<lparr>tb_entry := (tb_entry s)(t := m)\<rparr>"
  proof -
    have "tb_entry s1 = tb_entry s" "cleared s1 t TB_ENTRIES = m" by (simp_all add: s1_def m_def cleared_def cong: if_cong)
    then show ?thesis unfolding tbia_loop by simp
  qed
  have f1: "tb_idx s1 = tb_idx s" "tb_lost s1 = tb_lost s" "tb_gh_live s1 = tb_gh_live s"
    "tb_last s1 = tb_last s" "tb_next s1 = tb_next s"
    by (simp_all add: s1_def)
  have e: "tbia s flags = (let s2 = s1\<lparr>tb_entry := (tb_entry s)(t := m),
      tb_idx := (tb_idx s)(t := \<lambda>_. replicate kTbIdxWays 0), tb_lost := (tb_lost s)(t := \<lambda>_. False),
      tb_gh_live := (tb_gh_live s)(t := 0), tb_last := (tb_last s)(t := (tb_last s t)(0 := 0, 1 := 0)),
      tb_next := (tb_next s)(t := 0)\<rparr> in if t = TB_INDEX_DATA then flush_all s2 else s2)"
    unfolding tbia_def Let_def assms s1_def [symmetric] L by (simp add: f1)
  have t: "flags AND ACCESS_EXEC = 0 \<longleftrightarrow> t = TB_INDEX_DATA" using assms by (auto simp: tb_of_def split: if_splits)
  have "live (tbia s flags) t = {}" by (auto simp: live_def e Let_def tb_frame m_def cleared_def)
  then show "tb_inv (tbia s flags) t"
    using idx_inv_empty by (auto simp: tb_inv_def ix_def e Let_def tb_frame)
  show "tb_entry (tbia s flags) t j = (if j < TB_ENTRIES then invalidate (tb_entry s t j) else tb_entry s t j)"
    by (simp add: e Let_def tb_frame m_def cleared_def)
  show "t' \<noteq> t \<Longrightarrow> tb_inv (tbia s flags) t' \<longleftrightarrow> tb_inv s t'"
    by (intro tb_inv_cong) (auto simp: e Let_def tb_frame s1_def)
  show "t' \<noteq> t \<Longrightarrow> tb_entry (tbia s flags) t' = tb_entry s t'" by (simp add: e Let_def tb_frame)
  show "tb_shadow (tbia s flags) k = (if t = TB_INDEX_DATA then invalidate (tb_shadow s k) else tb_shadow s k)"
    by (simp add: e Let_def tb_frame s1_def t)
  show "asn (tbia s flags) = asn s" "asn0 (tbia s flags) = asn0 s" "asn1 (tbia s flags) = asn1 s"
    by (simp_all add: e Let_def tb_frame s1_def)
qed

lemma tb_ok_tbia: "tb_ok s \<Longrightarrow> tb_ok (tbia s flags)"
  using tbia_spec [OF refl, where s = s and flags = flags] unfolding tb_ok_def shadow_ok_def
  by (cases "tb_of flags = 0") (auto simp: tb_of_def split: if_splits)


lemma tb_ok_shadow_fun:
  "tb_ok s \<Longrightarrow> (\<And>k. f k = tb_shadow s k \<or> f k = invalidate (tb_shadow s k)) \<Longrightarrow> tb_ok (s\<lparr>tb_shadow := f\<rparr>)"
  unfolding tb_ok_def shadow_ok_def tb_inv_def ix_def live_def
  by simp (metis invalidate_simps(1))

lemma page_cache_only_id: "page_cache_only (\<lambda>_ s. s)"
  unfolding page_cache_only_def by (metis tbs.surjective tbs.update_convs(9))

lemma tb_hit_valid: "tb_hit e virt as \<Longrightarrow> tb_valid e"
  by (simp add: tb_hit_def)

lemma page_cache_only_range: "page_cache_only (\<lambda>e s. flush_range s (tb_virt e) (tb_match_mask e))"
  by (auto simp: page_cache_only_def flush_range_def)

lemma tbiap_spec:
  assumes "tb_ok s" "tb_of flags = t"
  shows "tb_ok (tbiap s flags) \<and>
    tb_entry (tbiap s flags) = (tb_entry s)(t := (\<lambda>j. if j < TB_ENTRIES \<and> \<not> tb_asm_bit (tb_entry s t j) \<and> tb_valid (tb_entry s t j)
       then invalidate (tb_entry s t j) else tb_entry s t j)) \<and>
    tb_shadow (tbiap s flags) = (if t = TB_INDEX_DATA
       then (\<lambda>k. if tb_asm_bit (tb_shadow s k) then tb_shadow s k else invalidate (tb_shadow s k)) else tb_shadow s) \<and>
    asn (tbiap s flags) = asn s \<and> asn0 (tbiap s flags) = asn0 s \<and> asn1 (tbiap s flags) = asn1 s"
proof -
  let ?P = "\<lambda>e. \<not> tb_asm_bit e \<and> tb_valid e"
  define s1 where "s1 = (if flags AND ACCESS_EXEC = 0
     then s\<lparr>tb_shadow := (\<lambda>k. if tb_asm_bit (tb_shadow s k) then tb_shadow s k else invalidate (tb_shadow s k))\<rparr> else s)"
  have t: "t < 2" "flags AND ACCESS_EXEC = 0 \<longleftrightarrow> t = TB_INDEX_DATA"
    using assms by (auto simp: tb_of_def split: if_splits)
  have s1: "tb_ok s1" "tb_entry s1 = tb_entry s" "asn s1 = asn s" "asn0 s1 = asn0 s" "asn1 s1 = asn1 s"
    "tb_shadow s1 = (if t = TB_INDEX_DATA
       then (\<lambda>k. if tb_asm_bit (tb_shadow s k) then tb_shadow s k else invalidate (tb_shadow s k)) else tb_shadow s)"
    using assms(1) t(2) by (auto simp: s1_def intro!: tb_ok_shadow_fun)
  have e: "tbiap s flags = (if t = TB_INDEX_DATA then flush_all (drop_loop ?P (\<lambda>_ s. s) t TB_ENTRIES s1)
      else drop_loop ?P (\<lambda>_ s. s) t TB_ENTRIES s1)"
    unfolding tbiap_def Let_def assms(2) s1_def [symmetric] drop_loop_def by simp
  show ?thesis
    unfolding e using drop_loop_spec [OF page_cache_only_id, of ?P t TB_ENTRIES s1, unfolded s1(2-6)] s1(1) t(1)
    by (auto simp: tb_frame)
qed

lemma tbis_d_spec:
  assumes "tb_ok s"
  shows "tb_ok (tbis_d s virt as) \<and>
    tb_entry (tbis_d s virt as) = (tb_entry s)(0 := (\<lambda>j. if j < TB_ENTRIES \<and> tb_hit (tb_entry s 0 j) virt as
       then invalidate (tb_entry s 0 j) else tb_entry s 0 j)) \<and>
    tb_shadow (tbis_d s virt as) = (if shadow_hit s virt as
       then (tb_shadow s)(tb_shadow_index virt := invalidate (tb_shadow s (tb_shadow_index virt))) else tb_shadow s) \<and>
    asn (tbis_d s virt as) = asn s \<and> asn0 (tbis_d s virt as) = asn0 s \<and> asn1 (tbis_d s virt as) = asn1 s"
proof -
  let ?k = "tb_shadow_index virt"
  let ?post = "\<lambda>e s. flush_range s (tb_virt e) (tb_match_mask e)"
  define s1 where "s1 = (if shadow_hit s virt as then s\<lparr>tb_shadow := (tb_shadow s)(?k := invalidate (tb_shadow s ?k))\<rparr> else s)"
  have test: "(tb_valid (tb_shadow s ?k) \<and> tb_virt (tb_shadow s ?k) = virt AND tb_match_mask (tb_shadow s ?k) \<and>
      (tb_asm_bit (tb_shadow s ?k) \<or> tb_asn (tb_shadow s ?k) = as)) \<longleftrightarrow> shadow_hit s virt as"
    using shadow_test [of s virt as] assms by (auto simp: tb_ok_def)
  have s1: "tb_ok s1" "tb_entry s1 = tb_entry s" "asn s1 = asn s" "asn0 s1 = asn0 s" "asn1 s1 = asn1 s"
    "tb_shadow s1 = (if shadow_hit s virt as then (tb_shadow s)(?k := invalidate (tb_shadow s ?k)) else tb_shadow s)"
    using assms by (auto simp: s1_def intro!: tb_ok_shadow_fun)
  have e: "tbis_d s virt as = flush_range (drop_loop (\<lambda>e. tb_hit e virt as) ?post 0 TB_ENTRIES s1)
      virt (0xfffffffffffff000 OR 0x2000)"
    unfolding tbis_d_def Let_def test s1_def [symmetric] drop_loop_def by simp
  show ?thesis
    unfolding e using drop_loop_spec [OF page_cache_only_range, of "\<lambda>e. tb_hit e virt as" 0 TB_ENTRIES s1,
        OF tb_hit_valid, unfolded s1(2-6)] s1(1)
    by (simp add: tb_frame)
qed


lemma tb_ok_tbis: 
  assumes "tb_ok s"
  shows "tb_ok (tbis s virt flags)"
proof -
  let ?k = "tb_shadow_index virt"
  define s1 where "s1 = (if flags AND ACCESS_EXEC = 0 \<and> tb_valid (tb_shadow s ?k) \<and>
      tb_virt (tb_shadow s ?k) = virt AND tb_match_mask (tb_shadow s ?k)
    then s\<lparr>tb_shadow := (tb_shadow s)(?k := invalidate (tb_shadow s ?k))\<rparr> else s)"
  have s1: "tb_ok s1" using assms by (auto simp: s1_def intro!: tb_ok_shadow_fun)
  have e: "tbis s virt flags = (if tb_of flags = TB_INDEX_DATA
      then let s = tbis_d s1 virt (asn0 s1) in if asn1 s \<noteq> asn0 s then tbis_d s virt (asn1 s) else s
      else case FindTBEntry s1 virt flags of (s, Some i) \<Rightarrow> tb_drop_slot s (tb_of flags) i | (s, None) \<Rightarrow> s)"
    unfolding tbis_def Let_def s1_def [symmetric] ..
  show ?thesis using s1
  proof (cases rule: FindTBEntry_cases [where virt = virt and flags = flags])
    case (found s' i)
    have "tb_ok (tb_drop_slot s' (tb_of flags) i)"
      using found by (intro tb_ok_drop_slot) (auto simp: live_def tb_hit_def tb_of_def)
    then show ?thesis unfolding e using tbis_d_spec s1 found(1) by (auto simp: Let_def)
  next
    case absent
    then show ?thesis unfolding e using tbis_d_spec s1 by (auto simp: Let_def)
  qed
qed

section \<open>Histories\<close>

lemma tb_ok_asn: "tb_ok s \<Longrightarrow> tb_ok (s\<lparr>asn := a\<rparr>)" "tb_ok s \<Longrightarrow> tb_ok (s\<lparr>asn0 := a\<rparr>)"
  "tb_ok s \<Longrightarrow> tb_ok (s\<lparr>asn1 := a\<rparr>)"
  by (simp_all add: tb_ok_def tb_inv_def ix_def live_def shadow_ok_def)

lemma tb_step_ok: "tb_ok s \<Longrightarrow> tb_ok (tb_step s x)"
proof (cases x)
  case (Find virt flags)
  assume ok: "tb_ok s"
  then show ?thesis
    by (cases rule: FindTBEntry_cases [where virt = virt and flags = flags]) (simp_all add: Find ok)
next
  case (Add_d virt pte dtb)
  assume "tb_ok s"
  then show ?thesis using add_tb_state [OF _ refl, of s] by (simp add: Add_d add_tb_d_def)
next
  case (Add_i virt pte)
  assume "tb_ok s"
  then show ?thesis using add_tb_state [OF _ refl, of s] by (simp add: Add_i add_tb_i_def)
qed (simp_all add: tb_ok_tbia tb_ok_tbis tbiap_spec [OF _ refl] tbis_d_spec tb_ok_asn)

lemma tb_zero_ok: "tb_ok tb_zero"
proof -
  have "live tb_zero t = {}" for t by (simp add: live_def tb_zero_def Let_def)
  then show ?thesis using idx_inv_empty
    by (simp add: tb_ok_def tb_inv_def ix_def shadow_ok_def) (simp add: tb_zero_def Let_def)
qed

lemma tb_reset_ok: "tb_ok tb_reset"
  unfolding tb_reset_def by (intro tb_ok_tbia tb_zero_ok)

interpretation tbm: total_machine tb_step tb_ok
  by unfold_locales (rule tb_step_ok)

lemma tb_reachable_ok: "tb_ok (foldl tb_step tb_reset ops)"
  by (rule tbm.run_total [OF tb_reset_ok])

text \<open>
  C1. The index never loses a page: after any sequence of fills, invalidations, address space
  changes and lookups from reset, a lookup (through the last-found hint, the 8-way index, the
  overflow marks and the shadow) answers a slot exactly when a scan of the whole buffer, or for
  data the shadow, has a translation for the address, and the slot it answers holds one.
\<close>

theorem tb_lookup_exact:
  "let s = foldl tb_step tb_reset ops; t = tb_of flags; a = (if t = TB_INDEX_ITB then asn s else asn0 s)
   in case FindTBEntry s virt flags of
        (s', Some i) \<Rightarrow> i < TB_ENTRIES \<and> tb_hit (tb_entry s' t i) virt a \<and>
          ((\<exists>j<TB_ENTRIES. tb_hit (tb_entry s t j) virt a) \<or>
           t = TB_INDEX_DATA \<and> tb_hit (tb_shadow s (tb_shadow_index virt)) virt a)
      | (s', None) \<Rightarrow> s' = s \<and> (\<forall>j<TB_ENTRIES. \<not> tb_hit (tb_entry s t j) virt a) \<and>
          (t = TB_INDEX_DATA \<longrightarrow> \<not> tb_hit (tb_shadow s (tb_shadow_index virt)) virt a)"
proof -
  define s where "s = foldl tb_step tb_reset ops"
  have ok: "tb_ok s" unfolding s_def by (rule tb_reachable_ok)
  show ?thesis unfolding s_def [symmetric]
    by (rule FindTBEntry_cases [OF ok, of virt flags])
      (auto simp: Let_def lookup_asn_def tb_scan_None shadow_hit_def split: if_splits)
qed

theorem tb_lookup_exact_witness:
  "case FindTBEntry (foldl tb_step tb_reset [Add_d 0x4000 0x0000123400001100 0]) 0x5abc ACCESS_WRITE of
     (s', Some i) \<Rightarrow> tb_hit (tb_entry s' 0 i) 0x5abc 0 | (s', None) \<Rightarrow> False"
proof -
  define s where "s = foldl tb_step tb_reset [Add_d 0x4000 0x0000123400001100 0]"
  have z: "asn0 tb_reset = 0"
    by (simp add: tb_reset_def tbia_spec(7) [OF refl]) (simp add: tb_zero_def Let_def)
  have "tb_hit (make_entry 0x4000 0x2468000 0x0000123400001100 0) 0x5abc 0"
    by (simp add: tb_hit_def make_entry_def gh_masks_def)
  then have "(\<exists>j<TB_ENTRIES. tb_hit (tb_entry s 0 j) 0x5abc 0) \<and> asn0 s = 0"
    using add_tb_state [OF tb_reset_ok refl, where flags = ACCESS_READ and virt = "0x4000" and as = 0
        and pp = "0x2468000" and pf = "0x0000123400001100"]
    by (auto simp: s_def add_tb_d_def z tb_of_def)
  then show ?thesis
    using tb_lookup_exact [of "[Add_d 0x4000 0x0000123400001100 0]" ACCESS_WRITE "0x5abc"]
    unfolding s_def [symmetric] by (auto simp: Let_def tb_of_def split: prod.splits option.splits)
qed

lemma find_last_hit:
  "tb_hit (tb_entry s (tb_of flags) (tb_last s (tb_of flags) (rw_of flags))) virt (lookup_asn s flags) \<Longrightarrow>
   FindTBEntry s virt flags = (s, Some (tb_last s (tb_of flags) (rw_of flags)))"
  by (simp add: FindTBEntry_def lookup_asn_def)

lemma make_entry_hit:
  "(virt XOR va) AND fst (gh_masks pf) = 0 \<Longrightarrow> tb_hit (make_entry virt pp pf as) va as"
proof -
  assume "(virt XOR va) AND fst (gh_masks pf) = 0"
  then have "((virt AND fst (gh_masks pf)) XOR va) AND fst (gh_masks pf) = 0"
    by (simp add: bit.conj_xor_distrib2 and.assoc)
  then show ?thesis by (simp add: tb_hit_def gh_masks_ok)
qed

lemma fill_then_find:
  assumes "tb_ok s" "(virt XOR va) AND fst (gh_masks pf) = 0" "rw_of flags = 0" "lookup_asn s flags = as"
  shows "\<exists>i. FindTBEntry (add_tb s virt pp pf flags as) va flags = (add_tb s virt pp pf flags as, Some i) \<and>
    tb_entry (add_tb s virt pp pf flags as) (tb_of flags) i = make_entry virt pp pf as"
proof -
  let ?s = "add_tb s virt pp pf flags as"
  obtain i where i: "tb_entry ?s = (tb_entry s)(tb_of flags := (tb_entry s (tb_of flags))(i := make_entry virt pp pf as))"
    "tb_last ?s = (tb_last s)(tb_of flags := (tb_last s (tb_of flags))(rw_of flags := i))"
    "asn ?s = asn s" "asn0 ?s = asn0 s"
    using add_tb_state [OF assms(1) refl, where flags = flags and virt = virt and as = as and pp = pp and pf = pf] by blast
  have "lookup_asn ?s flags = as" using assms(4) i(3,4) by (auto simp: lookup_asn_def)
  then have "FindTBEntry ?s va flags = (?s, Some (tb_last ?s (tb_of flags) (rw_of flags)))"
    using make_entry_hit [OF assms(2)] i by (intro find_last_hit) simp
  then show ?thesis using i by simp
qed

text \<open>
  C4. A translation that PALcode has just filled is the one a read uses: after any history, writing
  DTB_TAG0/DTB_PTE0 and then reading an address of that page (whatever the page size of the
  granularity hint) in a mode the entry lets read, gives the physical address made of the
  entry's frame number and the page offset, with no PALcode trap and whatever the buffer held
  for the page before.
\<close>

theorem tb_fill_translates:
  assumes "alpha_valid_va_form va (va_ctl_va_mode c AND 1 \<noteq> 0)" "superpage (m_ctl_spe c) va = None"
    and "(virt XOR va) AND fst (gh_masks pte) = 0"
    and "pte AND push_bit cm 0x100 \<noteq> 0" "pte AND 2 = 0"
  shows "let (match_mask, phys_mask, keep_mask) = gh_masks pte; s = foldl tb_step tb_reset ops
    in snd (virt2phys_fast c (add_tb_d s virt pte 0) va ACCESS_READ cm) =
       XL_OK ((drop_bit 19 pte AND phys_mask) OR (va AND keep_mask)) (pte AND 0x10 \<noteq> 0)"
proof -
  define s where "s = foldl tb_step tb_reset ops"
  have "tb_ok s" unfolding s_def by (rule tb_reachable_ok)
  moreover have fl: "rw_of ACCESS_READ = 0" "tb_of ACCESS_READ = 0" "lookup_asn s ACCESS_READ = asn0 s"
    by (simp_all add: rw_of_def tb_of_def lookup_asn_def)
  ultimately obtain i where "FindTBEntry (add_tb_d s virt pte 0) va ACCESS_READ = (add_tb_d s virt pte 0, Some i)"
    "tb_entry (add_tb_d s virt pte 0) 0 i = make_entry virt (drop_bit 19 pte) pte (asn0 s)"
    using fill_then_find [of s virt va pte ACCESS_READ "asn0 s" "drop_bit 19 pte"] assms(3)
    by (auto simp: add_tb_d_def)
  then show ?thesis unfolding s_def [symmetric] using assms
    by (simp add: virt2phys_fast_def make_entry_def case_prod_beta Let_def)
qed

theorem tb_fill_translates_witness:
  "(let s = foldl tb_step tb_reset [Set_asn0 5, Add_d 0x4000 0x0000123400001100 0]
    in snd (virt2phys_fast \<lparr>i_ctl_va_mode = 0, va_ctl_va_mode = 0, i_ctl_spe = 0, m_ctl_spe = 0\<rparr>
         (add_tb_d s 0x4000 0x0000567800001100 0) 0x4abc ACCESS_READ 0)) = XL_OK 0xacf0abc False"
  using tb_fill_translates [of "0x4abc" "\<lparr>i_ctl_va_mode = 0, va_ctl_va_mode = 0, i_ctl_spe = 0, m_ctl_spe = 0\<rparr>"
      "0x4000" "0x0000567800001100" 0 "[Set_asn0 5, Add_d 0x4000 0x0000123400001100 0]"]
  by (simp add: alpha_valid_va_form_def alpha_sext_u64_43_def superpage_def gh_masks_def)

lemma hit_only_shrinks:
  "\<not> tb_hit e va as \<Longrightarrow> \<not> tb_hit (if P then invalidate e else e) va as"
  by simp

lemma absentI:
  assumes "tb_ok s" "\<And>j. j < TB_ENTRIES \<Longrightarrow> \<not> tb_hit (tb_entry s (tb_of flags) j) va (lookup_asn s flags)"
    "tb_of flags = TB_INDEX_DATA \<Longrightarrow> \<not> shadow_hit s va (asn0 s)"
  shows "FindTBEntry s va flags = (s, None)"
  by (rule FindTBEntry_cases [OF assms(1), of va flags]) (use assms in auto)

lemma tbis_data_gone:
  assumes "tb_ok s" "tb_of flags = TB_INDEX_DATA"
  shows "FindTBEntry (tbis s virt ACCESS_READ) virt flags = (tbis s virt ACCESS_READ, None)"
proof -
  let ?k = "tb_shadow_index virt"
  define s1 where "s1 = (if tb_valid (tb_shadow s ?k) \<and> tb_virt (tb_shadow s ?k) = virt AND tb_match_mask (tb_shadow s ?k)
    then s\<lparr>tb_shadow := (tb_shadow s)(?k := invalidate (tb_shadow s ?k))\<rparr> else s)"
  have s1: "tb_ok s1" using assms by (auto simp: s1_def intro!: tb_ok_shadow_fun)
  define s2 where "s2 = tbis_d s1 virt (asn0 s1)"
  have e: "tbis s virt ACCESS_READ = (if asn1 s2 \<noteq> asn0 s2 then tbis_d s2 virt (asn1 s2) else s2)"
    by (simp add: tbis_def tb_of_def Let_def s1_def [symmetric] s2_def)
  note S2 = tbis_d_spec [OF s1, of virt "asn0 s1"]
  have s2: "tb_ok s2" "asn0 s2 = asn0 s1" "\<not> shadow_hit s2 virt (asn0 s2)"
    "\<And>j. j < TB_ENTRIES \<Longrightarrow> \<not> tb_hit (tb_entry s2 0 j) virt (asn0 s2)"
    unfolding s2_def using S2 by (auto simp: shadow_hit_def)
  define s3 where "s3 = tbis s virt ACCESS_READ"
  have s3: "tb_ok s3 \<and> asn0 s3 = asn0 s2 \<and> \<not> shadow_hit s3 virt (asn0 s3) \<and>
    (\<forall>j<TB_ENTRIES. \<not> tb_hit (tb_entry s3 0 j) virt (asn0 s3))"
    unfolding s3_def e using s2 tbis_d_spec [OF s2(1), of virt "asn1 s2"] by (auto simp: shadow_hit_def)
  then show ?thesis unfolding s3_def [symmetric]
    using assms(2) by (intro absentI) (auto simp: lookup_asn_def)
qed

lemma tbia_gone:
  assumes "tb_ok s" "tb_of flags = tb_of flags'"
  shows "FindTBEntry (tbia s flags) va flags' = (tbia s flags, None)"
  using tb_ok_tbia [OF assms(1)] assms(2) tbia_spec(2) [OF assms(2), of s] tbia_spec(5) [OF assms(2), of s]
  by (intro absentI) (auto simp: shadow_hit_def split: if_splits)

lemma tbiap_gone:
  assumes "tb_ok s" "tb_of flags = tb_of flags'" "FindTBEntry (tbiap s flags) va flags' = (s', Some i)"
  shows "tb_asm_bit (tb_entry s' (tb_of flags') i)"
proof -
  note S = tbiap_spec [OF assms(1,2)]
  have ok: "tb_ok (tbiap s flags)" using S by blast
  show ?thesis
  proof (rule FindTBEntry_cases [OF ok, of va flags'])
    fix s'' i' assume f: "FindTBEntry (tbiap s flags) va flags' = (s'', Some i')" "i' < TB_ENTRIES"
      "tb_hit (tb_entry s'' (tb_of flags') i') va (lookup_asn (tbiap s flags) flags')"
      "tb_entry s'' (tb_of flags') i' = tb_entry (tbiap s flags) (tb_of flags') i' \<or>
       tb_of flags' = TB_INDEX_DATA \<and> tb_entry s'' (tb_of flags') i' = tb_shadow (tbiap s flags) (tb_shadow_index va)"
    then have e: "s'' = s'" "i' = i" using assms(3) by simp_all
    have "tb_valid (tb_entry s' (tb_of flags') i)" using f(3) unfolding e by (rule tb_hit_valid)
    then show ?thesis using f(2,4) S unfolding e by (auto split: if_splits)
  qed (use assms(3) in simp)
qed

lemma find_itb_entries: "tb_of flags = TB_INDEX_ITB \<Longrightarrow> tb_entry (fst (FindTBEntry s virt flags)) = tb_entry s"
  by (simp add: FindTBEntry_def Let_def tb_frame split: option.splits)

text \<open>On the instruction side one slot is dropped, so the page is gone when no second slot translates it.\<close>

lemma tbis_itb_gone:
  assumes "tb_ok s" "tb_of flags = TB_INDEX_ITB"
    and one: "\<And>i j. i < TB_ENTRIES \<Longrightarrow> j < TB_ENTRIES \<Longrightarrow> tb_hit (tb_entry s 1 i) virt (asn s) \<Longrightarrow>
      tb_hit (tb_entry s 1 j) virt (asn s) \<Longrightarrow> i = j"
  shows "snd (FindTBEntry (tbis s virt ACCESS_EXEC) virt flags) = None"
proof -
  have x: "tb_of ACCESS_EXEC = TB_INDEX_ITB" by (simp add: tb_of_def)
  have la: "lookup_asn u f = asn u" if "tb_of f = TB_INDEX_ITB" for u f using that by (simp add: lookup_asn_def)
  show ?thesis
  proof (rule FindTBEntry_cases [OF assms(1), of virt ACCESS_EXEC])
    fix s' i assume f: "FindTBEntry s virt ACCESS_EXEC = (s', Some i)" "tb_ok s'" "i < TB_ENTRIES"
      "tb_hit (tb_entry s' (tb_of ACCESS_EXEC) i) virt (lookup_asn s ACCESS_EXEC)" "asn s' = asn s"
    have e: "tb_entry s' = tb_entry s" using find_itb_entries [OF x, of s virt] f(1) by simp
    have hit: "tb_hit (tb_entry s 1 i) virt (asn s)" using f(4) x e la [OF x] by simp
    have d: "tbis s virt ACCESS_EXEC = tb_drop_slot s' 1 i" using f(1) x by (simp add: tbis_def Let_def)
    have "tb_ok (tb_drop_slot s' 1 i)"
      using f(2,3) tb_hit_valid [OF hit] e by (intro tb_ok_drop_slot) (simp_all add: live_def)
    then have "FindTBEntry (tb_drop_slot s' 1 i) virt flags = (tb_drop_slot s' 1 i, None)"
      using assms(2) f(3,5) hit one by (intro absentI) (auto simp: la tb_frame e)
    then show ?thesis by (simp add: d)
  next
    assume a: "FindTBEntry s virt ACCESS_EXEC = (s, None)"
      "tb_scan s (tb_of ACCESS_EXEC) virt (lookup_asn s ACCESS_EXEC) = None"
    then have "tbis s virt ACCESS_EXEC = s" using x by (simp add: tbis_def Let_def)
    moreover have "FindTBEntry s virt flags = (s, None)"
      using assms(1,2) a(2) x by (intro absentI) (auto simp: la tb_scan_None)
    ultimately show ?thesis by simp
  qed
qed



section \<open>An invalidation that stops at the first match\<close>

text \<open>
  \<open>tbis\<close> on the instruction side drops the one slot its lookup finds. Two slots can translate the same
  address: here a private page of address space 1, and the same page filled with the ASM bit in
  address space 2. ITB_IS then leaves the first translation in place, where DTB_IS (a loop over
  all slots) would have removed both.
\<close>

lemma itb_is_leaves_a_match:
  defines "s \<equiv> foldl tb_step tb_reset
    [Set_asn 1, Add_i 0x4000 0x12000100, Set_asn 2, Add_i 0x4000 0x34000110, Set_asn 1]"
  shows "snd (FindTBEntry (tbis s 0x4000 ACCESS_EXEC) 0x4000 ACCESS_EXEC) = Some 0"
proof -
  define e1 where "e1 = make_entry 0x4000 0x12000100 0x100 1"
  define e2 where "e2 = make_entry 0x4000 0x34000110 0x110 2"
  have hits: "tb_hit e1 0x4000 1" "\<not> tb_hit e1 0x4000 2" "tb_hit e2 0x4000 1"
    by (simp_all add: e1_def e2_def make_entry_def gh_masks_def tb_hit_def)
  have fl: "tb_of ACCESS_EXEC = 1" "rw_of ACCESS_EXEC = 0" by (simp_all add: tb_of_def rw_of_def)
  define s1 where "s1 = tb_reset\<lparr>asn := 1\<rparr>"
  have r: "tb_ok s1" "tb_next s1 1 = 0" "\<And>j. j < TB_ENTRIES \<Longrightarrow> \<not> tb_valid (tb_entry s1 1 j)"
    using tb_ok_asn(1) [OF tb_reset_ok, of 1] tbia_spec(2) [OF fl(1), of "tbia tb_zero ACCESS_READ"]
    by (auto simp: s1_def tb_reset_def) (simp add: tbia_def fl Let_def)
  have sc1: "tb_scan s1 1 0x4000 1 = None" using r(3) by (auto simp: tb_scan_None tb_hit_def)
  define s2 where "s2 = add_tb s1 0x4000 0x12000100 0x100 ACCESS_EXEC 1"
  have s2: "tb_ok s2" "tb_entry s2 1 = (tb_entry s1 1)(0 := e1)" "tb_next s2 1 = 1"
    using add_tb_state [OF r(1) refl, where flags = ACCESS_EXEC and virt = "0x4000" and as = 1
        and pp = "0x12000100" and pf = "0x100"] sc1 r(2)
    by (simp_all add: fl s2_def e1_def next_slot_def)
  define s3 where "s3 = s2\<lparr>asn := 2\<rparr>"
  have sc3: "tb_scan s3 1 0x4000 2 = None" using r(3) hits(2) s2(2) by (auto simp: tb_scan_None s3_def tb_hit_def)
  define s4 where "s4 = add_tb s3 0x4000 0x34000110 0x110 ACCESS_EXEC 2"
  have s4: "tb_ok s4" "tb_entry s4 1 = (tb_entry s1 1)(0 := e1, 1 := e2)" "tb_last s4 1 0 = 1"
    using add_tb_state [OF tb_ok_asn(1) [OF s2(1), of 2] refl, where flags = ACCESS_EXEC and virt = "0x4000" and as = 2
        and pp = "0x34000110" and pf = "0x110"]
      sc3 s2(2,3) by (simp_all add: fl s4_def s3_def e2_def)
  have s: "s = s4\<lparr>asn := 1\<rparr>"
    by (simp add: s_def s4_def s3_def s2_def s1_def add_tb_i_def)
  have ok: "tb_ok s" unfolding s by (rule tb_ok_asn(1) [OF s4(1)])
  have "FindTBEntry s 0x4000 ACCESS_EXEC = (s, Some 1)"
    using find_last_hit [of s ACCESS_EXEC "0x4000"] s4 hits(3) by (simp add: fl lookup_asn_def s)
  then have d: "tbis s 0x4000 ACCESS_EXEC = tb_drop_slot s 1 1" by (simp add: tbis_def fl Let_def)
  define s6 where "s6 = tb_drop_slot s 1 1"
  have s6: "tb_ok s6" "tb_entry s6 1 = (tb_entry s1 1)(0 := e1, 1 := invalidate e2)" "asn s6 = 1"
    using tb_okD(3) [OF ok, of 1] tb_ok_drop_slot [OF ok, of 1 1] tb_hit_valid [OF hits(3)]
    by (auto simp: s6_def tb_frame s s4 live_def simp del: One_nat_def)
  have only: "j = 0" if "j < TB_ENTRIES" "tb_hit (tb_entry s6 1 j) 0x4000 1" for j
    using that r(3) [of j] unfolding s6(2) by (auto split: if_splits dest: tb_hit_valid)
  have la: "lookup_asn s6 ACCESS_EXEC = 1" using s6(3) fl(1) by (simp add: lookup_asn_def)
  show ?thesis unfolding d s6_def [symmetric]
  proof (rule FindTBEntry_cases [OF s6(1), of "0x4000" ACCESS_EXEC])
    fix s' i assume f: "FindTBEntry s6 0x4000 ACCESS_EXEC = (s', Some i)" "i < TB_ENTRIES"
      "tb_hit (tb_entry s' (tb_of ACCESS_EXEC) i) 0x4000 (lookup_asn s6 ACCESS_EXEC)"
      "tb_entry s' (tb_of ACCESS_EXEC) i = tb_entry s6 (tb_of ACCESS_EXEC) i \<or>
       tb_of ACCESS_EXEC = TB_INDEX_DATA \<and> tb_entry s' (tb_of ACCESS_EXEC) i = tb_shadow s6 (tb_shadow_index 0x4000)"
    then have "tb_hit (tb_entry s6 1 i) 0x4000 1" unfolding la fl by auto
    from only [OF f(2) this] f(1) show "snd (FindTBEntry s6 0x4000 ACCESS_EXEC) = Some 0" by simp
  next
    assume "tb_scan s6 (tb_of ACCESS_EXEC) 0x4000 (lookup_asn s6 ACCESS_EXEC) = None"
    then have "\<not> tb_hit (tb_entry s6 1 0) 0x4000 1" unfolding la fl tb_scan_None by auto
    then show "snd (FindTBEntry s6 0x4000 ACCESS_EXEC) = Some 0" using hits(1) s6(2) by simp
  qed
qed


section \<open>Rebuilding the index\<close>

lemma rebuild_loop:
  assumes "n \<le> TB_ENTRIES" "ix s t {}"
  defines "S \<equiv> foldl (\<lambda>s i. if tb_valid (tb_entry s t i) then tb_idx_add s t i else s) s [0..<n]"
  shows "ix S t (live s t \<inter> {..<n}) \<and> tb_entry S = tb_entry s \<and> tb_next S = tb_next s \<and> tb_last S = tb_last s \<and>
    tb_shadow S = tb_shadow s \<and> (\<forall>t' L. t' \<noteq> t \<longrightarrow> ix S t' L = ix s t' L)"
  using assms(1) unfolding S_def
proof (induction n)
  case 0
  then show ?case using assms(2) by simp
next
  case (Suc n)
  let ?S = "foldl (\<lambda>s i. if tb_valid (tb_entry s t i) then tb_idx_add s t i else s) s [0..<n]"
  have IH: "ix ?S t (live s t \<inter> {..<n})" "tb_entry ?S = tb_entry s" "tb_next ?S = tb_next s" "tb_last ?S = tb_last s"
    "tb_shadow ?S = tb_shadow s" "\<And>t' L. t' \<noteq> t \<Longrightarrow> ix ?S t' L = ix s t' L"
    using Suc by auto
  show ?case
  proof (cases "tb_valid (tb_entry s t n)")
    case True
    have "live s t \<inter> {..<Suc n} = insert n (live s t \<inter> {..<n})"
      using True Suc.prems by (auto simp: live_def less_Suc_eq)
    moreover have "ix (tb_idx_add ?S t n) t (insert n (live s t \<inter> {..<n}))"
      using IH(1) Suc.prems by (intro ix_add) auto
    ultimately show ?thesis using True IH by (simp add: tb_frame ix_other)
  next
    case False
    then have "live s t \<inter> {..<Suc n} = live s t \<inter> {..<n}" by (auto simp: live_def less_Suc_eq)
    then show ?thesis using False IH by simp
  qed
qed

text \<open>
  C35. Rebuilding the index after a restore: whatever the index, the marks and the counts held, once
  \<open>tb_idx_rebuild\<close> has run on restored buffers and shadow with well-formed entries, the whole
  invariant holds again, and no entry, hint or round-robin position has changed.
\<close>

theorem tb_idx_rebuild_restores:
  assumes "\<forall>t<2. \<forall>j<TB_ENTRIES. tb_valid (tb_entry s t j) \<longrightarrow> entry_ok (tb_entry s t j)"
    and "\<forall>t<2. tb_next s t < TB_ENTRIES \<and> tb_last s t 0 < TB_ENTRIES \<and> tb_last s t 1 < TB_ENTRIES"
    and "shadow_ok s"
  shows "tb_ok (tb_idx_rebuild s) \<and> tb_entry (tb_idx_rebuild s) = tb_entry s \<and>
    tb_last (tb_idx_rebuild s) = tb_last s \<and> tb_next (tb_idx_rebuild s) = tb_next s"
proof -
  define s0 where "s0 = s\<lparr>tb_idx := \<lambda>_ _. replicate kTbIdxWays 0, tb_lost := \<lambda>_ _. False,
     tb_gh_live := (tb_gh_live s)(0 := 0, 1 := 0)\<rparr>"
  define f where "f t s = foldl (\<lambda>s i. if tb_valid (tb_entry s t i) then tb_idx_add s t i else s) s [0..<TB_ENTRIES]" for t s
  have r: "tb_idx_rebuild s = f 1 (f 0 s0)" by (simp add: tb_idx_rebuild_def s0_def f_def)
  have s0: "tb_entry s0 = tb_entry s" "tb_next s0 = tb_next s" "tb_last s0 = tb_last s" "tb_shadow s0 = tb_shadow s"
    by (simp_all add: s0_def)
  have e: "ix s0 0 {}" "ix s0 1 {}" by (simp_all add: ix_def s0_def idx_inv_empty)
  have l: "live s0 t \<inter> {..<TB_ENTRIES} = live s t" for t by (auto simp: live_def s0)
  note A = rebuild_loop [OF order_refl e(1), folded f_def, unfolded l s0]
  have "ix (f 0 s0) 1 {}" using A e(2) by simp
  note B = rebuild_loop [OF order_refl this, folded f_def]
  have "live (f 0 s0) 1 \<inter> {..<TB_ENTRIES} = live s 1" using A by (auto simp: live_def)
  then have i: "ix (f 1 (f 0 s0)) 1 (live s 1)" "ix (f 1 (f 0 s0)) 0 (live s 0)"
    "tb_entry (f 1 (f 0 s0)) = tb_entry s" "tb_next (f 1 (f 0 s0)) = tb_next s" "tb_last (f 1 (f 0 s0)) = tb_last s"
    "tb_shadow (f 1 (f 0 s0)) = tb_shadow s"
    using A B by auto
  have "live (f 1 (f 0 s0)) t = live s t" for t using i(3) by (simp add: live_def)
  then show ?thesis unfolding r using i assms
    by (auto simp: tb_ok_def tb_inv_def shadow_ok_def) (auto simp: live_def)
qed

text \<open>Restored buffers: pages of 8 KB in slots 1 (data) and 3 (instructions), a page of 512 KB in slot 2, the data
  page in the shadow too, and an index, marks and counts that do not match them.\<close>

definition restored_tbs :: tbs where
  "restored_tbs = tb_zero
     \<lparr>tb_entry := (\<lambda>t. if t = 0 then (tb_entry tb_zero 0)(1 := make_entry 0x4000 0x12000 0x100 0, 2 := make_entry 0x80000 0x80000 0x140 0)
                        else (tb_entry tb_zero t)(3 := make_entry 0x4000 0x12000 0x100 0)),
      tb_shadow := (tb_shadow tb_zero)(tb_shadow_index 0x4000 := make_entry 0x4000 0x12000 0x100 0),
      tb_idx := (\<lambda>_ _. replicate kTbIdxWays 9), tb_lost := (\<lambda>_ _. True), tb_gh_live := (\<lambda>_. 7)\<rparr>"

lemma restored_valid:
  "tb_valid (tb_entry restored_tbs 0 1)" "tb_valid (tb_entry restored_tbs 0 2)" "tb_valid (tb_entry restored_tbs 1 3)"
  "tb_valid (tb_shadow restored_tbs (tb_shadow_index 0x4000))" "\<not> tb_idx_8k (tb_match_mask (tb_entry restored_tbs 0 2))"
  "tb_hit (tb_entry restored_tbs 0 1) 0x4abc 0" "tb_hit (tb_entry restored_tbs 1 3) 0x4abc 0"
  by (simp_all add: restored_tbs_def gh_masks_ok make_entry_hit gh_masks_def tb_idx_8k_def)

lemma zero_invalid: "\<not> tb_valid (tb_entry tb_zero t j)" "\<not> tb_valid (tb_shadow tb_zero k)"
  by (simp_all add: tb_zero_def Let_def)

lemma rebuild_asn: "asn (tb_idx_rebuild s) = asn s"
proof -
  have "asn (foldl (\<lambda>s i. if tb_valid (tb_entry s t i) then tb_idx_add s t i else s) u is) = asn u" for t u "is"
    by (induction "is" arbitrary: u) (simp_all add: tb_frame)
  then show ?thesis by (simp add: tb_idx_rebuild_def)
qed

lemma restored_found:
  assumes "tb_ok s" "tb_entry s = tb_entry restored_tbs" "asn s = 0"
  shows "snd (FindTBEntry s 0x4abc ACCESS_EXEC) = Some 3"
proof -
  have f: "tb_of ACCESS_EXEC = 1" "lookup_asn s ACCESS_EXEC = 0" using assms(3) by (simp_all add: tb_of_def lookup_asn_def)
  have only: "i = 3" if "tb_hit (tb_entry restored_tbs 1 i) 0x4abc 0" for i
    using that tb_hit_valid [of "tb_entry tb_zero 1 i" "0x4abc" 0] zero_invalid(1) by (auto simp: restored_tbs_def split: if_splits)
  show ?thesis
  proof (rule FindTBEntry_cases [OF assms(1), of "0x4abc" ACCESS_EXEC])
    assume "tb_scan s (tb_of ACCESS_EXEC) 0x4abc (lookup_asn s ACCESS_EXEC) = None"
    then show ?thesis using restored_valid(7) f assms(2) by (auto simp: tb_scan_None)
  qed (use f assms(2) only in auto)
qed

theorem tb_idx_rebuild_restores_witness:
  "tb_valid (tb_entry restored_tbs 0 1) \<and> tb_valid (tb_entry restored_tbs 0 2) \<and> tb_valid (tb_entry restored_tbs 1 3) \<and>
   tb_valid (tb_shadow restored_tbs (tb_shadow_index 0x4000)) \<and>
   tb_ok (tb_idx_rebuild restored_tbs) \<and> snd (FindTBEntry (tb_idx_rebuild restored_tbs) 0x4abc ACCESS_EXEC) = Some 3"
proof -
  have e: "tb_valid (tb_entry restored_tbs t j) \<longrightarrow> entry_ok (tb_entry restored_tbs t j)" for t j
    by (simp add: restored_tbs_def zero_invalid gh_masks_ok)
  have n: "tb_next restored_tbs t < TB_ENTRIES \<and> tb_last restored_tbs t r < TB_ENTRIES" for t r
    by (simp add: restored_tbs_def tb_zero_def Let_def)
  have s: "shadow_ok restored_tbs"
    by (auto simp: shadow_ok_def restored_tbs_def zero_invalid gh_masks_ok gh_masks_def)
  have r: "tb_ok (tb_idx_rebuild restored_tbs)" "tb_entry (tb_idx_rebuild restored_tbs) = tb_entry restored_tbs"
    using tb_idx_rebuild_restores [OF _ _ s] e n by blast+
  have "asn (tb_idx_rebuild restored_tbs) = 0" by (simp add: rebuild_asn restored_tbs_def tb_zero_def Let_def)
  with restored_found [OF r] restored_valid r(1) show ?thesis by simp
qed

end
