(* ===== verification/Alpha_Cpu_Facts.thy ===== *)
theory Alpha_Cpu_Facts
  imports Alpha_Cpu Alpha_TB_Facts
begin

text \<open>
  Theorems about one instruction and about histories of instructions and interrupt requests
  (\<^verbatim>\<open>Alpha_Cpu\<close>): an interrupt that can be delivered is never lost, what unprivileged code can
  change, integer overflow traps, and R31.
\<close>

section \<open>Pending interrupts\<close>

lemma pal_mode_odd: "pal_mode c \<longleftrightarrow> odd (c_pc c)"
  by (simp add: pal_mode_def and_one_eq odd_iff_mod_2_eq_one bit_0 flip: mod_2_eq_odd)

lemma even_or: "even (x OR y :: u64) \<longleftrightarrow> even x \<and> even y"
  by (metis bit_0 bit_or_iff)

lemma even_and: "even (x AND y :: u64) \<longleftrightarrow> even x \<or> even y"
  by (metis bit_0 bit_and_iff)

lemma and_1_eq_0: "(x :: u64) AND 1 = 0 \<longleftrightarrow> even x"
  by (simp add: and_one_eq even_iff_mod_2_eq_zero)

lemmas parity_simps = even_or even_and even_not_iff

text \<open>An interrupt that could be delivered has the doorbell up, or PALcode that was entered by an
  interrupt will ring it when it returns.\<close>

definition no_lost :: "cpu \<Rightarrow> bool" where
  "no_lost c \<longleftrightarrow> (int_deliverable c \<longrightarrow> c_check_int c \<or> (pal_mode c \<and> c_int_resignal c))"

lemmas no_lost_defs = no_lost_def int_deliverable_def ast_mask_def pal_mode_odd

lemma no_lost_set_r [simp]: "no_lost (set_r c i v) = no_lost c"
  by (simp add: no_lost_defs set_r_def)

lemma no_lost_next_pc [simp]: "no_lost (next_pc c) = no_lost c"
  by (simp add: no_lost_defs next_pc_def)

lemma no_lost_fields [simp]:
  "no_lost (c\<lparr>c_current_pc := p\<rparr>) = no_lost c"
  "no_lost (c\<lparr>c_exc_sum := x\<rparr>) = no_lost c"
  "no_lost (c\<lparr>c_intr_flag := b\<rparr>) = no_lost c"
  "no_lost (c\<lparr>c_watch := b\<rparr>) = no_lost c"
  "no_lost (c\<lparr>c_exit_requested := b\<rparr>) = no_lost c"
  "no_lost (c\<lparr>c_dpc_flush_req := b\<rparr>) = no_lost c"
  "no_lost (upd_tb g c) = no_lost c"
  by (simp_all add: no_lost_defs upd_tb_def)

lemma no_lost_kick: "no_lost (kick c)"
  by (auto simp: kick_def no_lost_defs)

lemma no_lost_go_pal: "no_lost c \<Longrightarrow> no_lost (go_pal c x)"
  by (auto simp: go_pal_def no_lost_defs set_pc_def cpu_clear_lock_def parity_simps Let_def)

lemma no_lost_set_pc: "no_lost c \<Longrightarrow> odd p \<Longrightarrow> no_lost (set_pc c p)"
  by (auto simp: no_lost_defs set_pc_def)

lemma no_lost_add_pc: "no_lost c \<Longrightarrow> no_lost (add_pc c (x * 4))"
  by (simp add: no_lost_defs add_pc_def)

lemma no_lost_retire: "no_lost c \<Longrightarrow> no_lost (retire c rc x)"
  by (auto simp: retire_def arith_trap_i_def no_lost_go_pal split: alu.split prod.split)

lemma no_lost_misc: "no_lost c \<Longrightarrow> op_misc c f ins = Some c' \<Longrightarrow> no_lost c'"
  by (auto simp: op_misc_def Let_def honour_dpc_flush_request_def no_lost_go_pal split: if_splits)

lemma no_lost_CALL_PAL: "no_lost c \<Longrightarrow> no_lost (do_CALL_PAL c f)"
  by (auto simp: do_CALL_PAL_def Let_def parity_simps no_lost_go_pal simp del: or.assoc intro!: no_lost_set_pc)

lemma no_lost_JMP: "no_lost c \<Longrightarrow> no_lost (do_JMP c ins)"
  by (auto simp: do_JMP_def Let_def no_lost_defs set_pc_def set_r_def parity_simps)

lemma no_lost_HW_RET: "no_lost c \<Longrightarrow> no_lost (do_HW_RET c ins)"
  by (auto simp: do_HW_RET_def Let_def no_lost_defs set_pc_def parity_simps and_1_eq_0)

lemma no_lost_mtpr_pctx: "no_lost c \<Longrightarrow> no_lost (mtpr_pctx c f v)"
proof -
  have ppc: "no_lost (c\<lparr>c_ppcen := p\<rparr>) = no_lost c" "no_lost (c\<lparr>c_fpen := p\<rparr>) = no_lost c" for c p
    by (simp_all add: no_lost_defs)
  show "no_lost c \<Longrightarrow> no_lost (mtpr_pctx c f v)"
    by (simp add: mtpr_pctx_def Let_def no_lost_kick ppc)
qed

lemma no_lost_mtpr: "no_lost c \<Longrightarrow> no_lost (hw_mtpr c f v)"
  unfolding hw_mtpr_def
  by (intro if_pred [where P = no_lost])
    (rule no_lost_mtpr_pctx, assumption,
     simp_all add: mtpr_cm_def mtpr_ier_def no_lost_kick,
     simp_all add: upd_tb_def dpc_context_changed_def mtpr_i_ctl_def mtpr_va_ctl_def mtpr_cc_ctl_def no_lost_defs)

lemma no_lost_dispatch: "no_lost c \<Longrightarrow> dispatch c ins = Some c' \<Longrightarrow> no_lost c'"
  by (auto simp: dispatch_def Let_def do_BR_def no_lost_CALL_PAL no_lost_retire no_lost_misc no_lost_go_pal
      no_lost_JMP no_lost_HW_RET no_lost_mtpr no_lost_add_pc split: if_splits)

lemma no_lost_execute: "no_lost c \<Longrightarrow> execute c ins = Some c' \<Longrightarrow> no_lost c'"
proof -
  have taken: "no_lost ((go_pal c INTERRUPT)\<lparr>c_int_resignal := True, c_seq_remaining := 0\<rparr>)" for c
    by (auto simp: go_pal_def no_lost_defs set_pc_def cpu_clear_lock_def parity_simps Let_def)
  have idle: "\<not> int_deliverable c \<Longrightarrow> no_lost c" for c
    by (simp add: no_lost_def)
  show "no_lost c \<Longrightarrow> execute c ins = Some c' \<Longrightarrow> no_lost c'"
    by (auto simp: execute_def poll_def Let_def taken idle split: if_splits intro: no_lost_dispatch [rotated])
qed

section \<open>Histories\<close>

text \<open>What happens to a processor: it executes a word, a device or the chipset moves one of its six
  lines, a delayed line is counted down, and another thread asks for a page-cache flush.\<close>

datatype cpu_op = Exec u32 | Irq nat bool int | Count_down nat int | Dpc_request

fun cpu_step :: "cpu \<Rightarrow> cpu_op \<Rightarrow> cpu" where
  "cpu_step c (Exec ins) = (case execute c ins of Some c' \<Rightarrow> c' | None \<Rightarrow> c)"
| "cpu_step c (Irq n a d) = irq_h c n a d"
| "cpu_step c (Count_down n s) = count_down_irq c n s"
| "cpu_step c Dpc_request = c\<lparr>c_dpc_flush_req := True, c_check_timers := True\<rparr>"

definition cpu_ok :: "cpu \<Rightarrow> cpu_op \<Rightarrow> bool" where
  "cpu_ok c x = (case x of Exec ins \<Rightarrow> execute c ins \<noteq> None | _ \<Rightarrow> True)"

lemma and_clear_nonzero: "(e :: u32) AND (r AND NOT m) \<noteq> 0 \<Longrightarrow> e AND r \<noteq> 0"
  by (auto simp flip: and.assoc)

lemma no_lost_step: "no_lost c \<Longrightarrow> cpu_ok c x \<Longrightarrow> no_lost (cpu_step c x)"
proof (cases x)
  case (Irq n a d)
  then show "no_lost c \<Longrightarrow> no_lost (cpu_step c x)"
    by (auto simp: irq_h_def Let_def no_lost_defs dest: and_clear_nonzero)
next
  case (Count_down n s)
  then show "no_lost c \<Longrightarrow> no_lost (cpu_step c x)"
    by (simp add: count_down_irq_def Let_def no_lost_defs)
next
  case Dpc_request
  then show "no_lost c \<Longrightarrow> no_lost (cpu_step c x)"
    by (simp add: no_lost_defs)
qed (auto simp: cpu_ok_def no_lost_execute)

interpretation cpum: invariant_machine cpu_step cpu_ok no_lost
  by unfold_locales (rule no_lost_step)

text \<open>A history whose every word the modelled part executes.\<close>

fun cpu_run :: "cpu \<Rightarrow> cpu_op list \<Rightarrow> cpu option" where
  "cpu_run c [] = Some c"
| "cpu_run c (x # xs) = (if cpu_ok c x then cpu_run (cpu_step c x) xs else None)"

lemma cpu_run_inv: "cpu_run c h = Some c' \<Longrightarrow> no_lost c \<Longrightarrow> no_lost c'"
proof -
  have "cpu_run c h = Some c' \<Longrightarrow> cpum.admissible c h \<and> c' = foldl cpu_step c h" for c
    by (induction h arbitrary: c) (auto split: if_splits)
  then show "cpu_run c h = Some c' \<Longrightarrow> no_lost c \<Longrightarrow> no_lost c'"
    using cpum.run_inv by blast
qed

lemma interrupt_entry:
  assumes "no_lost c" "int_deliverable c" "\<not> pal_mode c"
  shows "\<exists>c'. execute c ins = Some c' \<and> c_pc c' = c_pal_base c OR INTERRUPT OR 1 \<and>
    c_exc_addr c' = c_pc c \<and> c_r c' = c_r c \<and> \<not> c_lock c' \<and> c_int_resignal c'"
proof -
  have "int_deliverable (c\<lparr>c_current_pc := c_pc c, c_check_int := False\<rparr>)" "c_check_int c"
    using assms by (simp_all add: no_lost_def int_deliverable_def ast_mask_def)
  moreover have "\<not> pal_mode (c\<lparr>c_current_pc := c_pc c\<rparr>)"
    using assms by (simp add: pal_mode_def)
  ultimately show ?thesis
    by (simp add: execute_def poll_def go_pal_def set_pc_def cpu_clear_lock_def)
qed

text \<open>A processor with nothing pending, for concrete runs.\<close>

definition cpu_idle :: cpu where
  "cpu_idle = \<lparr>c_model = \<lparr>mdl_family = CPU_FAMILY_EV6, mdl_amask = 0x1307, mdl_implver = 2, mdl_chip_id = 0x21,
       mdl_ext = 0\<rparr>, c_r = \<lambda>_. 0, c_pc = 0x20000, c_current_pc = 0, c_pc_phys = 0, c_rem_ins = 0,
     c_seq_remaining = 0, c_pal_base = 0x8000, c_exc_addr = 0, c_exc_sum = 0, c_sde = True, c_hwe = False,
     c_fpen = False, c_ppcen = False, c_cm = 3, c_alt_cm = 0, c_lock = False, c_watch = False,
     c_check_int = False, c_check_timers = False, c_int_resignal = False, c_irq_timer = \<lambda>_. 0,
     c_eien = 0x3f, c_eir = 0, c_sien = 0, c_sir = 0, c_slen = 0, c_slr = 0, c_cren = 0, c_crr = 0,
     c_pcen = 0, c_pcr = 0, c_asten = 0, c_aster = 0, c_astrr = 0, c_smc = 0,
     c_ctl = \<lparr>i_ctl_va_mode = 0, va_ctl_va_mode = 0, i_ctl_spe = 0, m_ctl_spe = 0\<rparr>,
     c_i_ctl_vptb = 0, c_va_ctl_vptb = 0, c_i_ctl_other = 0, c_fault_va = 0, c_va_form_va = 0,
     c_mm_stat = 0, c_dc_stat = 0, c_dc_ctl = 0, c_i_stat = 0, c_pctr_ctl = 0, c_pmpc = 0, c_cc = 0,
     c_cc_offset = 0, c_cc_ena = False, c_cc_last_read = 0, c_cc_borrow = 0, c_cc_wall_remainder = 0,
     c_last_tb_virt = 0, c_last_dtb_virt = \<lambda>_. 0, c_dpc_key = 0, c_dpc_flush_req = False,
     c_tb = tb_zero, c_icache = [], c_intr_flag = False, c_exit_on_pal_halt = False,
     c_exit_requested = False\<rparr>"

text \<open>
  C2. An interrupt is never lost. After any history of executed words, line changes, counted-down
  lines and flush requests that begins with nothing deliverable, whenever the processor is in
  native mode and an enabled external, software or AST interrupt is pending, the next step enters
  PALcode at the interrupt vector with the interrupted PC in EXC_ADDR and the registers untouched.
\<close>

theorem interrupt_never_lost:
  assumes "\<not> int_deliverable c0" and "cpu_run c0 h = Some c" and "int_deliverable c" and "\<not> pal_mode c"
  shows "\<exists>c'. execute c ins = Some c' \<and> c_pc c' = c_pal_base c OR INTERRUPT OR 1 \<and>
    c_exc_addr c' = c_pc c \<and> c_r c' = c_r c \<and> \<not> c_lock c' \<and> c_int_resignal c'"
  using assms cpu_run_inv [of c0 h c] by (intro interrupt_entry) (auto simp: no_lost_def)

theorem interrupt_never_lost_witness:
  "\<exists>c'. execute (cpu_idle\<lparr>c_eir := 4, c_check_int := True\<rparr>) 0x47ff041f = Some c' \<and>
     c_pc c' = 0x8000 OR INTERRUPT OR 1 \<and> c_exc_addr c' = 0x20000"
proof -
  have "\<not> int_deliverable cpu_idle" by (simp add: cpu_idle_def int_deliverable_def)
  moreover have "cpu_run cpu_idle [Irq 2 True 0] = Some (cpu_idle\<lparr>c_eir := 4, c_check_int := True\<rparr>)"
    by (simp add: cpu_ok_def irq_h_def cpu_idle_def mask1_def)
  moreover have "int_deliverable (cpu_idle\<lparr>c_eir := 4, c_check_int := True\<rparr>)"
    by (simp add: cpu_idle_def int_deliverable_def)
  moreover have "\<not> pal_mode (cpu_idle\<lparr>c_eir := 4, c_check_int := True\<rparr>)"
    by (simp add: cpu_idle_def pal_mode_def)
  ultimately show ?thesis
    using interrupt_never_lost [where ?c0.0 = cpu_idle and h = "[Irq 2 True 0]" and ins = "0x47ff041f"] by (fastforce simp: cpu_idle_def)
qed

section \<open>What user mode can change\<close>

text \<open>The processor with everything user-mode code may change erased: the registers, the PC and the
  fetch state, the trap registers, the lock, doorbell and RS/RC flags, and the record of page-cache
  flushes that MB honours.\<close>

definition privileged :: "cpu \<Rightarrow> cpu" where
  "privileged c = c\<lparr>c_r := (\<lambda>_. 0), c_pc := 0, c_current_pc := 0, c_pc_phys := 0, c_rem_ins := 0,
     c_seq_remaining := 0, c_exc_addr := 0, c_exc_sum := 0, c_lock := False, c_watch := False,
     c_check_int := False, c_int_resignal := False, c_intr_flag := False, c_dpc_flush_req := False,
     c_tb := (c_tb c)\<lparr>tb_flushes := []\<rparr>\<rparr>"

lemma privileged_simps [simp]:
  "privileged (set_r c i v) = privileged c" "privileged (next_pc c) = privileged c"
  "privileged (set_pc c p) = privileged c" "privileged (add_pc c p) = privileged c"
  "privileged (go_pal c x) = privileged c" "privileged (arith_trap_i c fl r) = privileged c"
  "privileged (c\<lparr>c_current_pc := p\<rparr>) = privileged c" "privileged (c\<lparr>c_check_int := b\<rparr>) = privileged c"
  "privileged (c\<lparr>c_intr_flag := b\<rparr>) = privileged c" "privileged (c\<lparr>c_watch := b\<rparr>) = privileged c"
  "privileged (c\<lparr>c_int_resignal := b, c_seq_remaining := n\<rparr>) = privileged c"
  "privileged (honour_dpc_flush_request c) = privileged c"
  by (simp_all add: privileged_def set_r_def next_pc_def set_pc_def add_pc_def go_pal_def cpu_clear_lock_def
      arith_trap_i_def honour_dpc_flush_request_def upd_tb_def flush_all_def Let_def)

lemma privileged_retire [simp]: "privileged (retire c rc x) = privileged c"
  by (simp add: retire_def split: alu.split prod.split)

lemma privileged_user:
  assumes "\<not> pal_mode c" "c_cm c \<noteq> 0" "dispatch c ins = Some c'"
  shows "privileged c' = privileged c"
proof -
  have "palres_denied c" using assms by (simp add: palres_denied_def)
  moreover have "op_misc c f w = Some d \<Longrightarrow> privileged d = privileged c" for f w d
    by (auto simp: op_misc_def Let_def split: if_splits)
  moreover have "privileged (do_CALL_PAL c f) = privileged c" for f
    using assms(2) by (auto simp: do_CALL_PAL_def Let_def)
  ultimately show ?thesis
    using assms(3) by (auto simp: dispatch_def Let_def do_BR_def do_JMP_def split: if_splits)
qed

text \<open>The places where user mode can enter PALcode: an illegal instruction, an arithmetic trap, an
  interrupt, and the unprivileged CALL_PAL functions 80 to BF.\<close>

definition user_pal_entry :: "cpu \<Rightarrow> u64 \<Rightarrow> bool" where
  "user_pal_entry c p \<longleftrightarrow>
     (\<exists>off\<in>{OPCDEC, ARITH, INTERRUPT}. p = c_pal_base c OR off OR 1) \<or>
     (\<exists>f :: u32. 0x80 \<le> f \<and> f \<le> 0xbf \<and>
        p = c_pal_base c OR 0x2000 OR push_bit 5 (ucast f AND 0x80) OR push_bit 6 (ucast f AND 0x3f) OR 1)"

text \<open>Registers, trap registers and PC after one step from the native-mode state \<open>c\<close>.\<close>

definition confined :: "cpu \<Rightarrow> cpu \<Rightarrow> bool" where
  "confined c c' \<longleftrightarrow>
     (\<forall>i. 32 \<le> i \<longrightarrow> i \<noteq> 55 \<longrightarrow> c_r c' i = c_r c i) \<and>
     (if pal_mode c' then user_pal_entry c (c_pc c')
      else c_r c' 55 = c_r c 55 \<and> c_exc_addr c' = c_exc_addr c \<and> c_exc_sum c' = c_exc_sum c)"

lemma reg_native: "\<not> pal_mode c \<Longrightarrow> REG_1 c ins < 32 \<and> REG_2 c ins < 32 \<and> REG_3 c ins < 32"
proof -
  have "unat (a AND 0x1f :: u32) < 32" for a
  proof -
    have "a AND 0x1f = take_bit 5 a" by (simp add: take_bit_eq_mask mask_eq_exp_minus_1)
    then show ?thesis using take_bit_nat_less_exp [of 5 "unat a"] by (simp add: unsigned_take_bit_eq)
  qed
  then show "\<not> pal_mode c \<Longrightarrow> REG_1 c ins < 32 \<and> REG_2 c ins < 32 \<and> REG_3 c ins < 32"
    by (simp add: REG_1_def REG_2_def REG_3_def rreg_def)
qed

lemma confined_set_r: "\<not> pal_mode c \<Longrightarrow> i < 32 \<Longrightarrow> confined c (set_r c i v)"
  by (simp add: confined_def set_r_def pal_mode_def)

lemma confined_trap:
  "rc < 32 \<Longrightarrow> x \<in> {OPCDEC, ARITH, INTERRUPT} \<Longrightarrow> confined c (go_pal ((set_r c rc v)\<lparr>c_exc_sum := y\<rparr>) x)"
  by (auto simp: confined_def go_pal_def set_pc_def set_r_def cpu_clear_lock_def pal_mode_odd parity_simps
      user_pal_entry_def Let_def)

lemma confined_self: "\<not> pal_mode c \<Longrightarrow> confined c c"
  by (simp add: confined_def)

lemma confined_go_pal:
  "confined c d \<Longrightarrow> c_pal_base d = c_pal_base c \<Longrightarrow> x \<in> {OPCDEC, ARITH, INTERRUPT} \<Longrightarrow> confined c (go_pal d x)"
  by (auto simp: confined_def go_pal_def set_pc_def cpu_clear_lock_def pal_mode_odd parity_simps
      user_pal_entry_def Let_def)

lemma confined_retire: "\<not> pal_mode c \<Longrightarrow> rc < 32 \<Longrightarrow> confined c (retire c rc x)"
  by (auto simp: retire_def confined_set_r confined_self arith_trap_i_def
      intro!: confined_go_pal confined_trap split: alu.split prod.split)

lemma confined_CALL_PAL:
  assumes "\<not> pal_mode c" "c_cm c \<noteq> 0"
  shows "confined c (do_CALL_PAL c f)"
proof (cases "f < 0x40 \<or> 0x3f < f \<and> f < 0x80 \<or> 0xbf < f")
  case True
  then show ?thesis
    using assms by (auto simp: do_CALL_PAL_def intro!: confined_go_pal confined_self)
next
  case False
  then have "0x80 \<le> f" "f \<le> 0xbf" "f \<noteq> 0" by (auto simp: word_less_nat_alt word_le_nat_alt)
  then show ?thesis
    using False by (auto simp: do_CALL_PAL_def Let_def confined_def set_r_def set_pc_def pal_mode_odd parity_simps
        user_pal_entry_def intro!: exI [of _ f])
qed

lemma confined_misc:
  assumes "\<not> pal_mode c" "op_misc c f ins = Some c'"
  shows "confined c c'"
proof -
  have "confined c ((set_r c (REG_1 c ins) v)\<lparr>c_intr_flag := b\<rparr>)" for v b
    using assms(1) reg_native [OF assms(1), of ins] by (simp add: confined_def set_r_def pal_mode_def)
  moreover have "confined c (honour_dpc_flush_request c)"
    using assms(1) by (simp add: confined_def honour_dpc_flush_request_def upd_tb_def pal_mode_def)
  moreover have "confined c (go_pal c OPCDEC)"
    using assms(1) by (auto intro!: confined_go_pal confined_self)
  ultimately show ?thesis
    using assms confined_self [OF assms(1)] by (auto simp: op_misc_def Let_def split: if_splits)
qed

lemma confined_dispatch:
  assumes "\<not> pal_mode c" "c_cm c \<noteq> 0" "dispatch c ins = Some c'"
  shows "confined c c'"
proof -
  have denied: "palres_denied c" using assms by (simp add: palres_denied_def)
  have regs: "REG_1 c ins < 32" "REG_3 c ins < 32" using reg_native [OF assms(1)] by auto
  have trap: "confined c (go_pal c OPCDEC)"
    using assms(1) by (auto intro!: confined_go_pal confined_self)
  have pcs: "confined c (add_pc c (x * 4))" "confined c (do_BR c ins)" "confined c (do_JMP c ins)" for x
    using assms(1) regs
    by (auto simp: confined_def add_pc_def set_pc_def do_BR_def do_JMP_def set_r_def pal_mode_odd parity_simps Let_def)
  show ?thesis
    using assms(3) denied trap pcs regs assms(1)
    by (auto simp: dispatch_def Let_def confined_CALL_PAL [OF assms(1,2)] confined_set_r confined_retire
        confined_self split: if_splits intro: confined_misc [OF assms(1)])
qed

text \<open>The state in which the fetched word is dispatched, and the two ways one step can go.\<close>

definition fetched :: "cpu \<Rightarrow> bool \<Rightarrow> cpu" where
  "fetched c b = set_r (next_pc (c\<lparr>c_current_pc := c_pc c, c_check_int := b\<rparr>)) 31 0"

definition interrupted :: "cpu \<Rightarrow> cpu" where
  "interrupted c = (go_pal (c\<lparr>c_current_pc := c_pc c, c_check_int := False\<rparr>) INTERRUPT)
     \<lparr>c_int_resignal := True, c_seq_remaining := 0\<rparr>"

lemma execute_eq:
  "execute c ins =
     (if c_check_int c \<and> \<not> pal_mode c
      then if int_deliverable c then Some (interrupted c) else dispatch (fetched c False) ins
      else dispatch (fetched c (c_check_int c)) ins)"
proof -
  have "int_deliverable (c\<lparr>c_current_pc := p, c_check_int := b\<rparr>) = int_deliverable c"
    "pal_mode (c\<lparr>c_current_pc := p\<rparr>) = pal_mode c" for p b
    by (simp_all add: int_deliverable_def ast_mask_def pal_mode_def)
  then show ?thesis
    by (simp add: execute_def poll_def fetched_def interrupted_def)
qed

lemma execute_cases:
  assumes "execute c ins = Some c'"
  obtains (interrupt) "c' = interrupted c" "\<not> pal_mode c" "int_deliverable c"
  | (run) b where "dispatch (fetched c b) ins = Some c'"
  using assms that unfolding execute_eq by (metis option.sel)

lemma fetched_simps [simp]:
  "pal_mode (fetched c b) = pal_mode c" "c_cm (fetched c b) = c_cm c"
  "c_pal_base (fetched c b) = c_pal_base c" "c_r (fetched c b) = (c_r c)(31 := 0)"
  "c_exc_addr (fetched c b) = c_exc_addr c" "c_exc_sum (fetched c b) = c_exc_sum c"
  "c_pc (fetched c b) = c_pc c + 4" "c_current_pc (fetched c b) = c_pc c"
  by (simp_all add: fetched_def pal_mode_odd next_pc_def set_r_def)

lemma fetched_user: "privileged (fetched c b) = privileged c" "confined (fetched c b) x = confined c x"
  by (simp add: fetched_def) (simp add: confined_def user_pal_entry_def cong: conj_cong)

lemma interrupted_user: "privileged (interrupted c) = privileged c" "confined c (interrupted c)"
proof -
  show "privileged (interrupted c) = privileged c"
    by (simp add: interrupted_def)
  show "confined c (interrupted c)"
    by (auto simp: interrupted_def confined_def go_pal_def set_pc_def cpu_clear_lock_def pal_mode_odd parity_simps
      user_pal_entry_def)
qed

text \<open>
  C3. User mode is confined. One step of \<open>execute\<close> (a word of the model, or an interrupt taken before it)
  from native mode with a non-kernel current mode leaves every
  privileged part of the processor as it was (internal registers, PAL base, modes, interrupt
  enables and requests, translation buffers); the PALshadow registers too, except the linkage
  register of CALL_PAL; and it enters PALcode only at the illegal-instruction, arithmetic or
  interrupt vector or at the entry of an unprivileged CALL_PAL, else the trap registers are kept.
  Loads, stores, floating point and instruction fetch are outside the model (\<open>execute\<close> answers \<open>None\<close>
  there): their faults, which write VA, MM_STAT and the translation buffers and enter PALcode at vectors
  of their own, are not covered.
\<close>

theorem user_mode_confined:
  assumes "\<not> pal_mode c" and "c_cm c \<noteq> 0" and "execute c ins = Some c'"
  shows "privileged c' = privileged c \<and> confined c c'"
  using assms(3)
proof (cases rule: execute_cases)
  case interrupt
  then show ?thesis by (simp add: interrupted_user)
next
  case (run b)
  then show ?thesis
    using assms(1,2) privileged_user [of "fetched c b"] confined_dispatch [of "fetched c b"] by (simp add: fetched_user)
qed

theorem user_mode_confined_witness:
  "\<exists>c'. execute cpu_idle 0x83 = Some c' \<and> c_pc c' = 0xb0c1 \<and>
     privileged c' = privileged cpu_idle \<and> confined cpu_idle c'"
proof -
  have n: "\<not> pal_mode cpu_idle" "c_cm cpu_idle \<noteq> 0" by (simp_all add: cpu_idle_def pal_mode_def)
  have "execute cpu_idle 0x83 = Some (do_CALL_PAL (fetched cpu_idle False) 0x83)"
    by (simp add: execute_eq dispatch_def cpu_idle_def)
  moreover have "c_pc (do_CALL_PAL (fetched cpu_idle False) 0x83) = 0xb0c1"
    by (simp add: do_CALL_PAL_def set_pc_def set_r_def) (simp add: cpu_idle_def)
  ultimately show ?thesis using user_mode_confined [OF n] by blast
qed

section \<open>Integer overflow\<close>

text \<open>The exact signed result of an instruction with the /V qualifier, and its width.\<close>

definition exact_result :: "u32 \<Rightarrow> u32 \<Rightarrow> u64 \<Rightarrow> u64 \<Rightarrow> (nat \<times> int) option" where
  "exact_result opc f a b =
     (if opc = 0x10 \<and> f = 0x40 then Some (32, sint (low32 a) + sint (low32 b))
      else if opc = 0x10 \<and> f = 0x49 then Some (32, sint (low32 a) - sint (low32 b))
      else if opc = 0x10 \<and> f = 0x60 then Some (64, sint a + sint b)
      else if opc = 0x10 \<and> f = 0x69 then Some (64, sint a - sint b)
      else if opc = 0x13 \<and> f = 0x40 then Some (32, sint (low32 a) * sint (low32 b))
      else if opc = 0x13 \<and> f = 0x60 then Some (64, sint a * sint b)
      else None)"

lemma sext_value: "sint (low32 x) = signed_take_bit 31 z \<Longrightarrow> sext_u64_32 x = word_of_int (signed_take_bit 31 z)"
  unfolding sext_u64_32_def scast_eq by (rule arg_cong)

lemma uemul64_low: "snd (uemul64 a b) = a * b"
  by (rule word_uint_eqI) (simp add: uemul64_halves uint_word_ariths)

lemma of_signed_64: "word_of_int (signed_take_bit 63 z) = (word_of_int z :: u64)"
  by transfer (simp add: take_bit_signed_take_bit)

lemma V_values:
  "fst (do_ADDL_V a b) = word_of_int (signed_take_bit 31 (sint (low32 a) + sint (low32 b)))"
  "fst (do_SUBL_V a b) = word_of_int (signed_take_bit 31 (sint (low32 a) - sint (low32 b)))"
  "fst (do_MULL_V a b) = word_of_int (signed_take_bit 31 (sint (low32 a) * sint (low32 b)))"
  "fst (do_ADDQ_V a b) = word_of_int (signed_take_bit 63 (sint a + sint b))"
  "fst (do_SUBQ_V a b) = word_of_int (signed_take_bit 63 (sint a - sint b))"
  "fst (do_MULQ_V a b) = word_of_int (signed_take_bit 63 (sint a * sint b))"
proof -
  show "fst (do_ADDL_V a b) = word_of_int (signed_take_bit 31 (sint (low32 a) + sint (low32 b)))"
    unfolding do_ADDL_V_def Let_def fst_conv by (rule sext_value) (simp add: low32_plus sint_word_ariths)
  show "fst (do_SUBL_V a b) = word_of_int (signed_take_bit 31 (sint (low32 a) - sint (low32 b)))"
    unfolding do_SUBL_V_def Let_def fst_conv by (rule sext_value) (simp add: low32_minus sint_word_ariths)
  show "fst (do_MULL_V a b) = word_of_int (signed_take_bit 31 (sint (low32 a) * sint (low32 b)))"
    unfolding do_MULL_V_def Let_def fst_conv by (rule sext_value) (simp only: sint_low32 [of "_ * _"] sint_long_product)
  show "fst (do_MULQ_V a b) = word_of_int (signed_take_bit 63 (sint a * sint b))"
    using uemul64_low [of a b] by (simp add: do_MULQ_V_def Let_def of_signed_64 split_beta)
qed (simp_all add: do_ADDQ_V_def do_SUBQ_V_def Let_def of_signed_64)

lemma exact_iov:
  assumes "exact_result opc f a b = Some (w, z)"
  shows "(if opc = 0x10 then op_inta f a b else op_intm f a b) =
    Write_iov (word_of_int (signed_take_bit (w - 1) z), \<not> (- (2 ^ (w - 1)) \<le> z \<and> z < 2 ^ (w - 1)))"
  using assms
  by (auto simp: exact_result_def op_inta_def op_intm_def prod_eq_iff V_values ADDL_V_overflow SUBL_V_overflow
      MULL_V_overflow ADDQ_V_overflow SUBQ_V_overflow MULQ_V_overflow fits_def split: if_splits)

text \<open>
  C16. Integer overflow traps. With no interrupt taken, an ADDL/V, SUBL/V, ADDQ/V, SUBQ/V, MULL/V or
  MULQ/V writes the exact result reduced to its width to RC, and when that result does not fit and
  RC is not R31 it traps to the ARITH entry, with EXC_ADDR the instruction and EXC_SUM holding
  INT, IOV and the destination register; otherwise execution goes on with the next instruction
  and the trap registers are kept.
\<close>

theorem integer_overflow_traps:
  fixes c :: cpu and ins :: u32
  defines "p \<equiv> fetched c (c_check_int c)"
  assumes "\<not> c_check_int c \<or> pal_mode c"
    and "exact_result (drop_bit 26 ins) (drop_bit 5 ins AND 0x7f) (c_r p (REG_1 p ins)) (V_2 p ins) = Some (w, z)"
  shows "\<exists>c'. execute c ins = Some c' \<and>
    c_r c' = (c_r p)(REG_3 p ins := word_of_int (signed_take_bit (w - 1) z)) \<and>
    (if REG_3 p ins \<noteq> 31 \<and> \<not> (- (2 ^ (w - 1)) \<le> z \<and> z < 2 ^ (w - 1))
     then c_pc c' = c_pal_base c OR ARITH OR 1 \<and> c_exc_addr c' = c_pc c \<and>
       c_exc_sum c' = 0xc0 OR push_bit 8 (of_nat (REG_3 p ins) AND 0x1f)
     else c_pc c' = c_pc c + 4 \<and> c_exc_addr c' = c_exc_addr c \<and> c_exc_sum c' = c_exc_sum c)"
proof -
  let ?o = "drop_bit 26 ins" and ?f = "drop_bit 5 ins AND 0x7f"
  have run: "execute c ins = dispatch p ins" using assms(2) by (auto simp: execute_eq p_def)
  have opc: "?o = 0x10 \<or> ?o = 0x13" using assms(3) by (auto simp: exact_result_def split: if_splits)
  then have "dispatch p ins = Some (retire p (REG_3 p ins) (if ?o = 0x10
      then op_inta ?f (c_r p (REG_1 p ins)) (V_2 p ins) else op_intm ?f (c_r p (REG_1 p ins)) (V_2 p ins)))"
    by (elim disjE) (simp_all add: dispatch_def Let_def)
  then show ?thesis
    unfolding run exact_iov [OF assms(3)]
    by (auto simp: retire_def arith_trap_i_def go_pal_def set_pc_def cpu_clear_lock_def set_r_def p_def Let_def)
qed

text \<open>ADDQ/V R2,R2,R2 on the largest quadword.\<close>

theorem integer_overflow_traps_witness:
  "\<exists>c'. execute (cpu_idle\<lparr>c_r := (\<lambda>_. 0)(2 := 0x7fffffffffffffff)\<rparr>) 0x40420c02 = Some c' \<and>
     c_r c' 2 = - 2 \<and> c_pc c' = 0x8601 \<and> c_exc_sum c' = 0x2c0"
proof -
  let ?c = "cpu_idle\<lparr>c_r := (\<lambda>_. 0)(2 := 0x7fffffffffffffff)\<rparr>"
  have "\<not> pal_mode ?c" "\<not> c_check_int ?c" by (simp_all add: cpu_idle_def pal_mode_def)
  then have regs: "REG_1 (fetched ?c b) 0x40420c02 = 2" "REG_3 (fetched ?c b) 0x40420c02 = 2"
    "V_2 (fetched ?c b) 0x40420c02 = 0x7fffffffffffffff" for b
    by (simp_all add: REG_1_def REG_2_def REG_3_def V_2_def rreg_def)
  have "\<exists>c'. execute ?c 0x40420c02 = Some c' \<and> c_r c' 2 = word_of_int (signed_take_bit 63 0xfffffffffffffffe) \<and>
      c_pc c' = c_pal_base ?c OR ARITH OR 1 \<and> c_exc_sum c' = 0x2c0"
    using integer_overflow_traps [of ?c "0x40420c02" 64 "0xfffffffffffffffe"] \<open>\<not> c_check_int ?c\<close>
    by (auto simp: regs exact_result_def)
  moreover have "c_pal_base ?c = 0x8000" by (simp add: cpu_idle_def)
  moreover have "word_of_int (signed_take_bit 63 0xfffffffffffffffe) = (- 2 :: u64)"
    by (simp add: of_signed_64)
  ultimately show ?thesis by simp
qed

section \<open>R31\<close>

text \<open>
  R31 reads as zero: whatever an earlier instruction left in its storage makes no difference to
  any instruction or interrupt, except to that storage itself.
\<close>

theorem r31_reads_zero:
  "map_option (\<lambda>c'. set_r c' 31 0) (execute (set_r c 31 v) ins) =
   map_option (\<lambda>c'. set_r c' 31 0) (execute c ins)"
proof -
  have "fetched (set_r c 31 v) b = fetched c b" for b
    by (simp add: fetched_def set_r_def next_pc_def)
  moreover have "set_r (interrupted (set_r c 31 v)) 31 0 = set_r (interrupted c) 31 0"
    by (simp add: interrupted_def go_pal_def set_pc_def set_r_def cpu_clear_lock_def Let_def)
  moreover have "c_check_int (set_r c 31 v) = c_check_int c" "pal_mode (set_r c 31 v) = pal_mode c"
    "int_deliverable (set_r c 31 v) = int_deliverable c"
    by (simp_all add: set_r_def pal_mode_def int_deliverable_def ast_mask_def)
  ultimately show ?thesis by (simp add: execute_eq)
qed

end
