(* ===== verification/Uart16550.thy ===== *)
theory Uart16550
  imports Axp_Prelude
begin

text \<open>
  The serial ports' 16550 UART, \<^verbatim>\<open>src/src/devices/isa/Uart16550.cpp\<close>: its registers, the
  receive FIFO (a ring of 1024 slots of which one stays free), loopback, the modem inputs and the
  interrupt identification. The two callbacks are part of the state: \<open>u_irq\<close> is the level
  last given to the interrupt line and \<open>u_sent\<close> the bytes handed to the transmitter. Then:
  the receive ring implements a bounded queue whatever the guest and the host do, the interrupt
  line always shows the pending causes, and loopback returns what was written.
\<close>

section \<open>State\<close>

record SSrl_state =
  bRDR :: u8
  bTHR :: u8
  bBRB_LSB :: u8
  bBRB_MSB :: u8
  bIER :: u8
  bIIR :: u8
  bFCR :: u8
  bLCR :: u8
  bMCR :: u8
  bLSR :: u8
  bMSR :: u8
  bSPR :: u8
  rcvBuffer :: "nat \<Rightarrow> u8"
  rcvW :: nat
  rcvR :: nat
  thre_pending :: bool
  u_irq :: bool
  u_sent :: "u8 list"

abbreviation (input) UART_FIFO_SIZE :: nat where "UART_FIFO_SIZE \<equiv> 1024"
abbreviation (input) LCR_DLAB :: u8 where "LCR_DLAB \<equiv> 0x80"
abbreviation (input) IER_RDA :: u8 where "IER_RDA \<equiv> 0x01"
abbreviation (input) IER_THRE :: u8 where "IER_THRE \<equiv> 0x02"
abbreviation (input) IER_RLS :: u8 where "IER_RLS \<equiv> 0x04"
abbreviation (input) IER_MS :: u8 where "IER_MS \<equiv> 0x08"
abbreviation (input) IIR_NONE :: u8 where "IIR_NONE \<equiv> 0x01"
abbreviation (input) IIR_MS :: u8 where "IIR_MS \<equiv> 0x00"
abbreviation (input) IIR_THRE :: u8 where "IIR_THRE \<equiv> 0x02"
abbreviation (input) IIR_RDA :: u8 where "IIR_RDA \<equiv> 0x04"
abbreviation (input) IIR_RLS :: u8 where "IIR_RLS \<equiv> 0x06"
abbreviation (input) IIR_FIFO :: u8 where "IIR_FIFO \<equiv> 0xc0"
abbreviation (input) FCR_ENABLE :: u8 where "FCR_ENABLE \<equiv> 0x01"
abbreviation (input) FCR_RX_RESET :: u8 where "FCR_RX_RESET \<equiv> 0x02"
abbreviation (input) MCR_DTR :: u8 where "MCR_DTR \<equiv> 0x01"
abbreviation (input) MCR_RTS :: u8 where "MCR_RTS \<equiv> 0x02"
abbreviation (input) MCR_OUT1 :: u8 where "MCR_OUT1 \<equiv> 0x04"
abbreviation (input) MCR_OUT2 :: u8 where "MCR_OUT2 \<equiv> 0x08"
abbreviation (input) MCR_LOOP :: u8 where "MCR_LOOP \<equiv> 0x10"
abbreviation (input) LSR_DR :: u8 where "LSR_DR \<equiv> 0x01"
abbreviation (input) LSR_OE :: u8 where "LSR_OE \<equiv> 0x02"
abbreviation (input) LSR_THRE :: u8 where "LSR_THRE \<equiv> 0x20"
abbreviation (input) LSR_TEMT :: u8 where "LSR_TEMT \<equiv> 0x40"
abbreviation (input) MSR_DCTS :: u8 where "MSR_DCTS \<equiv> 0x01"
abbreviation (input) MSR_DDSR :: u8 where "MSR_DDSR \<equiv> 0x02"
abbreviation (input) MSR_TERI :: u8 where "MSR_TERI \<equiv> 0x04"
abbreviation (input) MSR_DDCD :: u8 where "MSR_DDCD \<equiv> 0x08"
abbreviation (input) MSR_DELTAS :: u8 where "MSR_DELTAS \<equiv> 0x0f"
abbreviation (input) MSR_CTS :: u8 where "MSR_CTS \<equiv> 0x10"
abbreviation (input) MSR_DSR :: u8 where "MSR_DSR \<equiv> 0x20"
abbreviation (input) MSR_RI :: u8 where "MSR_RI \<equiv> 0x40"
abbreviation (input) MSR_DCD :: u8 where "MSR_DCD \<equiv> 0x80"

section \<open>Operations\<close>

definition uart_reset :: "SSrl_state \<Rightarrow> SSrl_state" where
  "uart_reset s = s\<lparr>rcvW := 0, rcvR := 0, bTHR := 0, bRDR := 0, bBRB_LSB := 0, bBRB_MSB := 0, bIER := 0,
     bIIR := IIR_NONE, bFCR := 0, bLCR := 0, bMCR := 0, bLSR := LSR_THRE OR LSR_TEMT,
     bMSR := MSR_CTS OR MSR_DSR, bSPR := 0, thre_pending := False\<rparr>"

definition rx_empty :: "SSrl_state \<Rightarrow> bool" where
  "rx_empty s \<longleftrightarrow> rcvR s = rcvW s"

definition iir_cause :: "SSrl_state \<Rightarrow> u8" where
  "iir_cause s =
     (if bIER s AND IER_RLS \<noteq> 0 \<and> bLSR s AND LSR_OE \<noteq> 0 then IIR_RLS
      else if bIER s AND IER_RDA \<noteq> 0 \<and> \<not> rx_empty s then IIR_RDA
      else if bIER s AND IER_THRE \<noteq> 0 \<and> thre_pending s then IIR_THRE
      else if bIER s AND IER_MS \<noteq> 0 \<and> bMSR s AND MSR_DELTAS \<noteq> 0 then IIR_MS
      else IIR_NONE)"

definition update_locked :: "SSrl_state \<Rightarrow> SSrl_state" where
  "update_locked s =
     (let iir = iir_cause s; pending = (iir AND IIR_NONE = 0);
          iir = (if bFCR s AND FCR_ENABLE \<noteq> 0 then iir OR IIR_FIFO else iir)
      in s\<lparr>bIIR := iir, u_irq := pending\<rparr>)"

definition push_rx :: "SSrl_state \<Rightarrow> u8 \<Rightarrow> SSrl_state \<times> bool" where
  "push_rx s byte =
     (let nxt = (rcvW s + 1) mod UART_FIFO_SIZE
      in if nxt = rcvR s then (s, False)
         else (s\<lparr>rcvBuffer := (rcvBuffer s)(rcvW s := byte), rcvW := nxt\<rparr>, True))"

definition set_modem_inputs :: "SSrl_state \<Rightarrow> u8 \<Rightarrow> SSrl_state" where
  "set_modem_inputs s inputs =
     (let old = bMSR s AND 0xf0; changed = old XOR inputs; deltas = bMSR s AND MSR_DELTAS;
          deltas = (if changed AND MSR_CTS \<noteq> 0 then deltas OR MSR_DCTS else deltas);
          deltas = (if changed AND MSR_DSR \<noteq> 0 then deltas OR MSR_DDSR else deltas);
          deltas = (if old AND MSR_RI \<noteq> 0 \<and> inputs AND MSR_RI = 0 then deltas OR MSR_TERI else deltas);
          deltas = (if changed AND MSR_DCD \<noteq> 0 then deltas OR MSR_DDCD else deltas)
      in update_locked (s\<lparr>bMSR := inputs OR deltas\<rparr>))"

definition uart_read :: "SSrl_state \<Rightarrow> u32 \<Rightarrow> u8 \<times> SSrl_state" where
  "uart_read s reg =
     (let r = reg AND 7 in
      if r = 0
      then if bLCR s AND LCR_DLAB \<noteq> 0 then (bBRB_LSB s, s)
           else let s = (if \<not> rx_empty s
                         then s\<lparr>bRDR := rcvBuffer s (rcvR s), rcvR := (rcvR s + 1) mod UART_FIFO_SIZE\<rparr>
                         else s);
                    s = update_locked s
                in (bRDR s, s)
      else if r = 1 then (if bLCR s AND LCR_DLAB \<noteq> 0 then bBRB_MSB s else bIER s, s)
      else if r = 2
      then let iir = bIIR s
           in (iir, update_locked (if iir AND 0x0f = IIR_THRE then s\<lparr>thre_pending := False\<rparr> else s))
      else if r = 3 then (bLCR s, s)
      else if r = 4 then (bMCR s, s)
      else if r = 5
      then let lsr = LSR_THRE OR LSR_TEMT OR (if rx_empty s then 0 else LSR_DR) OR (bLSR s AND LSR_OE)
           in (lsr, update_locked (s\<lparr>bLSR := lsr AND NOT LSR_OE\<rparr>))
      else if r = 6
      then (bMSR s, update_locked (s\<lparr>bMSR := bMSR s AND NOT MSR_DELTAS\<rparr>))
      else (bSPR s, s))"

definition loop_inputs :: "u8 \<Rightarrow> u8" where
  "loop_inputs v =
     (let i = 0;
          i = (if v AND MCR_DTR \<noteq> 0 then i OR MSR_DSR else i);
          i = (if v AND MCR_RTS \<noteq> 0 then i OR MSR_CTS else i);
          i = (if v AND MCR_OUT1 \<noteq> 0 then i OR MSR_RI else i)
      in if v AND MCR_OUT2 \<noteq> 0 then i OR MSR_DCD else i)"

definition write_THR :: "SSrl_state \<Rightarrow> u8 \<Rightarrow> SSrl_state" where
  "write_THR s v =
     (let s = (if bMCR s AND MCR_LOOP \<noteq> 0
               then let (s', ok) = push_rx s v in if ok then s' else s'\<lparr>bLSR := bLSR s' OR LSR_OE\<rparr>
               else s\<lparr>u_sent := u_sent s @ [v]\<rparr>)
      in update_locked (s\<lparr>thre_pending := True\<rparr>))"

definition uart_write :: "SSrl_state \<Rightarrow> u32 \<Rightarrow> u8 \<Rightarrow> SSrl_state" where
  "uart_write s reg v =
     (let r = reg AND 7; dlab = (bLCR s AND LCR_DLAB \<noteq> 0) in
      if r = 0 then if dlab then s\<lparr>bBRB_LSB := v\<rparr> else write_THR s v
      else if r = 1
      then if dlab then s\<lparr>bBRB_MSB := v\<rparr>
           else let v = v AND 0x0f;
                    s = (if v AND IER_THRE \<noteq> 0 \<and> bIER s AND IER_THRE = 0 then s\<lparr>thre_pending := True\<rparr> else s)
                in update_locked (s\<lparr>bIER := v\<rparr>)
      else if r = 2
      then let was_on = (bFCR s AND FCR_ENABLE \<noteq> 0); on = (v AND FCR_ENABLE \<noteq> 0);
               s = (if was_on \<noteq> on \<or> (on \<and> v AND FCR_RX_RESET \<noteq> 0) then s\<lparr>rcvR := rcvW s\<rparr> else s)
           in update_locked (s\<lparr>bFCR := (if on then v else 0)\<rparr>)
      else if r = 3 then s\<lparr>bLCR := v\<rparr>
      else if r = 4
      then let v = v AND 0x1f; s = s\<lparr>bMCR := v\<rparr>
           in if v AND MCR_LOOP \<noteq> 0 then set_modem_inputs s (loop_inputs v)
              else set_modem_inputs s (MSR_CTS OR MSR_DSR)
      else if r = 5 \<or> r = 6 then s
      else s\<lparr>bSPR := v\<rparr>)"

text \<open>The loop of \<open>receive\<close>: it stops at the first byte that does not fit.\<close>

fun receive_loop :: "SSrl_state \<Rightarrow> u8 list \<Rightarrow> nat \<Rightarrow> nat \<times> SSrl_state" where
  "receive_loop s [] taken = (taken, s)"
| "receive_loop s (b # bs) taken =
     (let (s', ok) = push_rx s b
      in if ok then receive_loop (update_locked s') bs (taken + 1) else (taken, s))"

definition receive :: "SSrl_state \<Rightarrow> u8 list \<Rightarrow> nat \<times> SSrl_state" where
  "receive s bs = (if bMCR s AND MCR_LOOP \<noteq> 0 then (0, s) else receive_loop s bs 0)"

section \<open>Histories\<close>

datatype uart_op = Read u32 | Write u32 u8 | Receive "u8 list" | Update

fun uart_step :: "SSrl_state \<Rightarrow> uart_op \<Rightarrow> SSrl_state" where
  "uart_step s (Read r) = snd (uart_read s r)"
| "uart_step s (Write r v) = uart_write s r v"
| "uart_step s (Receive bs) = snd (receive s bs)"
| "uart_step s Update = update_locked s"

section \<open>The interrupt identification is never stale\<close>

definition uart_ok :: "SSrl_state \<Rightarrow> bool" where
  "uart_ok s \<longleftrightarrow> rcvW s < UART_FIFO_SIZE \<and> rcvR s < UART_FIFO_SIZE \<and>
     bIER s AND 0xf0 = 0 \<and> bMCR s AND 0xe0 = 0 \<and>
     bIIR s = iir_cause s OR (if bFCR s AND FCR_ENABLE \<noteq> 0 then IIR_FIFO else 0) \<and>
     u_irq s = (iir_cause s \<noteq> IIR_NONE)"

text \<open>The part that an update does not establish.\<close>

definition uart_regs_ok :: "SSrl_state \<Rightarrow> bool" where
  "uart_regs_ok s \<longleftrightarrow> rcvW s < UART_FIFO_SIZE \<and> rcvR s < UART_FIFO_SIZE \<and>
     bIER s AND 0xf0 = 0 \<and> bMCR s AND 0xe0 = 0"

lemma uart_ok_regs: "uart_ok s \<Longrightarrow> uart_regs_ok s"
  by (simp add: uart_ok_def uart_regs_ok_def)

lemma update_ok: "uart_regs_ok s \<Longrightarrow> uart_ok (update_locked s)"
  by (auto simp: uart_ok_def uart_regs_ok_def update_locked_def Let_def iir_cause_def rx_empty_def)

lemma masked_zero: "((v :: u8) AND 0x0f) AND 0xf0 = 0" "((v :: u8) AND 0x1f) AND 0xe0 = 0"
  by (simp_all add: and.assoc)

lemma set_modem_ok: "uart_regs_ok s \<Longrightarrow> uart_ok (set_modem_inputs s i)"
  by (simp add: set_modem_inputs_def Let_def update_ok uart_regs_ok_def)

lemma push_regs: "uart_regs_ok s \<Longrightarrow> uart_regs_ok (fst (push_rx s b))"
  by (simp add: push_rx_def uart_regs_ok_def Let_def)

lemma uart_read_ok: "uart_ok s \<Longrightarrow> uart_ok (snd (uart_read s r))"
  by (auto simp: uart_read_def Let_def uart_regs_ok_def intro!: update_ok dest: uart_ok_regs)

lemma write_THR_ok: "uart_regs_ok s \<Longrightarrow> uart_ok (write_THR s v)"
  using push_regs [of s v]
  by (auto simp: write_THR_def Let_def uart_regs_ok_def split: prod.split intro!: update_ok)

lemma uart_write_ok: "uart_ok s \<Longrightarrow> uart_ok (uart_write s r v)"
  unfolding uart_write_def Let_def
  by (intro if_pred [where P = uart_ok] update_ok write_THR_ok set_modem_ok)
    (auto simp: uart_ok_def uart_regs_ok_def masked_zero iir_cause_def rx_empty_def cong: if_cong)

lemma receive_loop_ok: "uart_ok s \<Longrightarrow> uart_ok (snd (receive_loop s bs n))"
proof (induction bs arbitrary: s n)
  case (Cons b bs)
  then show ?case
    using push_regs [of s b] by (auto simp: split_beta Let_def update_ok uart_ok_regs)
qed simp

lemma uart_step_ok: "uart_ok s \<Longrightarrow> uart_ok (uart_step s x)"
  by (cases x) (simp_all add: uart_read_ok uart_write_ok receive_def receive_loop_ok update_ok uart_ok_regs)

interpretation uartm: total_machine uart_step uart_ok
  by unfold_locales (rule uart_step_ok)

lemma uart_reset_ok: "\<not> u_irq s \<Longrightarrow> uart_ok (uart_reset s)"
  by (simp add: uart_reset_def uart_ok_def iir_cause_def)

lemma uart_reachable: "\<not> u_irq s \<Longrightarrow> uart_ok (foldl uart_step (uart_reset s) ops)"
  by (rule uartm.run_total [OF uart_reset_ok])

text \<open>
  C21. The interrupt output is never stale. After any sequence of register accesses and received
  bytes from reset, the line is high exactly when an enabled cause is pending (overrun, received
  data, transmitter empty, modem status), IIR shows the one of highest priority with the FIFO bits
  of FCR, the ring indices are in range and the always-zero bits of IER and MCR are zero.
\<close>

theorem uart_interrupt_current:
  assumes "\<not> u_irq s0" and "s = foldl uart_step (uart_reset s0) ops"
  shows "u_irq s = (bIER s AND IER_RLS \<noteq> 0 \<and> bLSR s AND LSR_OE \<noteq> 0 \<or>
      bIER s AND IER_RDA \<noteq> 0 \<and> \<not> rx_empty s \<or> bIER s AND IER_THRE \<noteq> 0 \<and> thre_pending s \<or>
      bIER s AND IER_MS \<noteq> 0 \<and> bMSR s AND MSR_DELTAS \<noteq> 0) \<and>
    bIIR s = iir_cause s OR (if bFCR s AND FCR_ENABLE \<noteq> 0 then IIR_FIFO else 0) \<and>
    rcvR s < UART_FIFO_SIZE \<and> rcvW s < UART_FIFO_SIZE \<and> bIER s AND 0xf0 = 0 \<and> bMCR s AND 0xe0 = 0"
proof -
  have ok: "uart_ok s" using uart_reachable [OF assms(1)] assms(2) by simp
  have "iir_cause s \<noteq> IIR_NONE \<longleftrightarrow> bIER s AND IER_RLS \<noteq> 0 \<and> bLSR s AND LSR_OE \<noteq> 0 \<or>
      bIER s AND IER_RDA \<noteq> 0 \<and> \<not> rx_empty s \<or> bIER s AND IER_THRE \<noteq> 0 \<and> thre_pending s \<or>
      bIER s AND IER_MS \<noteq> 0 \<and> bMSR s AND MSR_DELTAS \<noteq> 0"
    by (auto simp: iir_cause_def)
  then show ?thesis using ok unfolding uart_ok_def by blast
qed

definition uart_zero :: SSrl_state where
  "uart_zero = \<lparr>bRDR = 0, bTHR = 0, bBRB_LSB = 0, bBRB_MSB = 0, bIER = 0, bIIR = 0, bFCR = 0, bLCR = 0, bMCR = 0,
     bLSR = 0, bMSR = 0, bSPR = 0, rcvBuffer = \<lambda>_. 0, rcvW = 0, rcvR = 0, thre_pending = False,
     u_irq = False, u_sent = []\<rparr>"

theorem uart_interrupt_current_witness:
  "u_irq (foldl uart_step (uart_reset uart_zero) [Write 1 1, Receive [65]])"
proof -
  let ?s = "foldl uart_step (uart_reset uart_zero) [Write 1 1, Receive [65]]"
  have "bIER ?s AND IER_RDA \<noteq> 0 \<and> \<not> rx_empty ?s"
    by (simp add: uart_reset_def uart_zero_def uart_write_def update_locked_def iir_cause_def rx_empty_def
        receive_def push_rx_def)
  moreover have "\<not> u_irq uart_zero" by (simp add: uart_zero_def)
  ultimately show ?thesis
    using uart_interrupt_current [OF _ refl, of uart_zero "[Write 1 1, Receive [65]]"] by blast
qed

section \<open>The receive ring is a queue\<close>

definition fifo :: "SSrl_state \<Rightarrow> u8 list" where
  "fifo s = ring_list UART_FIFO_SIZE (rcvBuffer s) (rcvR s) (rcvW s)"

text \<open>What an access does to the queue of received bytes: \<open>dlab\<close> and \<open>lp\<close> say that the divisor
  latch and loopback are selected, \<open>on\<close> that the FIFOs are enabled.\<close>

fun queue_step :: "bool \<Rightarrow> bool \<Rightarrow> bool \<Rightarrow> u8 list \<Rightarrow> uart_op \<Rightarrow> u8 list" where
  "queue_step dlab lp on q (Read r) = (if r AND 7 = 0 \<and> \<not> dlab then tl q else q)"
| "queue_step dlab lp on q (Write r v) =
     (if r AND 7 = 0 \<and> \<not> dlab \<and> lp \<and> length q < 1023 then q @ [v]
      else if r AND 7 = 2 \<and> ((v AND FCR_ENABLE \<noteq> 0) \<noteq> on \<or> on \<and> v AND FCR_RX_RESET \<noteq> 0) then []
      else q)"
| "queue_step dlab lp on q (Receive bs) = (if lp then q else q @ take (1023 - length q) bs)"
| "queue_step dlab lp on q Update = q"

lemma fifo_cong [simp]:
  "fifo (update_locked s) = fifo s" "fifo (set_modem_inputs s i) = fifo s"
  "fifo (s\<lparr>thre_pending := t\<rparr>) = fifo s" "fifo (s\<lparr>bLSR := v\<rparr>) = fifo s" "fifo (s\<lparr>bMSR := v\<rparr>) = fifo s"
  "fifo (s\<lparr>u_sent := us\<rparr>) = fifo s" "fifo (s\<lparr>bIER := v\<rparr>) = fifo s" "fifo (s\<lparr>bFCR := v\<rparr>) = fifo s"
  "fifo (s\<lparr>bLCR := v\<rparr>) = fifo s" "fifo (s\<lparr>bMCR := v\<rparr>) = fifo s" "fifo (s\<lparr>bSPR := v\<rparr>) = fifo s"
  "fifo (s\<lparr>bBRB_LSB := v\<rparr>) = fifo s" "fifo (s\<lparr>bBRB_MSB := v\<rparr>) = fifo s" "fifo (s\<lparr>rcvR := rcvW s\<rparr>) = []"
  by (simp_all add: fifo_def update_locked_def set_modem_inputs_def Let_def)

lemma rx_empty_fifo: "uart_regs_ok s \<Longrightarrow> rx_empty s \<longleftrightarrow> fifo s = []"
  by (simp add: rx_empty_def fifo_def ring_empty_iff uart_regs_ok_def)

lemma fifo_pop:
  assumes "uart_regs_ok s" "\<not> rx_empty s"
  shows "fifo s = rcvBuffer s (rcvR s) # fifo (s\<lparr>bRDR := d, rcvR := (rcvR s + 1) mod UART_FIFO_SIZE\<rparr>)"
  using assms ring_pop [of "rcvR s" 1024 "rcvW s"] by (simp add: fifo_def uart_regs_ok_def rx_empty_def)

lemma fifo_bound: "uart_regs_ok s \<Longrightarrow> length (fifo s) \<le> 1023"
  using length_ring [of "rcvR s" 1024 "rcvW s" "rcvBuffer s"] by (auto simp: fifo_def uart_regs_ok_def)

lemma push_rx_fifo:
  assumes "uart_regs_ok s"
  shows "push_rx s b = (s', ok) \<Longrightarrow> ok = (length (fifo s) < 1023) \<and> fifo s' = (if ok then fifo s @ [b] else fifo s)"
  using assms ring_push [of "rcvR s" 1024 "rcvW s"] ring_full_iff [of "rcvR s" 1024 "rcvW s" "rcvBuffer s"]
    fifo_bound [OF assms]
  by (auto simp: push_rx_def Let_def fifo_def uart_regs_ok_def split: if_splits)

lemma receive_loop_fifo:
  "uart_ok s \<Longrightarrow> receive_loop s bs n = (k, s') \<Longrightarrow>
     fifo s' = fifo s @ take (1023 - length (fifo s)) bs \<and> k = n + min (length bs) (1023 - length (fifo s))"
proof (induction bs arbitrary: s n)
  case (Cons b bs)
  obtain t ok where t: "push_rx s b = (t, ok)" by fastforce
  note q = push_rx_fifo [OF uart_ok_regs [OF Cons.prems(1)] t]
  show ?case
  proof (cases ok)
    case True
    have "uart_ok (update_locked t)"
      using push_regs [OF uart_ok_regs [OF Cons.prems(1)], of b] t by (simp add: update_ok)
    from Cons.IH [OF this, of "n + 1"] show ?thesis
      using Cons.prems(2) t q True by (auto simp: take_Cons' Suc_diff_Suc split: if_splits)
  qed (use Cons.prems(2) t q in auto)
qed auto

lemma uart_write_fifo:
  assumes "uart_ok s"
  shows "fifo (uart_write s r v) = queue_step (bLCR s AND LCR_DLAB \<noteq> 0) (bMCR s AND MCR_LOOP \<noteq> 0)
    (bFCR s AND FCR_ENABLE \<noteq> 0) (fifo s) (Write r v)"
proof -
  have "fifo (write_THR s v) = (if bMCR s AND MCR_LOOP \<noteq> 0 \<and> length (fifo s) < 1023 then fifo s @ [v] else fifo s)"
    using push_rx_fifo [OF uart_ok_regs [OF assms], of v] by (auto simp: write_THR_def Let_def split: prod.split)
  then show ?thesis by (auto simp: uart_write_def Let_def)
qed

lemma uart_read_fifo:
  assumes "uart_ok s"
  shows "fifo (snd (uart_read s r)) = (if r AND 7 = 0 \<and> bLCR s AND LCR_DLAB = 0 then tl (fifo s) else fifo s)"
    and "r AND 7 = 0 \<Longrightarrow> bLCR s AND LCR_DLAB = 0 \<Longrightarrow> fifo s \<noteq> [] \<Longrightarrow> fst (uart_read s r) = hd (fifo s)"
proof -
  note e = rx_empty_fifo [OF uart_ok_regs [OF assms]] and pop = fifo_pop [OF uart_ok_regs [OF assms], of "rcvBuffer s (rcvR s)"]
  show "fifo (snd (uart_read s r)) = (if r AND 7 = 0 \<and> bLCR s AND LCR_DLAB = 0 then tl (fifo s) else fifo s)"
    using e pop by (auto simp: uart_read_def Let_def)
  show "r AND 7 = 0 \<Longrightarrow> bLCR s AND LCR_DLAB = 0 \<Longrightarrow> fifo s \<noteq> [] \<Longrightarrow> fst (uart_read s r) = hd (fifo s)"
    using e pop by (auto simp: uart_read_def Let_def update_locked_def)
qed

text \<open>
  C17. The receive FIFO refines a queue of at most 1023 bytes. In every state reached from reset, each
  access acts on the ring as it acts on the queue: a read of RBR takes the head and answers it,
  received bytes are appended in order up to the bound and their number is reported back, a
  loopback write appends its byte, a FIFO reset empties it, and nothing else changes it.
\<close>

theorem uart_fifo_refines_queue:
  assumes "\<not> u_irq s0" and "s = foldl uart_step (uart_reset s0) ops"
  shows "fifo (uart_step s x) = queue_step (bLCR s AND LCR_DLAB \<noteq> 0) (bMCR s AND MCR_LOOP \<noteq> 0)
      (bFCR s AND FCR_ENABLE \<noteq> 0) (fifo s) x \<and>
    (bLCR s AND LCR_DLAB = 0 \<and> fifo s \<noteq> [] \<longrightarrow> fst (uart_read s 0) = hd (fifo s)) \<and>
    fst (receive s bs) = (if bMCR s AND MCR_LOOP \<noteq> 0 then 0 else min (length bs) (1023 - length (fifo s))) \<and>
    rx_empty s = (fifo s = []) \<and> length (fifo s) \<le> 1023"
proof -
  have ok: "uart_ok s" using uart_reachable [OF assms(1)] assms(2) by simp
  have rx: "fifo (snd (receive_loop s b 0)) = fifo s @ take (1023 - length (fifo s)) b"
    "fst (receive_loop s b 0) = min (length b) (1023 - length (fifo s))" for b
    using receive_loop_fifo [OF ok, of b 0] by (cases "receive_loop s b 0", simp)+
  have "fifo (uart_step s x) = queue_step (bLCR s AND LCR_DLAB \<noteq> 0) (bMCR s AND MCR_LOOP \<noteq> 0)
      (bFCR s AND FCR_ENABLE \<noteq> 0) (fifo s) x"
    using uart_write_fifo [OF ok] uart_read_fifo(1) [OF ok] by (cases x) (simp_all add: receive_def rx)
  moreover have "bLCR s AND LCR_DLAB = 0 \<and> fifo s \<noteq> [] \<longrightarrow> fst (uart_read s 0) = hd (fifo s)"
    using uart_read_fifo(2) [OF ok] by simp
  moreover have "fst (receive s bs) = (if bMCR s AND MCR_LOOP \<noteq> 0 then 0 else min (length bs) (1023 - length (fifo s)))"
    by (simp add: receive_def rx)
  ultimately show ?thesis
    using rx_empty_fifo fifo_bound uart_ok_regs [OF ok] by blast
qed

theorem uart_fifo_refines_queue_witness:
  "fst (uart_read (foldl uart_step (uart_reset uart_zero) [Receive [65, 66]]) 0) = 65"
proof -
  let ?s = "foldl uart_step (uart_reset uart_zero) [Receive [65, 66]]"
  have "fifo ?s = [65, 66]" "bLCR ?s AND LCR_DLAB = 0"
    by (simp_all add: fifo_def ring_list_def uart_reset_def uart_zero_def update_locked_def iir_cause_def rx_empty_def
        receive_def push_rx_def numeral_2_eq_2)
  then show ?thesis
    using uart_fifo_refines_queue [OF _ refl, of uart_zero "[Receive [65, 66]]" Update "[]"]
    by (simp add: uart_zero_def)
qed

section \<open>Loopback\<close>

lemma loop_regs: "bMCR (uart_write s 0 v) = bMCR s" "bLCR (uart_write s 0 v) = bLCR s"
  "bLCR (snd (uart_read s 0)) = bLCR s"
  by (auto simp: uart_write_def write_THR_def push_rx_def update_locked_def uart_read_def Let_def)

fun read_all :: "SSrl_state \<Rightarrow> nat \<Rightarrow> u8 list" where
  "read_all s 0 = []"
| "read_all s (Suc n) = (let (b, s') = uart_read s 0 in b # read_all s' n)"

lemma read_all_fifo:
  "uart_ok s \<Longrightarrow> bLCR s AND LCR_DLAB = 0 \<Longrightarrow> n \<le> length (fifo s) \<Longrightarrow> read_all s n = take n (fifo s)"
proof (induction n arbitrary: s)
  case (Suc n)
  have ne: "fifo s \<noteq> []" using Suc.prems(3) by auto
  have "read_all (snd (uart_read s 0)) n = take n (tl (fifo s))"
    using Suc uart_read_ok [of s 0] uart_read_fifo(1) [of s 0] by (simp add: loop_regs)
  then show ?case
    using uart_read_fifo(2) [of s 0] Suc.prems ne by (simp add: split_beta take_Suc)
qed simp

text \<open>
  C29. Loopback round trip. With loopback selected and the receive FIFO empty, up to 1023 bytes
  written to THR come back from RBR in order, and none is handed to the transmitter.
\<close>

theorem uart_loopback_roundtrip:
  assumes "uart_ok s" and "bMCR s AND MCR_LOOP \<noteq> 0" and "bLCR s AND LCR_DLAB = 0" and "fifo s = []"
    and "length bs \<le> 1023"
  shows "read_all (foldl (\<lambda>s b. uart_write s 0 b) s bs) (length bs) = bs \<and>
    u_sent (foldl (\<lambda>s b. uart_write s 0 b) s bs) = u_sent s"
proof -
  have "uart_ok t \<and> bLCR t AND LCR_DLAB = 0 \<and> bMCR t AND MCR_LOOP \<noteq> 0 \<and> fifo t = q \<Longrightarrow>
      length q + length bs \<le> 1023 \<Longrightarrow> (let u = foldl (\<lambda>s b. uart_write s 0 b) t bs in
        uart_ok u \<and> bLCR u AND LCR_DLAB = 0 \<and> fifo u = q @ bs \<and> u_sent u = u_sent t)" for t q
  proof (induction bs arbitrary: t q)
    case (Cons b bs)
    have sent: "u_sent (uart_write t 0 b) = u_sent t"
      using Cons.prems(1) by (auto simp: uart_write_def write_THR_def push_rx_def update_locked_def Let_def)
    have "fifo (uart_write t 0 b) = q @ [b]"
      using Cons.prems uart_write_fifo [of t 0 b] by simp
    then show ?case
      using Cons.IH [of "uart_write t 0 b" "q @ [b]"] Cons.prems by (simp add: loop_regs uart_write_ok sent Let_def)
  qed simp
  from this [of s "[]"] show ?thesis
    using assms read_all_fifo [of "foldl (\<lambda>s b. uart_write s 0 b) s bs" "length bs"] by (simp add: Let_def)
qed

theorem uart_loopback_roundtrip_witness:
  "read_all (foldl (\<lambda>s b. uart_write s 0 b) (uart_write (uart_reset uart_zero) 4 0x10) [1, 2, 3]) 3 = [1, 2, 3]"
proof -
  let ?s = "uart_write (uart_reset uart_zero) 4 0x10"
  have "uart_ok ?s" by (intro uart_write_ok uart_reset_ok) (simp add: uart_zero_def)
  moreover have "bMCR ?s AND MCR_LOOP \<noteq> 0" "bLCR ?s AND LCR_DLAB = 0" "fifo ?s = []"
    by (simp_all add: uart_reset_def uart_zero_def uart_write_def set_modem_inputs_def update_locked_def fifo_def Let_def)
  moreover have n: "length [1 :: u8, 2, 3] = 3" by simp
  ultimately show ?thesis using uart_loopback_roundtrip [of ?s "[1, 2, 3]", unfolded n] by auto
qed

end
