(* ===== verification/Eeprom93cx6.thy ===== *)
theory Eeprom93cx6
  imports Axp_Prelude
begin

text \<open>
  The 93C46/93C66 Microwire EEPROM of the network and SCSI adapters,
  \<^verbatim>\<open>src/src/devices/common/Eeprom93cx6.cpp\<close>, driven pin by pin. The theorems are about whole
  commands as a driver clocks them in: what is written is read back, a sequential read walks the
  part in order and wraps, and with writing disabled no pin sequence that does not enable it
  changes a word.
\<close>

section \<open>State\<close>

datatype phase_t = IDLE | START | OPCODE | ADDRESS | READING | WRITING

record CEeprom93cx6 =
  e_data :: "nat \<Rightarrow> u16"
  abits :: nat
  phase :: phase_t
  cs_prev :: bool
  sk_prev :: bool
  dout :: bool
  write_enabled :: bool
  opcode :: u8
  bits :: nat
  shift :: u32
  address :: u16
  out_word :: u16

section \<open>Operations\<close>

definition eeprom_init :: "CEeprom93cx6 \<Rightarrow> nat \<Rightarrow> CEeprom93cx6" where
  "eeprom_init e address_bits = e\<lparr>abits := address_bits, phase := IDLE, cs_prev := False, sk_prev := False,
     dout := True, write_enabled := False, opcode := 0, bits := 0, shift := 0, address := 0, out_word := 0\<rparr>"

definition command_complete :: "CEeprom93cx6 \<Rightarrow> CEeprom93cx6" where
  "command_complete e =
     (let words = 2 ^ abits e; ext = drop_bit (abits e - 2) (address e)
      in if opcode e = 0
         then if ext = 3 then e\<lparr>write_enabled := True\<rparr>
              else if ext = 0 then e\<lparr>write_enabled := False\<rparr>
              else if write_enabled e
              then e\<lparr>e_data := (\<lambda>i. if i < words then if ext = 2 then 0xffff else ucast (shift e)
                                     else e_data e i)\<rparr>
              else e
         else if opcode e = 1
         then if write_enabled e
              then e\<lparr>e_data := (e_data e)(unat (address e) mod words := ucast (shift e))\<rparr> else e
         else if opcode e = 3
         then if write_enabled e then e\<lparr>e_data := (e_data e)(unat (address e) mod words := 0xffff)\<rparr> else e
         else e)"

text \<open>The switch on a rising clock edge.\<close>

definition shift_in :: "u32 \<Rightarrow> bool \<Rightarrow> u32" where
  "shift_in s di = push_bit 1 s OR of_flag di"

definition on_opcode :: "CEeprom93cx6 \<Rightarrow> bool \<Rightarrow> CEeprom93cx6" where
  "on_opcode e di =
     (let e = e\<lparr>shift := shift_in (shift e) di, bits := bits e + 1\<rparr>
      in if bits e = 2 then e\<lparr>opcode := ucast (shift e), phase := ADDRESS, bits := 0, shift := 0\<rparr> else e)"

definition address_done :: "CEeprom93cx6 \<Rightarrow> CEeprom93cx6" where
  "address_done e =
     (let e = e\<lparr>address := ucast (shift e), bits := 0, shift := 0\<rparr>
      in if opcode e = 2
         then e\<lparr>phase := READING, out_word := e_data e (unat (address e) mod 2 ^ abits e), dout := False\<rparr>
         else if opcode e = 1 \<or> (opcode e = 0 \<and> drop_bit (abits e - 2) (address e) = 1)
         then e\<lparr>phase := WRITING\<rparr>
         else (command_complete e)\<lparr>phase := IDLE\<rparr>)"

definition on_address :: "CEeprom93cx6 \<Rightarrow> bool \<Rightarrow> CEeprom93cx6" where
  "on_address e di =
     (let e = e\<lparr>shift := shift_in (shift e) di, bits := bits e + 1\<rparr>
      in if bits e < abits e then e else address_done e)"

definition on_reading :: "CEeprom93cx6 \<Rightarrow> CEeprom93cx6" where
  "on_reading e =
     (let e = e\<lparr>dout := (out_word e AND 0x8000 \<noteq> 0), out_word := push_bit 1 (out_word e), bits := bits e + 1\<rparr>
      in if bits e = 16
         then let a = of_nat ((unat (address e) + 1) mod 2 ^ abits e)
              in e\<lparr>bits := 0, address := a, out_word := e_data e (unat a)\<rparr>
         else e)"

definition clock_edge :: "CEeprom93cx6 \<Rightarrow> bool \<Rightarrow> CEeprom93cx6" where
  "clock_edge e di =
     (case phase e of
        START \<Rightarrow> if di then e\<lparr>phase := OPCODE, bits := 0, shift := 0\<rparr> else e
      | OPCODE \<Rightarrow> on_opcode e di
      | ADDRESS \<Rightarrow> on_address e di
      | READING \<Rightarrow> on_reading e
      | WRITING \<Rightarrow> if bits e < 16 then e\<lparr>shift := shift_in (shift e) di, bits := bits e + 1\<rparr> else e
      | IDLE \<Rightarrow> e)"

definition set_pins :: "CEeprom93cx6 \<Rightarrow> bool \<Rightarrow> bool \<Rightarrow> bool \<Rightarrow> CEeprom93cx6" where
  "set_pins e cs sk di =
     (let rising = (sk \<and> \<not> sk_prev e); e = e\<lparr>sk_prev := sk\<rparr>
      in if \<not> cs
         then let e = (if cs_prev e \<and> phase e = WRITING \<and> bits e = 16 then command_complete e else e)
              in e\<lparr>cs_prev := False, phase := IDLE, dout := True\<rparr>
         else let e = (if \<not> cs_prev e then e\<lparr>cs_prev := True, phase := START\<rparr> else e)
              in if \<not> rising then e else clock_edge e di)"

section \<open>Commands\<close>

text \<open>One clock with chip select high, a sequence of bits, and the end of a command.\<close>

definition clk :: "CEeprom93cx6 \<Rightarrow> bool \<Rightarrow> CEeprom93cx6" where
  "clk e di = set_pins (set_pins e True False di) True True di"

definition send :: "CEeprom93cx6 \<Rightarrow> bool list \<Rightarrow> CEeprom93cx6" where
  "send e bs = foldl clk e bs"

definition deselect :: "CEeprom93cx6 \<Rightarrow> CEeprom93cx6" where
  "deselect e = set_pins e False False False"

text \<open>The bits of a value, most significant first.\<close>

fun to_bits :: "nat \<Rightarrow> 'a::len word \<Rightarrow> bool list" where
  "to_bits 0 v = []"
| "to_bits (Suc n) v = bit v n # to_bits n v"

text \<open>\<open>n\<close> clocks with the bits seen on data out.\<close>

fun clock_out :: "CEeprom93cx6 \<Rightarrow> nat \<Rightarrow> bool list \<times> CEeprom93cx6" where
  "clock_out e 0 = ([], e)"
| "clock_out e (Suc n) = (let e1 = clk e False; (bs, e2) = clock_out e1 n in (dout e1 # bs, e2))"

lemma send_simps [simp]:
  "send e [] = e" "send e (b # bs) = send (clk e b) bs" "send e (bs @ cs) = send (send e bs) cs"
  by (simp_all add: send_def)

lemma clk_selected: "cs_prev e \<Longrightarrow> clk e d = clock_edge (e\<lparr>sk_prev := True\<rparr>) d"
  by (simp add: clk_def set_pins_def Let_def)

lemma clk_running: "cs_prev e \<Longrightarrow> sk_prev e \<Longrightarrow> clk e d = clock_edge e d"
  by (cases e) (simp add: clk_selected)

lemma length_to_bits [simp]: "length (to_bits n v) = n"
  by (induction n) auto

lemma shift_in_bits:
  "n \<le> 16 \<Longrightarrow> foldl shift_in s (to_bits n (v :: u16)) = push_bit n s OR take_bit n (ucast v)"
proof (induction n arbitrary: s)
  case (Suc n)
  have "push_bit n (shift_in s (bit v n)) OR take_bit n (ucast v) = push_bit (Suc n) s OR take_bit (Suc n) (ucast v)"
    using Suc.prems
    by (intro bit_word_eqI) (auto simp: shift_in_def of_flag_def bit_simps less_Suc_eq not_less_eq Suc_le_eq dest: bit_imp_le_length)
  then show ?case using Suc by simp
qed simp

lemma start_command:
  assumes "\<not> cs_prev e"
  shows "send e [True, o1, o0] =
    e\<lparr>cs_prev := True, sk_prev := True, phase := ADDRESS, bits := 0, shift := 0,
      opcode := ucast (shift_in (shift_in 0 o1) o0)\<rparr>"
  using assms by (simp add: clk_def set_pins_def Let_def clock_edge_def on_opcode_def)

lemma send_address:
  "phase e = ADDRESS \<Longrightarrow> cs_prev e \<Longrightarrow> sk_prev e \<Longrightarrow> bits e + length bs < abits e \<Longrightarrow>
     send e bs = e\<lparr>shift := foldl shift_in (shift e) bs, bits := bits e + length bs\<rparr>"
proof (induction bs arbitrary: e)
  case (Cons b bs)
  have "clk e b = e\<lparr>shift := shift_in (shift e) b, bits := bits e + 1\<rparr>"
    using Cons.prems by (simp add: clk_selected clock_edge_def on_address_def)
  then show ?case using Cons.IH [of "clk e b"] Cons.prems by simp
qed simp

lemma send_writing:
  "phase e = WRITING \<Longrightarrow> cs_prev e \<Longrightarrow> sk_prev e \<Longrightarrow> bits e + length bs \<le> 16 \<Longrightarrow>
     send e bs = e\<lparr>shift := foldl shift_in (shift e) bs, bits := bits e + length bs\<rparr>"
proof (induction bs arbitrary: e)
  case (Cons b bs)
  have "clk e b = e\<lparr>shift := shift_in (shift e) b, bits := bits e + 1\<rparr>"
    using Cons.prems by (simp add: clk_selected clock_edge_def)
  then show ?case using Cons.IH [of "clk e b"] Cons.prems by simp
qed simp

lemma send_full_address:
  assumes "phase e = ADDRESS" "cs_prev e" "sk_prev e" "bits e = 0" "shift e = 0" "0 < abits e" "abits e \<le> 16"
  shows "send e (to_bits (abits e) (a :: u16)) =
    address_done (e\<lparr>shift := take_bit (abits e) (ucast a), bits := abits e\<rparr>)"
proof -
  obtain bs b where bs: "to_bits (abits e) a = bs @ [b]"
    using assms(6) by (metis length_to_bits length_0_conv rev_exhaust not_gr_zero)
  then have len: "length bs = abits e - 1" using length_to_bits [of "abits e" a] by simp
  have "send e bs = e\<lparr>shift := foldl shift_in 0 bs, bits := length bs\<rparr>"
    using assms len by (subst send_address) auto
  moreover have "shift_in (foldl shift_in 0 bs) b = take_bit (abits e) (ucast a)"
    using shift_in_bits [OF assms(7), of 0 a] by (simp add: bs)
  ultimately show ?thesis
    using assms len by (simp add: bs clk_running clock_edge_def on_address_def Let_def)
qed

text \<open>The WRITE and READ commands as a driver clocks them in.\<close>

definition write_cmd :: "CEeprom93cx6 \<Rightarrow> u16 \<Rightarrow> u16 \<Rightarrow> CEeprom93cx6" where
  "write_cmd e a v = deselect (send e ([True, False, True] @ to_bits (abits e) a @ to_bits 16 v))"

definition read_cmd :: "CEeprom93cx6 \<Rightarrow> u16 \<Rightarrow> nat \<Rightarrow> bool list \<times> CEeprom93cx6" where
  "read_cmd e a n = clock_out (send e ([True, True, False] @ to_bits (abits e) a)) n"

lemma take_bit_address:
  "unat (a :: u16) < 2 ^ n \<Longrightarrow> n \<le> 16 \<Longrightarrow> ucast (take_bit n (ucast a :: u32)) = a"
proof -
  assume a: "unat a < 2 ^ n" "n \<le> 16"
  then have "take_bit n a = a"
    by (simp add: word_unat_eq_iff unsigned_take_bit_eq take_bit_nat_eq_self)
  moreover have "ucast (take_bit n (ucast a :: u32)) = (take_bit n a :: u16)"
    by (rule bit_word_eqI) (auto simp: bit_simps)
  ultimately show "ucast (take_bit n (ucast a :: u32)) = a" by simp
qed

lemma write_cmd_data:
  assumes "\<not> cs_prev e" "2 \<le> abits e" "abits e \<le> 8" "write_enabled e" "unat a < 2 ^ abits e"
  shows "e_data (write_cmd e a v) = (e_data e)(unat a := v)" "\<not> cs_prev (write_cmd e a v)"
    "abits (write_cmd e a v) = abits e"
proof -
  let ?e0 = "e\<lparr>cs_prev := True, sk_prev := True, phase := ADDRESS, bits := 0, shift := 0, opcode := 1\<rparr>"
  let ?e1 = "?e0\<lparr>address := a, bits := 0, shift := 0, phase := WRITING\<rparr>"
  have s: "send e [True, False, True] = ?e0"
    using start_command [OF assms(1), of False True] by (simp add: shift_in_def of_flag_def)
  have t: "send ?e0 (to_bits (abits e) a) = ?e1"
    using assms send_full_address [of ?e0 a]
    by (simp add: address_done_def Let_def take_bit_address)
  have "take_bit 16 (ucast v :: u32) = ucast v" by (rule bit_word_eqI) (auto simp: bit_simps dest: bit_imp_le_length)
  then have "foldl shift_in 0 (to_bits 16 v) = ucast v"
    using shift_in_bits [of 16 0 v] by simp
  then have u: "send ?e1 (to_bits 16 v) = ?e1\<lparr>shift := ucast v, bits := 16\<rparr>"
    by (subst send_writing) simp_all
  have w: "write_cmd e a v = deselect (?e1\<lparr>shift := ucast v, bits := 16\<rparr>)"
    unfolding write_cmd_def using s t u by simp
  have "ucast (ucast v :: u32) = v" by (rule bit_word_eqI) (auto simp: bit_simps)
  then show "e_data (write_cmd e a v) = (e_data e)(unat a := v)" "\<not> cs_prev (write_cmd e a v)"
    "abits (write_cmd e a v) = abits e"
    unfolding w using assms by (simp_all add: deselect_def set_pins_def command_complete_def Let_def)
qed

section \<open>Reading\<close>

text \<open>The word shifted out, most significant bit first.\<close>

fun shift_out :: "nat \<Rightarrow> u16 \<Rightarrow> bool list" where
  "shift_out 0 w = []"
| "shift_out (Suc n) w = bit w 15 # shift_out n (push_bit 1 w)"

lemma shift_out_to_bits: "k + n = 16 \<Longrightarrow> shift_out n (push_bit k w) = to_bits n w"
proof (induction n arbitrary: k)
  case (Suc n)
  then have "15 - k = n" "k \<le> 15" by auto
  then show ?case using Suc.IH [of "Suc k"] Suc.prems by (simp add: push_bit_push_bit bit_simps del: push_bit_Suc)
qed simp

lemma shift_out_snoc: "shift_out (Suc n) w = shift_out n w @ [bit (push_bit n w) 15]"
proof (induction n arbitrary: w)
  case (Suc n)
  have "shift_out (Suc (Suc n)) w = bit w 15 # shift_out (Suc n) (push_bit 1 w)" by (rule shift_out.simps)
  also have "\<dots> = shift_out (Suc n) w @ [bit (push_bit (Suc n) w) 15]"
    unfolding Suc [of "push_bit 1 w"] by (simp add: push_bit_push_bit)
  finally show ?case .
qed simp

lemma and_8000: "(w :: u16) AND 0x8000 \<noteq> 0 \<longleftrightarrow> bit w 15"
  using and_mask1_eq_0 [of w 15] by (simp add: mask1_def)

definition reading_at :: "CEeprom93cx6 \<Rightarrow> nat \<Rightarrow> bool" where
  "reading_at e a \<longleftrightarrow> phase e = READING \<and> cs_prev e \<and> sk_prev e \<and> bits e = 0 \<and> unat (address e) = a \<and>
     a < 2 ^ abits e \<and> out_word e = e_data e a \<and> abits e \<le> 8"

lemma clock_out_bits:
  "phase e = READING \<Longrightarrow> cs_prev e \<Longrightarrow> sk_prev e \<Longrightarrow> bits e + n < 16 \<Longrightarrow>
     \<exists>d. clock_out e n = (shift_out n (out_word e),
       e\<lparr>dout := d, out_word := push_bit n (out_word e), bits := bits e + n\<rparr>)"
proof (induction n arbitrary: e)
  case 0
  show ?case by (rule exI [of _ "dout e"]) simp
next
  case (Suc n)
  let ?e = "e\<lparr>dout := bit (out_word e) 15, out_word := push_bit 1 (out_word e), bits := bits e + 1\<rparr>"
  have c: "clk e False = ?e"
    using Suc.prems by (simp add: clk_running clock_edge_def on_reading_def and_8000)
  obtain d where "clock_out ?e n = (shift_out n (push_bit 1 (out_word e)),
      ?e\<lparr>dout := d, out_word := push_bit n (push_bit 1 (out_word e)), bits := bits e + 1 + n\<rparr>)"
    using Suc.IH [of ?e] Suc.prems by auto
  then show ?case by (intro exI [of _ d]) (simp add: c push_bit_push_bit add.commute)
qed

lemma clock_out_add: "clock_out e (m + n) = (let (bs, e1) = clock_out e m; (cs, e2) = clock_out e1 n in (bs @ cs, e2))"
  by (induction m arbitrary: e) (auto simp: Let_def split: prod.splits)

lemma clock_out_word:
  assumes "reading_at e a"
  shows "\<exists>e'. clock_out e 16 = (to_bits 16 (e_data e a), e') \<and> reading_at e' ((a + 1) mod 2 ^ abits e) \<and>
    e_data e' = e_data e \<and> abits e' = abits e"
proof -
  obtain d where d: "clock_out e 15 = (shift_out 15 (out_word e),
      e\<lparr>dout := d, out_word := push_bit 15 (out_word e), bits := 15\<rparr>)"
    using clock_out_bits [of e 15] assms by (auto simp: reading_at_def)
  let ?e = "e\<lparr>dout := d, out_word := push_bit 15 (out_word e), bits := 15\<rparr>"
  define n where "n = (a + 1) mod 2 ^ abits e"
  have "n < 2 ^ abits e" by (simp add: n_def)
  also have "\<dots> \<le> 2 ^ 8" using assms by (intro power_increasing) (auto simp: reading_at_def)
  finally have n: "n < 2 ^ abits e" "unat (of_nat n :: u16) = n" by (simp_all add: n_def unat_of_nat)
  have c: "clk ?e False = ?e\<lparr>dout := bit (push_bit 15 (out_word e)) 15, bits := 0, address := of_nat n,
      out_word := e_data e n\<rparr>"
    using assms n by (simp add: reading_at_def clk_running clock_edge_def on_reading_def and_8000 n_def Let_def)
  have "clock_out e 16 = (shift_out 15 (out_word e) @ [bit (push_bit 15 (out_word e)) 15], clk ?e False)"
    using clock_out_add [of e 15 1] d c by simp
  moreover have "shift_out 15 (out_word e) @ [bit (push_bit 15 (out_word e)) 15] = to_bits 16 (out_word e)"
    using shift_out_snoc [of 15 "out_word e"] shift_out_to_bits [of 0 16 "out_word e"] by simp
  moreover have "reading_at (clk ?e False) n \<and> e_data (clk ?e False) = e_data e \<and> abits (clk ?e False) = abits e"
    using assms n unfolding c by (simp add: reading_at_def)
  moreover have "out_word e = e_data e a" using assms by (simp add: reading_at_def)
  ultimately show ?thesis unfolding n_def by metis
qed

lemma clock_out_words:
  "reading_at e a \<Longrightarrow>
     fst (clock_out e (16 * k)) = concat (map (\<lambda>i. to_bits 16 (e_data e ((a + i) mod 2 ^ abits e))) [0..<k])"
proof (induction k arbitrary: e a)
  case (Suc k)
  obtain e' where e': "clock_out e 16 = (to_bits 16 (e_data e a), e')" "reading_at e' ((a + 1) mod 2 ^ abits e)"
    "e_data e' = e_data e" "abits e' = abits e"
    using clock_out_word [OF Suc.prems] by auto
  have "a mod 2 ^ abits e = a" using Suc.prems by (simp add: reading_at_def)
  moreover have "((a + 1) mod 2 ^ abits e + i) mod 2 ^ abits e = (a + Suc i) mod 2 ^ abits e" for i
    by (simp add: mod_simps)
  ultimately show ?case
    using clock_out_add [of e 16 "16 * k"] e' Suc.IH [OF e'(2)]
    by (simp add: split_beta upt_conv_Cons map_Suc_upt [symmetric] comp_def del: upt_Suc)
qed simp

lemma read_cmd_start:
  fixes e :: CEeprom93cx6 and a :: u16
  assumes "\<not> cs_prev e" "2 \<le> abits e" "abits e \<le> 8" "unat a < 2 ^ abits e"
  defines "e1 \<equiv> send e ([True, True, False] @ to_bits (abits e) a)"
  shows "reading_at e1 (unat a) \<and> e_data e1 = e_data e \<and> abits e1 = abits e \<and> \<not> dout e1"
proof -
  let ?e0 = "e\<lparr>cs_prev := True, sk_prev := True, phase := ADDRESS, bits := 0, shift := 0, opcode := 2\<rparr>"
  have "send e [True, True, False] = ?e0"
    using start_command [OF assms(1), of True False] by (simp add: shift_in_def of_flag_def)
  moreover have "send ?e0 (to_bits (abits e) a) =
      ?e0\<lparr>address := a, bits := 0, shift := 0, phase := READING, out_word := e_data e (unat a), dout := False\<rparr>"
    using assms send_full_address [of ?e0 a] by (simp add: address_done_def Let_def take_bit_address)
  ultimately have "e1 = ?e0\<lparr>address := a, bits := 0, shift := 0, phase := READING, out_word := e_data e (unat a), dout := False\<rparr>"
    by (simp add: e1_def)
  then show ?thesis using assms by (simp add: reading_at_def)
qed

section \<open>Properties\<close>

text \<open>
  C30. Write, then read back. On a deselected part of 2 to 8 address bits with writing enabled, the
  WRITE command stores the word at its address and changes no other; the READ command then drives
  the dummy 0 after the last address bit and shifts out the stored words, most significant bit
  first, one after the other from the address read and wrapping at the end of the part.
\<close>

theorem eeprom_write_read:
  assumes "\<not> cs_prev e" and "2 \<le> abits e" and "abits e \<le> 8" and "write_enabled e"
    and "unat a < 2 ^ abits e" and "unat b < 2 ^ abits e"
  shows "let e' = write_cmd e a v in
    e_data e' = (e_data e)(unat a := v) \<and>
    \<not> dout (send e' ([True, True, False] @ to_bits (abits e) b)) \<and>
    fst (read_cmd e' b (16 * k)) =
      concat (map (\<lambda>i. to_bits 16 (((e_data e)(unat a := v)) ((unat b + i) mod 2 ^ abits e))) [0..<k])"
proof -
  note w = write_cmd_data [OF assms(1-5), of v]
  have "reading_at (send (write_cmd e a v) ([True, True, False] @ to_bits (abits e) b)) (unat b) \<and>
      e_data (send (write_cmd e a v) ([True, True, False] @ to_bits (abits e) b)) = (e_data e)(unat a := v) \<and>
      abits (send (write_cmd e a v) ([True, True, False] @ to_bits (abits e) b)) = abits e \<and>
      \<not> dout (send (write_cmd e a v) ([True, True, False] @ to_bits (abits e) b))"
    using read_cmd_start [of "write_cmd e a v" b] assms w by simp
  then show ?thesis
    using clock_out_words [of "send (write_cmd e a v) ([True, True, False] @ to_bits (abits e) b)" "unat b" k] w
    by (simp add: read_cmd_def Let_def)
qed

definition eeprom_blank :: CEeprom93cx6 where
  "eeprom_blank = \<lparr>e_data = \<lambda>_. 0xffff, abits = 6, phase = IDLE, cs_prev = False, sk_prev = False, dout = True,
     write_enabled = True, opcode = 0, bits = 0, shift = 0, address = 0, out_word = 0\<rparr>"

theorem eeprom_write_read_witness:
  "e_data (write_cmd eeprom_blank 5 0x1234) 5 = 0x1234"
  using eeprom_write_read [of eeprom_blank 5 5 "0x1234" 0] by (simp add: eeprom_blank_def Let_def)

fun pins_step :: "CEeprom93cx6 \<Rightarrow> bool \<times> bool \<times> bool \<Rightarrow> CEeprom93cx6" where
  "pins_step e (cs, sk, di) = set_pins e cs sk di"

text \<open>Data is only collected for a write or a write-all.\<close>

definition collecting_ok :: "CEeprom93cx6 \<Rightarrow> bool" where
  "collecting_ok e \<longleftrightarrow>
     (phase e = WRITING \<longrightarrow> opcode e = 1 \<or> opcode e = 0 \<and> drop_bit (abits e - 2) (address e) = 1)"

lemma collecting_step: "collecting_ok e \<Longrightarrow> collecting_ok (pins_step e p)"
  by (cases p; cases "phase e")
    (auto simp: collecting_ok_def set_pins_def clock_edge_def on_opcode_def on_address_def address_done_def
      on_reading_def Let_def)

interpretation eepm: total_machine pins_step collecting_ok
  by unfold_locales (rule collecting_step)

lemma command_complete_protected:
  assumes "\<not> write_enabled e"
  shows "e_data (command_complete e) = e_data e"
    and "write_enabled (command_complete e) \<longleftrightarrow> opcode e = 0 \<and> drop_bit (abits e - 2) (address e) = 3"
  using assms by (simp_all add: command_complete_def Let_def)

text \<open>
  Write protection. In every state the pins can bring the part to, while writing is disabled no
  change of the pins changes a word, and the only one that enables writing is the clock of the last
  address bit of the write-enable command, opcode 00 with both top address bits set.
\<close>

theorem eeprom_write_protected:
  assumes "e = foldl pins_step (eeprom_init e0 n) ps" and "\<not> write_enabled e"
  shows "e_data (set_pins e cs sk di) = e_data e \<and>
    (write_enabled (set_pins e cs sk di) \<longrightarrow> cs \<and> sk \<and> \<not> sk_prev e \<and> phase e = ADDRESS \<and> opcode e = 0 \<and>
       drop_bit (abits e - 2) (ucast (shift_in (shift e) di) :: u16) = 3)"
proof -
  have "collecting_ok (eeprom_init e0 n)" by (simp add: eeprom_init_def collecting_ok_def)
  then have ok: "collecting_ok e" using eepm.run_total assms(1) by simp
  show ?thesis
    using ok assms(2)
    by (cases "phase e")
      (auto simp: collecting_ok_def set_pins_def clock_edge_def on_opcode_def on_address_def address_done_def
        on_reading_def command_complete_protected Let_def)
qed

theorem eeprom_write_protected_witness:
  "e_data (set_pins (eeprom_init eeprom_blank 6) True True True) = e_data (eeprom_init eeprom_blank 6)"
  using eeprom_write_protected [of "eeprom_init eeprom_blank 6" eeprom_blank 6 "[]" True True True]
  by (simp add: eeprom_init_def)

end
