(* ===== verification/I8254.thy ===== *)
theory I8254
  imports Axp_Prelude
begin

text \<open>
  The 8254 interval timer, \<^verbatim>\<open>src/src/devices/isa/I8254.cpp\<close>: three counters whose count and
  output are derived from the host's nanosecond clock, the ports with their latches and two-byte
  sequencing, counts that wait for the end of a cycle, the gates, the decrementing machinery of
  \<open>clock\<close> and the state written to and read back from a state file. The host clock is an
  argument of every operation that reads it. Properties are in \<^verbatim>\<open>I8254_Facts\<close>.
\<close>

section \<open>State\<close>

text \<open>\<open>p_counter\<close>: 0-2 the counts, 3-5 the latch words, 6-8 the initial counts.\<close>

record SPit_state =
  p_counter :: "nat \<Rightarrow> u32"
  p_status :: "nat \<Rightarrow> u8"
  p_mode :: "nat \<Rightarrow> u8"

record CI8254 =
  pit_s :: SPit_state
  epoch :: "nat \<Rightarrow> u64"
  last_ns :: u64
  acc :: u64
  gate :: "nat \<Rightarrow> bool"
  next_n :: "nat \<Rightarrow> u32"
  next_at :: "nat \<Rightarrow> u64"
  next_epoch :: "nat \<Rightarrow> u64"

abbreviation (input) PIT_CLOCK_HZ :: u64 where "PIT_CLOCK_HZ \<equiv> 1193182"
abbreviation (input) PIT_OFFSET_LATCH :: nat where "PIT_OFFSET_LATCH \<equiv> 3"
abbreviation (input) PIT_OFFSET_MAX :: nat where "PIT_OFFSET_MAX \<equiv> 6"
abbreviation (input) PIT_LATCH_VALID :: u32 where "PIT_LATCH_VALID \<equiv> 0x00010000"
abbreviation (input) PIT_LATCH_HIGH_NEXT :: u32 where "PIT_LATCH_HIGH_NEXT \<equiv> 0x00020000"
abbreviation (input) PIT_LATCH_STATUS :: u32 where "PIT_LATCH_STATUS \<equiv> 0x00040000"
abbreviation (input) NS :: u64 where "NS \<equiv> 1000000000"

definition set_counter :: "nat \<Rightarrow> u32 \<Rightarrow> SPit_state \<Rightarrow> SPit_state" where
  "set_counter i v s = s\<lparr>p_counter := (p_counter s)(i := v)\<rparr>"

definition set_status :: "nat \<Rightarrow> u8 \<Rightarrow> SPit_state \<Rightarrow> SPit_state" where
  "set_status i v s = s\<lparr>p_status := (p_status s)(i := v)\<rparr>"

definition set_mode :: "nat \<Rightarrow> u8 \<Rightarrow> SPit_state \<Rightarrow> SPit_state" where
  "set_mode i v s = s\<lparr>p_mode := (p_mode s)(i := v)\<rparr>"

definition upd_s :: "(SPit_state \<Rightarrow> SPit_state) \<Rightarrow> CI8254 \<Rightarrow> CI8254" where
  "upd_s f p = p\<lparr>pit_s := f (pit_s p)\<rparr>"

section \<open>Time and number conversions\<close>

definition clocks_between :: "u64 \<Rightarrow> u64 \<Rightarrow> u64" where
  "clocks_between frm to =
     (if to \<le> frm then 0
      else let ns = to - frm in (ns div NS) * PIT_CLOCK_HZ + (ns mod NS) * PIT_CLOCK_HZ div NS)"

definition ns_for_clocks :: "u64 \<Rightarrow> u64" where
  "ns_for_clocks clocks =
     (clocks div PIT_CLOCK_HZ) * NS + (clocks mod PIT_CLOCK_HZ) * NS div PIT_CLOCK_HZ"

definition to_bcd :: "u32 \<Rightarrow> u16" where
  "to_bcd v = (let v = v mod 10000 in
     ucast (push_bit 12 (v div 1000) OR push_bit 8 ((v div 100) mod 10) OR push_bit 4 ((v div 10) mod 10) OR (v mod 10)))"

definition from_bcd :: "u32 \<Rightarrow> u32" where
  "from_bcd v = (drop_bit 12 v AND 0xf) * 1000 + (drop_bit 8 v AND 0xf) * 100 +
     (drop_bit 4 v AND 0xf) * 10 + (v AND 0xf)"

definition initial :: "SPit_state \<Rightarrow> nat \<Rightarrow> u32" where
  "initial s c = p_counter s (c + PIT_OFFSET_MAX) AND 0x1ffff"

definition mode_of :: "SPit_state \<Rightarrow> nat \<Rightarrow> u8" where
  "mode_of s c = drop_bit 1 (p_status s c AND 0x0e)"

definition bcd :: "SPit_state \<Rightarrow> nat \<Rightarrow> bool" where
  "bcd s c \<longleftrightarrow> p_status s c AND 0x01 \<noteq> 0"

definition modulus :: "SPit_state \<Rightarrow> nat \<Rightarrow> u64" where
  "modulus s c = (if bcd s c then 10000 else 0x10000)"

definition wrap :: "SPit_state \<Rightarrow> nat \<Rightarrow> u32 \<Rightarrow> u64 \<Rightarrow> u32" where
  "wrap s c count clocks =
     (let m = modulus s c in ucast ((ucast count mod m + m - clocks mod m) mod m))"

definition null_count :: "SPit_state \<Rightarrow> nat \<Rightarrow> bool" where
  "null_count s c \<longleftrightarrow> p_status s c AND 0x40 \<noteq> 0"

section \<open>Counts that wait, and what a counter shows\<close>

definition settle :: "CI8254 \<Rightarrow> nat \<Rightarrow> u64 \<Rightarrow> CI8254" where
  "settle p c now =
     (if next_n p c = 0 \<or> now < next_at p c then p
      else (upd_s (\<lambda>s. set_counter (c + PIT_OFFSET_MAX)
              (p_counter s (c + PIT_OFFSET_MAX) AND 0xff000000 OR next_n p c) s) p)
           \<lparr>epoch := (epoch p)(c := next_epoch p c), next_n := (next_n p)(c := 0)\<rparr>)"

definition schedule :: "CI8254 \<Rightarrow> nat \<Rightarrow> u32 \<Rightarrow> u64 \<Rightarrow> CI8254" where
  "schedule p c count now =
     (let n = initial (pit_s p) c; n64 = ucast n; clocks = clocks_between (epoch p c) now;
          start = clocks - clocks mod n64;
          at_end = epoch p c + ns_for_clocks (start + n64);
          (at, ep) =
            (if mode_of (pit_s p) c = 2 then (at_end, at_end)
             else let first = ucast ((n + 1) div 2)
                  in if clocks - start < first
                     then let at = epoch p c + ns_for_clocks (start + first)
                          in (at, at - ns_for_clocks (ucast ((count + 1) div 2)))
                     else (at_end, at_end))
      in p\<lparr>next_at := (next_at p)(c := at), next_epoch := (next_epoch p)(c := ep),
           next_n := (next_n p)(c := count)\<rparr>)"

text \<open>The count a running counter has reached, \<open>clocks\<close> input clocks after its load.\<close>

definition running_count :: "SPit_state \<Rightarrow> nat \<Rightarrow> u64 \<Rightarrow> u32" where
  "running_count s c clocks =
     (let n = initial s c in
      if mode_of s c = 0 then wrap s c n clocks
      else if mode_of s c = 2 then n - ucast (clocks mod ucast n)
      else if mode_of s c = 3 then (n - ucast ((clocks * 2) mod ucast n)) AND NOT 1
      else p_counter s c)"

definition count_now :: "CI8254 \<Rightarrow> nat \<Rightarrow> u64 \<Rightarrow> CI8254 \<times> u16" where
  "count_now p c now =
     (let p = settle p c now; s = pit_s p;
          count = (if \<not> null_count s c \<and> initial s c \<noteq> 0 \<and> gate p c
                   then running_count s c (clocks_between (epoch p c) now)
                   else p_counter s c)
      in (p, if bcd s c then to_bcd count else ucast count))"

definition running_out :: "SPit_state \<Rightarrow> nat \<Rightarrow> u64 \<Rightarrow> bool" where
  "running_out s c clocks =
     (if mode_of s c = 0 then clocks \<ge> ucast (initial s c)
      else if mode_of s c = 3 then (clocks mod ucast (initial s c)) * 2 < ucast (initial s c)
      else p_status s c AND 0x80 \<noteq> 0)"

definition out_now :: "CI8254 \<Rightarrow> nat \<Rightarrow> u64 \<Rightarrow> CI8254 \<times> bool" where
  "out_now p c now =
     (let p = settle p c now; s = pit_s p; mode = mode_of s c; n = initial s c
      in (p, if null_count s c then mode \<noteq> 0
             else if \<not> gate p c then if mode = 0 then p_status s c AND 0x80 \<noteq> 0 else True
             else if n = 0 then True
             else running_out s c (clocks_between (epoch p c) now)))"

section \<open>Ports\<close>

definition pit_reset :: "CI8254 \<Rightarrow> u64 \<Rightarrow> CI8254" where
  "pit_reset p now =
     p\<lparr>pit_s := (pit_s p)\<lparr>p_status := (\<lambda>i. if i < 3 then 0x40 else p_status (pit_s p) i),
                          p_counter := (\<lambda>i. if i < 9 then 0 else p_counter (pit_s p) i)\<rparr>,
       last_ns := now, epoch := (\<lambda>_. now), acc := 0\<rparr>"

definition load_gate :: "CI8254 \<Rightarrow> nat \<Rightarrow> bool \<Rightarrow> CI8254" where
  "load_gate p c high = p\<lparr>gate := (gate p)(c := high)\<rparr>"

definition latch_of :: "CI8254 \<Rightarrow> nat \<Rightarrow> u32" where
  "latch_of p c = p_counter (pit_s p) (c + PIT_OFFSET_LATCH)"

definition set_latch :: "nat \<Rightarrow> u32 \<Rightarrow> CI8254 \<Rightarrow> CI8254" where
  "set_latch c v = upd_s (set_counter (c + PIT_OFFSET_LATCH) v)"

definition access_of :: "CI8254 \<Rightarrow> nat \<Rightarrow> u8" where
  "access_of p c = drop_bit 4 (p_status (pit_s p) c AND 0x30)"

definition pit_read :: "CI8254 \<Rightarrow> nat \<Rightarrow> u64 \<Rightarrow> CI8254 \<times> u8" where
  "pit_read p port now =
     (if port \<ge> 3 then (p, 0)
      else let latch = latch_of p port
      in if latch AND PIT_LATCH_STATUS \<noteq> 0
         then (set_latch port (latch AND (0x00ffffff AND NOT PIT_LATCH_STATUS)) p, ucast (drop_bit 24 latch))
         else let latched = (latch AND PIT_LATCH_VALID \<noteq> 0);
                  (p, count) = (if latched then (p, ucast latch) else count_now p port now);
                  access = access_of p port;
                  unlatch = (if latched then set_latch port 0 p else p)
              in if access = 1 then (unlatch, ucast count)
                 else if access = 2 then (unlatch, ucast (drop_bit 8 count))
                 else if access = 3
                 then if latch AND PIT_LATCH_HIGH_NEXT = 0
                      then (set_latch port (ucast count OR PIT_LATCH_VALID OR PIT_LATCH_HIGH_NEXT) p, ucast count)
                      else (set_latch port 0 p, ucast (drop_bit 8 count))
                 else (p, 0))"

text \<open>Latching a count, which never replaces one that is held, and latching the status.\<close>

definition latch_count :: "CI8254 \<Rightarrow> nat \<Rightarrow> u64 \<Rightarrow> CI8254" where
  "latch_count p c now =
     (if latch_of p c AND PIT_LATCH_VALID \<noteq> 0 then p
      else let (p', count) = count_now p c now
           in set_latch c (latch_of p c AND (PIT_LATCH_STATUS OR 0xff000000) OR ucast count OR PIT_LATCH_VALID) p')"

definition latch_status :: "CI8254 \<Rightarrow> nat \<Rightarrow> u64 \<Rightarrow> CI8254" where
  "latch_status p c now =
     (if latch_of p c AND PIT_LATCH_STATUS \<noteq> 0 then p
      else let (p', high) = out_now p c now;
               st = (if high then 0x80 else 0) OR (if next_n p' c \<noteq> 0 then 0x40 else 0) OR
                    (p_status (pit_s p') c AND 0x7f) :: u8
           in set_latch c (latch_of p c OR PIT_LATCH_STATUS OR push_bit 24 (ucast st)) p')"

definition read_back_one :: "u8 \<Rightarrow> u64 \<Rightarrow> CI8254 \<Rightarrow> nat \<Rightarrow> CI8254" where
  "read_back_one data now p c =
     (if data AND push_bit c 2 = 0 then p
      else let p = (if data AND 0x10 = 0 then latch_status p c now else p)
           in if data AND 0x20 = 0 then latch_count p c now else p)"

definition write_control :: "CI8254 \<Rightarrow> u8 \<Rightarrow> u64 \<Rightarrow> CI8254" where
  "write_control p data now =
     (let counter = unat (drop_bit 6 data AND 3); access = drop_bit 4 data AND 3
      in if counter = 3 then foldl (read_back_one data now) p [0, 1, 2]
         else if access = 0 then latch_count p counter now
         else let mode = drop_bit 1 data AND 7; mode = (if mode \<ge> 6 then mode - 4 else mode);
                  st = (data AND 0x31) OR push_bit 1 mode OR 0x40;
                  st = (if mode \<noteq> 0 then st OR 0x80 else st)
              in (upd_s (\<lambda>s. set_counter (counter + PIT_OFFSET_MAX) (p_counter s (counter + PIT_OFFSET_MAX) AND 0x1ffff)
                    (set_counter (counter + PIT_OFFSET_LATCH) 0
                      (set_mode counter access (set_status counter st s)))) p)
                 \<lparr>next_n := (next_n p)(counter := 0)\<rparr>)"

definition load_count :: "CI8254 \<Rightarrow> nat \<Rightarrow> u32 \<Rightarrow> u64 \<Rightarrow> CI8254" where
  "load_count p c count now =
     (let count = (if bcd (pit_s p) c then from_bcd count else count);
          count = (if count = 0 then if bcd (pit_s p) c then 10000 else 65536 else count);
          p = settle p c now; mode = mode_of (pit_s p) c
      in if (mode = 2 \<or> mode = 3) \<and> \<not> null_count (pit_s p) c \<and> gate p c \<and> initial (pit_s p) c \<noteq> 0
         then schedule p c count now
         else let st = p_status (pit_s p) c AND NOT 0x40;
                  st = (if mode = 0 then st AND NOT 0x80 else st OR 0x80)
              in (upd_s (\<lambda>s. set_status c st (set_counter (c + PIT_OFFSET_LATCH) 0
                    (set_counter (c + PIT_OFFSET_MAX) count (set_counter c count s)))) p)
                 \<lparr>next_n := (next_n p)(c := 0), epoch := (epoch p)(c := now)\<rparr>)"

definition pit_write :: "CI8254 \<Rightarrow> nat \<Rightarrow> u8 \<Rightarrow> u64 \<Rightarrow> CI8254" where
  "pit_write p port data now =
     (if port = 3 then write_control p data now
      else if port < 3
      then let access = access_of p port; init = p_counter (pit_s p) (port + PIT_OFFSET_MAX)
           in if access = 1 then load_count p port (ucast data) now
              else if access = 2 then load_count p port (push_bit 8 (ucast data)) now
              else if access = 3
              then if p_mode (pit_s p) port = 3
                   then upd_s (\<lambda>s. set_mode port 2
                          (set_counter (port + PIT_OFFSET_MAX) (init AND 0x1ffff OR push_bit 24 (ucast data)) s)) p
                   else load_count
                          (upd_s (\<lambda>s. set_mode port 3 (set_counter (port + PIT_OFFSET_MAX) (init AND 0x1ffff) s)) p)
                          port (drop_bit 24 init OR push_bit 8 (ucast data)) now
              else p
      else p)"

section \<open>State files and gates\<close>

text \<open>\<open>freeze\<close> writes the count and OUT as of now into \<open>into\<close>, \<open>phase_of\<close> is the way back.\<close>

definition frozen :: "SPit_state \<Rightarrow> nat \<Rightarrow> u64 \<Rightarrow> (u32 \<times> bool) option" where
  "frozen s c clocks =
     (let n = initial s c; n64 = ucast n in
      if mode_of s c = 0 then Some (wrap s c n clocks, clocks \<ge> n64)
      else if mode_of s c = 2 then Some (n - ucast (clocks mod n64), True)
      else if mode_of s c = 3
      then let ph = ucast (clocks mod n64); first = (n + 1) div 2; high = (ph < first)
           in Some (n - 2 * (if high then ph else ph - first), high)
      else None)"

definition freeze :: "CI8254 \<Rightarrow> nat \<Rightarrow> u64 \<Rightarrow> SPit_state \<Rightarrow> CI8254 \<times> SPit_state" where
  "freeze p c now into =
     (let p = settle p c now; s = pit_s p
      in if null_count s c \<or> initial s c = 0 \<or> \<not> gate p c then (p, into)
         else case frozen s c (clocks_between (epoch p c) now) of
                None \<Rightarrow> (p, into)
              | Some (count, high) \<Rightarrow>
                  (p, set_status c (if high then p_status into c OR 0x80 else p_status into c AND NOT 0x80)
                        (set_counter c count into)))"

definition phase_of :: "SPit_state \<Rightarrow> nat \<Rightarrow> u64" where
  "phase_of s c =
     (let n = initial s c; count = p_counter s c; high = (p_status s c AND 0x80 \<noteq> 0)
      in if null_count s c \<or> n = 0 then 0
         else if mode_of s c = 0
         then if \<not> high then if count \<le> n then ucast (n - count) else 0
              else ucast n + ucast (wrap s c 0 (ucast count))
         else if mode_of s c = 2 then if 1 \<le> count \<and> count \<le> n then ucast (n - count) else 0
         else if mode_of s c = 3
         then let half = (if count \<le> n then (n - count) div 2 else 0)
              in if high then ucast half else ucast ((n + 1) div 2 + half)
         else 0)"

definition save_one :: "u64 \<Rightarrow> CI8254 \<times> SPit_state \<Rightarrow> nat \<Rightarrow> CI8254 \<times> SPit_state" where
  "save_one now = (\<lambda>(p, into) c.
     let (p, into) = freeze p c now into
     in if next_n p c \<noteq> 0
        then (p, set_status c (p_status into c OR 0x80) (set_counter c (next_n p c)
               (set_counter (c + PIT_OFFSET_MAX)
                 (p_counter into (c + PIT_OFFSET_MAX) AND 0xff000000 OR next_n p c) into)))
        else (p, into))"

definition pit_save :: "CI8254 \<Rightarrow> u64 \<Rightarrow> SPit_state \<Rightarrow> CI8254 \<times> SPit_state" where
  "pit_save p now into = foldl (save_one now) (p, into) [0, 1, 2]"

definition restore_one :: "u64 \<Rightarrow> CI8254 \<Rightarrow> nat \<Rightarrow> CI8254" where
  "restore_one now p c =
     (let p = p\<lparr>next_n := (next_n p)(c := 0)\<rparr>; s = pit_s p; latch = latch_of p c;
          init = p_counter s (c + PIT_OFFSET_MAX);
          p = (if p_mode s c = 2 \<and> init AND 0xff000000 = 0 \<and> latch AND 0xffffff00 = 0
               then upd_s (\<lambda>s. set_counter (c + PIT_OFFSET_LATCH) 0
                      (set_counter (c + PIT_OFFSET_MAX) (init OR push_bit 24 latch) s)) p
               else p)
      in p\<lparr>epoch := (epoch p)(c := now - ns_for_clocks (phase_of (pit_s p) c))\<rparr>)"

definition pit_restored :: "CI8254 \<Rightarrow> u64 \<Rightarrow> CI8254" where
  "pit_restored p now = foldl (restore_one now) (p\<lparr>last_ns := now, acc := 0\<rparr>) [0, 1, 2]"

definition set_gate :: "CI8254 \<Rightarrow> nat \<Rightarrow> bool \<Rightarrow> u64 \<Rightarrow> CI8254" where
  "set_gate p c high now =
     (let was_high = gate p c; mode = mode_of (pit_s p) c; p = settle p c now;
          p = (if was_high \<and> \<not> high
               then if mode = 0
                    then let (q, s') = freeze p c now (pit_s p) in q\<lparr>pit_s := s'\<rparr>
                    else upd_s (\<lambda>s. set_status c (p_status s c OR 0x80) s) p
               else p);
          p = p\<lparr>gate := (gate p)(c := high)\<rparr>
      in if \<not> was_high \<and> high
         then if mode = 2 \<or> mode = 3
              then let p = (if next_n p c \<noteq> 0
                            then (upd_s (\<lambda>s. set_counter (c + PIT_OFFSET_MAX)
                                    (p_counter s (c + PIT_OFFSET_MAX) AND 0xff000000 OR next_n p c) s) p)
                                 \<lparr>next_n := (next_n p)(c := 0)\<rparr>
                            else p)
                   in (upd_s (\<lambda>s. set_status c (p_status s c OR 0x80) (set_counter c (initial s c) s)) p)
                      \<lparr>epoch := (epoch p)(c := now)\<rparr>
              else if mode = 0
              then p\<lparr>epoch := (epoch p)(c := now - ns_for_clocks (phase_of (pit_s p) c))\<rparr>
              else p
         else p)"

section \<open>The decrementing machinery\<close>

text \<open>The loop of mode 3: the count, OUT, what is left to subtract, and the rising edges so far.
  With a zero reload it stops at once.\<close>

function square_loop :: "nat \<Rightarrow> nat \<Rightarrow> bool \<Rightarrow> nat \<Rightarrow> nat \<Rightarrow> nat \<times> bool \<times> nat" where
  "square_loop reload counter high dec rises =
     (if dec \<ge> counter
      then if reload = 0 then (0, high, rises)
           else square_loop reload reload (\<not> high) (dec - counter) (if high then rises else rises + 1)
      else (counter - dec, high, rises))"
  by pat_completeness auto
termination
  by (relation "measure (\<lambda>(reload, counter, high, dec, rises). 2 * dec + (if counter = 0 then 1 else 0))") auto

definition clock_one :: "u64 \<Rightarrow> u64 \<Rightarrow> CI8254 \<times> nat \<Rightarrow> nat \<Rightarrow> CI8254 \<times> nat" where
  "clock_one now clocks = (\<lambda>(p, irq0) i.
     let p = settle p i now; s = pit_s p
     in if null_count s i \<or> \<not> gate p i then (p, irq0)
        else if mode_of s i = 0
        then (upd_s (\<lambda>s. set_counter i (wrap s i (p_counter s i) clocks)
                (if ucast (p_counter s i) \<le> clocks then set_status i (p_status s i OR 0x80) s else s)) p, irq0)
        else if mode_of s i = 3
        then let (cnt, high, rises) = square_loop (unat (initial s i)) (unat (p_counter s i))
                                        (p_status s i AND 0x80 \<noteq> 0) (unat (clocks * 2)) 0
             in (upd_s (\<lambda>s. set_status i (if high then p_status s i OR 0x80 else p_status s i AND NOT 0x80)
                   (set_counter i (of_nat cnt) s)) p, if i = 0 then irq0 + rises else irq0)
        else (p, irq0))"

definition pit_clock :: "CI8254 \<Rightarrow> u64 \<Rightarrow> CI8254 \<times> nat" where
  "pit_clock p now =
     (let elapsed = (if now > last_ns p then now - last_ns p else 0);
          elapsed = (if elapsed > 30000000 then 30000000 else elapsed);
          a = acc p + elapsed * PIT_CLOCK_HZ; clocks = a div NS;
          p = p\<lparr>last_ns := now, acc := a mod NS\<rparr>
      in if clocks = 0 then (p, 0) else foldl (clock_one now clocks) (p, 0) [0, 1, 2])"

end
