(* ===== verification/I8254_Facts.thy ===== *)
theory I8254_Facts
  imports I8254
begin

text \<open>
  Theorems about the 8254 (\<^verbatim>\<open>I8254\<close>): the conversions between nanoseconds, input clocks and BCD,
  the count and output that a frozen counter resumes with, reads and writes of two-byte counts,
  and the decrementing square wave.
\<close>

section \<open>Time\<close>

lemma floor_split: "(q * b + r) * f div b = q * f + r * f div b" if "0 < b" for q b r f :: nat
proof -
  have "(q * b + r) * f = (r * f) + (q * f) * b" by (simp add: algebra_simps)
  then show ?thesis using that by (simp add: div_mult_self1)
qed

lemma div_mod_floor: "(x div b) * f + (x mod b) * f div b = x * f div b" if "0 < b" for x b f :: nat
  using floor_split [OF that, of "x div b" "x mod b" f] by simp

lemma unat_bound64: "unat (x :: u64) < 18446744073709551616"
proof -
  have "unat x < 2 ^ LENGTH(64)" by (rule unsigned_less)
  then show ?thesis by simp
qed

text \<open>The scaling of both conversions: whole units first, so that nothing overflows.\<close>

lemma unat_scale:
  fixes x a b :: u64
  assumes "0 < unat b" "unat x div unat b * unat a + unat a < 18446744073709551616"
    "unat b * unat a < 18446744073709551616"
  shows "unat ((x div b) * a + (x mod b) * a div b) = unat x * unat a div unat b"
proof -
  let ?q = "unat x div unat b" and ?r = "unat x mod unat b"
  have q: "unat (x div b) = ?q" "unat (x mod b) = ?r"
    by (simp_all add: unat_div_distrib unat_mod_distrib)
  have r: "?r * unat a \<le> unat b * unat a" using assms(1) by (simp add: less_imp_le)
  have qa: "unat ((x div b) * a) = ?q * unat a"
    using assms(2) q by (simp add: unat_word_ariths)
  have "?r * unat a < 18446744073709551616" using assms(3) r by linarith
  then have ra: "unat ((x mod b) * a) = ?r * unat a"
    using q by (simp add: unat_word_ariths)
  have "?r * unat a div unat b \<le> unat a"
    using r assms(1) by (metis div_le_mono mult.commute nonzero_mult_div_cancel_left less_not_refl2)
  then have "unat ((x div b) * a + (x mod b) * a div b) = ?q * unat a + ?r * unat a div unat b"
    using assms(2) qa ra by (simp add: unat_word_ariths unat_div_distrib)
  then show ?thesis using assms(1) by (simp add: div_mod_floor)
qed

text \<open>
  C33. The number of input clocks in an interval is exact: for any two times it is the whole part of
  the elapsed nanoseconds times 1193182 Hz, and no step of the 64-bit computation overflows.
\<close>

theorem clocks_between_exact:
  "unat (clocks_between frm to) = (unat to - unat frm) * 1193182 div 1000000000"
proof (cases "to \<le> frm")
  case False
  then have d: "unat (to - frm) = unat to - unat frm" by (simp add: unat_sub not_le order_less_imp_le)
  show ?thesis
    using False unat_scale [of "1000000000" "to - frm" "1193182"] unat_bound64 [of "to - frm"] d
    by (simp add: clocks_between_def Let_def)
qed (simp add: clocks_between_def word_le_nat_alt)

lemma ns_for_clocks_exact:
  "unat k < 2 ^ 53 \<Longrightarrow> unat (ns_for_clocks k) = unat k * 1000000000 div 1193182"
  using unat_scale [of "1193182" k "1000000000"] by (simp add: ns_for_clocks_def)

text \<open>
  Placing a phase reference \<open>k\<close> clocks in the past puts the counter back at clock \<open>k\<close>, or one
  clock before it: rounding to whole nanoseconds never loses more than one input clock.
\<close>

theorem phase_reference_within_one_clock:
  assumes "unat k < 2 ^ 53" and "ns_for_clocks k \<le> now"
  shows "unat k - 1 \<le> unat (clocks_between (now - ns_for_clocks k) now) \<and>
    unat (clocks_between (now - ns_for_clocks k) now) \<le> unat k"
proof -
  let ?n = "unat k * 1000000000 div 1193182"
  have "unat (now - ns_for_clocks k) = unat now - ?n" "?n \<le> unat now"
    using assms ns_for_clocks_exact [OF assms(1)] by (simp_all add: unat_sub word_le_nat_alt)
  then have "unat (clocks_between (now - ns_for_clocks k) now) = ?n * 1193182 div 1000000000"
    by (simp add: clocks_between_exact)
  moreover have "?n * 1193182 \<le> unat k * 1000000000" by (simp add: div_times_less_eq_dividend)
  moreover have "unat k * 1000000000 < ?n * 1193182 + 1193182"
    using div_mult_mod_eq [of "unat k * 1000000000" 1193182] mod_less_divisor [of 1193182 "unat k * 1000000000"] by linarith
  ultimately show ?thesis by linarith
qed

theorem phase_reference_within_one_clock_witness:
  "unat (clocks_between (10000 - ns_for_clocks 2) 10000) \<le> 2"
proof -
  have "ns_for_clocks 2 = 1676" by (simp add: ns_for_clocks_def)
  then show ?thesis using phase_reference_within_one_clock [of 2 10000] by simp
qed

section \<open>BCD\<close>

lemma bcd_digit:
  fixes a b c d :: u32
  assumes "a < 16" "b < 16" "c < 16" "d < 16"
  defines "w \<equiv> ucast (ucast (push_bit 12 a OR push_bit 8 b OR push_bit 4 c OR d) :: u16) :: u32"
  shows "drop_bit 12 w AND 0xf = a" "drop_bit 8 w AND 0xf = b" "drop_bit 4 w AND 0xf = c" "w AND 0xf = d"
proof -
  have hi: "bit x n \<Longrightarrow> n < 4" if "x < 16" for x :: u32 and n
  proof -
    have "take_bit 4 x = x"
      using that by (simp add: word_unat_eq_iff unsigned_take_bit_eq take_bit_nat_eq_self word_less_nat_alt)
    then show "bit x n \<Longrightarrow> n < 4" by (metis bit_take_bit_iff)
  qed
  have m: "(0xf :: u32) = mask 4" by (simp add: mask_eq_exp_minus_1)
  note h = hi [OF assms(1)] hi [OF assms(2)] hi [OF assms(3)] hi [OF assms(4)]
  show "drop_bit 12 w AND 0xf = a"
    unfolding m w_def by (rule bit_word_eqI) (auto simp: bit_simps dest: h)
  show "drop_bit 8 w AND 0xf = b"
    unfolding m w_def by (rule bit_word_eqI) (auto simp: bit_simps dest: h)
  show "drop_bit 4 w AND 0xf = c"
    unfolding m w_def by (rule bit_word_eqI) (auto simp: bit_simps dest: h)
  show "w AND 0xf = d"
    unfolding m w_def by (rule bit_word_eqI) (auto simp: bit_simps dest: h)
qed

lemma four_digits: "k div 1000 * 1000 + k div 100 mod 10 * 100 + k div 10 mod 10 * 10 + k mod 10 = k" for k :: nat
proof -
  define a b c where "a = k div 10" and "b = a div 10" and "c = b div 10"
  define x y z where "x = k mod 10" and "y = a mod 10" and "z = b mod 10"
  have "k = a * 10 + x" "a = b * 10 + y" "b = c * 10 + z"
    unfolding a_def b_def c_def x_def y_def z_def by (simp_all only: div_mult_mod_eq)
  then have "k = c * 1000 + z * 100 + y * 10 + x" by linarith
  moreover have e: "k div 100 = b" "k div 1000 = c" by (simp_all add: a_def b_def c_def flip: div_mult2_eq)
  have "k div 1000 * 1000 + k div 100 mod 10 * 100 + k div 10 mod 10 * 10 + k mod 10 =
      c * 1000 + z * 100 + y * 10 + x"
    unfolding e a_def [symmetric] x_def [symmetric] y_def [symmetric] z_def [symmetric] ..
  ultimately show ?thesis by simp
qed

lemma unat_decimal:
  fixes a b c d :: u32
  assumes "unat a < 10" "unat b < 10" "unat c < 10" "unat d < 10"
  shows "unat (a * 1000 + b * 100 + c * 10 + d) = unat a * 1000 + unat b * 100 + unat c * 10 + unat d"
proof -
  have p: "unat (a * 1000) = unat a * 1000" "unat (b * 100) = unat b * 100" "unat (c * 10) = unat c * 10"
    using assms by (simp_all add: unat_word_ariths)
  have q: "unat (a * 1000 + b * 100) = unat a * 1000 + unat b * 100"
    using assms by (subst unat_word_ariths) (simp add: p)
  have "unat (a * 1000 + b * 100 + c * 10) = unat a * 1000 + unat b * 100 + unat c * 10"
    using assms by (subst unat_word_ariths) (simp add: p q)
  then show ?thesis using assms by (subst unat_word_ariths) simp
qed

text \<open>
  BCD round trip: a count converted to four decades for the guest and back is the count modulo
  10000, for every 32-bit count.
\<close>

theorem bcd_roundtrip: "from_bcd (ucast (to_bcd v)) = v mod 10000"
proof -
  define k where "k = unat (v mod 10000)"
  have k: "k < 10000" by (simp add: k_def unat_mod_distrib)
  have digits: "unat ((v mod 10000) div 1000) = k div 1000" "unat ((v mod 10000) div 100 mod 10) = k div 100 mod 10"
    "unat ((v mod 10000) div 10 mod 10) = k div 10 mod 10" "unat (v mod 10000 mod 10) = k mod 10"
    by (simp_all add: k_def unat_div_distrib unat_mod_distrib)
  then have "(v mod 10000) div 1000 < 16" "(v mod 10000) div 100 mod 10 < 16" "(v mod 10000) div 10 mod 10 < 16"
    "v mod 10000 mod 10 < 16"
    using k by (simp_all only: word_less_nat_alt) auto
  from bcd_digit [OF this]
  have "from_bcd (ucast (to_bcd v)) = (v mod 10000) div 1000 * 1000 + ((v mod 10000) div 100 mod 10) * 100 +
      ((v mod 10000) div 10 mod 10) * 10 + v mod 10000 mod 10"
    by (simp add: from_bcd_def to_bcd_def Let_def)
  moreover have "unat ((v mod 10000) div 1000) < 10" unfolding digits using k by simp
  moreover have "unat ((v mod 10000) div 100 mod 10) < 10" "unat ((v mod 10000) div 10 mod 10) < 10"
    "unat (v mod 10000 mod 10) < 10" unfolding digits by simp_all
  ultimately have "unat (from_bcd (ucast (to_bcd v))) = k"
    using unat_decimal [of "(v mod 10000) div 1000" "(v mod 10000) div 100 mod 10" "(v mod 10000) div 10 mod 10" "v mod 10000 mod 10"]
    unfolding digits four_digits by simp
  then show ?thesis by (simp add: k_def word_unat_eq_iff)
qed

section \<open>A frozen counter resumes where it was\<close>

lemma unat_ucast_up: "unat (ucast (n :: u32) :: u64) = unat n"
proof -
  have "unat n < 2 ^ LENGTH(32)" by (rule unsigned_less)
  then show ?thesis by (simp add: unsigned_ucast_eq take_bit_nat_eq_self)
qed

lemma unat_ucast_down: "unat x < 4294967296 \<Longrightarrow> unat (ucast (x :: u64) :: u32) = unat x"
  by (simp add: unsigned_ucast_eq take_bit_nat_eq_self)

lemma initial_bound: "unat (initial s c) < 131072"
proof -
  have "initial s c = take_bit 17 (p_counter s (c + 6))"
    by (simp add: initial_def take_bit_eq_mask mask_eq_exp_minus_1)
  then show ?thesis
    using take_bit_nat_less_exp [of 17 "unat (p_counter s (c + 6))"] by (simp add: unsigned_take_bit_eq)
qed

lemma unat_modulus: "unat (modulus s c) = (if bcd s c then 10000 else 65536)"
  by (simp add: modulus_def)

lemma mod_back: "(a mod m + m - b mod m) mod m = (a - b) mod m" for a b m :: int
proof -
  have "a mod m + m - b mod m = (a mod m - b mod m) + m" by simp
  then show ?thesis by (simp only: mod_add_self2 mod_diff_eq)
qed

lemma wrap_int:
  "int (unat (wrap s c count k)) = (int (unat count) - int (unat k)) mod int (unat (modulus s c))"
proof -
  let ?m = "modulus s c" and ?M = "unat (modulus s c)"
  have M: "0 < ?M" "?M \<le> 65536" by (simp_all add: unat_modulus)
  have a: "unat (ucast count mod ?m) = unat count mod ?M" "unat (k mod ?m) = unat k mod ?M"
    by (simp_all add: unat_mod_distrib unat_ucast_up)
  have l: "unat count mod ?M < ?M" "unat k mod ?M < ?M" using M by simp_all
  have s1: "unat (ucast count mod ?m + ?m) = unat count mod ?M + ?M"
  proof -
    have "unat count mod ?M + ?M < 18446744073709551616" using l(1) M(2) by linarith
    then show ?thesis using a by (subst unat_word_ariths) simp
  qed
  have s2: "unat (ucast count mod ?m + ?m - k mod ?m) = unat count mod ?M + ?M - unat k mod ?M"
    using s1 a l by (subst unat_sub) (simp_all add: word_le_nat_alt)
  have s3: "unat ((ucast count mod ?m + ?m - k mod ?m) mod ?m) = (unat count mod ?M + ?M - unat k mod ?M) mod ?M"
    by (simp only: unat_mod_distrib s2)
  have "\<dots> < 4294967296" using M by (intro less_le_trans [OF mod_less_divisor]) simp_all
  then have "unat (wrap s c count k) = (unat count mod ?M + ?M - unat k mod ?M) mod ?M"
    unfolding wrap_def Let_def using s3 by (subst unat_ucast_down) simp_all
  moreover have "int (unat count mod ?M + ?M - unat k mod ?M) =
      int (unat count) mod int ?M + int ?M - int (unat k) mod int ?M"
    using l by (simp add: of_nat_diff zmod_int)
  ultimately have "int (unat (wrap s c count k)) =
      (int (unat count) mod int ?M + int ?M - int (unat k) mod int ?M) mod int ?M"
    by (simp only: zmod_int)
  then show ?thesis by (simp only: mod_back)
qed

text \<open>The counter's words after a freeze \<open>k\<close> clocks into the count.\<close>

definition frozen_words :: "SPit_state \<Rightarrow> nat \<Rightarrow> u32 \<times> bool \<Rightarrow> SPit_state" where
  "frozen_words s c = (\<lambda>(count, high).
     set_status c (if high then p_status s c OR 0x80 else p_status s c AND NOT 0x80) (set_counter c count s))"

lemma out_bit:
  fixes x :: u8
  shows "(x OR 0x80) AND 0x80 \<noteq> 0" "(x AND NOT 0x80) AND 0x80 = 0"
  "(x OR 0x80) AND 0x0e = x AND 0x0e" "(x AND NOT 0x80) AND 0x0e = x AND 0x0e"
  "(x OR 0x80) AND 0x40 = x AND 0x40" "(x AND NOT 0x80) AND 0x40 = x AND 0x40"
  "(x OR 0x80) AND 0x01 = x AND 0x01" "(x AND NOT 0x80) AND 0x01 = x AND 0x01"
proof -
  show "(x OR 0x80) AND 0x80 \<noteq> 0" unfolding bit.conj_disj_distrib2 by (simp add: or_eq_0_iff)
  show "(x OR 0x80) AND 0x0e = x AND 0x0e" "(x OR 0x80) AND 0x40 = x AND 0x40" "(x OR 0x80) AND 0x01 = x AND 0x01"
    unfolding bit.conj_disj_distrib2 by simp_all
qed (simp_all only: and.assoc, simp_all)

lemma frozen_status:
  "p_status (frozen_words s c x) c = (if snd x then p_status s c OR 0x80 else p_status s c AND NOT 0x80)"
  by (simp add: frozen_words_def split_beta set_status_def set_counter_def)

lemma frozen_words_simps [simp]:
  "c < 3 \<Longrightarrow> initial (frozen_words s c x) c = initial s c" "mode_of (frozen_words s c x) c = mode_of s c"
  "null_count (frozen_words s c x) c = null_count s c" "bcd (frozen_words s c x) c = bcd s c"
  "p_counter (frozen_words s c x) c = fst x" "p_status (frozen_words s c x) c AND 0x80 \<noteq> 0 \<longleftrightarrow> snd x"
  "modulus (frozen_words s c x) c = modulus s c" "wrap (frozen_words s c x) c = wrap s c"
proof -
  show b: "bcd (frozen_words s c x) c = bcd s c" by (cases "snd x") (simp_all only: bcd_def frozen_status out_bit if_True if_False)
  then show m: "modulus (frozen_words s c x) c = modulus s c" by (simp add: modulus_def)
  then show "wrap (frozen_words s c x) c = wrap s c" by (simp add: wrap_def fun_eq_iff)
  show "c < 3 \<Longrightarrow> initial (frozen_words s c x) c = initial s c"
    by (simp add: frozen_words_def split_beta initial_def set_status_def set_counter_def)
  show "p_counter (frozen_words s c x) c = fst x"
    by (simp add: frozen_words_def split_beta set_status_def set_counter_def)
  show "mode_of (frozen_words s c x) c = mode_of s c" "null_count (frozen_words s c x) c = null_count s c"
    "p_status (frozen_words s c x) c AND 0x80 \<noteq> 0 \<longleftrightarrow> snd x"
    by (cases "snd x"; simp_all only: mode_of_def null_count_def frozen_status out_bit if_True if_False simp_thms)+
qed

text \<open>Where \<open>phase_of\<close> puts a counter that was frozen \<open>k\<close> clocks into its count, in each mode.\<close>

lemma phase_ucast:
  fixes k :: u64
  assumes "initial s c \<noteq> 0"
  shows "unat (ucast (k mod ucast (initial s c)) :: u32) = unat k mod unat (initial s c)"
proof -
  have "unat k mod unat (initial s c) < unat (initial s c)" using assms by (simp add: unat_gt_0)
  then have "unat k mod unat (initial s c) < 4294967296" using initial_bound [of s c] by linarith
  then show ?thesis by (subst unat_ucast_down) (simp_all add: unat_mod_distrib unat_ucast_up)
qed

lemma phase_frozen_0:
  fixes k :: u64 and s :: SPit_state and c :: nat
  defines "N \<equiv> unat (initial s c)" and "M \<equiv> unat (modulus s c)" and "K \<equiv> unat k"
  assumes c: "c < 3" and live: "\<not> null_count s c" "initial s c \<noteq> 0" and fr: "frozen s c k = Some x"
    and 1: "mode_of s c = 0" and edge: "N < M \<or> (N = M \<and> 0 < K)"
  shows "unat (phase_of (frozen_words s c x) c) = (if K < N then K else N + (K - N) mod M)"
proof -
  have N: "0 < N" "N < 131072" using live(2) initial_bound [of s c] by (simp_all add: N_def unat_gt_0)
  have M: "0 < M" "M \<le> 65536" by (simp_all add: M_def unat_modulus)
  have x: "x = (wrap s c (initial s c) k, k \<ge> ucast (initial s c))"
    using fr 1 by (simp add: frozen_def Let_def)
  have ge: "k \<ge> ucast (initial s c) \<longleftrightarrow> N \<le> K"
    by (simp add: word_le_nat_alt unat_ucast_up N_def K_def)
  have w: "int (unat (wrap s c (initial s c) k)) = (int N - int K) mod int M"
    unfolding N_def K_def M_def by (rule wrap_int)
  show ?thesis
  proof (cases "N \<le> K")
    case True
    have "int (unat (wrap s c 0 (ucast (fst x)))) = (int (unat (0 :: u32)) - int (unat (fst x))) mod int M"
      unfolding M_def wrap_int unat_ucast_up ..
    also have "\<dots> = (- ((int N - int K) mod int M)) mod int M"
      unfolding x fst_conv w by simp
    also have "\<dots> = int ((K - N) mod M)"
      using True by (simp add: mod_simps zmod_int of_nat_diff)
    finally have "unat (wrap s c 0 (ucast (fst x))) = (K - N) mod M" unfolding of_nat_eq_iff .
    moreover have "(K - N) mod M < 65536" using M by (intro less_le_trans [OF mod_less_divisor]) simp_all
    ultimately have "unat (ucast (initial s c) + ucast (wrap s c 0 (ucast (fst x))) :: u64) = N + (K - N) mod M"
      using N by (subst unat_word_ariths) (simp add: unat_ucast_up N_def [symmetric])
    then show ?thesis using 1 True live c ge by (simp add: phase_of_def Let_def x)
  next
    case False
    then have "int N - int K < int M \<and> 0 \<le> int N - int K" using edge by auto
    then have "int (unat (fst x)) = int (N - K)"
      unfolding x fst_conv w using False by (simp add: mod_pos_pos_trivial)
    then have "unat (fst x) = N - K" unfolding of_nat_eq_iff .
    then have "fst x \<le> initial s c" "unat (initial s c - fst x) = K"
      using False by (simp_all add: word_le_nat_alt unat_sub N_def)
    then show ?thesis using 1 False live c ge by (simp add: phase_of_def Let_def x unat_ucast_up)
  qed
qed

lemma phase_frozen_2:
  fixes k :: u64 and s :: SPit_state and c :: nat
  defines "N \<equiv> unat (initial s c)" and "M \<equiv> unat (modulus s c)" and "K \<equiv> unat k"
  assumes c: "c < 3" and live: "\<not> null_count s c" "initial s c \<noteq> 0" and fr: "frozen s c k = Some x"
    and 2: "mode_of s c = 2"
  shows "unat (phase_of (frozen_words s c x) c) = K mod N"
proof -
  have N: "0 < N" "N < 131072" using live(2) initial_bound [of s c] by (simp_all add: N_def unat_gt_0)
  have kn32: "unat (ucast (k mod ucast (initial s c)) :: u32) = K mod N"
    unfolding K_def N_def by (rule phase_ucast [OF live(2)])
  have "K mod N < N" using N by simp
  moreover have x: "x = (initial s c - ucast (k mod ucast (initial s c)), True)"
    using fr 2 by (simp add: frozen_def Let_def)
  ultimately have v: "unat (fst x) = N - K mod N"
    using kn32 by (simp add: unat_sub word_le_nat_alt N_def)
  have "1 \<le> fst x" "fst x \<le> initial s c" "unat (initial s c - fst x) = K mod N"
    using v \<open>K mod N < N\<close> by (simp_all add: word_le_nat_alt unat_sub N_def)
  then show ?thesis using 2 live c by (simp add: phase_of_def Let_def unat_ucast_up)
qed

lemma phase_frozen_3:
  fixes k :: u64 and s :: SPit_state and c :: nat
  defines "N \<equiv> unat (initial s c)" and "M \<equiv> unat (modulus s c)" and "K \<equiv> unat k"
  assumes c: "c < 3" and live: "\<not> null_count s c" "initial s c \<noteq> 0" and fr: "frozen s c k = Some x"
    and 3: "mode_of s c = 3"
  shows "unat (phase_of (frozen_words s c x) c) = K mod N"
proof -
  have N: "0 < N" "N < 131072" using live(2) initial_bound [of s c] by (simp_all add: N_def unat_gt_0)
  have kn32: "unat (ucast (k mod ucast (initial s c)) :: u32) = K mod N"
    unfolding K_def N_def by (rule phase_ucast [OF live(2)])
  let ?f = "(N + 1) div 2" and ?P = "K mod N"
  have P: "?P < N" using N by simp
  have f: "unat ((initial s c + 1) div 2) = ?f"
  proof -
    have "unat (initial s c + 1) = N + 1" using N by (subst unat_word_ariths) (simp add: N_def)
    then show ?thesis by (simp add: unat_div_distrib)
  qed
  define q where "q = (if ?P < ?f then ?P else ?P - ?f)"
  have q: "2 * q \<le> N" using P by (auto simp: q_def)
  define w where "w = (let ph = ucast (k mod ucast (initial s c)); first = (initial s c + 1) div 2
    in if ph < first then ph else ph - first :: u32)"
  have wq: "unat w = q"
    using kn32 f by (auto simp: w_def q_def Let_def word_less_nat_alt unat_sub word_le_nat_alt)
  have x: "x = (initial s c - 2 * w, ?P < ?f)"
    using fr 3 kn32 f by (simp add: frozen_def Let_def w_def word_less_nat_alt)
  have "unat (2 * w) = 2 * q" using wq q N by (subst unat_word_ariths) simp
  then have v: "unat (fst x) = N - 2 * q" using q by (simp add: x unat_sub word_le_nat_alt N_def)
  then have le: "fst x \<le> initial s c" and h: "unat ((initial s c - fst x) div 2) = q"
    using q by (simp_all add: word_le_nat_alt unat_sub unat_div_distrib N_def)
  have "unat ((initial s c + 1) div 2 + (initial s c - fst x) div 2) = ?f + q"
    using f h q N by (subst unat_word_ariths) simp
  then show ?thesis
    using 3 live c le h by (auto simp: phase_of_def Let_def unat_ucast_up x q_def)
qed

lemma resume_int: "p = n + (k - n) mod m \<Longrightarrow> (n - (p + d)) mod m = (n - (k + d)) mod m" for p n k m d :: int
proof -
  assume "p = n + (k - n) mod m"
  then have "(n - (p + d)) mod m = (- ((k - n) mod m) - d) mod m" by simp
  also have "\<dots> = ((- ((k - n) mod m)) mod m - d) mod m" by (simp only: mod_diff_left_eq)
  also have "\<dots> = (- (k - n) - d) mod m" by (simp only: mod_minus_eq mod_diff_left_eq)
  finally show ?thesis by (simp add: algebra_simps)
qed

lemma phase_le:
  assumes "c < 3" "\<not> null_count s c" "initial s c \<noteq> 0" "frozen s c k = Some x"
    and "mode_of s c = 0 \<Longrightarrow> unat (initial s c) < unat (modulus s c) \<or> (unat (initial s c) = unat (modulus s c) \<and> 0 < unat k)"
  shows "unat (phase_of (frozen_words s c x) c) \<le> unat k"
    and "mode_of s c \<noteq> 0 \<Longrightarrow> unat (phase_of (frozen_words s c x) c) = unat k mod unat (initial s c)"
proof -
  consider "mode_of s c = 0" | "mode_of s c = 2" | "mode_of s c = 3"
    using assms(4) by (auto simp: frozen_def Let_def split: if_splits)
  then show "unat (phase_of (frozen_words s c x) c) \<le> unat k"
  proof cases
    case 1
    have "(unat k - unat (initial s c)) mod unat (modulus s c) \<le> unat k - unat (initial s c)" by (rule mod_less_eq_dividend)
    then show ?thesis using phase_frozen_0 [OF assms(1-4) 1 assms(5) [OF 1]]
      by (auto simp only: split: if_splits)
  qed (use phase_frozen_2 [OF assms(1-4)] phase_frozen_3 [OF assms(1-4)] in simp_all)
  show "mode_of s c \<noteq> 0 \<Longrightarrow> unat (phase_of (frozen_words s c x) c) = unat k mod unat (initial s c)"
    using assms(4) phase_frozen_2 [OF assms(1-4)] phase_frozen_3 [OF assms(1-4)]
    by (auto simp: frozen_def Let_def split: if_splits)
qed

text \<open>
  C24. A counter resumes where it was. In modes 0, 2 and 3, when a running counter's count and OUT
  are frozen \<open>k\<close> input clocks after its load (for a state file, or because its gate fell), then the
  phase recovered from them is equivalent: any number of clocks later the counter shows the same
  count and the same output as if it had never been frozen. Two limits are hypotheses: in mode 0 with the
  largest count the freeze must not fall into the first clock (\<open>mode_0_first_clock\<close> shows why), and the
  output of mode 2 is compared for a counter whose OUT bit is set, as every load of a count leaves it.
\<close>

theorem pit_frozen_counter_resumes:
  assumes "c < 3" and "\<not> null_count s c" and "initial s c \<noteq> 0" and "frozen s c k = Some x"
    and edge: "mode_of s c = 0 \<Longrightarrow> unat (initial s c) < unat (modulus s c) \<or> (unat (initial s c) = unat (modulus s c) \<and> 0 < unat k)"
    and small: "unat k + unat d < 2 ^ 62"
  shows "let s' = frozen_words s c x; ph = phase_of s' c in
    running_count s' c (ph + d) = running_count s c (k + d) \<and>
    (mode_of s c \<noteq> 2 \<or> p_status s c AND 0x80 \<noteq> 0 \<longrightarrow> running_out s' c (ph + d) = running_out s c (k + d))"
proof -
  let ?ph = "phase_of (frozen_words s c x) c" and ?n = "ucast (initial s c) :: u64"
  let ?N = "unat (initial s c)" and ?M = "unat (modulus s c)"
  note le = phase_le(1) [OF assms(1-4) edge]
  have pd: "unat (?ph + d) = unat ?ph + unat d" "unat (k + d) = unat k + unat d"
    using le small by (simp_all add: unat_word_ariths)
  have pd2: "unat ((?ph + d) * 2) = (unat ?ph + unat d) * 2" "unat ((k + d) * 2) = (unat k + unat d) * 2"
    using le small pd by (simp_all add: unat_word_ariths)
  have ph_mod: "(?ph + d) mod ?n = (k + d) mod ?n \<and> (?ph + d) * 2 mod ?n = (k + d) * 2 mod ?n" if "mode_of s c \<noteq> 0"
  proof -
    have e: "unat ?ph = unat k mod ?N" using phase_le(2) [OF assms(1-4) edge that] .
    have "(unat ?ph + unat d) mod ?N = (unat k + unat d) mod ?N"
      "(unat ?ph + unat d) * 2 mod ?N = (unat k + unat d) * 2 mod ?N"
      unfolding e by (simp_all only: mod_add_left_eq) (metis mod_add_left_eq mod_mult_left_eq)
    then show ?thesis
      by (simp only: word_unat_eq_iff unat_mod_distrib unat_ucast_up pd pd2 simp_thms)
  qed
  show ?thesis
  proof (cases "mode_of s c = 0")
    case True
    note ph = phase_frozen_0 [OF assms(1-4) True edge [OF True]]
    have "(int ?N - int (unat (?ph + d))) mod int ?M = (int ?N - int (unat (k + d))) mod int ?M"
    proof (cases "unat k < ?N")
      case False
      then have "unat ?ph = ?N + (unat k - ?N) mod ?M" using ph by (simp only: if_False)
      then have "int (unat ?ph) = int ?N + (int (unat k) - int ?N) mod int ?M"
        using False by (simp only: of_nat_add zmod_int of_nat_diff not_less)
      then show ?thesis unfolding pd of_nat_add by (rule resume_int)
    qed (simp only: pd ph if_True)
    then have "wrap s c (initial s c) (?ph + d) = wrap s c (initial s c) (k + d)"
      by (metis wrap_int of_nat_eq_iff word_unat_eq_iff)
    moreover have "?n \<le> ?ph + d \<longleftrightarrow> ?n \<le> k + d"
      using ph by (auto simp: word_le_nat_alt pd unat_ucast_up split: if_splits)
    ultimately show ?thesis
      using True assms(1) edge [OF True] by (auto simp: running_count_def running_out_def Let_def)
  next
    case False
    then show ?thesis
      using ph_mod [OF False] assms(1,4)
      by (auto simp: running_count_def running_out_def Let_def frozen_def out_bit(1) split: if_splits)
  qed
qed


text \<open>A counter of mode 2 with the count 1000.\<close>

definition pit_ex :: SPit_state where
  "pit_ex = \<lparr>p_counter = (\<lambda>_. 0)(6 := 1000), p_status = (\<lambda>_. 0xb4), p_mode = (\<lambda>_. 3)\<rparr>"

theorem pit_frozen_counter_resumes_witness:
  "running_count (frozen_words pit_ex 0 (750, True)) 0 (phase_of (frozen_words pit_ex 0 (750, True)) 0 + 10) = 740"
proof -
  have m: "mode_of pit_ex 0 = 2" "initial pit_ex 0 = 1000" "\<not> null_count pit_ex 0"
    by (simp_all add: mode_of_def initial_def null_count_def pit_ex_def)
  have "frozen pit_ex 0 250 = Some (750, True)" by (simp add: frozen_def m)
  then have "running_count (frozen_words pit_ex 0 (750, True)) 0 (phase_of (frozen_words pit_ex 0 (750, True)) 0 + 10) =
      running_count pit_ex 0 (250 + 10)"
    using pit_frozen_counter_resumes [of 0 pit_ex 250 "(750, True)" 10] m by (simp add: Let_def)
  then show ?thesis by (simp add: running_count_def m)
qed

text \<open>The excluded case: the largest count of mode 0, frozen in its first clock, comes back at its
  terminal count.\<close>

lemma mode_0_first_clock:
  fixes s :: SPit_state
  defines "s \<equiv> \<lparr>p_counter = (\<lambda>_. 0)(6 := 65536), p_status = (\<lambda>_. 0x30), p_mode = (\<lambda>_. 3)\<rparr>"
  shows "frozen s 0 0 = Some (0, False)" "phase_of (frozen_words s 0 (0, False)) 0 = 65536"
    "\<not> running_out s 0 0" "running_out (frozen_words s 0 (0, False)) 0 65536"
proof -
  have m: "mode_of s 0 = 0" "initial s 0 = 65536" "\<not> null_count s 0" "\<not> bcd s 0"
    by (simp_all add: mode_of_def initial_def null_count_def bcd_def s_def)
  show "frozen s 0 0 = Some (0, False)" by (simp add: frozen_def m wrap_def modulus_def)
  show "phase_of (frozen_words s 0 (0, False)) 0 = 65536"
    using frozen_words_simps(6) [of s 0 "(0, False)"] by (simp add: phase_of_def m Let_def)
  show "\<not> running_out s 0 0" "running_out (frozen_words s 0 (0, False)) 0 65536"
    by (simp_all add: running_out_def m)
qed

text \<open>A waiting count that is due when the state is saved: the running state has taken it over, the
  copy in the file still has the old initial count.\<close>

lemma save_stale_initial:
  fixes p :: CI8254
  defines "p \<equiv> \<lparr>pit_s = pit_ex, epoch = \<lambda>_. 0, last_ns = 0, acc = 0, gate = \<lambda>_. True, next_n = (\<lambda>_. 0)(0 := 500),
    next_at = \<lambda>_. 838095, next_epoch = \<lambda>_. 838095\<rparr>"
  shows "initial (pit_s (fst (save_one 838095 (p, pit_s p) 0))) 0 = 500 \<and>
    initial (snd (save_one 838095 (p, pit_s p) 0)) 0 = 1000"
proof -
  have s: "settle p 0 838095 = p\<lparr>pit_s := set_counter 6 500 pit_ex, epoch := (\<lambda>_. 0)(0 := 838095), next_n := (\<lambda>_. 0)\<rparr>"
    by (auto simp: settle_def upd_s_def set_counter_def p_def pit_ex_def fun_eq_iff)
  have p': "gate p = (\<lambda>_. True)" "pit_s p = pit_ex" "next_n p = (\<lambda>_. 0)(0 := 500)" by (simp_all add: p_def)
  show ?thesis
    by (simp add: save_one_def freeze_def s Let_def)
      (simp add: s p' null_count_def initial_def frozen_def mode_of_def set_counter_def set_status_def clocks_between_def
        pit_ex_def)
qed

section \<open>The decrementing square wave\<close>

text \<open>
  C32. The square wave's loop in closed form. With a reload of \<open>n\<close> and the count at \<open>c\<close>, taking \<open>d\<close>
  from the count toggles the output once when the count runs out and once every \<open>n\<close> after that;
  the loop ends with a count between 1 and \<open>n\<close>, and reports one interrupt per rising edge.
\<close>

theorem square_loop_closed_form:
  assumes "0 < n"
  shows "square_loop n c high d r =
    (if d < c then (c - d, high, r)
     else let t = 1 + (d - c) div n
          in (n - (d - c) mod n, high \<noteq> odd t, r + (if high then t div 2 else (t + 1) div 2)))"
proof (induction "2 * d + (if c = 0 then 1 else 0)" arbitrary: c high d r rule: less_induct)
  case less
  show ?case
  proof (cases "d < c")
    case False
    let ?d = "d - c"
    have IH: "square_loop n n h ?d s = (if ?d < n then (n - ?d, h, s)
        else let t = 1 + (?d - n) div n in (n - (?d - n) mod n, h \<noteq> odd t, s + (if h then t div 2 else (t + 1) div 2)))" for h s
      using less [of ?d n h s] False assms by (cases "c = 0") auto
    have step: "square_loop n c high d r = square_loop n n (\<not> high) ?d (if high then r else r + 1)"
      using False assms by (subst square_loop.simps) simp
    show ?thesis
    proof (cases "?d < n")
      case True
      then show ?thesis using False by (simp add: step IH)
    next
      case ge: False
      define q m where "q = (?d - n) div n" and "m = (?d - n) mod n"
      have dm: "?d div n = Suc q" "?d mod n = m"
        unfolding q_def m_def using ge assms by (simp_all add: le_div_geq le_mod_geq)
      have "square_loop n c high d r = (n - m, (\<not> high) \<noteq> odd (1 + q),
          (if high then r else r + 1) + (if \<not> high then (1 + q) div 2 else (1 + q + 1) div 2))"
        unfolding step IH Let_def q_def m_def using ge by (simp only: if_False)
      then show ?thesis unfolding Let_def dm using False by (cases high) simp_all
    qed
  qed (subst square_loop.simps, simp)
qed

theorem square_loop_closed_form_witness: "square_loop 65536 65536 True 200000 0 = (62144, False, 1)"
  using square_loop_closed_form [of 65536 65536 True 200000 0] by simp


section \<open>Two-byte counts\<close>

lemma settle_frame [simp]:
  "p_status (pit_s (settle p c now)) = p_status (pit_s p)" "p_mode (pit_s (settle p c now)) = p_mode (pit_s p)"
  "j \<noteq> c + 6 \<Longrightarrow> p_counter (pit_s (settle p c now)) j = p_counter (pit_s p) j" "gate (settle p c now) = gate p"
  by (simp_all add: settle_def upd_s_def set_counter_def)

lemma latch_frame [simp]:
  "p_status (pit_s (set_latch c v p)) = p_status (pit_s p)" "p_mode (pit_s (set_latch c v p)) = p_mode (pit_s p)"
  "next_n (set_latch c v p) = next_n p" "latch_of (set_latch c v p) c = v"
  "j \<noteq> c + 3 \<Longrightarrow> p_counter (pit_s (set_latch c v p)) j = p_counter (pit_s p) j"
  by (simp_all add: set_latch_def upd_s_def set_counter_def latch_of_def)

lemma count_now_settles: "fst (count_now p c now) = settle p c now"
  by (simp add: count_now_def Let_def)

lemma out_now_settles: "fst (out_now p c now) = settle p c now"
  by (simp add: out_now_def Let_def)

lemma latched_word:
  fixes x :: u16
  defines "w \<equiv> ucast x OR 0x10000 OR 0x20000 :: u32"
  shows "w AND 0x40000 = 0" "w AND 0x10000 \<noteq> 0" "w AND 0x20000 \<noteq> 0" "ucast w = x"
proof -
  have m: "(0x10000 :: u32) = mask1 16" "(0x20000 :: u32) = mask1 17" "(0x40000 :: u32) = mask1 18"
    by (simp_all add: mask1_def)
  have b: "bit w n \<longleftrightarrow> bit x n \<or> n = 16 \<or> n = 17" for n
    unfolding w_def m by (auto simp: bit_or_iff bit_mask1 bit_ucast_iff dest: bit_imp_le_length)
  show "w AND 0x40000 = 0" "w AND 0x10000 \<noteq> 0" "w AND 0x20000 \<noteq> 0"
    unfolding m and_mask1_eq_0 b by (auto dest: bit_imp_le_length)
  show "ucast w = x"
    by (rule bit_word_eqI) (auto simp: bit_simps b)
qed

text \<open>
  A two-byte count is read consistently. With the counter programmed for two-byte access and
  nothing latched, two reads answer the two bytes of the count at the time of the first read,
  whatever time passes before the second, and leave nothing latched.
\<close>

theorem pit_two_byte_read:
  assumes "c < 3" and "access_of p c = 3" and "latch_of p c = 0"
  shows "let (p1, lo) = pit_read p c t1; (p2, hi) = pit_read p1 c t2; n = snd (count_now p c t1)
    in lo = ucast n \<and> hi = ucast (drop_bit 8 n) \<and> latch_of p2 c = 0"
proof -
  obtain q n where q: "count_now p c t1 = (q, n)" by fastforce
  then have "access_of q c = 3"
    using count_now_settles [of p c t1] assms(2) by (simp add: access_of_def)
  then have r1: "pit_read p c t1 = (set_latch c (ucast n OR 0x10000 OR 0x20000) q, ucast n)"
    using assms q by (simp add: pit_read_def Let_def)
  have "access_of (set_latch c (ucast n OR 0x10000 OR 0x20000) q) c = 3"
    using \<open>access_of q c = 3\<close> by (simp add: access_of_def)
  then have "pit_read (set_latch c (ucast n OR 0x10000 OR 0x20000) q) c t2 =
      (set_latch c 0 (set_latch c (ucast n OR 0x10000 OR 0x20000) q), ucast (drop_bit 8 n))"
    unfolding pit_read_def Let_def latch_frame(4) using assms(1) latched_word [of n] by (simp only: if_False if_True prod.case not_le simp_thms) simp
  then show ?thesis unfolding r1 q by (simp only: prod.case Let_def snd_conv latch_frame simp_thms)
qed

definition pit_ready :: CI8254 where
  "pit_ready = \<lparr>pit_s = pit_ex, epoch = \<lambda>_. 0, last_ns = 0, acc = 0, gate = \<lambda>_. True, next_n = \<lambda>_. 0,
     next_at = \<lambda>_. 0, next_epoch = \<lambda>_. 0\<rparr>"

theorem pit_two_byte_read_witness:
  "snd (pit_read (fst (pit_read pit_ready 0 0)) 0 5000000) = 3"
proof -
  have "access_of pit_ready 0 = 3" "latch_of pit_ready 0 = 0"
    by (simp_all add: access_of_def latch_of_def pit_ready_def pit_ex_def)
  moreover have "snd (count_now pit_ready 0 0) = 1000"
    by (simp add: count_now_def settle_def pit_ready_def pit_ex_def null_count_def initial_def bcd_def running_count_def
        mode_of_def clocks_between_def)
  ultimately show ?thesis
    using pit_two_byte_read [of 0 pit_ready 0 5000000] by (simp add: Let_def split_beta)
qed

text \<open>What may come between the two bytes of a count: reads of any port, and latch and read-back
  commands.\<close>

datatype quiet_op = Q_read nat u64 | Q_latch u8 u64

fun quiet_step :: "CI8254 \<Rightarrow> quiet_op \<Rightarrow> CI8254" where
  "quiet_step p (Q_read port t) = fst (pit_read p port t)"
| "quiet_step p (Q_latch data t) =
     (if drop_bit 6 data AND 3 = 3 \<or> drop_bit 4 data AND 3 = 0 then write_control p data t else p)"

text \<open>Status, sequencing, the waiting first bytes and the gates are kept, and so is the count in use of a
  counter for which no other count waits.\<close>

definition kept :: "CI8254 \<Rightarrow> CI8254 \<Rightarrow> bool" where
  "kept p q \<longleftrightarrow> p_status (pit_s q) = p_status (pit_s p) \<and> p_mode (pit_s q) = p_mode (pit_s p) \<and>
     (\<forall>c. drop_bit 24 (next_n q c) = 0) \<and>
     (\<forall>c<3. drop_bit 24 (p_counter (pit_s q) (c + 6)) = drop_bit 24 (p_counter (pit_s p) (c + 6))) \<and>
     gate q = gate p \<and> (\<forall>c<3. next_n p c = 0 \<longrightarrow> next_n q c = 0 \<and>
       initial (pit_s q) c = initial (pit_s p) c \<and> epoch q c = epoch p c)"

lemma kept_refl: "(\<forall>c. drop_bit 24 (next_n p c) = 0) \<Longrightarrow> kept p p"
  by (simp add: kept_def)

lemma kept_trans: "kept p q \<Longrightarrow> kept q r \<Longrightarrow> kept p r"
  by (simp add: kept_def)

lemma kept_latch: "kept p q \<Longrightarrow> c < 3 \<Longrightarrow> kept p (set_latch c v q)"
  by (auto simp: kept_def set_latch_def upd_s_def set_counter_def initial_def)

lemma top_byte: "drop_bit 24 x AND 255 = drop_bit 24 x" for x :: u32
proof -
  have "(255 :: u32) = mask 8" by (simp add: mask_eq_exp_minus_1)
  then have "drop_bit 24 x AND 255 = drop_bit 24 x AND mask 8" by (rule arg_cong)
  also have "\<dots> = drop_bit 24 x"
    by (rule bit_word_eqI) (auto simp: bit_simps dest: bit_imp_le_length)
  finally show ?thesis .
qed

lemma kept_settle: "kept p q \<Longrightarrow> kept p (settle q c t)"
  by (auto simp: kept_def settle_def upd_s_def set_counter_def top_byte initial_def)

lemma kept_read: "kept p q \<Longrightarrow> kept p (fst (pit_read q port t))"
  using kept_settle [of p q port t] count_now_settles [of q port t]
  by (auto simp: pit_read_def Let_def kept_latch split: prod.split if_splits)

lemma kept_latch_count: "kept p q \<Longrightarrow> c < 3 \<Longrightarrow> kept p (latch_count q c t)"
  using kept_settle [of p q c t] count_now_settles [of q c t]
  by (auto simp: latch_count_def Let_def kept_latch split: prod.split)

lemma kept_latch_status: "kept p q \<Longrightarrow> c < 3 \<Longrightarrow> kept p (latch_status q c t)"
  using kept_settle [of p q c t] out_now_settles [of q c t]
  by (auto simp: latch_status_def Let_def kept_latch split: prod.split)

lemma kept_quiet: "kept p q \<Longrightarrow> kept p (quiet_step q x)"
proof (cases x)
  case (Q_latch data t)
  have "kept p q \<Longrightarrow> c < 3 \<Longrightarrow> kept p (read_back_one data t q c)" for q c
    by (simp add: read_back_one_def Let_def kept_latch_count kept_latch_status)
  then have rb: "kept p q \<Longrightarrow> kept p (foldl (read_back_one data t) q [0, 1, 2])" by simp
  have "unat (drop_bit 6 data AND 3) \<le> 3"
    using word_and_le1 [of "drop_bit 6 data" 3] by (simp add: word_le_nat_alt and.commute)
  moreover have "unat (drop_bit 6 data AND 3) = 3 \<longleftrightarrow> drop_bit 6 data AND 3 = 3"
    by (simp add: word_unat_eq_iff)
  ultimately show "kept p q \<Longrightarrow> kept p (quiet_step q x)"
    using Q_latch rb by (auto simp: write_control_def Let_def intro!: kept_latch_count)
qed (simp add: kept_read)

lemma kept_quiets: "kept p q \<Longrightarrow> kept p (foldl quiet_step q xs)"
  by (induction xs arbitrary: q) (simp_all add: kept_quiet)

lemma two_bytes:
  fixes lo hi :: u8
  defines "w \<equiv> ucast lo OR push_bit 8 (ucast hi) :: u32"
  shows "unat w = unat lo + 256 * unat hi" "w AND 0x1ffff = w"
proof -
  have "w = ucast lo + push_bit 8 (ucast hi)"
    unfolding w_def by (rule disjunctive_add [symmetric]) (auto simp: bit_simps dest: bit_imp_le_length)
  moreover have "unat lo < 2 ^ LENGTH(8)" "unat hi < 2 ^ LENGTH(8)" by (rule unsigned_less)+
  ultimately show "unat w = unat lo + 256 * unat hi"
    by (simp add: push_bit_eq_mult unat_word_ariths unsigned_ucast_eq take_bit_nat_eq_self)
  have m: "(0x1ffff :: u32) = mask 17" by (simp add: mask_eq_exp_minus_1)
  show "w AND 0x1ffff = w"
    unfolding m w_def by (rule bit_word_eqI) (auto simp: bit_simps dest: bit_imp_le_length)
qed

lemma null_cleared:
  fixes x :: u8
  shows "((x AND NOT 0x40) AND NOT 0x80) AND 0x40 = 0" "((x AND NOT 0x40) OR 0x80) AND 0x40 = 0"
proof -
  show "((x AND NOT 0x40) AND NOT 0x80) AND 0x40 = 0" by (simp only: and.assoc) simp
  show "((x AND NOT 0x40) OR 0x80) AND 0x40 = 0"
    unfolding bit.conj_disj_distrib2 by (simp only: and.assoc) simp
qed

text \<open>The value of a 16-bit count as it was written: binary or four decimal digits, 0 for the largest.\<close>

definition count_value :: "bool \<Rightarrow> nat \<Rightarrow> nat" where
  "count_value b w = (let v = (if b then (w div 4096 mod 16) * 1000 + (w div 256 mod 16) * 100 + (w div 16 mod 16) * 10 + w mod 16
     else w) in if v = 0 then if b then 10000 else 65536 else v)"

lemma unat_nibble: "unat (drop_bit n v AND 0xf :: u32) = unat v div 2 ^ n mod 16"
proof -
  have "drop_bit n v AND 0xf = take_bit 4 (drop_bit n v)"
    using take_bit_eq_mask [of 4 "drop_bit n v"] by (simp add: mask_eq_exp_minus_1)
  moreover have "unat v < 4294967296" using unsigned_less [of v] by simp
  ultimately show ?thesis
    by (simp only: unsigned_take_bit_eq unsigned_drop_bit_eq) (simp add: take_bit_eq_mod drop_bit_eq_div)
qed

lemma from_bcd_unat:
  "unat (from_bcd v) = (unat v div 4096 mod 16) * 1000 + (unat v div 256 mod 16) * 100 + (unat v div 16 mod 16) * 10 + unat v mod 16"
proof -
  have n: "unat (drop_bit 12 v AND 0xf) = unat v div 4096 mod 16" "unat (drop_bit 8 v AND 0xf) = unat v div 256 mod 16"
    "unat (drop_bit 4 v AND 0xf) = unat v div 16 mod 16" "unat (v AND 0xf) = unat v mod 16"
    using unat_nibble [of 12 v] unat_nibble [of 8 v] unat_nibble [of 4 v] unat_nibble [of 0 v] by simp_all
  have b: "x mod 16 \<le> 15" for x :: nat using mod_less_divisor [of 16 x] by linarith
  have "unat a * 1000 + unat b * 100 + unat c * 10 + unat d < 4294967296"
    if "unat a \<le> 15" "unat b \<le> 15" "unat c \<le> 15" "unat d \<le> 15" for a b c d :: u32 using that by linarith
  then have "unat (a * 1000 + b * 100 + c * 10 + d) = unat a * 1000 + unat b * 100 + unat c * 10 + unat d"
    if "unat a \<le> 15" "unat b \<le> 15" "unat c \<le> 15" "unat d \<le> 15" for a b c d :: u32
    using that by (simp add: unat_word_ariths)
  then show ?thesis unfolding from_bcd_def by (simp only: n b)
qed

text \<open>The count \<open>load_count\<close> works with.\<close>

definition loaded :: "SPit_state \<Rightarrow> nat \<Rightarrow> u32 \<Rightarrow> u32" where
  "loaded s c w = (let n = (if bcd s c then from_bcd w else w) in if n = 0 then if bcd s c then 10000 else 65536 else n)"

lemma loaded_value:
  assumes "unat w < 65536"
  shows "unat (loaded s c w) = count_value (bcd s c) (unat w)" "loaded s c w AND 0x1ffff = loaded s c w"
proof -
  show v: "unat (loaded s c w) = count_value (bcd s c) (unat w)"
  proof (cases "bcd s c")
    case True
    then show ?thesis
      using from_bcd_unat [of w] by (auto simp: loaded_def count_value_def Let_def word_unat_eq_iff)
  next
    case False
    then show ?thesis by (auto simp: loaded_def count_value_def Let_def word_unat_eq_iff)
  qed
  have b: "x mod 16 \<le> 15" for x :: nat using mod_less_divisor [of 16 x] by linarith
  have "count_value (bcd s c) (unat w) < 131072"
    using assms b [of "unat w div 4096"] b [of "unat w div 256"] b [of "unat w div 16"] b [of "unat w"]
    by (auto simp: count_value_def Let_def)
  then have "take_bit 17 (loaded s c w) = loaded s c w" using v
    by (simp add: word_unat_eq_iff unsigned_take_bit_eq take_bit_nat_eq_self)
  then show "loaded s c w AND 0x1ffff = loaded s c w" by (simp add: take_bit_eq_mask mask_eq_exp_minus_1)
qed

text \<open>Loading a count into a counter that is not a running one of modes 2 and 3, and into one that is.\<close>

lemma load_count_now:
  fixes p :: CI8254 and c :: nat and w :: u32 and t :: u64
  assumes "null_count (pit_s p) c \<or> mode_of (pit_s p) c \<notin> {2, 3} \<or> \<not> gate p c" "unat w < 65536" "c < 3"
  defines "q \<equiv> load_count p c w t"
  shows "initial (pit_s q) c = loaded (pit_s p) c w" "p_counter (pit_s q) c = loaded (pit_s p) c w"
    "\<not> null_count (pit_s q) c" "epoch q c = t" "p_mode (pit_s q) = p_mode (pit_s p)"
proof -
  have f: "p_status (pit_s (settle p c t)) = p_status (pit_s p)" "gate (settle p c t) = gate p"
    by (simp_all add: settle_def upd_s_def set_counter_def)
  then have "\<not> ((mode_of (pit_s (settle p c t)) c = 2 \<or> mode_of (pit_s (settle p c t)) c = 3) \<and>
      \<not> null_count (pit_s (settle p c t)) c \<and> gate (settle p c t) c \<and> initial (pit_s (settle p c t)) c \<noteq> 0)"
    using assms(1) by (auto simp: null_count_def mode_of_def)
  then have q: "q = (let st = p_status (pit_s p) c AND NOT 0x40;
           st = (if mode_of (pit_s (settle p c t)) c = 0 then st AND NOT 0x80 else st OR 0x80); n = loaded (pit_s p) c w
      in (upd_s (\<lambda>s. set_status c st (set_counter (c + 3) 0 (set_counter (c + 6) n (set_counter c n s)))) (settle p c t))
                 \<lparr>next_n := (next_n (settle p c t))(c := 0), epoch := (epoch (settle p c t))(c := t)\<rparr>)"
    unfolding q_def load_count_def Let_def loaded_def using f(1) by (simp only: if_False)
  show "initial (pit_s q) c = loaded (pit_s p) c w" "p_counter (pit_s q) c = loaded (pit_s p) c w"
    "epoch q c = t" "p_mode (pit_s q) = p_mode (pit_s p)"
    using loaded_value(2) [OF assms(2)] assms(3) unfolding q Let_def
    by (simp_all add: initial_def upd_s_def set_status_def set_counter_def)
  have st: "p_status (pit_s q) c = (if mode_of (pit_s (settle p c t)) c = 0
      then (p_status (pit_s p) c AND NOT 0x40) AND NOT 0x80 else (p_status (pit_s p) c AND NOT 0x40) OR 0x80)"
    unfolding q Let_def by (simp add: upd_s_def set_status_def set_counter_def)
  show "\<not> null_count (pit_s q) c"
    unfolding null_count_def st
    by (cases "mode_of (pit_s (settle p c t)) c = 0") (simp_all only: if_True if_False null_cleared simp_thms)
qed

lemma load_count_waits:
  fixes p :: CI8254 and c :: nat and w :: u32 and t :: u64
  assumes "\<not> null_count (pit_s p) c" "mode_of (pit_s p) c \<in> {2, 3}" "gate p c" "initial (pit_s p) c \<noteq> 0" "next_n p c = 0"
  shows "load_count p c w t = schedule p c (loaded (pit_s p) c w) t"
  using assms by (auto simp: load_count_def Let_def loaded_def settle_def)

lemma schedule_frame:
  "next_n (schedule p c n t) c = n" "pit_s (schedule p c n t) = pit_s p" "epoch (schedule p c n t) = epoch p"
  by (simp_all add: schedule_def Let_def split: prod.splits)

lemma second_byte:
  assumes "c < 3" "access_of p c = 3" "p_mode (pit_s p) c = 3" "\<forall>i. drop_bit 24 (next_n p i) = 0"
  obtains q where "pit_write (foldl quiet_step (pit_write p c lo t1) xs) c hi t2 =
      load_count q c (ucast lo OR push_bit 8 (ucast hi)) t2"
    "p_status (pit_s q) = p_status (pit_s p)" "p_mode (pit_s q) c = 3" "gate q = gate p"
    "next_n p c = 0 \<Longrightarrow> next_n q c = 0 \<and> initial (pit_s q) c = initial (pit_s p) c \<and> epoch q c = epoch p c"
proof -
  define p1 where "p1 = pit_write p c lo t1"
  have p1: "p_status (pit_s p1) = p_status (pit_s p)" "p_mode (pit_s p1) c = 2" "next_n p1 = next_n p" "gate p1 = gate p"
    "epoch p1 = epoch p" "p_counter (pit_s p1) (c + 6) = p_counter (pit_s p) (c + 6) AND 0x1ffff OR push_bit 24 (ucast lo)"
    using assms by (simp_all add: p1_def pit_write_def Let_def upd_s_def set_mode_def set_counter_def)
  have m: "(0x1ffff :: u32) = mask 17" by (simp add: mask_eq_exp_minus_1)
  have "initial (pit_s p1) c = initial (pit_s p) c"
    unfolding initial_def p1(6) m by (rule bit_word_eqI) (auto simp: bit_simps)
  moreover define q where "q = foldl quiet_step p1 xs"
  have "kept p1 q" unfolding q_def using p1(3) assms(4) by (intro kept_quiets kept_refl) simp
  ultimately have q: "p_status (pit_s q) = p_status (pit_s p)" "p_mode (pit_s q) c = 2" "gate q = gate p"
      "drop_bit 24 (p_counter (pit_s q) (c + 6)) = drop_bit 24 (p_counter (pit_s p1) (c + 6))"
      "next_n p c = 0 \<Longrightarrow> next_n q c = 0 \<and> initial (pit_s q) c = initial (pit_s p) c \<and> epoch q c = epoch p c"
    using p1 assms(1) by (simp_all add: kept_def)
  have lo: "drop_bit 24 (p_counter (pit_s p1) (c + 6)) = ucast lo"
    unfolding p1(6) by (rule bit_word_eqI) (auto simp: bit_simps dest: bit_imp_le_length)
  define q' where "q' = upd_s (\<lambda>s. set_mode c 3 (set_counter (c + 6) (p_counter (pit_s q) (c + 6) AND 0x1ffff) s)) q"
  show thesis
  proof (rule that [of q'])
    show "pit_write (foldl quiet_step (pit_write p c lo t1) xs) c hi t2 = load_count q' c (ucast lo OR push_bit 8 (ucast hi)) t2"
      using assms(1,2) q lo unfolding p1_def [symmetric] q_def [symmetric]
      by (simp add: pit_write_def access_of_def Let_def q'_def)
  qed (use q in \<open>simp_all add: q'_def upd_s_def set_mode_def set_counter_def initial_def and.assoc\<close>)
qed

text \<open>
  C25. A count is programmed byte by byte. After a control word for two-byte access, the low and the high
  byte written to a counter give the 16-bit count they form, read as four decimal digits on a BCD counter
  and with 0 for the largest, with any reads of the ports and any latch and read-back commands between the
  two writes. A counter that is not running (NULL COUNT, or its gate low) or is not in mode 2 or 3 takes the
  count at once; a running one of mode 2 or 3 for which no other count waits keeps its count for the current
  cycle, and the new one waits.
\<close>

theorem pit_two_byte_write:
  assumes "c < 3" and "access_of p c = 3" and "p_mode (pit_s p) c = 3" and "\<forall>i. drop_bit 24 (next_n p i) = 0"
  shows "let q = pit_write (foldl quiet_step (pit_write p c lo t1) xs) c hi t2;
             v = count_value (bcd (pit_s p) c) (unat lo + 256 * unat hi)
    in p_mode (pit_s q) c = 3 \<and>
       (null_count (pit_s p) c \<or> mode_of (pit_s p) c \<notin> {2, 3} \<or> \<not> gate p c \<longrightarrow>
          unat (initial (pit_s q) c) = v \<and> p_counter (pit_s q) c = initial (pit_s q) c \<and>
          \<not> null_count (pit_s q) c \<and> epoch q c = t2) \<and>
       (\<not> null_count (pit_s p) c \<and> mode_of (pit_s p) c \<in> {2, 3} \<and> gate p c \<and> initial (pit_s p) c \<noteq> 0 \<and> next_n p c = 0 \<longrightarrow>
          unat (next_n q c) = v \<and> initial (pit_s q) c = initial (pit_s p) c \<and> epoch q c = epoch p c)"
proof -
  let ?w = "ucast lo OR push_bit 8 (ucast hi) :: u32" and ?w' = "unat lo + 256 * unat hi"
  obtain q where q: "pit_write (foldl quiet_step (pit_write p c lo t1) xs) c hi t2 = load_count q c ?w t2"
    "p_status (pit_s q) = p_status (pit_s p)" "p_mode (pit_s q) c = 3" "gate q = gate p"
    "next_n p c = 0 \<Longrightarrow> next_n q c = 0 \<and> initial (pit_s q) c = initial (pit_s p) c \<and> epoch q c = epoch p c"
    using second_byte [OF assms] by metis
  have same: "null_count (pit_s q) c = null_count (pit_s p) c" "mode_of (pit_s q) c = mode_of (pit_s p) c"
    "bcd (pit_s q) c = bcd (pit_s p) c" using q(2) by (simp_all add: null_count_def mode_of_def bcd_def)
  have "unat lo < 256" "unat hi < 256" using unsigned_less [of lo] unsigned_less [of hi] by simp_all
  then have w: "unat ?w < 65536" "unat ?w = ?w'" using two_bytes(1) [of lo hi] by simp_all
  have m: "p_mode (pit_s (load_count q c ?w t2)) c = 3"
    using q(3) by (simp add: load_count_def Let_def schedule_frame settle_def upd_s_def set_counter_def set_status_def)
  show ?thesis unfolding q(1) Let_def
  proof (intro conjI impI m)
    assume "null_count (pit_s p) c \<or> mode_of (pit_s p) c \<notin> {2, 3} \<or> \<not> gate p c"
    then have h: "null_count (pit_s q) c \<or> mode_of (pit_s q) c \<notin> {2, 3} \<or> \<not> gate q c" by (simp only: same q(4))
    note n = load_count_now [OF h w(1) assms(1), of t2]
    show "unat (initial (pit_s (load_count q c ?w t2)) c) = count_value (bcd (pit_s p) c) ?w'"
      using loaded_value(1) [OF w(1), of "pit_s q" c] n(1) by (simp only: same w(2))
    show "p_counter (pit_s (load_count q c ?w t2)) c = initial (pit_s (load_count q c ?w t2)) c" "epoch (load_count q c ?w t2) c = t2"
      using n by simp_all
    show "\<not> null_count (pit_s (load_count q c ?w t2)) c" by (rule n(3))
  next
    assume a: "\<not> null_count (pit_s p) c \<and> mode_of (pit_s p) c \<in> {2, 3} \<and> gate p c \<and> initial (pit_s p) c \<noteq> 0 \<and> next_n p c = 0"
    then have "load_count q c ?w t2 = schedule q c (loaded (pit_s q) c ?w) t2"
      using q(4,5) same by (intro load_count_waits) simp_all
    then show "unat (next_n (load_count q c ?w t2) c) = count_value (bcd (pit_s p) c) ?w'"
      "initial (pit_s (load_count q c ?w t2)) c = initial (pit_s p) c" "epoch (load_count q c ?w t2) c = epoch p c"
      using loaded_value(1) [OF w(1), of "pit_s q" c] a q(5) by (simp_all only: schedule_frame same w(2))
  qed
qed

theorem pit_two_byte_write_witness:
  "unat (initial (pit_s (pit_write (foldl quiet_step (pit_write (pit_ready\<lparr>pit_s := pit_ex\<lparr>p_status := (\<lambda>_. 0x71)\<rparr>\<rparr>) 0 0x34 1)
     [Q_read 0 2, Q_latch 0 3]) 0 0x12 4)) 0) = 1234 \<and>
   unat (next_n (pit_write (foldl quiet_step (pit_write pit_ready 0 0x34 1) [Q_read 0 2, Q_latch 0 3]) 0 0x12 4) 0) = 0x1234"
proof
  let ?p = "pit_ready\<lparr>pit_s := pit_ex\<lparr>p_status := (\<lambda>_. 0x71)\<rparr>\<rparr>"
  have "access_of ?p 0 = 3" "p_mode (pit_s ?p) 0 = 3" "null_count (pit_s ?p) 0" "bcd (pit_s ?p) 0"
    "\<forall>i. drop_bit 24 (next_n ?p i) = 0"
    by (simp_all add: access_of_def null_count_def bcd_def pit_ready_def pit_ex_def)
  then show "unat (initial (pit_s (pit_write (foldl quiet_step (pit_write ?p 0 0x34 1) [Q_read 0 2, Q_latch 0 3]) 0 0x12 4)) 0) = 1234"
    using pit_two_byte_write [of 0 ?p "0x34" 1 "[Q_read 0 2, Q_latch 0 3]" "0x12" 4] by (simp add: Let_def count_value_def)
  have "access_of pit_ready 0 = 3" "p_mode (pit_s pit_ready) 0 = 3" "\<not> null_count (pit_s pit_ready) 0" "\<not> bcd (pit_s pit_ready) 0"
    "mode_of (pit_s pit_ready) 0 = 2" "gate pit_ready 0" "initial (pit_s pit_ready) 0 = 1000" "next_n pit_ready 0 = 0"
    "\<forall>i. drop_bit 24 (next_n pit_ready i) = 0"
    by (simp_all add: access_of_def null_count_def bcd_def mode_of_def initial_def pit_ready_def pit_ex_def)
  then show "unat (next_n (pit_write (foldl quiet_step (pit_write pit_ready 0 0x34 1) [Q_read 0 2, Q_latch 0 3]) 0 0x12 4) 0) = 0x1234"
    using pit_two_byte_write [of 0 pit_ready "0x34" 1 "[Q_read 0 2, Q_latch 0 3]" "0x12" 4] by (simp add: Let_def count_value_def)
qed

end
