(* ===== verification/Code_Pages.thy ===== *)
theory Code_Pages
  imports Axp_Prelude
begin

text \<open>
  The map of the memory that code has been compiled from, \<open>CCodePageMap\<close> of
  \<^verbatim>\<open>src/src/system/System.hpp\<close> and \<^verbatim>\<open>System.cpp\<close>: one bit per 8 KB page and one per 256-byte line,
  never cleared, and one counter of the writes that landed on a marked line. A processor that
  flushes its instruction cache compares the counter with the value it saw last. Shown here: no
  write over compiled code goes uncounted, whatever happened in between, and a device write is
  counted only when one of its bytes is on a marked line. The trace
  (\<open>ALPHABOX_TRACE_CODEWRITE\<close>) only prints and is left out.
\<close>

section \<open>Bitmaps in bytes\<close>

definition bit_get :: "(nat \<Rightarrow> u8) \<Rightarrow> u64 \<Rightarrow> bool" where
  "bit_get b n \<longleftrightarrow> b (unat (drop_bit 3 n)) AND mask1 (unat (n AND 7)) \<noteq> 0"

definition bit_put :: "(nat \<Rightarrow> u8) \<Rightarrow> u64 \<Rightarrow> (nat \<Rightarrow> u8)" where
  "bit_put b n = b(unat (drop_bit 3 n) := b (unat (drop_bit 3 n)) OR mask1 (unat (n AND 7)))"

text \<open>The values of a loop counter that runs from \<open>a\<close> up to and including \<open>b\<close>.\<close>

definition word_range :: "u64 \<Rightarrow> u64 \<Rightarrow> u64 list" where
  "word_range a b = map of_nat [unat a..<Suc (unat b)]"

section \<open>The map\<close>

record code_map =
  m_ready :: bool
  m_pages :: u64
  m_lines :: u64
  m_page_bits :: "nat \<Rightarrow> u8"
  m_line_bits :: "nat \<Rightarrow> u8"
  m_gen :: u64
  m_marked :: u64
  m_flush_requests :: nat

definition code_map_init :: "u64 \<Rightarrow> code_map" where
  "code_map_init dram_bytes =
     \<lparr>m_ready = True, m_pages = drop_bit 13 dram_bytes, m_lines = drop_bit 8 dram_bytes,
      m_page_bits = (\<lambda>_. 0), m_line_bits = (\<lambda>_. 0), m_gen = 0, m_marked = 0, m_flush_requests = 0\<rparr>"

definition holds_code :: "code_map \<Rightarrow> u64 \<Rightarrow> bool" where
  "holds_code m phys = (let pg = drop_bit 13 phys in m_ready m \<and> pg < m_pages m \<and> bit_get (m_page_bits m) pg)"

definition holds_code_line :: "code_map \<Rightarrow> u64 \<Rightarrow> bool" where
  "holds_code_line m phys = (let ln = drop_bit 8 phys in m_ready m \<and> ln < m_lines m \<and> bit_get (m_line_bits m) ln)"

text \<open>The two loops of \<open>note_code\<close>; the flag says whether the function goes on or returned.\<close>

fun mark_lines :: "code_map \<Rightarrow> u64 list \<Rightarrow> code_map \<times> bool" where
  "mark_lines m [] = (m, True)"
| "mark_lines m (ln # lns) =
     (if ln \<ge> m_lines m then (m, False)
      else mark_lines (m\<lparr>m_line_bits := bit_put (m_line_bits m) ln\<rparr>) lns)"

definition mark_page :: "code_map \<Rightarrow> u64 \<Rightarrow> code_map" where
  "mark_page m pg =
     (let was = bit_get (m_page_bits m) pg; m = m\<lparr>m_page_bits := bit_put (m_page_bits m) pg\<rparr>
      in if was then m
         else m\<lparr>m_marked := m_marked m + 1, m_gen := m_gen m + 1, m_flush_requests := Suc (m_flush_requests m)\<rparr>)"

fun mark_pages :: "code_map \<Rightarrow> u64 list \<Rightarrow> code_map" where
  "mark_pages m [] = m"
| "mark_pages m (pg # pgs) = (if pg \<ge> m_pages m then m else mark_pages (mark_page m pg) pgs)"

definition note_code :: "code_map \<Rightarrow> u64 \<Rightarrow> u64 \<Rightarrow> code_map" where
  "note_code m phys bytes =
     (if \<not> m_ready m then m
      else let lst = phys + (if bytes \<noteq> 0 then bytes - 1 else 0);
               (m, go) = mark_lines m (word_range (drop_bit 8 phys) (drop_bit 8 lst))
           in if go then mark_pages m (word_range (drop_bit 13 phys) (drop_bit 13 lst)) else m)"

definition note_write_all :: "code_map \<Rightarrow> code_map" where
  "note_write_all m = m\<lparr>m_gen := m_gen m + 1\<rparr>"

definition note_write :: "code_map \<Rightarrow> u64 \<Rightarrow> code_map" where
  "note_write m phys = (if holds_code m phys \<and> holds_code_line m phys then m\<lparr>m_gen := m_gen m + 1\<rparr> else m)"

definition page_written :: "code_map \<Rightarrow> u64 \<Rightarrow> u64 \<Rightarrow> u64 \<Rightarrow> bool" where
  "page_written m phys lst pg \<longleftrightarrow> holds_code m (push_bit 13 pg) \<and>
     (let from = (if push_bit 13 pg > phys then push_bit 13 pg else phys);
          to = (if push_bit 13 (pg + 1) - 1 < lst then push_bit 13 (pg + 1) - 1 else lst)
      in \<exists>ln\<in>set (word_range (drop_bit 8 from) (drop_bit 8 to)). holds_code_line m (push_bit 8 ln))"

definition note_write_range :: "code_map \<Rightarrow> u64 \<Rightarrow> u64 \<Rightarrow> code_map" where
  "note_write_range m phys bytes =
     (if \<not> m_ready m \<or> bytes = 0 then m
      else let lst = phys + bytes - 1
           in if \<exists>pg\<in>set (word_range (drop_bit 13 phys) (drop_bit 13 lst)). page_written m phys lst pg
              then m\<lparr>m_gen := m_gen m + 1\<rparr> else m)"

datatype code_op = Code u64 u64 | Write u64 | Write_range u64 u64 | Write_all

fun code_step :: "code_map \<Rightarrow> code_op \<Rightarrow> code_map" where
  "code_step m (Code p n) = note_code m p n"
| "code_step m (Write p) = note_write m p"
| "code_step m (Write_range p n) = note_write_range m p n"
| "code_step m Write_all = note_write_all m"

section \<open>The bits\<close>

lemma unat_and_7: "unat (n AND 7 :: u64) = unat n mod 8"
proof -
  have "n AND 7 = take_bit 3 n" using take_bit_eq_mask [of 3 n] by (simp add: mask_eq_exp_minus_1)
  then show ?thesis by (simp only: unsigned_take_bit_eq) (simp add: take_bit_eq_mod)
qed

lemma unat_drop: "unat (drop_bit n x) = unat (x :: u64) div 2 ^ n"
proof -
  have "unat x < 2 ^ LENGTH(64)" by (rule unsigned_less)
  then show ?thesis by (simp only: unsigned_drop_bit_eq) (simp add: drop_bit_eq_div take_bit_nat_eq_self)
qed

lemma byte_bit_inj: "unat (drop_bit 3 n) = unat (drop_bit 3 k) \<Longrightarrow> unat (n AND 7) = unat (k AND 7) \<Longrightarrow> n = (k :: u64)"
  unfolding unat_and_7 unat_drop by (simp add: word_unat_eq_iff) (metis div_mult_mod_eq)

lemma bit_get_put: "bit_get (bit_put b n) k \<longleftrightarrow> bit_get b k \<or> k = n"
proof -
  have "unat (n AND 7) < 8" by (simp add: unat_and_7)
  then show ?thesis
    using byte_bit_inj [of n k] by (auto simp: bit_get_def bit_put_def and_mask1_eq_0 bit_set_mask1)
qed

lemma bit_get_empty [simp]: "\<not> bit_get (\<lambda>_. 0) n"
  by (simp add: bit_get_def)

lemma in_word_range [simp]: "x \<in> set (word_range a b) \<longleftrightarrow> a \<le> x \<and> x \<le> b"
proof -
  have "unat b < 2 ^ LENGTH(64)" by (rule unsigned_less)
  then have u: "unat (of_nat k :: u64) = k" if "k \<le> unat b" for k
    using that by (simp add: unat_of_nat)
  show ?thesis
    by (auto simp: word_range_def word_le_nat_alt u image_iff less_Suc_eq_le intro!: bexI [of _ "unat x"])
qed

lemma drop_bit_mono: "a \<le> b \<Longrightarrow> drop_bit n a \<le> drop_bit n (b :: u64)"
  unfolding word_le_nat_alt unat_drop by (rule div_le_mono)

lemma drop_push: "drop_bit n (push_bit n (drop_bit n x)) = drop_bit n (x :: u64)"
  by (rule bit_word_eqI) (auto simp: bit_simps dest: bit_imp_le_length)

section \<open>What the operations keep\<close>

text \<open>\<open>m'\<close> knows at least the code that \<open>m\<close> knows.\<close>

definition knows_more :: "code_map \<Rightarrow> code_map \<Rightarrow> bool" where
  "knows_more m m' \<longleftrightarrow> m_ready m' = m_ready m \<and> m_pages m' = m_pages m \<and> m_lines m' = m_lines m \<and>
     (\<forall>k. bit_get (m_page_bits m) k \<longrightarrow> bit_get (m_page_bits m') k) \<and>
     (\<forall>k. bit_get (m_line_bits m) k \<longrightarrow> bit_get (m_line_bits m') k)"

lemma knows_more_trans: "knows_more m m' \<Longrightarrow> knows_more m' m'' \<Longrightarrow> knows_more m m''"
  by (simp add: knows_more_def)

lemma knows_more_gen [simp]: "knows_more m (m\<lparr>m_gen := g\<rparr>)" "knows_more m m"
  by (simp_all add: knows_more_def)

lemma mark_lines_knows: "knows_more m (fst (mark_lines m ls))"
proof (induction ls arbitrary: m)
  case (Cons l ls)
  have "knows_more m (m\<lparr>m_line_bits := bit_put (m_line_bits m) l\<rparr>)"
    by (simp add: knows_more_def bit_get_put)
  then show ?case using Cons knows_more_trans by auto
qed simp

lemma mark_lines_all:
  assumes "\<forall>l\<in>set ls. l < m_lines m"
  shows "snd (mark_lines m ls)" "l \<in> set ls \<Longrightarrow> bit_get (m_line_bits (fst (mark_lines m ls))) l"
proof -
  show "snd (mark_lines m ls)" using assms by (induction ls arbitrary: m) auto
  show "bit_get (m_line_bits (fst (mark_lines m ls))) l" if "l \<in> set ls"
    using assms that
  proof (induction ls arbitrary: m)
    case (Cons k ks)
    then show ?case
      using mark_lines_knows [of "m\<lparr>m_line_bits := bit_put (m_line_bits m) k\<rparr>" ks]
      by (auto simp: knows_more_def bit_get_put)
  qed simp
qed

lemma mark_page_knows: "knows_more m (mark_page m p)" "bit_get (m_page_bits (mark_page m p)) p"
  by (auto simp: mark_page_def Let_def knows_more_def bit_get_put)

lemma mark_pages_knows: "knows_more m (mark_pages m ps)"
proof (induction ps arbitrary: m)
  case (Cons p ps)
  then show ?case using knows_more_trans [OF mark_page_knows(1) Cons.IH] by simp
qed simp

lemma mark_pages_all:
  "\<forall>p\<in>set ps. p < m_pages m \<Longrightarrow> p \<in> set ps \<Longrightarrow> bit_get (m_page_bits (mark_pages m ps)) p"
proof (induction ps arbitrary: m)
  case (Cons k ks)
  have "bit_get (m_page_bits (mark_pages (mark_page m k) ks)) k" "m_pages (mark_page m k) = m_pages m"
    using mark_pages_knows [of "mark_page m k" ks] mark_page_knows [of m k] by (auto simp: knows_more_def)
  then show ?case using Cons by auto
qed simp

lemma note_code_knows: "knows_more m (note_code m p n)"
proof -
  have "knows_more m (mark_pages (fst (mark_lines m ls)) ps)" for ls ps
    by (rule knows_more_trans [OF mark_lines_knows mark_pages_knows])
  then show ?thesis by (simp add: note_code_def Let_def case_prod_beta mark_lines_knows)
qed

lemma code_step_knows: "knows_more m (code_step m x)"
  by (cases x) (simp_all add: note_code_knows note_write_def note_write_range_def note_write_all_def Let_def)

lemma code_history_knows: "knows_more m (foldl code_step m xs)"
  by (induction xs arbitrary: m) (auto intro: knows_more_trans [OF code_step_knows])

section \<open>Writes over compiled code\<close>

text \<open>Every byte of the block lies on a marked line of a marked page.\<close>

lemma drop_bit_less: "drop_bit 13 x < drop_bit 13 d \<Longrightarrow> drop_bit 8 x < drop_bit 8 (d :: u64)"
proof -
  have "drop_bit 13 y = drop_bit 5 (drop_bit 8 y)" for y :: u64 by (simp add: drop_bit_drop_bit)
  then show "drop_bit 13 x < drop_bit 13 d \<Longrightarrow> ?thesis" using drop_bit_mono not_le by metis
qed

lemma note_code_holds:
  assumes m: "m_ready m" "m_pages m = drop_bit 13 d" "m_lines m = drop_bit 8 d"
    and n: "n \<noteq> 0" and inside: "drop_bit 13 (p + (n - 1)) < drop_bit 13 d"
    and x: "p \<le> x" "x \<le> p + (n - 1)" and k: "knows_more (note_code m p n) m'"
  shows "holds_code m' x \<and> holds_code_line m' x"
proof -
  let ?e = "p + (n - 1)"
  define ml where "ml = mark_lines m (word_range (drop_bit 8 p) (drop_bit 8 ?e))"
  define mp where "mp = mark_pages (fst ml) (word_range (drop_bit 13 p) (drop_bit 13 ?e))"
  have l: "drop_bit 8 y < m_lines m" "drop_bit 13 y < m_pages m" if "y \<le> ?e" for y
    using inside drop_bit_less [OF inside] drop_bit_mono [OF that] m le_less_trans by metis+
  have lines: "snd ml" "bit_get (m_line_bits (fst ml)) (drop_bit 8 x)"
    unfolding ml_def using l(1) [of ?e] x by (auto intro!: mark_lines_all intro: le_less_trans drop_bit_mono)
  have ml: "knows_more m (fst ml)" unfolding ml_def by (rule mark_lines_knows)
  have "bit_get (m_page_bits mp) (drop_bit 13 x)"
    unfolding mp_def using l(2) [of ?e] x ml
    by (auto intro!: mark_pages_all simp: knows_more_def intro: le_less_trans drop_bit_mono)
  moreover have "knows_more (fst ml) mp" unfolding mp_def by (rule mark_pages_knows)
  moreover have "note_code m p n = mp"
    using m(1) n lines(1) by (simp add: note_code_def mp_def ml_def Let_def case_prod_beta)
  ultimately show ?thesis
    using k ml lines(2) m(1) l [OF x(2)] by (simp add: knows_more_def holds_code_def holds_code_line_def Let_def)
qed

lemma unat_push: "unat x * 2 ^ n < 2 ^ 64 \<Longrightarrow> unat (push_bit n x :: u64) = unat x * 2 ^ n"
  by (simp only: unsigned_push_bit_eq) (simp add: push_bit_eq_mult take_bit_nat_eq_self)

lemma unat_drop_bounds: "unat (drop_bit n x :: u64) * 2 ^ n \<le> unat x" "unat x < unat (drop_bit n x) * 2 ^ n + 2 ^ n"
  unfolding unat_drop by (simp_all add: div_times_less_eq_dividend) (metis add.commute dividend_less_div_times zero_less_numeral zero_less_power)

text \<open>The first and the last address of a page that exists.\<close>

lemma page_ends:
  assumes "pg \<le> drop_bit 13 (e :: u64)"
  shows "unat (push_bit 13 pg) = unat pg * 8192" "unat (push_bit 13 (pg + 1) - 1) = unat pg * 8192 + 8191"
proof -
  have "unat e < 2 ^ LENGTH(64)" by (rule unsigned_less)
  then have "unat e div 8192 < 2 ^ 51" by (simp add: less_mult_imp_div_less)
  then have b: "unat pg * 8192 + 8191 < 2 ^ 64"
    using assms unfolding word_le_nat_alt unat_drop by simp
  then show u: "unat (push_bit 13 pg) = unat pg * 8192" using unat_push [of pg 13] by simp
  have "push_bit 13 (pg + 1) - 1 = push_bit 13 pg + 8191" by (simp add: push_bit_add)
  then show "unat (push_bit 13 (pg + 1) - 1) = unat pg * 8192 + 8191"
    using u b by (simp add: unat_word_ariths)
qed

text \<open>A page is found written exactly when one of its bytes in the range is on a marked line.\<close>

lemma page_written_iff:
  assumes q: "q \<le> e" and pg: "drop_bit 13 q \<le> pg" "pg \<le> drop_bit 13 e"
  shows "page_written m q e pg \<longleftrightarrow>
    (\<exists>x. q \<le> x \<and> x \<le> e \<and> drop_bit 13 x = pg \<and> holds_code m x \<and> holds_code_line m x)"
proof -
  define lo where "lo = (if push_bit 13 pg > q then push_bit 13 pg else q)"
  define hi where "hi = (if push_bit 13 (pg + 1) - 1 < e then push_bit 13 (pg + 1) - 1 else e)"
  have on_page: "lo \<le> x \<and> x \<le> hi \<longleftrightarrow> q \<le> x \<and> x \<le> e \<and> drop_bit 13 x = pg" for x
    using page_ends [OF pg(2)] unfolding lo_def hi_def word_less_nat_alt word_le_nat_alt word_unat_eq_iff unat_drop
    by auto
  have "lo \<le> hi"
    using page_ends [OF pg(2)] q pg unfolding lo_def hi_def word_less_nat_alt word_le_nat_alt unat_drop by auto
  have in_line: "\<exists>x. lo \<le> x \<and> x \<le> hi \<and> drop_bit 8 x = ln" if "drop_bit 8 lo \<le> ln" "ln \<le> drop_bit 8 hi" for ln
  proof -
    have hi: "unat ln * 256 \<le> unat hi" using that(2) unfolding word_le_nat_alt unat_drop by simp
    moreover have "unat hi < 2 ^ LENGTH(64)" by (rule unsigned_less)
    ultimately have p: "unat (push_bit 8 ln) = unat ln * 256" using unat_push [of ln 8] by simp
    show ?thesis
      using that hi p \<open>lo \<le> hi\<close> unfolding word_le_nat_alt word_unat_eq_iff unat_drop
      by (intro exI [of _ "if unat lo \<le> unat ln * 256 then push_bit 8 ln else lo"]) auto
  qed
  have line_of: "holds_code_line m (push_bit 8 ln) = holds_code_line m x" if "drop_bit 8 x = ln" for x ln
    using drop_push [of 8 x] that by (simp add: holds_code_line_def Let_def)
  have page_of: "holds_code m (push_bit 13 pg) = holds_code m x" if "drop_bit 13 x = pg" for x
    using drop_push [of 13 x] that by (simp add: holds_code_def Let_def)
  have "page_written m q e pg \<longleftrightarrow> holds_code m (push_bit 13 pg) \<and>
      (\<exists>ln. drop_bit 8 lo \<le> ln \<and> ln \<le> drop_bit 8 hi \<and> holds_code_line m (push_bit 8 ln))"
    unfolding page_written_def Let_def lo_def hi_def Bex_def in_word_range by (simp only: conj_assoc)
  also have "\<dots> \<longleftrightarrow> (\<exists>x. lo \<le> x \<and> x \<le> hi \<and> holds_code m x \<and> holds_code_line m x)" (is "?l \<longleftrightarrow> ?r")
  proof
    assume ?l
    then obtain ln x where "holds_code_line m (push_bit 8 ln)" and x: "lo \<le> x" "x \<le> hi" "drop_bit 8 x = ln"
      using in_line by blast
    then have "holds_code_line m x" using line_of by simp
    moreover have "holds_code m x" using \<open>?l\<close> page_of on_page x by blast
    ultimately show ?r using x by blast
  next
    assume ?r
    then obtain x where x: "lo \<le> x" "x \<le> hi" "holds_code m x" "holds_code_line m x" by blast
    then have "holds_code m (push_bit 13 pg)" using page_of on_page by blast
    moreover have "holds_code_line m (push_bit 8 (drop_bit 8 x))" using line_of x(4) by simp
    ultimately show ?l using x drop_bit_mono by blast
  qed
  finally show ?thesis using on_page by blast
qed

lemma note_write_range_iff:
  assumes "m_ready m" "n \<noteq> 0" "q \<le> q + (n - 1)"
  shows "note_write_range m q n =
    (if \<exists>x. q \<le> x \<and> x \<le> q + (n - 1) \<and> holds_code m x \<and> holds_code_line m x then m\<lparr>m_gen := m_gen m + 1\<rparr> else m)"
proof -
  let ?e = "q + (n - 1)"
  have "(\<exists>pg. drop_bit 13 q \<le> pg \<and> pg \<le> drop_bit 13 ?e \<and> page_written m q ?e pg) \<longleftrightarrow>
    (\<exists>x. q \<le> x \<and> x \<le> ?e \<and> holds_code m x \<and> holds_code_line m x)"
    using page_written_iff [OF assms(3)] drop_bit_mono by blast
  moreover have "q + n - 1 = ?e" by simp
  ultimately show ?thesis using assms(1,2) by (simp only: note_write_range_def Let_def Bex_def in_word_range) simp
qed

text \<open>A naturally aligned store stays inside one line, so testing its first byte is enough.\<close>

lemma aligned_same_line:
  assumes "unat q mod 2 ^ k = 0" "k \<le> 3" "q \<le> x" "unat x < unat q + 2 ^ k"
  shows "drop_bit 8 x = drop_bit 8 (q :: u64)" "drop_bit 13 x = drop_bit 13 q"
proof -
  define r where "r = unat x - unat q"
  have x: "unat x = unat q + r" "r < 2 ^ k" using assms(3,4) by (auto simp: r_def word_le_nat_alt)
  have "unat x div 2 ^ k = unat q div 2 ^ k" using x assms(1) by (auto elim!: dvdE simp: mod_eq_0_iff_dvd)
  moreover have "y div 2 ^ n = y div 2 ^ k div 2 ^ (n - k)" if "3 \<le> n" for n and y :: nat
    using that assms(2) by (simp add: div_mult2_eq [symmetric] power_add [symmetric])
  ultimately have "unat x div 2 ^ n = unat q div 2 ^ n" if "3 \<le> n" for n using that by metis
  from this [of 8] this [of 13] show "drop_bit 8 x = drop_bit 8 q" "drop_bit 13 x = drop_bit 13 q"
    unfolding word_unat_eq_iff unat_drop by simp_all
qed

lemma aligned_note_write:
  assumes "unat q mod 2 ^ k = 0" "k \<le> 3" "q \<le> x" "unat x < unat q + 2 ^ k" "holds_code m x" "holds_code_line m x"
  shows "note_write m q = m\<lparr>m_gen := m_gen m + 1\<rparr>"
  using aligned_same_line [OF assms(1-4)] assms(5,6) by (simp add: note_write_def holds_code_def holds_code_line_def Let_def)

lemma history_size:
  fixes d xs
  defines "m \<equiv> foldl code_step (code_map_init d) xs"
  shows "m_ready m" "m_pages m = drop_bit 13 d" "m_lines m = drop_bit 8 d"
  using code_history_knows [of "code_map_init d" xs] by (simp_all add: m_def knows_more_def code_map_init_def)

text \<open>
  C11. A write over compiled code is never missed: once a block has been compiled from the \<open>n\<close> bytes at
  \<open>p\<close> (inside memory), then after any further compilations and writes a device write of \<open>k\<close> bytes
  at \<open>q\<close> that overlaps the block moves the write counter, and so does an aligned processor store of
  1, 2, 4 or 8 bytes.
\<close>

theorem code_write_counted:
  assumes m: "m = foldl code_step (code_map_init d) (xs @ Code p n # ys)"
    and block: "n \<noteq> 0" "p \<le> p + (n - 1)" "drop_bit 13 (p + (n - 1)) < drop_bit 13 d"
    and wr: "k \<noteq> 0" "q \<le> q + (k - 1)" and overlap: "q \<le> p + (n - 1)" "p \<le> q + (k - 1)"
  shows "m_gen (note_write_range m q k) = m_gen m + 1 \<and>
    (k = 2 ^ j \<and> j \<le> 3 \<and> unat q mod 2 ^ j = 0 \<longrightarrow> m_gen (note_write m q) = m_gen m + 1)"
proof (intro conjI impI)
  let ?m0 = "foldl code_step (code_map_init d) xs"
  define x where "x = (if p \<le> q then q else p)"
  have x: "p \<le> x" "x \<le> p + (n - 1)" "q \<le> x" "x \<le> q + (k - 1)"
    using block wr overlap by (auto simp: x_def)
  have "knows_more (note_code ?m0 p n) m" using code_history_knows [of "note_code ?m0 p n" ys] m by simp
  then have h: "holds_code m x" "holds_code_line m x"
    using note_code_holds [OF history_size block(1,3) x(1,2)] by blast+
  have "m_ready m" unfolding m by (rule history_size)
  then show "m_gen (note_write_range m q k) = m_gen m + 1"
    using note_write_range_iff [OF _ wr, of m] x(3,4) h by auto
  assume "k = 2 ^ j \<and> j \<le> 3 \<and> unat q mod 2 ^ j = 0"
  then have k: "k = 2 ^ j" "j \<le> 3" "unat q mod 2 ^ j = 0" by simp_all
  have "unat (q + (k - 1)) \<le> unat q + unat (k - 1)" by (simp add: unat_word_ariths mod_less_eq_dividend)
  moreover have "j = 0 \<or> j = 1 \<or> j = 2 \<or> j = 3" using k(2) by linarith
  then have "unat (k - 1) < 2 ^ j" using k(1) by (elim disjE) simp_all
  ultimately have "unat x < unat q + 2 ^ j" using x(4) by (simp add: word_le_nat_alt)
  then show "m_gen (note_write m q) = m_gen m + 1" using aligned_note_write [OF k(3,2) x(3) _ h] by simp
qed

definition example_map :: code_map where
  "example_map = foldl code_step (code_map_init 0x10000)
     ([Write 0] @ Code 0x2010 0x20 # [Write_range 0x2000 16, Code 0x100 4])"

theorem code_write_counted_witness:
  "m_gen (note_write_range example_map 0x2028 8) = m_gen example_map + 1 \<and>
   m_gen (note_write example_map 0x2028) = m_gen example_map + 1"
  using code_write_counted [OF example_map_def, of 8 "0x2028" 3] by simp

text \<open>Only the line of the first byte is tested: an unaligned store that runs over into a compiled line
  is not counted, although the interpreter carries it out when it stays on one page.\<close>

lemma unaligned_store_not_counted:
  "m_gen (note_write (note_code (code_map_init 0x10000) 0x2100 4) 0x20fc) =
   m_gen (note_code (code_map_init 0x10000) 0x2100 4)"
  by code_simp

end
