(* ===== verification/Llsc.thy ===== *)
theory Llsc
  imports Code_Pages
begin

text \<open>
  Load-locked and store-conditional between processors and DMA, \<^verbatim>\<open>src/src/system/System.cpp\<close>: the
  locks (\<open>cpu_lock\<close>, \<open>cpu_take_lock\<close>, \<open>cpu_stx_c\<close>, \<open>cpu_clear_lock\<close>), the per-line sequence numbers
  that guard the value comparison against ABA, the invalidation by device writes
  (\<open>cpu_clear_external_locks\<close>, \<open>CPCIDMAWriteGuard\<close>) and the watches of LDx_ARM and QUIESCE.

  Processors run at the same time, so the instructions are cut where another one can come between. An
  LDx_L reads memory in one step and takes its lock, with the snapshot of the line's sequence number,
  in another: it does not hold the bucket lock \<open>m_ll_lock\<close>. A successful STx_C stores in one step, with
  the bucket lock taken, and adds to the sequence number, releases the lock and notifies the watches in
  another; an STx_C that finds the bucket locked waits. What \<open>cpu_take_lock\<close> reads belongs to the
  processor itself, or is changed only by a device write, which the gate of \<^verbatim>\<open>Llsc_Gate\<close> keeps out, so
  it is part of the store's step. An ordinary store and its report (\<open>note_dram_write\<close>) are one step, and
  so is a device write. A store outside memory is recorded, not carried out; what a load there reads is
  given with the operation.
\<close>

section \<open>State\<close>

datatype watch_wake = WATCH_STORE | WATCH_STC | WATCH_DMA

record llsc =
  cpu_lock_flags :: u32
  cpu_lock_address :: "nat \<Rightarrow> u64"
  cpu_lock_value :: "nat \<Rightarrow> u64"
  ll_seq :: "nat \<Rightarrow> u32"
  ll_seq_snap :: "nat \<Rightarrow> u32"
  ll_held :: "nat \<Rightarrow> (nat \<times> u64) option"
  ll_dest :: "nat \<Rightarrow> u64"
  dram :: "u64 \<Rightarrow> u8"
  dram_sz :: u64
  phys_mask :: u64
  num_cpus :: nat
  watch_machine :: bool
  watch_flags :: u32
  watch_address :: "nat \<Rightarrow> u64"
  watch_pages :: u64
  watch_page_bits :: "nat \<Rightarrow> u8"
  watch_mark_gen :: u64
  dpc_flush_requests :: "nat list"
  woken :: "(nat \<times> watch_wake) list"
  code_pages :: code_map
  nopflush_break :: "nat \<Rightarrow> bool"
  io_stores :: "(u64 \<times> u64) list"

text \<open>\<open>ll_held\<close> is \<open>m_ll_lock\<close>, with the processor that has a bucket locked and the address it stored to
  (its local variables); \<open>ll_dest\<close> is the register an LDx_L has loaded and not yet locked;
  \<open>nopflush_break\<close> is the test hook that silences a processor's reports to the code map.\<close>

abbreviation (input) CPU_LOCK_IO_MASK :: u64 where "CPU_LOCK_IO_MASK \<equiv> 0x0000080000000000"

definition bucket :: "u64 \<Rightarrow> nat" where
  "bucket a = unat (drop_bit 6 a AND 0xffff)"

definition line_of :: "llsc \<Rightarrow> u64 \<Rightarrow> u64" where
  "line_of s a = a AND phys_mask s AND NOT 63"

definition cpu_lock_matches :: "llsc \<Rightarrow> u64 \<Rightarrow> u64 \<Rightarrow> bool" where
  "cpu_lock_matches s locked a \<longleftrightarrow> (locked XOR a) AND phys_mask s AND NOT 63 = 0"

text \<open>Little-endian memory: the bytes from \<open>a\<close> as one value, and a store of \<open>n\<close> bytes.\<close>

fun dram_bytes :: "(u64 \<Rightarrow> u8) \<Rightarrow> u64 \<Rightarrow> nat \<Rightarrow> u64" where
  "dram_bytes m a 0 = 0"
| "dram_bytes m a (Suc n) = ucast (m a) OR push_bit 8 (dram_bytes m (a + 1) n)"

fun store_bytes :: "(u64 \<Rightarrow> u8) \<Rightarrow> u64 \<Rightarrow> nat \<Rightarrow> u64 \<Rightarrow> (u64 \<Rightarrow> u8)" where
  "store_bytes m a 0 v = m"
| "store_bytes m a (Suc n) v = store_bytes (m(a := ucast v)) (a + 1) n (drop_bit 8 v)"

definition trunc :: "nat \<Rightarrow> u64 \<Rightarrow> u64" where
  "trunc sz v = (if sz = 32 then v AND 0xffffffff else v)"

definition nbytes :: "nat \<Rightarrow> nat" where
  "nbytes sz = (if sz = 8 then 1 else if sz = 16 then 2 else if sz = 32 then 4 else 8)"

definition dram_cas :: "llsc \<Rightarrow> u64 \<Rightarrow> u64 \<Rightarrow> u64 \<Rightarrow> nat \<Rightarrow> llsc \<times> bool" where
  "dram_cas s phys expected desired sz =
     (let n = (if sz = 32 then 4 else 8)
      in if dram_bytes (dram s) phys n = trunc sz expected
         then (s\<lparr>dram := store_bytes (dram s) phys n desired\<rparr>, True) else (s, False))"

section \<open>Watches\<close>

definition cpu_watch_armed :: "llsc \<Rightarrow> nat \<Rightarrow> bool" where
  "cpu_watch_armed s i \<longleftrightarrow> watch_flags s AND mask1 i \<noteq> 0"

definition cpu_clear_watch :: "llsc \<Rightarrow> nat \<Rightarrow> llsc" where
  "cpu_clear_watch s i =
     (if watch_flags s AND mask1 i \<noteq> 0 then s\<lparr>watch_flags := watch_flags s AND NOT (mask1 i)\<rparr> else s)"

definition watch_page :: "llsc \<Rightarrow> u64 \<Rightarrow> bool" where
  "watch_page s phys = (let pg = drop_bit 13 phys in pg < watch_pages s \<and> bit_get (watch_page_bits s) pg)"

definition cpu_watch_mark_page :: "llsc \<Rightarrow> u64 \<Rightarrow> llsc" where
  "cpu_watch_mark_page s phys =
     (let pg = drop_bit 13 phys in
      if pg \<ge> watch_pages s \<or> bit_get (watch_page_bits s) pg then s
      else s\<lparr>watch_page_bits := bit_put (watch_page_bits s) pg, watch_mark_gen := watch_mark_gen s + 1,
             dpc_flush_requests := dpc_flush_requests s @ [0..<num_cpus s]\<rparr>)"

definition cpu_arm_watch :: "llsc \<Rightarrow> nat \<Rightarrow> u64 \<Rightarrow> bool \<Rightarrow> llsc" where
  "cpu_arm_watch s i a compare =
     (let s = (if compare then cpu_watch_mark_page s a else s)
      in s\<lparr>watch_address := (watch_address s)(i := if compare then a else NOT 0),
           watch_flags := watch_flags s OR mask1 i\<rparr>)"

text \<open>One turn of the loop of \<open>cpu_watch_hit\<close>; the loop's own copy of the mask only ends it early.\<close>

definition watch_hit_one :: "u64 \<Rightarrow> u64 \<Rightarrow> u32 \<Rightarrow> watch_wake \<Rightarrow> llsc \<Rightarrow> nat \<Rightarrow> llsc" where
  "watch_hit_one first lst msk why s i =
     (let line = line_of s (watch_address s i) in
      if msk AND mask1 i = 0 \<or> line < first \<or> line > lst then s
      else let s' = s\<lparr>watch_flags := watch_flags s AND NOT (mask1 i)\<rparr>
           in if watch_flags s AND mask1 i \<noteq> 0 then s'\<lparr>woken := woken s @ [(i, why)]\<rparr> else s')"

definition cpu_watch_hit :: "llsc \<Rightarrow> u64 \<Rightarrow> u64 \<Rightarrow> u32 \<Rightarrow> watch_wake \<Rightarrow> llsc" where
  "cpu_watch_hit s phys bytes msk why =
     (let first = phys AND phys_mask s AND NOT 63;
          lst = ((phys AND phys_mask s) + bytes - 1) AND NOT 63
      in foldl (watch_hit_one first lst msk why) s [0..<num_cpus s])"

definition cpu_note_store_watch :: "llsc \<Rightarrow> nat \<Rightarrow> u64 \<Rightarrow> bool \<Rightarrow> llsc" where
  "cpu_note_store_watch s by_cpu phys stc =
     (if \<not> watch_machine s then s
      else let others = watch_flags s AND NOT (mask1 by_cpu)
           in if others \<noteq> 0 then cpu_watch_hit s phys 1 others (if stc then WATCH_STC else WATCH_STORE) else s)"

section \<open>Locks\<close>

definition cpu_lock :: "llsc \<Rightarrow> nat \<Rightarrow> u64 \<Rightarrow> u64 \<Rightarrow> llsc" where
  "cpu_lock s i a v =
     s\<lparr>cpu_lock_address := (cpu_lock_address s)(i := a), cpu_lock_value := (cpu_lock_value s)(i := v),
       ll_seq_snap := (ll_seq_snap s)(i := ll_seq s (bucket a)),
       cpu_lock_flags := cpu_lock_flags s OR mask1 i\<rparr>"

definition cpu_clear_lock :: "llsc \<Rightarrow> nat \<Rightarrow> llsc" where
  "cpu_clear_lock s i = cpu_clear_watch (s\<lparr>cpu_lock_flags := cpu_lock_flags s AND NOT (mask1 i)\<rparr>) i"

text \<open>The lock is consumed; the answer is the expected value and whether the address is the same.\<close>

definition cpu_take_lock :: "llsc \<Rightarrow> nat \<Rightarrow> u64 \<Rightarrow> bool \<Rightarrow> llsc \<times> (u64 \<times> bool) option" where
  "cpu_take_lock s i a intervened =
     (let held = (a AND CPU_LOCK_IO_MASK \<noteq> 0 \<or>
                  (\<not> intervened \<and> cpu_lock_flags s AND mask1 i \<noteq> 0 \<and>
                   cpu_lock_matches s (cpu_lock_address s i) a));
          s' = s\<lparr>cpu_lock_flags := cpu_lock_flags s AND NOT (mask1 i)\<rparr>
      in (s', if held then Some (cpu_lock_value s i, cpu_lock_address s i = a) else None))"

definition code_written :: "llsc \<Rightarrow> u64 \<Rightarrow> llsc" where
  "code_written s phys = s\<lparr>code_pages := note_write (code_pages s) phys\<rparr>"

text \<open>\<open>cpu_stx_c\<close> up to its store, and what follows a successful one. Between the two the bucket is locked;
  an STx_C of another processor spins there, which \<open>stx_c_spins\<close> tells.\<close>

definition stx_c_spins :: "llsc \<Rightarrow> u64 \<Rightarrow> bool" where
  "stx_c_spins s phys \<longleftrightarrow> phys < dram_sz s \<and> ll_held s (bucket phys) \<noteq> None"

definition stx_c_store :: "llsc \<Rightarrow> nat \<Rightarrow> u64 \<Rightarrow> nat \<Rightarrow> u64 \<Rightarrow> bool \<Rightarrow> llsc \<times> bool" where
  "stx_c_store s i phys sz v intervened =
     (case cpu_take_lock s i phys intervened of
        (s, None) \<Rightarrow> (s, False)
      | (s, Some (expected, same_address)) \<Rightarrow>
          if phys \<ge> dram_sz s then (s\<lparr>io_stores := io_stores s @ [(phys, v)]\<rparr>, True)
          else let b = bucket phys; t = s\<lparr>ll_held := (ll_held s)(b := Some (i, phys))\<rparr>
               in if ll_seq s b \<noteq> ll_seq_snap s i then (s, False)
                  else if same_address
                  then case dram_cas t phys expected v sz of
                         (t, ok) \<Rightarrow> if ok then (code_written t phys, True) else (s, False)
                  else (code_written (t\<lparr>dram := store_bytes (dram s) phys (nbytes sz) v\<rparr>) phys, True))"

definition stx_c_finish :: "llsc \<Rightarrow> nat \<Rightarrow> u64 \<Rightarrow> llsc" where
  "stx_c_finish s i phys =
     (let b = bucket phys;
          s = s\<lparr>ll_seq := (ll_seq s)(b := ll_seq s b + 1)\<rparr>;
          s = s\<lparr>ll_held := (ll_held s)(b := None)\<rparr>
      in cpu_note_store_watch s i phys True)"

definition cpu_stx_c :: "llsc \<Rightarrow> nat \<Rightarrow> u64 \<Rightarrow> nat \<Rightarrow> u64 \<Rightarrow> bool \<Rightarrow> llsc \<times> bool" where
  "cpu_stx_c s i phys sz v intervened =
     (case stx_c_store s i phys sz v intervened of
        (s, ok) \<Rightarrow> (if ok \<and> phys < dram_sz s then stx_c_finish s i phys else s, ok))"

definition locked_in_range :: "llsc \<Rightarrow> u64 \<Rightarrow> nat \<Rightarrow> nat \<Rightarrow> bool" where
  "locked_in_range s a bytes i \<longleftrightarrow>
     a AND phys_mask s AND NOT 63 \<le> line_of s (cpu_lock_address s i) \<and>
     line_of s (cpu_lock_address s i) \<le> ((a AND phys_mask s) + of_nat bytes - 1) AND NOT 63"

definition cpu_clear_external_locks :: "llsc \<Rightarrow> u64 \<Rightarrow> nat \<Rightarrow> llsc" where
  "cpu_clear_external_locks s a bytes =
     (if bytes = 0 then s
      else let clear_mask = foldl (\<lambda>m i. if cpu_lock_flags s AND mask1 i \<noteq> 0 \<and> locked_in_range s a bytes i
                                         then m OR mask1 i else m) 0 [0..<num_cpus s];
               s = s\<lparr>cpu_lock_flags := cpu_lock_flags s AND NOT clear_mask\<rparr>
           in if watch_machine s \<and> watch_flags s \<noteq> 0 then cpu_watch_hit s a (of_nat bytes) (watch_flags s) WATCH_DMA else s)"

text \<open>\<open>CPCIDMAWriteGuard\<close> around a transfer: the probe and the code map before it, the code map again
  after it when the transfer landed on compiled code.\<close>

definition dma_invalidate :: "llsc \<Rightarrow> u64 \<Rightarrow> nat \<Rightarrow> llsc \<times> bool" where
  "dma_invalidate s a bytes =
     (let s = cpu_clear_external_locks s a bytes; before = m_gen (code_pages s);
          s = s\<lparr>code_pages := note_write_range (code_pages s) a (of_nat bytes)\<rparr>
      in (s, m_gen (code_pages s) \<noteq> before))"

fun dma_bytes :: "(u64 \<Rightarrow> u8) \<Rightarrow> u64 \<Rightarrow> u8 list \<Rightarrow> (u64 \<Rightarrow> u8)" where
  "dma_bytes m a [] = m"
| "dma_bytes m a (x # xs) = dma_bytes (m(a := x)) (a + 1) xs"

definition dma_write :: "llsc \<Rightarrow> u64 \<Rightarrow> u8 list \<Rightarrow> llsc" where
  "dma_write s a bs =
     (let (s, touched_code) = dma_invalidate s a (length bs);
          s = s\<lparr>dram := dma_bytes (dram s) a bs\<rparr>
      in if touched_code then s\<lparr>code_pages := note_write_all (code_pages s)\<rparr> else s)"

section \<open>The instructions\<close>

text \<open>LDL_L and LDQ_L after translation (\<open>READ_VIRT_LOCK_F\<close>, \<open>READ_VIRT_LOCK\<close>): the read, then the lock.\<close>

definition ld_l_read :: "llsc \<Rightarrow> nat \<Rightarrow> u64 \<Rightarrow> nat \<Rightarrow> u64 \<Rightarrow> llsc" where
  "ld_l_read s i a sz io =
     (let w = (if a < dram_sz s then dram_bytes (dram s) a (nbytes sz) else io)
      in s\<lparr>ll_dest := (ll_dest s)(i := if sz = 32 then scast (ucast w :: u32) else w)\<rparr>)"

definition ld_l_lock :: "llsc \<Rightarrow> nat \<Rightarrow> u64 \<Rightarrow> llsc" where
  "ld_l_lock s i a = cpu_lock s i a (ll_dest s i)"

text \<open>An ordinary store (\<open>WRITE_PHYS\<close>).\<close>

definition note_dram_write :: "llsc \<Rightarrow> nat \<Rightarrow> u64 \<Rightarrow> llsc" where
  "note_dram_write s i phys =
     (let s = (if \<not> nopflush_break s i then code_written s phys else s)
      in cpu_note_store_watch s i phys False)"

definition store_phys :: "llsc \<Rightarrow> nat \<Rightarrow> u64 \<Rightarrow> nat \<Rightarrow> u64 \<Rightarrow> llsc" where
  "store_phys s i a sz v =
     (if a < dram_sz s then note_dram_write (s\<lparr>dram := store_bytes (dram s) a (nbytes sz) v\<rparr>) i a
      else s\<lparr>io_stores := io_stores s @ [(a, v)]\<rparr>)"

text \<open>What happens to memory, one step at a time: the two halves of a load-locked and of a conditional
  store, an ordinary store, an exception or interrupt of a processor, the arming of a watch, and a device
  write. A half that has to wait for a bucket, and a second half without its first, change nothing.\<close>

datatype ll_op = Ld_l_read nat u64 nat u64 | Ld_l_lock nat u64 | St_c nat u64 nat u64 bool | St_c_end nat u64 nat
  | Store nat u64 nat u64 | Trap nat | Arm nat u64 bool | Dma u64 "u8 list"

fun ll_step :: "llsc \<Rightarrow> ll_op \<Rightarrow> llsc" where
  "ll_step s (Ld_l_read i a sz io) = ld_l_read s i a sz io"
| "ll_step s (Ld_l_lock i a) = ld_l_lock s i a"
| "ll_step s (St_c i a sz v intervened) = (if stx_c_spins s a then s else fst (stx_c_store s i a sz v intervened))"
| "ll_step s (St_c_end i a sz) = (if ll_held s (bucket a) = Some (i, a) then stx_c_finish s i a else s)"
| "ll_step s (Store i a sz v) = store_phys s i a sz v"
| "ll_step s (Trap i) = cpu_clear_lock s i"
| "ll_step s (Arm i a compare) = cpu_arm_watch s i a compare"
| "ll_step s (Dma a bs) = dma_write s a bs"

section \<open>A store-conditional that succeeds was not interfered with\<close>

definition holds :: "llsc \<Rightarrow> nat \<Rightarrow> bool" where
  "holds s i \<longleftrightarrow> cpu_lock_flags s AND mask1 i \<noteq> 0"

lemma mask1_flags:
  "(f OR mask1 i) AND mask1 j \<noteq> 0 \<longleftrightarrow> f AND mask1 j \<noteq> 0 \<or> (i = j \<and> i < 32)"
  "(f AND NOT (mask1 i)) AND mask1 j \<noteq> 0 \<longleftrightarrow> f AND mask1 j \<noteq> 0 \<and> i \<noteq> j" for f :: u32
  by (auto simp: and_mask1_eq_0 bit_set_mask1 bit_clear_mask1)

text \<open>The watches do not touch the locks or the memory.\<close>

definition same_locks :: "llsc \<Rightarrow> llsc \<Rightarrow> bool" where
  "same_locks s t \<longleftrightarrow> cpu_lock_flags t = cpu_lock_flags s \<and> cpu_lock_address t = cpu_lock_address s \<and>
     cpu_lock_value t = cpu_lock_value s \<and> ll_seq t = ll_seq s \<and> ll_seq_snap t = ll_seq_snap s \<and>
     dram t = dram s \<and> dram_sz t = dram_sz s \<and> phys_mask t = phys_mask s \<and> num_cpus t = num_cpus s \<and>
     code_pages t = code_pages s \<and> ll_held t = ll_held s \<and> ll_dest t = ll_dest s"

lemma same_locks_trans: "same_locks s t \<Longrightarrow> same_locks t u \<Longrightarrow> same_locks s u"
  by (simp add: same_locks_def)

lemma same_locks_fold: "same_locks s t \<Longrightarrow> same_locks s (foldl (watch_hit_one f l m w) t is)"
proof (induction "is" arbitrary: t)
  case (Cons i "is")
  have "same_locks t (watch_hit_one f l m w t i)"
    by (simp add: watch_hit_one_def same_locks_def Let_def)
  then show ?case using Cons same_locks_trans by fastforce
qed simp

lemma same_locks_watch:
  "same_locks s (cpu_watch_hit s a n m w)" "same_locks s (cpu_note_store_watch s j a stc)"
  "same_locks s (cpu_clear_watch s i)" "same_locks s (cpu_arm_watch s i a c)"
proof -
  show h: "same_locks s (cpu_watch_hit s a n m w)" for n m w
    unfolding cpu_watch_hit_def Let_def by (rule same_locks_fold) (simp add: same_locks_def)
  show "same_locks s (cpu_note_store_watch s j a stc)"
    using h by (simp add: cpu_note_store_watch_def Let_def same_locks_def)
qed (simp_all add: same_locks_def cpu_clear_watch_def cpu_arm_watch_def cpu_watch_mark_page_def Let_def)

lemma same_locksD:
  assumes "same_locks s t"
  shows "cpu_lock_flags t = cpu_lock_flags s" "cpu_lock_address t = cpu_lock_address s"
    "cpu_lock_value t = cpu_lock_value s" "ll_seq t = ll_seq s" "ll_seq_snap t = ll_seq_snap s"
    "dram t = dram s" "dram_sz t = dram_sz s" "phys_mask t = phys_mask s" "num_cpus t = num_cpus s"
    "code_pages t = code_pages s" "ll_held t = ll_held s" "ll_dest t = ll_dest s"
  using assms by (simp_all add: same_locks_def)

lemmas watch_frame [simp] =
  same_locksD [OF same_locks_watch(1)] same_locksD [OF same_locks_watch(2)]
  same_locksD [OF same_locks_watch(3)] same_locksD [OF same_locks_watch(4)]

text \<open>What another agent, or processor \<open>i\<close> itself, must not have done between its lock of
  address \<open>a\<close> and a successful store-conditional: a successful conditional store to memory in the
  same line bucket, a device write that touches the line, a trap of \<open>i\<close>, any conditional store
  of \<open>i\<close>. An ordinary store of another processor is not among them: it is seen only through the
  comparison of the loaded value.\<close>

fun breaks :: "nat \<Rightarrow> u64 \<Rightarrow> llsc \<Rightarrow> ll_op \<Rightarrow> bool" where
  "breaks i a s (St_c j b n v iv) = (\<not> stx_c_spins s b \<and>
     (j = i \<or> (snd (stx_c_store s j b n v iv) \<and> b < dram_sz s \<and> bucket b = bucket a)))"
| "breaks i a s (Trap j) = (j = i)"
| "breaks i a s (Dma b bs) = (bs \<noteq> [] \<and> locked_in_range (s\<lparr>cpu_lock_address := (cpu_lock_address s)(i := a)\<rparr>) b (length bs) i)"
| "breaks i a s _ = False"

text \<open>A step for which \<open>P\<close> holds occurs in the history \<open>xs\<close> from \<open>s\<close>.\<close>

fun happens :: "(llsc \<Rightarrow> ll_op \<Rightarrow> bool) \<Rightarrow> llsc \<Rightarrow> ll_op list \<Rightarrow> bool" where
  "happens P s [] = False"
| "happens P s (x # xs) = (P s x \<or> happens P (ll_step s x) xs)"

text \<open>The shape of a conditional store: which fields it can change, and when it succeeds.\<close>

lemma take_lock_eq:
  "cpu_take_lock s i a iv = (s\<lparr>cpu_lock_flags := cpu_lock_flags s AND NOT (mask1 i)\<rparr>,
     if a AND CPU_LOCK_IO_MASK \<noteq> 0 \<or> (\<not> iv \<and> holds s i \<and> cpu_lock_matches s (cpu_lock_address s i) a)
     then Some (cpu_lock_value s i, cpu_lock_address s i = a) else None)"
  by (simp add: cpu_take_lock_def holds_def Let_def)

lemma code_written_frame [simp]:
  "cpu_lock_flags (code_written s p) = cpu_lock_flags s" "cpu_lock_address (code_written s p) = cpu_lock_address s"
  "cpu_lock_value (code_written s p) = cpu_lock_value s" "ll_seq (code_written s p) = ll_seq s"
  "ll_seq_snap (code_written s p) = ll_seq_snap s" "dram (code_written s p) = dram s"
  "dram_sz (code_written s p) = dram_sz s" "phys_mask (code_written s p) = phys_mask s"
  "num_cpus (code_written s p) = num_cpus s" "ll_held (code_written s p) = ll_held s"
  "ll_dest (code_written s p) = ll_dest s"
  by (simp_all add: code_written_def)

lemma stx_c_form:
  fixes s :: llsc and i p n v iv
  defines "t \<equiv> s\<lparr>cpu_lock_flags := cpu_lock_flags s AND NOT (mask1 i)\<rparr>"
    and "w \<equiv> if n = 32 then 4 else 8"
    and "held \<equiv> p AND CPU_LOCK_IO_MASK \<noteq> 0 \<or> (\<not> iv \<and> holds s i \<and> cpu_lock_matches s (cpu_lock_address s i) p)"
    and "same \<equiv> cpu_lock_address s i = p"
  shows "stx_c_store s i p n v iv =
    (if \<not> held then (t, False)
     else if p \<ge> dram_sz s then (t\<lparr>io_stores := io_stores s @ [(p, v)]\<rparr>, True)
     else if ll_seq s (bucket p) \<noteq> ll_seq_snap s i \<or> same \<and> dram_bytes (dram s) p w \<noteq> trunc n (cpu_lock_value s i)
     then (t, False)
     else (code_written (t\<lparr>ll_held := (ll_held s)(bucket p := Some (i, p)),
             dram := store_bytes (dram s) p (if same then w else nbytes n) v\<rparr>) p, True))"
  unfolding t_def w_def same_def held_def
  by (simp add: stx_c_store_def take_lock_eq dram_cas_def Let_def)

lemma stx_c_cases:
  fixes s :: llsc and i p n v iv
  defines "r \<equiv> stx_c_store s i p n v iv" and "t \<equiv> s\<lparr>cpu_lock_flags := cpu_lock_flags s AND NOT (mask1 i)\<rparr>"
  obtains (fails) "r = (t, False)"
    | (io) q where "dram_sz s \<le> p" "r = (t\<lparr>io_stores := q\<rparr>, True)"
    | (mem) m where "p < dram_sz s"
        "r = (code_written (t\<lparr>ll_held := (ll_held s)(bucket p := Some (i, p)), dram := m\<rparr>) p, True)"
proof -
  have "\<exists>h c q m. r = (if \<not> h then (t, False) else if dram_sz s \<le> p then (t\<lparr>io_stores := q\<rparr>, True)
      else if c then (t, False)
      else (code_written (t\<lparr>ll_held := (ll_held s)(bucket p := Some (i, p)), dram := m\<rparr>) p, True))"
    unfolding r_def t_def by (intro exI) (rule stx_c_form)
  then show thesis using fails io mem by (metis not_le)
qed

lemma stx_c_fields:
  fixes s :: llsc and i p n v iv
  defines "r \<equiv> stx_c_store s i p n v iv"
  shows "cpu_lock_flags (fst r) = cpu_lock_flags s AND NOT (mask1 i)" "cpu_lock_address (fst r) = cpu_lock_address s"
    "cpu_lock_value (fst r) = cpu_lock_value s" "ll_seq_snap (fst r) = ll_seq_snap s" "dram_sz (fst r) = dram_sz s"
    "phys_mask (fst r) = phys_mask s" "num_cpus (fst r) = num_cpus s" "ll_seq (fst r) = ll_seq s"
    "ll_dest (fst r) = ll_dest s"
    "ll_held (fst r) = (if snd r \<and> p < dram_sz s then (ll_held s)(bucket p := Some (i, p)) else ll_held s)"
  by (cases rule: stx_c_cases [of s i p n v iv]; simp add: r_def leD)+

lemma stx_c_finish_fields [simp]:
  "cpu_lock_flags (stx_c_finish s i p) = cpu_lock_flags s" "cpu_lock_address (stx_c_finish s i p) = cpu_lock_address s"
  "cpu_lock_value (stx_c_finish s i p) = cpu_lock_value s" "ll_seq_snap (stx_c_finish s i p) = ll_seq_snap s"
  "dram (stx_c_finish s i p) = dram s" "dram_sz (stx_c_finish s i p) = dram_sz s"
  "phys_mask (stx_c_finish s i p) = phys_mask s" "num_cpus (stx_c_finish s i p) = num_cpus s"
  "ll_dest (stx_c_finish s i p) = ll_dest s"
  "ll_seq (stx_c_finish s i p) = (ll_seq s)(bucket p := ll_seq s (bucket p) + 1)"
  "ll_held (stx_c_finish s i p) = (ll_held s)(bucket p := None)"
  by (simp_all add: stx_c_finish_def Let_def)

lemma clear_external_fields:
  fixes s :: llsc and b n
  defines "t \<equiv> cpu_clear_external_locks s b n"
  shows "cpu_lock_address t = cpu_lock_address s" "cpu_lock_value t = cpu_lock_value s"
    "ll_seq_snap t = ll_seq_snap s" "dram_sz t = dram_sz s" "phys_mask t = phys_mask s" "num_cpus t = num_cpus s"
    "ll_seq t = ll_seq s" "ll_held t = ll_held s" "ll_dest t = ll_dest s"
  unfolding t_def by (simp_all add: cpu_clear_external_locks_def Let_def)

lemma dma_write_fields:
  fixes s :: llsc and b bs
  defines "t \<equiv> dma_write s b bs" and "u \<equiv> cpu_clear_external_locks s b (length bs)"
  shows "cpu_lock_flags t = cpu_lock_flags u" "cpu_lock_address t = cpu_lock_address s"
    "cpu_lock_value t = cpu_lock_value s" "ll_seq_snap t = ll_seq_snap s" "dram_sz t = dram_sz s"
    "phys_mask t = phys_mask s" "num_cpus t = num_cpus s" "ll_seq t = ll_seq s"
    "watch_flags t = watch_flags u" "watch_address t = watch_address u" "watch_machine t = watch_machine u"
    "woken t = woken u" "ll_held t = ll_held s" "ll_dest t = ll_dest s"
  unfolding t_def u_def by (simp_all add: dma_write_def dma_invalidate_def Let_def clear_external_fields)

lemma mask_fold:
  "bit (foldl (\<lambda>m i. if P i then m OR mask1 i else m) m xs :: u32) j \<longleftrightarrow> bit m j \<or> (j \<in> set xs \<and> P j \<and> j < 32)"
  by (induction xs arbitrary: m) (auto simp: bit_set_mask1)

lemma clear_external_holds:
  assumes "i < num_cpus s" "i < 32"
  shows "holds (cpu_clear_external_locks s b n) i \<longleftrightarrow> holds s i \<and> \<not> (n \<noteq> 0 \<and> locked_in_range s b n i)"
  using assms
  by (auto simp: holds_def cpu_clear_external_locks_def Let_def and_mask1_eq_0 bit_clear_mask mask_fold)

section \<open>Following one load-locked\<close>

text \<open>Since processor \<open>i\<close> locked \<open>a\<close> with the value \<open>v\<close> at sequence number \<open>q\<close>, the sequence number of the
  line's bucket was moved \<open>n\<close> times.\<close>

definition tracked :: "nat \<Rightarrow> u64 \<Rightarrow> u64 \<Rightarrow> u32 \<Rightarrow> nat \<Rightarrow> llsc \<Rightarrow> bool" where
  "tracked i a v q n s \<longleftrightarrow> cpu_lock_address s i = a \<and> cpu_lock_value s i = v \<and> ll_seq_snap s i = q \<and>
     ll_seq s (bucket a) = q + of_nat n \<and> i < num_cpus s"

text \<open>A conditional store of \<open>i\<close> that finds the bucket free will see that the lock of \<open>a\<close> is lost: the number
  has moved, the lock is gone, or another store holds the bucket and will move the number before it lets
  go.\<close>

definition lost :: "nat \<Rightarrow> u64 \<Rightarrow> nat \<Rightarrow> llsc \<Rightarrow> bool" where
  "lost i a n s \<longleftrightarrow> 0 < n \<or> \<not> holds s i \<or> ll_held s (bucket a) \<noteq> None"

lemma tracked_step:
  assumes "tracked i a v q n s" "i < 32" "\<And>b. x \<noteq> Ld_l_lock i b"
  shows "\<exists>n'. tracked i a v q n' (ll_step s x) \<and> n' \<le> Suc n \<and>
    (breaks i a s x \<or> lost i a n s \<longrightarrow> lost i a n' (ll_step s x)) \<and>
    dram_sz (ll_step s x) = dram_sz s \<and> phys_mask (ll_step s x) = phys_mask s"
proof (cases x)
  case (Ld_l_read j b m io)
  then show ?thesis
    using assms by (intro exI [of _ n]) (auto simp: tracked_def ld_l_read_def Let_def holds_def lost_def)
next
  case (Ld_l_lock j b)
  then have "j \<noteq> i" using assms(3) by auto
  then show ?thesis
    using assms Ld_l_lock
    by (intro exI [of _ n]) (auto simp: tracked_def ld_l_lock_def cpu_lock_def Let_def holds_def mask1_flags lost_def)
next
  case (St_c j b m w iv)
  then show ?thesis
    using assms by (intro exI [of _ n])
      (auto simp: tracked_def stx_c_fields lost_def holds_def mask1_flags)
next
  case (St_c_end j b m)
  show ?thesis
  proof (cases "ll_held s (bucket b) = Some (j, b)")
    case True
    with St_c_end show ?thesis
      using assms by (intro exI [of _ "if bucket b = bucket a then Suc n else n"])
        (auto simp: tracked_def lost_def holds_def add.assoc)
  next
    case False
    with St_c_end show ?thesis using assms by (intro exI [of _ n]) auto
  qed
next
  case (Store j b m w)
  then show ?thesis using assms
    by (intro exI [of _ n]) (simp add: tracked_def holds_def store_phys_def note_dram_write_def Let_def lost_def)
next
  case (Arm j b c)
  then show ?thesis using assms by (intro exI [of _ n]) (simp add: tracked_def holds_def lost_def)
next
  case (Trap j)
  then show ?thesis
    using assms by (intro exI [of _ n])
      (auto simp: tracked_def holds_def cpu_clear_lock_def mask1_flags lost_def)
next
  case (Dma b bs)
  have "locked_in_range (s\<lparr>cpu_lock_address := (cpu_lock_address s)(i := a)\<rparr>) b (length bs) i = locked_in_range s b (length bs) i"
    using assms(1) by (auto simp: locked_in_range_def line_of_def tracked_def)
  moreover have "holds (ll_step s x) i \<longleftrightarrow> holds s i \<and> \<not> (length bs \<noteq> 0 \<and> locked_in_range s b (length bs) i)"
    using Dma clear_external_holds [of i s b "length bs"] assms(1,2) by (simp add: holds_def tracked_def dma_write_fields)
  ultimately show ?thesis
    using assms Dma by (intro exI [of _ n]) (auto simp: tracked_def dma_write_fields lost_def)
qed

lemma tracked_history:
  assumes "tracked i a v q n s" "i < 32" "\<And>b. Ld_l_lock i b \<notin> set xs"
  shows "\<exists>n'. tracked i a v q n' (foldl ll_step s xs) \<and> n' \<le> n + length xs \<and>
    (happens (breaks i a) s xs \<or> lost i a n s \<longrightarrow> lost i a n' (foldl ll_step s xs)) \<and>
    dram_sz (foldl ll_step s xs) = dram_sz s \<and> phys_mask (foldl ll_step s xs) = phys_mask s"
  using assms(1,3)
proof (induction xs arbitrary: n s)
  case Nil
  then show ?case by (intro exI [of _ n]) simp
next
  case (Cons x xs)
  have "x \<noteq> Ld_l_lock i b" for b using Cons.prems(2) by (metis list.set_intros(1))
  then obtain n1 where 1: "tracked i a v q n1 (ll_step s x)" "n1 \<le> Suc n"
    "breaks i a s x \<or> lost i a n s \<longrightarrow> lost i a n1 (ll_step s x)"
    "dram_sz (ll_step s x) = dram_sz s" "phys_mask (ll_step s x) = phys_mask s"
    using tracked_step [OF Cons.prems(1) assms(2)] by metis
  obtain n2 where 2: "tracked i a v q n2 (foldl ll_step (ll_step s x) xs)" "n2 \<le> n1 + length xs"
    "happens (breaks i a) (ll_step s x) xs \<or> lost i a n1 (ll_step s x) \<longrightarrow> lost i a n2 (foldl ll_step (ll_step s x) xs)"
    "dram_sz (foldl ll_step (ll_step s x) xs) = dram_sz (ll_step s x)"
    "phys_mask (foldl ll_step (ll_step s x) xs) = phys_mask (ll_step s x)"
    using Cons.IH [OF 1(1)] Cons.prems(2) by (metis list.set_intros(2))
  show ?case using 1 2 by (intro exI [of _ n2]) auto
qed

text \<open>Up to the lock, the register of the load is the processor's own.\<close>

lemma ll_dest_step: "(\<And>b m io. x \<noteq> Ld_l_read i b m io) \<Longrightarrow> ll_dest (ll_step s x) i = ll_dest s i"
  by (cases x) (auto simp: ld_l_read_def ld_l_lock_def cpu_lock_def Let_def stx_c_fields store_phys_def
      note_dram_write_def cpu_clear_lock_def dma_write_fields)

lemma machine_frame:
  "dram_sz (ll_step s x) = dram_sz s" "phys_mask (ll_step s x) = phys_mask s" "num_cpus (ll_step s x) = num_cpus s"
  by (cases x; simp add: ld_l_read_def ld_l_lock_def cpu_lock_def Let_def stx_c_fields store_phys_def
      note_dram_write_def cpu_clear_lock_def dma_write_fields)+

lemma window_history:
  assumes "\<And>b m io. Ld_l_read i b m io \<notin> set ws"
  shows "ll_dest (foldl ll_step s ws) i = ll_dest s i \<and> dram_sz (foldl ll_step s ws) = dram_sz s \<and>
    phys_mask (foldl ll_step s ws) = phys_mask s \<and> num_cpus (foldl ll_step s ws) = num_cpus s"
  using assms
proof (induction ws arbitrary: s)
  case (Cons x ws)
  have "ll_dest (ll_step s x) i = ll_dest s i" using Cons.prems by (intro ll_dest_step) (metis list.set_intros(1))
  with Cons show ?case by (simp add: machine_frame)
qed simp

lemma matches_bucket:
  assumes "cpu_lock_matches s a p" "phys_mask s AND 0x3fffc0 = 0x3fffc0"
  shows "bucket p = bucket a"
proof -
  have "bit a k = bit p k" if "6 \<le> k" "k < 22" for k
  proof -
    have m: "(0x3fffc0 :: u64) = push_bit 6 (mask 16)" "(63 :: u64) = mask 6"
      by (simp_all add: mask_eq_exp_minus_1)
    have "bit (0x3fffc0 :: u64) k" unfolding m(1) using that by (auto simp: bit_simps)
    then have "bit (phys_mask s) k" using assms(2) by (metis bit_and_iff)
    moreover have "\<not> bit ((a XOR p) AND phys_mask s AND NOT 63) k"
      using assms(1) by (simp add: cpu_lock_matches_def)
    ultimately show ?thesis unfolding m(2) using that by (auto simp: bit_simps)
  qed
  then have "drop_bit 6 p AND mask 16 = drop_bit 6 a AND mask 16"
    by (intro bit_word_eqI) (auto simp: bit_simps)
  then show ?thesis by (simp add: bucket_def mask_eq_exp_minus_1)
qed

lemma stx_c_success:
  assumes "cpu_stx_c s i p n v iv = (t, True)" "p < dram_sz s" "p AND CPU_LOCK_IO_MASK = 0"
    and "n = 32 \<or> n = 64"
  shows "\<not> iv" "holds s i" "cpu_lock_matches s (cpu_lock_address s i) p" "ll_seq s (bucket p) = ll_seq_snap s i"
    "cpu_lock_address s i = p \<Longrightarrow> dram_bytes (dram s) p (nbytes n) = trunc n (cpu_lock_value s i)"
    "dram t = store_bytes (dram s) p (nbytes n) v"
  using assms
  by (auto simp: cpu_stx_c_def stx_c_form nbytes_def split: if_splits)

lemma snd_True: "snd r \<Longrightarrow> r = (fst r, True)"
  by (cases r) simp

lemma dram_bytes_bits: "bit (dram_bytes m a n) k \<Longrightarrow> k < 8 * n"
proof (induction n arbitrary: a k)
  case (Suc n)
  then show ?case by (cases "k < 8") (force simp: bit_simps dest: bit_imp_le_length)+
qed simp

lemma trunc_ld_l:
  "trunc sz (if sz = 32 then scast (ucast (dram_bytes m a (nbytes sz)) :: u32) else dram_bytes m a (nbytes sz)) =
   dram_bytes m a (nbytes sz)"
proof (cases "sz = 32")
  case True
  have "scast (ucast w :: u32) AND mask 32 = w" if "\<And>k. bit w k \<Longrightarrow> k < 32" for w :: u64
  proof (rule bit_word_eqI)
    show "bit (scast (ucast w :: u32) AND mask 32 :: u64) k \<longleftrightarrow> bit w k" for k
    proof (cases "k < 32")
      case True
      then have "min 31 k = k" by simp
      with True show ?thesis by (auto simp: bit_simps)
    qed (auto simp: bit_simps dest: that)
  qed
  then show ?thesis using dram_bytes_bits [of m a 4] True by (simp add: trunc_def nbytes_def mask_eq_exp_minus_1)
qed (simp add: trunc_def)

text \<open>
  C8. A conditional store to memory that succeeds was not interfered with since the lock of its load-locked:
  processor \<open>i\<close> read \<open>a\<close>, any steps \<open>ws\<close> of other agents followed, \<open>i\<close> took its lock, fewer than
  $2^{32}$ steps of the machine followed in which \<open>i\<close> locked nothing else, and its store to \<open>p\<close>, for which it
  found the bucket free, succeeded. Then no other memory operation of \<open>i\<close> intervened and \<open>p\<close> is in the
  locked line; since the lock no conditional store to the line (or its bucket) succeeded, no device wrote
  over the line and \<open>i\<close> took no exception; a store to the locked address found the bytes the load had read,
  whatever happened in \<open>ws\<close>; and the store wrote its value. Not claimed: for a store to another quadword of
  the line, that nothing was stored to it between the read and the lock, in \<open>ws\<close> (it may have been, see
  \<open>window_between_read_and_lock\<close>), nor that other processors' ordinary stores were kept out.
\<close>

theorem stx_c_atomic:
  assumes "i < 32" "i < num_cpus s0" "a < dram_sz s0" and width: "sz = 32 \<or> sz = 64"
    and read: "s1 = ld_l_read s0 i a sz io"
    and window: "\<And>b m io. Ld_l_read i b m io \<notin> set ws" "s2 = foldl ll_step s1 ws"
    and lock: "s3 = ld_l_lock s2 i a"
    and ops: "\<And>b. Ld_l_lock i b \<notin> set xs" "length xs < 2 ^ 32" "s4 = foldl ll_step s3 xs"
    and store: "\<not> stx_c_spins s4 p" "cpu_stx_c s4 i p sz v intervened = (s5, True)"
      "p < dram_sz s0" "p AND CPU_LOCK_IO_MASK = 0"
    and lines: "phys_mask s0 AND 0x3fffc0 = 0x3fffc0"
  shows "\<not> intervened \<and> cpu_lock_matches s0 a p \<and> \<not> happens (breaks i a) s3 xs \<and>
    (p = a \<longrightarrow> dram_bytes (dram s4) a (nbytes sz) = dram_bytes (dram s0) a (nbytes sz)) \<and>
    dram s5 = store_bytes (dram s4) p (nbytes sz) v"
proof -
  let ?w = "dram_bytes (dram s0) a (nbytes sz)"
  let ?v = "if sz = 32 then scast (ucast ?w :: u32) else ?w"
  let ?q = "ll_seq s2 (bucket a)"
  have s1: "ll_dest s1 i = ?v" "dram_sz s1 = dram_sz s0" "phys_mask s1 = phys_mask s0" "num_cpus s1 = num_cpus s0"
    using assms(3) by (simp_all add: read ld_l_read_def Let_def)
  have s2: "ll_dest s2 i = ?v" "dram_sz s2 = dram_sz s0" "phys_mask s2 = phys_mask s0" "num_cpus s2 = num_cpus s0"
    using window_history [OF window(1), of s1] s1 by (simp_all add: window(2))
  have "tracked i a ?v ?q 0 s3" and s3: "dram_sz s3 = dram_sz s0" "phys_mask s3 = phys_mask s0"
    using assms(2) s2 by (simp_all add: lock tracked_def ld_l_lock_def cpu_lock_def)
  then obtain n where n: "tracked i a ?v ?q n s4" "n \<le> length xs" "happens (breaks i a) s3 xs \<longrightarrow> lost i a n s4"
    "dram_sz s4 = dram_sz s0" "phys_mask s4 = phys_mask s0"
    using tracked_history [OF _ assms(1) ops(1)] ops(3) by (metis add_0)
  note ok = stx_c_success [OF store(2) _ store(4) width]
  have match: "cpu_lock_matches s0 a p" using ok(3) n(1,4,5) store(3) by (simp add: tracked_def cpu_lock_matches_def)
  then have b: "bucket p = bucket a" using lines by (rule matches_bucket)
  then have "?q + of_nat n = ?q" using ok(4) n(1,4) store(3) by (metis tracked_def)
  then have "of_nat n = (0 :: u32)" by simp
  moreover have "unat (of_nat n :: u32) = n" using n(2) ops(2) by (simp add: unat_of_nat)
  ultimately have "n = 0" by simp
  then have "\<not> lost i a n s4" using ok(2) store(1,3) n(4) b by (simp add: lost_def stx_c_spins_def)
  then show ?thesis
    using n(3) match ok(1,5,6) n(1,4) store(3) trunc_ld_l [of sz "dram s0" a] by (auto simp: tracked_def)
qed

definition example_llsc :: llsc where
  "example_llsc =
     \<lparr>cpu_lock_flags = 0, cpu_lock_address = (\<lambda>_. 0), cpu_lock_value = (\<lambda>_. 0), ll_seq = (\<lambda>_. 0),
      ll_seq_snap = (\<lambda>_. 0), ll_held = (\<lambda>_. None), ll_dest = (\<lambda>_. 0), dram = (\<lambda>_. 0x11), dram_sz = 0x10000,
      phys_mask = 0xfffffffffff, num_cpus = 2, watch_machine = True, watch_flags = 0, watch_address = (\<lambda>_. 0),
      watch_pages = 8, watch_page_bits = (\<lambda>_. 0), watch_mark_gen = 0, dpc_flush_requests = [], woken = [],
      code_pages = code_map_init 0x10000, nopflush_break = (\<lambda>_. False), io_stores = []\<rparr>"

text \<open>Processor 1's load-locked and conditional store to another line, while processor 0 is between its read
  and its lock, and again after its lock.\<close>

abbreviation (input) example_window :: "ll_op list" where
  "example_window \<equiv> [Ld_l_read 1 0x1080 64 0, Ld_l_lock 1 0x1080]"

abbreviation (input) example_steps :: "ll_op list" where
  "example_steps \<equiv> [St_c 1 0x1080 64 9 False, St_c_end 1 0x1080 64]"

theorem stx_c_atomic_witness:
  "let s3 = ld_l_lock (foldl ll_step (ld_l_read example_llsc 0 0x1000 64 0) example_window) 0 0x1000;
       s4 = foldl ll_step s3 example_steps
   in snd (cpu_stx_c s4 0 0x1000 64 5 False) \<and> \<not> happens (breaks 0 0x1000) s3 example_steps \<and>
      dram_bytes (dram s4) 0x1080 8 = 9"
proof -
  let ?s3 = "ld_l_lock (foldl ll_step (ld_l_read example_llsc 0 0x1000 64 0) example_window) 0 0x1000"
  let ?s4 = "foldl ll_step ?s3 example_steps"
  have ok: "snd (cpu_stx_c ?s4 0 0x1000 64 5 False)" by code_simp
  have free: "\<not> stx_c_spins ?s4 0x1000" by code_simp
  have stored: "dram_bytes (dram ?s4) 0x1080 8 = 9" by code_simp
  have "cpu_stx_c ?s4 0 0x1000 64 5 False = (fst (cpu_stx_c ?s4 0 0x1000 64 5 False), True)"
    using ok by (rule snd_True)
  note stx_c_atomic [OF _ _ _ _ refl _ refl refl _ _ refl free this]
  moreover have "0 < num_cpus example_llsc" "0x1000 < dram_sz example_llsc" "phys_mask example_llsc AND 0x3fffc0 = 0x3fffc0"
    by (simp_all add: example_llsc_def)
  ultimately have "\<not> happens (breaks 0 0x1000) ?s3 example_steps" by simp
  with ok stored show ?thesis unfolding Let_def by blast
qed

text \<open>The window: processor 0 has read \<open>0x1000\<close> and not yet taken its lock when processor 1 locks the same
  quadword and stores to it; processor 0 takes the snapshot of the number that store has already moved,
  and its conditional store to \<open>0x1008\<close>, in the same 16 bytes, succeeds, although \<open>0x1000\<close> no longer has the
  value it read. A store to \<open>0x1000\<close> itself fails.\<close>

lemma window_between_read_and_lock:
  "let s3 = foldl ll_step example_llsc
        [Ld_l_read 0 0x1000 64 0, Ld_l_read 1 0x1000 64 0, Ld_l_lock 1 0x1000, St_c 1 0x1000 64 9 False,
         St_c_end 1 0x1000 64, Ld_l_lock 0 0x1000]
   in cpu_lock_value s3 0 = 0x1111111111111111 \<and> dram_bytes (dram s3) 0x1000 8 = 9 \<and>
      snd (cpu_stx_c s3 0 0x1008 64 5 False) \<and> \<not> snd (cpu_stx_c s3 0 0x1000 64 5 False)"
  by code_simp

section \<open>A watch is not slept through\<close>

definition hit :: "llsc \<Rightarrow> u64 \<Rightarrow> u64 \<Rightarrow> u64 \<Rightarrow> bool" where
  "hit s b n a \<longleftrightarrow> b AND phys_mask s AND NOT 63 \<le> line_of s a \<and> line_of s a \<le> ((b AND phys_mask s) + n - 1) AND NOT 63"

text \<open>The step is another agent's write to the line of \<open>a\<close>: what must clear processor \<open>i\<close>'s watch of it. A
  store counts when any of its bytes is in the line, a conditional one when it has been carried out.\<close>

definition store_touches :: "llsc \<Rightarrow> u64 \<Rightarrow> nat \<Rightarrow> u64 \<Rightarrow> bool" where
  "store_touches s b sz a \<longleftrightarrow> (\<exists>k<nbytes sz. line_of s (b + of_nat k) = line_of s a)"

fun wakes :: "nat \<Rightarrow> u64 \<Rightarrow> llsc \<Rightarrow> ll_op \<Rightarrow> bool" where
  "wakes i a s (Store j b n v) = (j \<noteq> i \<and> b < dram_sz s \<and> store_touches s b n a)"
| "wakes i a s (St_c_end j b n) = (j \<noteq> i \<and> ll_held s (bucket b) = Some (j, b) \<and> store_touches s b n a)"
| "wakes i a s (Dma b bs) = (bs \<noteq> [] \<and> hit s b (of_nat (length bs)) a)"
| "wakes i a s _ = False"

text \<open>A store at a multiple of its width. The conditional ones always are (\<open>DATA_PHYS_LOCKED\<close> traps the rest);
  an ordinary store need not be.\<close>

fun aligned :: "ll_op \<Rightarrow> bool" where
  "aligned (Store j b n v) = (unat b mod nbytes n = 0)"
| "aligned (St_c_end j b n) = (unat b mod nbytes n = 0)"
| "aligned _ = True"

lemma aligned_touches:
  assumes "unat b mod nbytes sz = 0" "store_touches s b sz a"
  shows "line_of s b = line_of s a"
proof -
  have "\<exists>e. nbytes sz = 2 ^ e \<and> e \<le> 3"
    by (intro exI [of _ "if sz = 8 then 0 else if sz = 16 then 1 else if sz = 32 then 2 else 3"]) (simp add: nbytes_def)
  then obtain e where e: "nbytes sz = 2 ^ e" "e \<le> 3" by blast
  obtain k where k: "k < 2 ^ e" "line_of s (b + of_nat k) = line_of s a" using assms(2) e by (auto simp: store_touches_def)
  have low: "\<not> bit b j" if "j < e" for j
  proof -
    have "take_bit e (unat b) = 0" using assms(1) e by (simp add: take_bit_eq_mod)
    then have "\<not> bit (unat b) j" using that by (metis bit_take_bit_iff bit_0_eq bot_apply bot_bool_def)
    then show ?thesis by (simp add: bit_unsigned_iff)
  qed
  have high: "\<not> bit (of_nat k :: u64) j" if "e \<le> j" for j
  proof -
    have "take_bit e k = k" using k(1) by (simp add: take_bit_eq_mod)
    then have "\<not> bit k j" using that by (metis bit_take_bit_iff not_le)
    then show ?thesis by (auto simp flip: bit_unsigned_iff simp: bit_simps)
  qed
  have "b AND of_nat k = 0"
    by (rule bit_word_eqI) (use low high in \<open>auto simp: bit_simps not_le [symmetric]\<close>)
  then have "b + of_nat k = b OR of_nat k" by (simp add: disjunctive_add_eq_or)
  moreover have "(b OR of_nat k) AND m AND NOT 63 = b AND m AND NOT 63" for m
  proof (rule bit_word_eqI)
    fix j
    show "bit ((b OR of_nat k) AND m AND NOT 63) j = bit (b AND m AND NOT 63) j"
    proof (cases "e \<le> j")
      case True
      then show ?thesis using high [OF True] by (auto simp: bit_simps)
    next
      case False
      then have "bit (63 :: u64) j" using e(2) bit_mask_iff [of 6 j, where 'a = "64 word"]
        by (simp add: mask_eq_exp_minus_1)
      then show ?thesis by (simp add: bit_simps)
    qed
  qed
  ultimately show ?thesis using k(2) by (simp add: line_of_def)
qed

lemma hit_one_line: "hit s b 1 a \<longleftrightarrow> line_of s b = line_of s a"
  by (auto simp: hit_def line_of_def and.assoc)

text \<open>What a store, a trap or a device write does to the watch of processor \<open>i\<close> on \<open>a\<close>.\<close>

definition watch_effect :: "nat \<Rightarrow> bool \<Rightarrow> llsc \<Rightarrow> llsc \<Rightarrow> bool" where
  "watch_effect i hits s t \<longleftrightarrow> watch_address t i = watch_address s i \<and> watch_machine t = watch_machine s \<and>
     num_cpus t = num_cpus s \<and> phys_mask t = phys_mask s \<and>
     (cpu_watch_armed t i \<longleftrightarrow> cpu_watch_armed s i \<and> \<not> hits) \<and>
     (\<exists>ws. woken t = woken s @ ws \<and> (cpu_watch_armed s i \<and> hits \<longrightarrow> i \<in> fst ` set ws))"

lemma watch_effect_trans:
  assumes 1: "watch_effect i h s t" and 2: "watch_effect i g t u"
  shows "watch_effect i (h \<or> g) s u"
proof -
  obtain ws where ws: "woken t = woken s @ ws" "cpu_watch_armed s i \<and> h \<longrightarrow> i \<in> fst ` set ws"
    using 1 by (auto simp: watch_effect_def)
  obtain vs where vs: "woken u = woken t @ vs" "cpu_watch_armed t i \<and> g \<longrightarrow> i \<in> fst ` set vs"
    using 2 by (auto simp: watch_effect_def)
  have a: "cpu_watch_armed t i \<longleftrightarrow> cpu_watch_armed s i \<and> \<not> h" "cpu_watch_armed u i \<longleftrightarrow> cpu_watch_armed t i \<and> \<not> g"
    using 1 2 by (simp_all add: watch_effect_def)
  have "\<exists>zs. woken u = woken s @ zs \<and> (cpu_watch_armed s i \<and> (h \<or> g) \<longrightarrow> i \<in> fst ` set zs)"
    by (rule exI [of _ "ws @ vs"]) (use ws vs a in auto)
  with a show ?thesis using 1 2 by (simp add: watch_effect_def)
qed

definition in_span :: "u64 \<Rightarrow> u64 \<Rightarrow> u32 \<Rightarrow> nat \<Rightarrow> llsc \<Rightarrow> bool" where
  "in_span f l m i s \<longleftrightarrow> m AND mask1 i \<noteq> 0 \<and> f \<le> line_of s (watch_address s i) \<and> line_of s (watch_address s i) \<le> l"

lemma watch_hit_one_effect:
  assumes "i < 32"
  shows "watch_effect i (j = i \<and> in_span f l m i s) s (watch_hit_one f l m w s j)"
proof (cases "in_span f l m j s")
  case True
  then have "m AND mask1 j \<noteq> 0" "\<not> line_of s (watch_address s j) < f" "\<not> line_of s (watch_address s j) > l"
    by (auto simp: in_span_def)
  then have "watch_hit_one f l m w s j = s\<lparr>watch_flags := watch_flags s AND NOT (mask1 j),
      woken := if cpu_watch_armed s j then woken s @ [(j, w)] else woken s\<rparr>"
    by (simp add: watch_hit_one_def Let_def cpu_watch_armed_def)
  with True show ?thesis by (auto simp: watch_effect_def cpu_watch_armed_def mask1_flags)
next
  case False
  then have "watch_hit_one f l m w s j = s" by (auto simp: watch_hit_one_def in_span_def Let_def)
  with False show ?thesis by (auto simp: watch_effect_def)
qed

lemma watch_fold:
  assumes "i < 32"
  shows "watch_effect i (i \<in> set is \<and> in_span f l m i s) s (foldl (watch_hit_one f l m w) s is)"
proof (induction "is" arbitrary: s)
  case (Cons j js)
  let ?t = "watch_hit_one f l m w s j"
  have e: "watch_effect i (j = i \<and> in_span f l m i s) s ?t" using assms by (rule watch_hit_one_effect)
  then have "in_span f l m i ?t = in_span f l m i s" by (simp add: watch_effect_def in_span_def line_of_def)
  then have "watch_effect i ((j = i \<and> in_span f l m i s) \<or> (i \<in> set js \<and> in_span f l m i s))
      s (foldl (watch_hit_one f l m w) ?t js)"
    using watch_effect_trans [OF e Cons.IH] by simp
  moreover have "(i \<in> set (j # js) \<and> in_span f l m i s) =
      ((j = i \<and> in_span f l m i s) \<or> (i \<in> set js \<and> in_span f l m i s))" by auto
  ultimately show ?case by simp
qed (simp add: watch_effect_def)

lemma watch_hit_effect:
  assumes "i < 32" "i < num_cpus s"
  shows "watch_effect i (m AND mask1 i \<noteq> 0 \<and> hit s b n (watch_address s i)) s (cpu_watch_hit s b n m w)"
  using watch_fold [OF assms(1), of "[0..<num_cpus s]" "b AND phys_mask s AND NOT 63"
      "((b AND phys_mask s) + n - 1) AND NOT 63" m s w] assms(2)
  by (simp add: cpu_watch_hit_def Let_def hit_def in_span_def)

lemma note_store_effect:
  assumes "i < 32" "i < num_cpus s" "watch_machine s"
  shows "watch_effect i (cpu_watch_armed s i \<and> j \<noteq> i \<and> line_of s b = line_of s (watch_address s i))
    s (cpu_note_store_watch s j b stc)"
proof (cases "watch_flags s AND NOT (mask1 j) = 0")
  case True
  then have "\<not> (cpu_watch_armed s i \<and> j \<noteq> i)"
    using mask1_flags(2) [of "watch_flags s" j i] by (auto simp: cpu_watch_armed_def)
  with True show ?thesis by (auto simp: cpu_note_store_watch_def watch_effect_def)
next
  case False
  then show ?thesis
    using watch_hit_effect [OF assms(1,2), of "watch_flags s AND NOT (mask1 j)" b 1] assms(3)
    by (simp add: cpu_note_store_watch_def Let_def mask1_flags cpu_watch_armed_def hit_one_line)
qed

lemma watch_same:
  "watch_flags t = watch_flags s \<Longrightarrow> watch_address t = watch_address s \<Longrightarrow> watch_machine t = watch_machine s \<Longrightarrow>
   woken t = woken s \<Longrightarrow> num_cpus t = num_cpus s \<Longrightarrow> phys_mask t = phys_mask s \<Longrightarrow> watch_effect i False s t"
  by (simp add: watch_effect_def cpu_watch_armed_def)

text \<open>The store of a conditional store leaves the watches alone; what follows it notifies them.\<close>

lemma stx_c_store_watch: "watch_effect i False s (fst (stx_c_store s j b n v iv))"
  by (cases rule: stx_c_cases [of s j b n v iv]) (simp_all add: watch_same code_written_def)

lemma note_store_after:
  assumes "watch_effect i False s u" "i < 32" "i < num_cpus s" "watch_machine s"
  shows "watch_effect i (cpu_watch_armed s i \<and> j \<noteq> i \<and> line_of s b = line_of s (watch_address s i))
    s (cpu_note_store_watch u j b stc)"
  using watch_effect_trans [OF assms(1) note_store_effect [OF assms(2), of u j b stc]] assms
  by (simp add: watch_effect_def line_of_def)

lemma stx_c_finish_watch:
  assumes "i < 32" "i < num_cpus s" "watch_machine s"
  shows "watch_effect i (cpu_watch_armed s i \<and> j \<noteq> i \<and> line_of s b = line_of s (watch_address s i))
    s (stx_c_finish s j b)"
  unfolding stx_c_finish_def Let_def by (rule note_store_after [OF watch_same assms]) simp_all

lemma store_watch:
  assumes "i < 32" "i < num_cpus s" "watch_machine s"
  shows "watch_effect i (b < dram_sz s \<and> cpu_watch_armed s i \<and> j \<noteq> i \<and> line_of s b = line_of s (watch_address s i))
    s (store_phys s j b n v)"
proof (cases "b < dram_sz s")
  case True
  have "watch_effect i (cpu_watch_armed s i \<and> j \<noteq> i \<and> line_of s b = line_of s (watch_address s i))
      s (note_dram_write (s\<lparr>dram := store_bytes (dram s) b (nbytes n) v\<rparr>) j b)"
    unfolding note_dram_write_def Let_def
    by (rule note_store_after [OF watch_same assms]) (simp_all add: code_written_def)
  with True show ?thesis by (simp add: store_phys_def)
next
  case False
  then show ?thesis by (simp add: store_phys_def watch_same)
qed

lemma dma_effect:
  assumes "i < 32" "i < num_cpus s" "watch_machine s"
  shows "watch_effect i (bs \<noteq> [] \<and> cpu_watch_armed s i \<and> hit s b (of_nat (length bs)) (watch_address s i)) s (dma_write s b bs)"
proof -
  define c where "c = cpu_clear_external_locks s b (length bs)"
  have "watch_effect i (bs \<noteq> [] \<and> cpu_watch_armed s i \<and> hit s b (of_nat (length bs)) (watch_address s i)) s c"
  proof (cases "bs = [] \<or> watch_flags s = 0")
    case True
    then show ?thesis
      by (auto simp: c_def cpu_clear_external_locks_def Let_def watch_effect_def cpu_watch_armed_def)
  next
    case False
    then obtain f where c: "c = cpu_watch_hit (s\<lparr>cpu_lock_flags := f\<rparr>) b (of_nat (length bs)) (watch_flags s) WATCH_DMA"
      using assms(3) by (simp add: c_def cpu_clear_external_locks_def Let_def)
    have "watch_effect i False s (s\<lparr>cpu_lock_flags := f\<rparr>)" by (simp add: watch_same)
    from watch_effect_trans [OF this watch_hit_effect [OF assms(1)]] show ?thesis
      using False assms(2) by (simp add: c hit_def line_of_def cpu_watch_armed_def)
  qed
  moreover have "watch_effect i False c (dma_write s b bs)"
    by (rule watch_same) (simp_all add: c_def dma_write_fields clear_external_fields)
  ultimately show ?thesis using watch_effect_trans by fastforce
qed

lemma watch_step:
  assumes "i < 32" "i < num_cpus s" "watch_machine s" "x \<noteq> Trap i" "\<And>b c. x \<noteq> Arm i b c" "aligned x"
  shows "\<exists>h. watch_effect i h s (ll_step s x) \<and> (wakes i (watch_address s i) s x \<and> cpu_watch_armed s i \<longrightarrow> h)"
proof (cases x)
  case (Ld_l_read j b n io)
  have "watch_effect i False s (ll_step s x)"
    unfolding Ld_l_read by (simp add: ld_l_read_def Let_def watch_same)
  then show ?thesis using Ld_l_read by auto
next
  case (Ld_l_lock j b)
  have "watch_effect i False s (ll_step s x)"
    unfolding Ld_l_lock by (simp add: ld_l_lock_def cpu_lock_def watch_same)
  then show ?thesis using Ld_l_lock by auto
next
  case (St_c j b n v iv)
  then have "watch_effect i False s (ll_step s x)" by (simp add: stx_c_store_watch watch_same)
  then show ?thesis using St_c by auto
next
  case (St_c_end j b n)
  show ?thesis
  proof (cases "ll_held s (bucket b) = Some (j, b)")
    case True
    then show ?thesis
      using St_c_end assms(6) stx_c_finish_watch [OF assms(1-3), of j b] aligned_touches [of b n s "watch_address s i"]
      by auto
  next
    case False
    then have "watch_effect i False s (ll_step s x)" using St_c_end by (simp add: watch_same)
    with False St_c_end show ?thesis by auto
  qed
next
  case (Store j b n v)
  then show ?thesis
    using assms(6) store_watch [OF assms(1-3), of b j n v] aligned_touches [of b n s "watch_address s i"] by auto
next
  case (Trap j)
  then have "watch_effect i False s (ll_step s x)"
    using assms(1,4) by (auto simp: cpu_clear_lock_def cpu_clear_watch_def watch_effect_def cpu_watch_armed_def
        and_mask1_eq_0 bit_clear_mask1)
  then show ?thesis using Trap by auto
next
  case (Arm j b c)
  then have "j \<noteq> i" using assms(5) by auto
  then have "watch_effect i False s (ll_step s x)"
    using Arm by (auto simp: cpu_arm_watch_def cpu_watch_mark_page_def watch_effect_def cpu_watch_armed_def mask1_flags Let_def)
  then show ?thesis using Arm by auto
next
  case (Dma b bs)
  then show ?thesis using dma_effect [OF assms(1-3)] by auto
qed

lemma watch_history:
  assumes "i < 32" "i < num_cpus s" "watch_machine s" "Trap i \<notin> set xs" "\<And>b c. Arm i b c \<notin> set xs"
    "list_all aligned xs"
  shows "\<exists>h. watch_effect i h s (foldl ll_step s xs) \<and>
    (happens (wakes i (watch_address s i)) s xs \<and> cpu_watch_armed s i \<longrightarrow> h)"
  using assms(2-)
proof (induction xs arbitrary: s)
  case Nil
  then show ?case by (auto intro!: exI [of _ False] watch_same)
next
  case (Cons x xs)
  obtain h where h: "watch_effect i h s (ll_step s x)" "wakes i (watch_address s i) s x \<and> cpu_watch_armed s i \<longrightarrow> h"
    using watch_step [OF assms(1) Cons.prems(1,2)] Cons.prems(3-5) by (metis list.set_intros(1) list.pred_inject(2))
  then have "i < num_cpus (ll_step s x)" "watch_machine (ll_step s x)" "watch_address (ll_step s x) i = watch_address s i"
    using Cons.prems by (simp_all add: watch_effect_def)
  then obtain g where g: "watch_effect i g (ll_step s x) (foldl ll_step (ll_step s x) xs)"
    "happens (wakes i (watch_address s i)) (ll_step s x) xs \<and> cpu_watch_armed (ll_step s x) i \<longrightarrow> g"
    using Cons.IH [of "ll_step s x"] Cons.prems(3-5) by auto
  have "cpu_watch_armed (ll_step s x) i \<longleftrightarrow> cpu_watch_armed s i \<and> \<not> h" using h(1) by (simp add: watch_effect_def)
  then show ?case using watch_effect_trans [OF h(1) g(1)] h(2) g(2) by (intro exI [of _ "h \<or> g"]) auto
qed

lemma mark_page_frame:
  "num_cpus (cpu_watch_mark_page s a) = num_cpus s" "watch_machine (cpu_watch_mark_page s a) = watch_machine s"
  by (simp_all add: cpu_watch_mark_page_def Let_def)

text \<open>
  C10. QUIESCE does not sleep through an aligned store: processor \<open>i\<close> arms a watch of \<open>a\<close>; if in the steps
  that follow (no exception of \<open>i\<close> and no new arming among them, and every processor store at a multiple of
  its width) another processor stores any byte of that line of memory, completes a successful conditional
  store to it, or a device writes over it, then the watch flag is down at the end and \<open>i\<close> was woken since
  the arming. Without the alignment it does not hold: \<open>unaligned_store_missed\<close>.
\<close>

theorem watch_wakes:
  assumes "i < 32" "i < num_cpus s0" "watch_machine s0" and arm: "s1 = cpu_arm_watch s0 i a True"
    and ops: "Trap i \<notin> set xs" "\<And>b c. Arm i b c \<notin> set xs" "list_all aligned xs" "s2 = foldl ll_step s1 xs"
    and stored: "happens (wakes i a) s1 xs"
  shows "\<not> cpu_watch_armed s2 i \<and> (\<exists>ws. woken s2 = woken s1 @ ws \<and> i \<in> fst ` set ws)"
proof -
  have "(mask1 i :: u32) \<noteq> 0" using assms(1) by (auto simp: word_eq_0_bits bit_mask1)
  then have s1: "i < num_cpus s1" "watch_machine s1" "watch_address s1 i = a" "cpu_watch_armed s1 i"
    unfolding arm using assms(1-3)
    by (simp_all add: cpu_arm_watch_def mark_page_frame Let_def cpu_watch_armed_def and_mask1_eq_0 bit_set_mask1)
  then obtain h where "watch_effect i h s1 s2" h
    using watch_history [OF assms(1) s1(1,2) ops(1-3)] ops(4) stored by auto
  then show ?thesis using s1(4) by (auto simp: watch_effect_def)
qed

abbreviation (input) example_stores :: "ll_op list" where
  "example_stores \<equiv> [Store 1 0x3000 64 7, Store 1 0x1008 64 7]"

lemma example_wakes:
  "dram_sz t = 0x10000 \<Longrightarrow> phys_mask t = 0xfffffffffff \<Longrightarrow> wakes 0 0x1000 t (Store 1 0x1008 64 7)"
  by (auto simp: store_touches_def nbytes_def line_of_def intro: exI [of _ 0])

theorem watch_wakes_witness:
  "\<not> cpu_watch_armed (foldl ll_step (cpu_arm_watch example_llsc 0 0x1000 True) example_stores) 0"
proof -
  let ?s1 = "cpu_arm_watch example_llsc 0 0x1000 True"
  have "dram_sz (ll_step ?s1 x) = 0x10000" "phys_mask (ll_step ?s1 x) = 0xfffffffffff" for x
    by (simp_all only: machine_frame watch_frame) (simp_all add: example_llsc_def)
  then have "happens (wakes 0 0x1000) ?s1 example_stores"
    unfolding happens.simps by (intro example_wakes disjI2 [OF disjI1])
  moreover have "list_all aligned example_stores" by (simp add: nbytes_def)
  moreover have "0 < num_cpus example_llsc" "watch_machine example_llsc" by (simp_all add: example_llsc_def)
  ultimately show ?thesis
    using watch_wakes [of 0 example_llsc _ "0x1000" example_stores, OF _ _ _ refl _ _ _ refl] by simp
qed

text \<open>An unaligned store that begins before the line and runs into it changes a watched byte and is reported
  for the line of its first byte only.\<close>

lemma unaligned_store_missed:
  "let s = foldl ll_step (cpu_arm_watch example_llsc 0 0x1000 True) [Store 1 0xffc 64 0]
   in dram s 0x1000 \<noteq> dram example_llsc 0x1000 \<and> store_touches example_llsc 0xffc 64 0x1000 \<and> cpu_watch_armed s 0"
  by code_simp

end
