(* ===== verification/Llsc_Gate.thy ===== *)
theory Llsc_Gate
  imports Axp_Prelude
begin

text \<open>
  The gate between LDx_L/STx_C and device writes, \<^verbatim>\<open>src/src/system/System.cpp\<close>:
  \<open>cpu_llsc_enter\<close>, \<open>cpu_llsc_leave\<close>, \<open>pci_dma_write_enter\<close> and \<open>pci_dma_write_leave\<close>, which
  \<open>CLLSCDRAMGuard\<close> and \<open>CPCIDMAWriteGuard\<close> call. One 32-bit word holds a writer bit and the number of
  readers inside. The threads interleave at their atomic accesses: every load, compare-exchange,
  fetch-and-subtract and store of the word is one step, any thread may take the next, and a weak
  compare-exchange may fail for no reason. Shown by rule induction over the reachable states: a
  device writer that has drained the readers is alone, for any number of threads and however they
  interleave, and while it drains nobody enters, so that it gets in when the last reader leaves.
\<close>

abbreviation (input) CPU_LLSC_DMA_WRITER :: u32 where "CPU_LLSC_DMA_WRITER \<equiv> 0x80000000"
abbreviation (input) CPU_LLSC_DMA_READERS :: u32 where "CPU_LLSC_DMA_READERS \<equiv> 0x7fffffff"

section \<open>Threads and their steps\<close>

text \<open>Where a thread is: outside, in the loop of \<open>cpu_llsc_enter\<close> with the value it loaded last, inside as a
  reader; in the loop of \<open>pci_dma_write_enter\<close>, waiting for the readers to leave, inside as the writer.\<close>

datatype gate_pc = Outside | R_try u32 | R_in | W_try u32 | W_drain | W_in

record gate_state =
  cpu_llsc_dma_gate :: u32
  pc :: "nat \<Rightarrow> gate_pc"

definition gate_init :: gate_state where
  "gate_init = \<lparr>cpu_llsc_dma_gate = 0, pc = (\<lambda>_. Outside)\<rparr>"

text \<open>Thread \<open>t\<close> moves on and leaves \<open>gate\<close> in the word.\<close>

definition goto :: "gate_state \<Rightarrow> nat \<Rightarrow> gate_pc \<Rightarrow> u32 \<Rightarrow> gate_state" where
  "goto s t p gate = s\<lparr>cpu_llsc_dma_gate := gate, pc := (pc s)(t := p)\<rparr>"

definition reader_may_enter :: "u32 \<Rightarrow> bool" where
  "reader_may_enter gate \<longleftrightarrow> gate AND CPU_LLSC_DMA_WRITER = 0 \<and> gate AND CPU_LLSC_DMA_READERS \<noteq> CPU_LLSC_DMA_READERS"

definition writer_may_enter :: "u32 \<Rightarrow> bool" where
  "writer_may_enter gate \<longleftrightarrow> gate AND CPU_LLSC_DMA_WRITER = 0"

inductive cpu_llsc_enter :: "nat \<Rightarrow> gate_state \<Rightarrow> gate_state \<Rightarrow> bool" for t where
  r_load: "pc s t = Outside \<Longrightarrow> cpu_llsc_enter t s (goto s t (R_try (cpu_llsc_dma_gate s)) (cpu_llsc_dma_gate s))"
| r_reload: "pc s t = R_try gate \<Longrightarrow> cpu_llsc_enter t s (goto s t (R_try (cpu_llsc_dma_gate s)) (cpu_llsc_dma_gate s))"
| r_cas: "pc s t = R_try gate \<Longrightarrow> reader_may_enter gate \<Longrightarrow> cpu_llsc_dma_gate s = gate \<Longrightarrow>
    cpu_llsc_enter t s (goto s t R_in (gate + 1))"

inductive cpu_llsc_leave :: "nat \<Rightarrow> gate_state \<Rightarrow> gate_state \<Rightarrow> bool" for t where
  r_sub: "pc s t = R_in \<Longrightarrow>
    cpu_llsc_leave t s (goto s t Outside (cpu_llsc_dma_gate s - 1))"

inductive pci_dma_write_enter :: "nat \<Rightarrow> gate_state \<Rightarrow> gate_state \<Rightarrow> bool" for t where
  w_load: "pc s t = Outside \<Longrightarrow> pci_dma_write_enter t s (goto s t (W_try (cpu_llsc_dma_gate s)) (cpu_llsc_dma_gate s))"
| w_reload: "pc s t = W_try gate \<Longrightarrow> pci_dma_write_enter t s (goto s t (W_try (cpu_llsc_dma_gate s)) (cpu_llsc_dma_gate s))"
| w_cas: "pc s t = W_try gate \<Longrightarrow> writer_may_enter gate \<Longrightarrow> cpu_llsc_dma_gate s = gate \<Longrightarrow>
    pci_dma_write_enter t s (goto s t W_drain (gate OR CPU_LLSC_DMA_WRITER))"
| w_drained: "pc s t = W_drain \<Longrightarrow> cpu_llsc_dma_gate s AND CPU_LLSC_DMA_READERS = 0 \<Longrightarrow>
    pci_dma_write_enter t s (goto s t W_in (cpu_llsc_dma_gate s))"

inductive pci_dma_write_leave :: "nat \<Rightarrow> gate_state \<Rightarrow> gate_state \<Rightarrow> bool" for t where
  w_store: "pc s t = W_in \<Longrightarrow> pci_dma_write_leave t s (goto s t Outside (0))"

inductive gate_step :: "gate_state \<Rightarrow> gate_state \<Rightarrow> bool" where
  "cpu_llsc_enter t s s' \<Longrightarrow> gate_step s s'"
| "cpu_llsc_leave t s s' \<Longrightarrow> gate_step s s'"
| "pci_dma_write_enter t s s' \<Longrightarrow> gate_step s s'"
| "pci_dma_write_leave t s s' \<Longrightarrow> gate_step s s'"

inductive gate_reachable :: "gate_state \<Rightarrow> bool" where
  start: "gate_reachable gate_init"
| go: "gate_reachable s \<Longrightarrow> gate_step s s' \<Longrightarrow> gate_reachable s'"

inductive_cases gate_stepE: "gate_step s s'"
inductive_cases enterE [elim!]: "cpu_llsc_enter t s s'"
inductive_cases leaveE [elim!]: "cpu_llsc_leave t s s'"
inductive_cases dma_enterE [elim!]: "pci_dma_write_enter t s s'"
inductive_cases dma_leaveE [elim!]: "pci_dma_write_leave t s s'"

section \<open>The word as a number\<close>

lemma gate_writer: "g AND CPU_LLSC_DMA_WRITER = 0 \<longleftrightarrow> unat g < 2 ^ 31"
proof -
  have "(0x80000000 :: u32) = mask1 31" by (simp add: mask1_def push_bit_eq_mult)
  then have "g AND CPU_LLSC_DMA_WRITER = 0 \<longleftrightarrow> \<not> bit (unat g) 31" using and_mask1_eq_0 [of g 31] by (simp add: bit_unsigned_iff)
  moreover have "unat g < 2 ^ LENGTH(32)" by (rule unsigned_less)
  moreover from this have "unat g div 2 ^ 31 < 2" by (simp add: less_mult_imp_div_less)
  then have "odd (unat g div 2 ^ 31) \<longleftrightarrow> unat g div 2 ^ 31 \<noteq> 0" by (auto simp: less_2_cases_iff)
  ultimately show ?thesis by (simp add: bit_iff_odd div_eq_0_iff)
qed

lemma gate_readers: "unat (g AND CPU_LLSC_DMA_READERS) = unat g mod 2 ^ 31"
proof -
  have "g AND CPU_LLSC_DMA_READERS = take_bit 31 g" using take_bit_eq_mask [of 31 g] by (simp add: mask_eq_exp_minus_1)
  then show ?thesis by (simp only: unsigned_take_bit_eq) (simp add: take_bit_eq_mod)
qed

lemma gate_set_writer:
  assumes "unat g < 2 ^ 31" shows "unat (g OR CPU_LLSC_DMA_WRITER) = unat g + 2 ^ 31"
proof -
  have "g AND CPU_LLSC_DMA_WRITER = 0" using assms by (simp add: gate_writer)
  then have "g OR CPU_LLSC_DMA_WRITER = g + CPU_LLSC_DMA_WRITER" by (simp add: disjunctive_add_eq_or)
  then show ?thesis using assms by (simp add: unat_word_ariths)
qed

section \<open>The invariant\<close>

definition readers :: "gate_state \<Rightarrow> nat set" where
  "readers s = {t. pc s t = R_in}"

definition writers :: "gate_state \<Rightarrow> nat set" where
  "writers s = {t. pc s t = W_drain \<or> pc s t = W_in}"

text \<open>The word counts the readers and marks the one writer; a writer inside excludes readers.\<close>

definition gate_inv :: "gate_state \<Rightarrow> bool" where
  "gate_inv s \<longleftrightarrow> finite (readers s) \<and> card (readers s) < 2 ^ 31 \<and>
     unat (cpu_llsc_dma_gate s) = card (readers s) + (if writers s = {} then 0 else 2 ^ 31) \<and>
     (\<forall>t u. t \<in> writers s \<longrightarrow> u \<in> writers s \<longrightarrow> t = u) \<and> ((\<exists>t. pc s t = W_in) \<longrightarrow> readers s = {})"

lemma gate_inv_init: "gate_inv gate_init"
  by (simp add: gate_inv_def gate_init_def readers_def writers_def)

lemma moves:
  "readers (goto s t p g) = (if p = R_in then insert t (readers s) else readers s - {t})"
  "writers (goto s t p g) = (if p = W_drain \<or> p = W_in then insert t (writers s) else writers s - {t})"
  "cpu_llsc_dma_gate (goto s t p g) = g" "pc (goto s t p g) = (pc s)(t := p)"
  by (auto simp: readers_def writers_def goto_def)

lemma outside_sets: "pc s t \<noteq> R_in \<Longrightarrow> t \<notin> readers s" "pc s t \<noteq> W_drain \<Longrightarrow> pc s t \<noteq> W_in \<Longrightarrow> t \<notin> writers s"
  by (simp_all add: readers_def writers_def)

text \<open>Waiting steps change neither set.\<close>

lemma gate_inv_wait:
  assumes "gate_inv s" "pc s t \<notin> {R_in, W_drain, W_in}" "p \<notin> {R_in, W_drain, W_in}"
  shows "gate_inv (goto s t p (cpu_llsc_dma_gate s))"
proof -
  have "readers (goto s t p (cpu_llsc_dma_gate s)) = readers s" "writers (goto s t p (cpu_llsc_dma_gate s)) = writers s"
    using assms outside_sets [of s t] by (auto simp: moves)
  then show ?thesis using assms by (auto simp: gate_inv_def moves split: if_splits)
qed

lemma gate_inv_enter:
  assumes "gate_inv s" "pc s t = R_try g" "reader_may_enter g" "cpu_llsc_dma_gate s = g"
  shows "gate_inv (goto s t R_in (g + 1))"
proof -
  have g: "unat g < 2 ^ 31" "unat g mod 2 ^ 31 \<noteq> 2 ^ 31 - 1"
    using assms(3) gate_readers [of g] unfolding reader_may_enter_def gate_writer word_unat_eq_iff [of "g AND _"] by auto
  have w: "writers s = {}" using g(1) assms(1,4) by (auto simp: gate_inv_def split: if_splits)
  then have "unat g = card (readers s)" using assms(1,4) by (simp add: gate_inv_def)
  moreover have "unat (g + 1) = unat g + 1" using g by (simp add: unat_word_ariths)
  moreover have "\<nexists>u. pc s u = W_in" using w by (auto simp: writers_def)
  ultimately show ?thesis
    using assms(1,2) g w outside_sets [of s t] by (auto simp: gate_inv_def moves card_insert_if)
qed

lemma gate_inv_leave:
  assumes "gate_inv s" "pc s t = R_in"
  shows "gate_inv (goto s t Outside (cpu_llsc_dma_gate s - 1))"
proof -
  have t: "t \<in> readers s" "t \<notin> writers s" using assms(2) by (simp_all add: readers_def writers_def)
  then have c: "0 < card (readers s)" using assms(1) by (auto simp: gate_inv_def card_gt_0_iff)
  then have "unat (cpu_llsc_dma_gate s) \<noteq> 0" using assms(1) by (auto simp: gate_inv_def)
  then have "unat (cpu_llsc_dma_gate s - 1) = unat (cpu_llsc_dma_gate s) - 1" by (simp add: unat_eq_0 unat_minus_one)
  then show ?thesis using assms t c by (auto simp: gate_inv_def moves)
qed

lemma gate_inv_claim:
  assumes "gate_inv s" "pc s t = W_try g" "writer_may_enter g" "cpu_llsc_dma_gate s = g"
  shows "gate_inv (goto s t W_drain (g OR CPU_LLSC_DMA_WRITER))"
proof -
  have g: "unat g < 2 ^ 31" using assms(3) by (simp add: writer_may_enter_def gate_writer)
  then have w: "writers s = {}" using assms(1,4) by (auto simp: gate_inv_def split: if_splits)
  then have "\<nexists>u. pc s u = W_in" by (auto simp: writers_def)
  then show ?thesis
    using assms(1,2,4) w gate_set_writer [OF g] outside_sets [of s t] by (auto simp: gate_inv_def moves)
qed

lemma gate_inv_drained:
  assumes "gate_inv s" "pc s t = W_drain" "cpu_llsc_dma_gate s AND CPU_LLSC_DMA_READERS = 0"
  shows "gate_inv (goto s t W_in (cpu_llsc_dma_gate s))" 
proof -
  have "card (readers s) = 0"
    using assms(1) gate_readers [of "cpu_llsc_dma_gate s"] assms(3) by (auto simp: gate_inv_def split: if_splits)
  then have "readers s = {}" using assms(1) by (simp add: gate_inv_def)
  moreover have "t \<in> writers s" using assms(2) by (simp add: writers_def)
  ultimately show ?thesis using assms(1) by (auto simp: gate_inv_def moves)
qed

lemma gate_inv_release:
  assumes "gate_inv s" "pc s t = W_in"
  shows "gate_inv (goto s t Outside (0))"
proof -
  have "t \<in> writers s" using assms(2) by (simp add: writers_def)
  then have "writers s = {t}" "readers s = {}" using assms unfolding gate_inv_def by blast+
  then show ?thesis using assms by (auto simp: gate_inv_def moves)
qed

lemma gate_inv_step: "gate_inv s \<Longrightarrow> gate_step s s' \<Longrightarrow> gate_inv s'"
  by (elim gate_stepE) (auto intro: gate_inv_enter gate_inv_leave gate_inv_claim gate_inv_drained gate_inv_release gate_inv_wait)

lemma gate_reachable_inv: "gate_reachable s \<Longrightarrow> gate_inv s"
  by (induction rule: gate_reachable.induct) (auto intro: gate_inv_init gate_inv_step)

section \<open>Exclusion and progress\<close>

lemma w_in_writer: "pc s t = W_in \<Longrightarrow> t \<in> writers s" "pc s t = W_drain \<Longrightarrow> t \<in> writers s"
  by (simp_all add: writers_def)

text \<open>While a writer waits, no thread enters: the only steps that change who is inside are readers leaving and
  the writer's own last step.\<close>

lemma drain_steps:
  assumes "gate_inv s" "pc s t = W_drain" "gate_step s s'"
  shows "readers s' \<subseteq> readers s \<and> (pc s' t = W_drain \<or> (pc s' t = W_in \<and> readers s = {}))"
proof -
  have w: "t \<in> writers s" using assms(2) by (simp add: writers_def)
  then have full: "2 ^ 31 \<le> unat (cpu_llsc_dma_gate s)" using assms(1) by (auto simp: gate_inv_def)
  have "\<not> reader_may_enter (cpu_llsc_dma_gate s)" "\<not> writer_may_enter (cpu_llsc_dma_gate s)"
    using full by (auto simp: reader_may_enter_def writer_may_enter_def gate_writer)
  moreover have "readers s = {}" if "cpu_llsc_dma_gate s AND CPU_LLSC_DMA_READERS = 0"
    using gate_inv_drained [OF assms(1,2) that] assms(2) outside_sets(1) [of s t] by (auto simp: gate_inv_def moves)
  ultimately show ?thesis using assms(2,3) w by (elim gate_stepE) (auto simp: moves writers_def split: if_splits)
qed

text \<open>
  C9. The LL/SC gate excludes: in every state that any number of threads can reach by interleaving
  their atomic accesses to the gate, a device writer that has entered is alone (no LL/SC operation
  and no second writer is inside), and while a writer waits for the readers no other thread enters,
  so that the readers inside can only become fewer; when the last has left, the writer's next look
  at the word lets it in.
\<close>

theorem gate_exclusive:
  assumes "gate_reachable s"
  shows "(pc s t = W_in \<longrightarrow> readers s = {} \<and> writers s = {t}) \<and>
    (pc s t = W_drain \<longrightarrow> (\<forall>u. pc s u \<noteq> W_in) \<and> (\<forall>s'. gate_step s s' \<longrightarrow> readers s' \<subseteq> readers s) \<and>
      (readers s = {} \<longrightarrow> pci_dma_write_enter t s (goto s t W_in (cpu_llsc_dma_gate s))))"
proof -
  have i: "gate_inv s" using assms by (rule gate_reachable_inv)
  have "unat (cpu_llsc_dma_gate s AND CPU_LLSC_DMA_READERS) = 0" if "readers s = {}"
    using i that by (simp add: gate_readers gate_inv_def)
  then have "cpu_llsc_dma_gate s AND CPU_LLSC_DMA_READERS = 0" if "readers s = {}"
    using that by (simp add: unat_eq_0)
  moreover have "pc s u \<noteq> W_in" if "pc s t = W_drain" for u
    using i that w_in_writer [of s] unfolding gate_inv_def by (metis gate_pc.distinct(29))
  ultimately show ?thesis
    using i drain_steps [OF i] w_in_writer [of s t] unfolding gate_inv_def by (auto intro: w_drained)
qed


text \<open>Thread 0 enters as a reader and thread 1, a device, claims the gate and waits.\<close>

definition example_gate :: gate_state where
  "example_gate = goto (goto (goto (goto gate_init 0 (R_try 0) 0) 0 R_in 1) 1 (W_try 1) 1) 1 W_drain 0x80000001"

lemma example_gate_reachable: "gate_reachable example_gate"
proof -
  let ?s1 = "goto gate_init 0 (R_try 0) 0"
  let ?s2 = "goto ?s1 0 R_in 1"
  let ?s3 = "goto ?s2 1 (W_try 1) 1"
  have "gate_reachable ?s1"
    using go [OF start gate_step.intros(1) [OF r_load [of gate_init 0]]] by (simp add: gate_init_def)
  then have "gate_reachable ?s2"
    using go [OF _ gate_step.intros(1) [OF r_cas [of ?s1 0 0]]] by (simp add: moves reader_may_enter_def)
  then have "gate_reachable ?s3"
    using go [OF _ gate_step.intros(3) [OF w_load [of ?s2 1]]] by (simp add: moves gate_init_def)
  then show ?thesis
    using go [OF _ gate_step.intros(3) [OF w_cas [of ?s3 1 1]]]
    by (simp add: moves writer_may_enter_def example_gate_def)
qed

theorem gate_exclusive_witness:
  "pc example_gate 1 = W_drain \<and> readers example_gate = {0} \<and> (\<forall>u. pc example_gate u \<noteq> W_in)"
proof -
  have w: "pc example_gate 1 = W_drain" "readers example_gate = {0}"
    by (auto simp: example_gate_def moves) (simp add: gate_init_def readers_def)
  then show ?thesis using gate_exclusive [OF example_gate_reachable, of 1] by simp
qed

end
