(* ===== verification/Disk_Overlay.thy ===== *)
theory Disk_Overlay
  imports Axp_Prelude
begin

text \<open>
  The copy-on-write overlay of a disk image, \<^verbatim>\<open>src/src/devices/storage/DiskOverlay.cpp\<close>: opening
  and creating the overlay file (header, hash of the base, cluster map), the copy of a cluster on
  its first write, reads and writes across clusters. A file is its length and its bytes; every access
  to a file may fail, and a write that fails may have left any prefix of its bytes behind. Sizes and
  positions are natural numbers; the 32-bit cluster and slot numbers wrap where the source's do.
\<close>

section \<open>Files\<close>

record disk_file =
  flen :: nat
  fbyte :: "nat \<Rightarrow> u8"

text \<open>What the next accesses do: \<open>None\<close> succeeds, \<open>Some k\<close> fails after \<open>k\<close> bytes; after the list, every access succeeds.\<close>

type_synonym faults = "nat option list"

definition next_fault :: "faults \<Rightarrow> nat option \<times> faults" where
  "next_fault fs = (case fs of [] \<Rightarrow> (None, []) | f # fs \<Rightarrow> (f, fs))"

definition bytes_at :: "disk_file \<Rightarrow> nat \<Rightarrow> nat \<Rightarrow> u8 list" where
  "bytes_at f pos n = map (fbyte f) [pos..<pos + n]"

definition put_bytes :: "disk_file \<Rightarrow> nat \<Rightarrow> u8 list \<Rightarrow> disk_file" where
  "put_bytes f pos bs =
     (if bs = [] then f
      else \<lparr>flen = max (flen f) (pos + length bs),
            fbyte = (\<lambda>p. if pos \<le> p \<and> p < pos + length bs then bs ! (p - pos)
                         else if p < flen f then fbyte f p else 0)\<rparr>)"

definition read_at :: "disk_file \<Rightarrow> nat \<Rightarrow> nat \<Rightarrow> faults \<Rightarrow> u8 list option \<times> faults" where
  "read_at f pos n fs =
     (case next_fault fs of
        (None, fs) \<Rightarrow> (if pos + n \<le> flen f then Some (bytes_at f pos n) else None, fs)
      | (Some _, fs) \<Rightarrow> (None, fs))"

definition write_at :: "disk_file \<Rightarrow> nat \<Rightarrow> u8 list \<Rightarrow> faults \<Rightarrow> disk_file \<times> bool \<times> faults" where
  "write_at f pos bs fs =
     (case next_fault fs of
        (None, fs) \<Rightarrow> (put_bytes f pos bs, True, fs)
      | (Some k, fs) \<Rightarrow> (put_bytes f pos (take k bs), False, fs))"

section \<open>The overlay file\<close>

definition kCluster :: nat where "kCluster = 0x10000"
definition kMapStart :: nat where "kMapStart = 4096"
definition kVersion :: u32 where "kVersion = 1"

definition kMagic :: "u8 list" where
  "kMagic = [0x41, 0x42, 0x58, 0x43, 0x4f, 0x57, 0x30, 0x31]"

definition put32 :: "u32 \<Rightarrow> u8 list" where
  "put32 v = map (\<lambda>i. ucast (drop_bit (8 * i) v)) [0, 1, 2, 3]"

definition put64 :: "u64 \<Rightarrow> u8 list" where
  "put64 v = map (\<lambda>i. ucast (drop_bit (8 * i) v)) [0, 1, 2, 3, 4, 5, 6, 7]"

definition get32 :: "u8 list \<Rightarrow> u32" where
  "get32 p = ucast (p ! 0) OR push_bit 8 (ucast (p ! 1)) OR push_bit 16 (ucast (p ! 2)) OR push_bit 24 (ucast (p ! 3))"

definition get64 :: "u8 list \<Rightarrow> u64" where
  "get64 p = ucast (get32 p) OR push_bit 32 (ucast (get32 (drop 4 p)))"

record overlay =
  base :: disk_file
  base_size :: nat
  ofile :: disk_file
  data_start :: nat
  omap :: "u32 list"
  used :: u32
  faults :: faults

definition fnv :: "u64 \<Rightarrow> u8 list \<Rightarrow> u64" where
  "fnv h bs = foldl (\<lambda>h b. (h XOR ucast b) * 0x100000001b3) h bs"

definition base_tag :: "disk_file \<Rightarrow> nat \<Rightarrow> faults \<Rightarrow> u64 option \<times> faults" where
  "base_tag b sz fs =
     (let lst = (if sz > kCluster then sz - kCluster else 0) in
      case read_at b 0 (min sz kCluster) fs of
        (None, fs) \<Rightarrow> (None, fs)
      | (Some bs, fs) \<Rightarrow>
          (case read_at b lst (min (sz - lst) kCluster) fs of
             (None, fs) \<Rightarrow> (None, fs)
           | (Some cs, fs) \<Rightarrow> (Some (fnv (fnv 0xcbf29ce484222325 bs) cs), fs)))"

definition clusters_of :: "nat \<Rightarrow> nat" where
  "clusters_of sz = (sz + kCluster - 1) div kCluster mod 2 ^ 32"

definition slot_offset :: "overlay \<Rightarrow> u32 \<Rightarrow> nat" where
  "slot_offset ov slot = data_start ov + unat slot * kCluster"

datatype open_error = Cannot_read_base | Not_an_overlay | Another_base | Map_cut_short | Cannot_open | Cannot_create | Cannot_write

text \<open>What the host answers for the overlay's path: the file, no such file (and whether one can be made), or another error.\<close>

datatype host_file = Present disk_file | Absent bool | Inaccessible

definition header :: "nat \<Rightarrow> u64 \<Rightarrow> u8 list" where
  "header sz tag = kMagic @ put32 kVersion @ put32 (of_nat kCluster) @ put64 (of_nat sz) @ put64 tag @
     put32 (of_nat (clusters_of sz))"

definition open_present :: "overlay \<Rightarrow> u64 \<Rightarrow> open_error + overlay" where
  "open_present ov tag =
     (case read_at (ofile ov) 0 40 (faults ov) of
        (None, fs) \<Rightarrow> Inl Not_an_overlay
      | (Some hdr, fs) \<Rightarrow>
          if take 8 hdr \<noteq> kMagic \<or> get32 (drop 8 hdr) \<noteq> kVersion \<or> get32 (drop 12 hdr) \<noteq> of_nat kCluster
          then Inl Not_an_overlay
          else if get64 (drop 16 hdr) \<noteq> of_nat (base_size ov) \<or> get64 (drop 24 hdr) \<noteq> tag \<or>
                  get32 (drop 32 hdr) \<noteq> of_nat (length (omap ov))
          then Inl Another_base
          else (case read_at (ofile ov) kMapStart (length (omap ov) * 4) fs of
                  (None, fs) \<Rightarrow> Inl Map_cut_short
                | (Some raw, fs) \<Rightarrow>
                    let mp = map (\<lambda>c. get32 (drop (c * 4) raw)) [0..<length (omap ov)]
                    in Inr (ov\<lparr>omap := mp, used := foldl max 0 mp, faults := fs\<rparr>)))"

definition open_absent :: "overlay \<Rightarrow> u64 \<Rightarrow> open_error + overlay" where
  "open_absent ov tag =
     (let hdr = header (base_size ov) tag;
          head = hdr @ replicate (data_start ov - length hdr) 0
      in case write_at \<lparr>flen = 0, fbyte = (\<lambda>_. 0)\<rparr> 0 head (faults ov) of
           (f, ok, fs) \<Rightarrow> if \<not> ok then Inl Cannot_write
             else (case next_fault fs of
                     (None, fs) \<Rightarrow> Inr (ov\<lparr>ofile := f, faults := fs\<rparr>)
                   | (Some _, fs) \<Rightarrow> Inl Cannot_write))"

definition overlay_open :: "disk_file \<Rightarrow> nat \<Rightarrow> host_file \<Rightarrow> faults \<Rightarrow> open_error + overlay" where
  "overlay_open b sz host fs =
     (case base_tag b sz fs of
        (None, fs) \<Rightarrow> Inl Cannot_read_base
      | (Some tag, fs) \<Rightarrow>
          let clusters = clusters_of sz;
              ov = \<lparr>base = b, base_size = sz, ofile = \<lparr>flen = 0, fbyte = (\<lambda>_. 0)\<rparr>,
                    data_start = (kMapStart + clusters * 4 + kCluster - 1) div kCluster * kCluster,
                    omap = replicate clusters 0, used = 0, faults = fs\<rparr>
          in case host of
               Present f \<Rightarrow> open_present (ov\<lparr>ofile := f\<rparr>) tag
             | Absent creatable \<Rightarrow> if creatable then open_absent ov tag else Inl Cannot_create
             | Inaccessible \<Rightarrow> Inl Cannot_open)"

section \<open>Reading and writing\<close>

definition claim :: "overlay \<Rightarrow> nat \<Rightarrow> overlay \<times> bool" where
  "claim ov c =
     (let at = c * kCluster; n = min (base_size ov - at) kCluster
      in case read_at (base ov) at n (faults ov) of
           (None, fs) \<Rightarrow> (ov\<lparr>faults := fs\<rparr>, False)
         | (Some bs, fs) \<Rightarrow>
             let slot = used ov
             in case write_at (ofile ov) (slot_offset ov slot) (bs @ replicate (kCluster - n) 0) fs of
                  (f, ok, fs) \<Rightarrow>
                    if \<not> ok then (ov\<lparr>ofile := f, faults := fs\<rparr>, False)
                    else (case write_at f (kMapStart + c * 4) (put32 (slot + 1)) fs of
                            (f, ok, fs) \<Rightarrow>
                              if \<not> ok then (ov\<lparr>ofile := f, faults := fs\<rparr>, False)
                              else (ov\<lparr>ofile := f, faults := fs, omap := (omap ov)[c := slot + 1], used := slot + 1\<rparr>, True)))"

definition chunk_len :: "overlay \<Rightarrow> nat \<Rightarrow> nat \<Rightarrow> nat" where
  "chunk_len ov pos n = min (min n (kCluster - pos mod kCluster)) (base_size ov - pos)"

definition cluster_no :: "nat \<Rightarrow> nat" where
  "cluster_no pos = pos div kCluster mod 2 ^ 32"

definition read_chunk :: "overlay \<Rightarrow> nat \<Rightarrow> nat \<Rightarrow> overlay \<times> u8 list option" where
  "read_chunk ov pos len =
     (let e = omap ov ! cluster_no pos;
          (r, fs) = (if e \<noteq> 0 then read_at (ofile ov) (slot_offset ov (e - 1) + pos mod kCluster) len (faults ov)
                     else read_at (base ov) pos len (faults ov))
      in (ov\<lparr>faults := fs\<rparr>, r))"

lemma chunk_len_pos: "0 < n \<Longrightarrow> pos < base_size ov \<Longrightarrow> 0 < chunk_len ov pos n"
  by (simp add: chunk_len_def kCluster_def)

function overlay_read :: "overlay \<Rightarrow> nat \<Rightarrow> nat \<Rightarrow> overlay \<times> u8 list" where
  "overlay_read ov pos n =
     (if n = 0 \<or> pos \<ge> base_size ov then (ov, [])
      else let len = chunk_len ov pos n
           in case read_chunk ov pos len of
                (ov, None) \<Rightarrow> (ov, [])
              | (ov, Some bs) \<Rightarrow> (case overlay_read ov (pos + len) (n - len) of (ov, rest) \<Rightarrow> (ov, bs @ rest)))"
  by pat_completeness auto
termination
  by (relation "measure (\<lambda>(ov, pos, n). n)") (auto simp: diff_less chunk_len_pos)

definition write_chunk :: "overlay \<Rightarrow> nat \<Rightarrow> u8 list \<Rightarrow> overlay \<times> bool" where
  "write_chunk ov pos bs =
     (let c = cluster_no pos;
          (ov, ok) = (if omap ov ! c = 0 then claim ov c else (ov, True))
      in if \<not> ok then (ov, False)
         else case write_at (ofile ov) (slot_offset ov (omap ov ! c - 1) + pos mod kCluster) bs (faults ov) of
                (f, ok, fs) \<Rightarrow> (ov\<lparr>ofile := f, faults := fs\<rparr>, ok))"

function overlay_write :: "overlay \<Rightarrow> nat \<Rightarrow> u8 list \<Rightarrow> overlay \<times> nat" where
  "overlay_write ov pos bs =
     (if bs = [] \<or> pos \<ge> base_size ov then (ov, 0)
      else let len = chunk_len ov pos (length bs)
           in case write_chunk ov pos (take len bs) of
                (ov, False) \<Rightarrow> (ov, 0)
              | (ov, True) \<Rightarrow> (case overlay_write ov (pos + len) (drop len bs) of (ov, done) \<Rightarrow> (ov, len + done)))"
  by pat_completeness auto
termination
  by (relation "measure (\<lambda>(ov, pos, bs). length bs)") (auto simp: chunk_len_pos)

declare overlay_read.simps [simp del] overlay_write.simps [simp del]

end
