(* ===== verification/Disk_Overlay_Facts.thy ===== *)
theory Disk_Overlay_Facts
  imports Disk_Overlay
begin

text \<open>
  The overlay is a disk: whatever was written and whichever accesses failed, the bytes of the overlay
  and of the base together behave as one array of bytes, the base is never changed, and the overlay
  file opened again gives the same disk.
\<close>

section \<open>Files\<close>

lemma flen_put: "flen (put_bytes f pos bs) = (if bs = [] then flen f else max (flen f) (pos + length bs))"
  by (simp add: put_bytes_def)

lemma flen_put_mono: "flen f \<le> flen (put_bytes f pos bs)"
  by (simp add: flen_put)

lemma put_outside: "p < flen f \<Longrightarrow> \<not> (pos \<le> p \<and> p < pos + length bs) \<Longrightarrow> fbyte (put_bytes f pos bs) p = fbyte f p"
  by (auto simp: put_bytes_def)

lemma put_inside: "pos \<le> p \<Longrightarrow> p < pos + length bs \<Longrightarrow> fbyte (put_bytes f pos bs) p = bs ! (p - pos)"
  by (auto simp: put_bytes_def)

lemma next_fault_cases:
  obtains (none) fs' where "next_fault fs = (None, fs')" "fs = [] \<Longrightarrow> fs' = []"
    | (some) k fs' where "next_fault fs = (Some k, fs')" "fs \<noteq> []"
  by (cases fs; cases "hd fs") (auto simp: next_fault_def)

lemma write_at_cases:
  obtains (ok) fs' where "write_at f pos bs fs = (put_bytes f pos bs, True, fs')" "fs = [] \<Longrightarrow> fs' = []"
    | (fail) k fs' where "write_at f pos bs fs = (put_bytes f pos (take k bs), False, fs')" "fs \<noteq> []"
  by (cases fs rule: next_fault_cases) (auto simp: write_at_def)

lemma read_at_cases:
  obtains (ok) fs' where "read_at f pos n fs = (Some (bytes_at f pos n), fs')" "fs = [] \<Longrightarrow> fs' = []" "pos + n \<le> flen f"
    | (fail) fs' where "read_at f pos n fs = (None, fs')" "fs \<noteq> [] \<or> flen f < pos + n"
  by (cases fs rule: next_fault_cases; cases "pos + n \<le> flen f") (auto simp: read_at_def)

section \<open>The invariant\<close>

definition ov_ok :: "overlay \<Rightarrow> bool" where
  "ov_ok ov \<longleftrightarrow> base_size ov \<le> flen (base ov) \<and> base_size ov < 2 ^ 47 \<and>
     length (omap ov) = clusters_of (base_size ov) \<and> kMapStart + length (omap ov) * 4 \<le> data_start ov \<and>
     (\<forall>c<length (omap ov). unat (omap ov ! c) \<le> unat (used ov)) \<and>
     (\<forall>c<length (omap ov). \<forall>d<length (omap ov). omap ov ! c = omap ov ! d \<longrightarrow> omap ov ! c \<noteq> 0 \<longrightarrow> c = d) \<and>
     length (filter (\<lambda>e. e \<noteq> 0) (omap ov)) = unat (used ov) \<and>
     data_start ov + unat (used ov) * kCluster \<le> flen (ofile ov)"

text \<open>Where byte \<open>p\<close> of the disk is in the overlay file, when its cluster has a slot, and the byte of the disk.\<close>

definition slot_pos :: "overlay \<Rightarrow> nat \<Rightarrow> nat" where
  "slot_pos ov p = slot_offset ov (omap ov ! cluster_no p - 1) + p mod kCluster"

definition disk_byte :: "overlay \<Rightarrow> nat \<Rightarrow> u8" where
  "disk_byte ov p = (if omap ov ! cluster_no p = 0 then fbyte (base ov) p else fbyte (ofile ov) (slot_pos ov p))"

lemma kCluster_pos [simp]: "0 < kCluster" by (simp add: kCluster_def)

lemma cluster_no: "p < 2 ^ 47 \<Longrightarrow> cluster_no p = p div kCluster"
  by (simp add: cluster_no_def kCluster_def less_mult_imp_div_less)

lemma clusters_of: "sz < 2 ^ 47 \<Longrightarrow> clusters_of sz = (sz + kCluster - 1) div kCluster"
  by (simp add: clusters_of_def kCluster_def less_mult_imp_div_less)

lemma clusters_less: "sz < 2 ^ 47 \<Longrightarrow> clusters_of sz < 2 ^ 32"
  by (simp add: clusters_of_def)

lemma cluster_in_range:
  assumes "ov_ok ov" "p < base_size ov"
  shows "cluster_no p < length (omap ov)"
proof -
  have "(p + kCluster) div kCluster \<le> (base_size ov + kCluster - 1) div kCluster"
    using assms(2) by (intro div_le_mono) simp
  then have "p div kCluster < (base_size ov + kCluster - 1) div kCluster" by (simp add: div_add_self2)
  then show ?thesis using assms by (simp add: ov_ok_def cluster_no clusters_of)
qed

lemma pred_less: "unat e \<le> unat u \<Longrightarrow> e \<noteq> 0 \<Longrightarrow> unat (e - 1) < unat (u :: u32)"
  using unat_minus_one [of e] unat_eq_0 [of e] by linarith

lemma slot_pos_bounds:
  assumes "ov_ok ov" "p < base_size ov" "omap ov ! cluster_no p \<noteq> 0"
  shows "data_start ov \<le> slot_pos ov p" "slot_pos ov p < data_start ov + unat (used ov) * kCluster"
    "slot_pos ov p < flen (ofile ov)"
proof -
  let ?e = "omap ov ! cluster_no p"
  have "unat (?e - 1) < unat (used ov)"
    using assms cluster_in_range [OF assms(1,2)] by (intro pred_less) (auto simp: ov_ok_def)
  then have "Suc (unat (?e - 1)) * kCluster \<le> unat (used ov) * kCluster" by (intro mult_le_mono1) simp
  moreover have "p mod kCluster < kCluster" by simp
  ultimately show "slot_pos ov p < data_start ov + unat (used ov) * kCluster"
    unfolding slot_pos_def slot_offset_def mult_Suc by linarith
  then show "slot_pos ov p < flen (ofile ov)" using assms(1) by (simp add: ov_ok_def)
  show "data_start ov \<le> slot_pos ov p" by (simp add: slot_pos_def slot_offset_def)
qed

lemma slot_pos_inj:
  assumes "ov_ok ov" "p < base_size ov" "q < base_size ov" "omap ov ! cluster_no p \<noteq> 0" "omap ov ! cluster_no q \<noteq> 0"
    and "slot_pos ov p = slot_pos ov q"
  shows "p = q"
proof -
  have sz: "base_size ov < 2 ^ 47" using assms(1) by (simp add: ov_ok_def)
  have "unat (omap ov ! cluster_no p - 1) * kCluster + p mod kCluster =
      unat (omap ov ! cluster_no q - 1) * kCluster + q mod kCluster"
    using assms(6) by (simp add: slot_pos_def slot_offset_def)
  then have "(unat (omap ov ! cluster_no p - 1) * kCluster + p mod kCluster) div kCluster =
      (unat (omap ov ! cluster_no q - 1) * kCluster + q mod kCluster) div kCluster" and
    m: "(unat (omap ov ! cluster_no p - 1) * kCluster + p mod kCluster) mod kCluster =
      (unat (omap ov ! cluster_no q - 1) * kCluster + q mod kCluster) mod kCluster" by simp_all
  then have "omap ov ! cluster_no p - 1 = omap ov ! cluster_no q - 1" by (simp add: word_unat_eq_iff)
  then have "omap ov ! cluster_no p = omap ov ! cluster_no q" by simp
  then have "cluster_no p = cluster_no q"
    using assms cluster_in_range [OF assms(1)] by (auto simp: ov_ok_def)
  then have "p div kCluster = q div kCluster" using sz assms(2,3) by (simp add: cluster_no)
  then show "p = q" using m by simp (metis div_mult_mod_eq)
qed

lemma slot_pos_run:
  assumes "pos \<le> p" "p < pos + len" "len \<le> kCluster - pos mod kCluster" "p < 2 ^ 47"
  shows "cluster_no p = cluster_no pos" "slot_pos ov p = slot_pos ov pos + (p - pos)"
proof -
  define r where "r = p - pos"
  have r: "p = pos + r" "pos mod kCluster + r < kCluster" using assms by (auto simp: r_def)
  have "p div kCluster = pos div kCluster" "p mod kCluster = pos mod kCluster + r"
    using r(2) unfolding r(1) by (simp_all add: div_add1_eq [of pos] mod_add_left_eq [of pos kCluster r, symmetric])
  then show "cluster_no p = cluster_no pos" "slot_pos ov p = slot_pos ov pos + (p - pos)"
    using assms(1,4) r by (simp_all add: cluster_no slot_pos_def)
qed

section \<open>Writing into a slot\<close>

text \<open>What a change of the overlay file outside the slots in use leaves alone.\<close>

lemma other_bytes:
  assumes "ov_ok ov" "flen (ofile ov) \<le> flen f"
    and "\<And>q. data_start ov \<le> q \<Longrightarrow> q < data_start ov + unat (used ov) * kCluster \<Longrightarrow> fbyte f q = fbyte (ofile ov) q"
  shows "ov_ok (ov\<lparr>ofile := f, faults := fs\<rparr>)"
    "p < base_size ov \<Longrightarrow> disk_byte (ov\<lparr>ofile := f, faults := fs\<rparr>) p = disk_byte ov p"
proof -
  show "ov_ok (ov\<lparr>ofile := f, faults := fs\<rparr>)" using assms(1,2) by (simp add: ov_ok_def)
  show "disk_byte (ov\<lparr>ofile := f, faults := fs\<rparr>) p = disk_byte ov p" if "p < base_size ov"
    using slot_pos_bounds [OF assms(1) that] assms(3) by (simp add: disk_byte_def slot_pos_def slot_offset_def)
qed

lemma slot_write:
  fixes ov pos bs fs
  assumes ok: "ov_ok ov" and pos: "pos < base_size ov" "omap ov ! cluster_no pos \<noteq> 0"
    and len: "length bs \<le> kCluster - pos mod kCluster" "length bs \<le> base_size ov - pos"
  defines "ov' \<equiv> ov\<lparr>ofile := put_bytes (ofile ov) (slot_pos ov pos) bs, faults := fs\<rparr>"
  shows "ov_ok ov'" "p < base_size ov \<Longrightarrow> disk_byte ov' p =
    (if pos \<le> p \<and> p < pos + length bs then bs ! (p - pos) else disk_byte ov p)"
proof -
  show "ov_ok ov'" using ok flen_put_mono [of "ofile ov" "slot_pos ov pos" bs] by (auto simp: ov_ok_def ov'_def)
  assume p: "p < base_size ov"
  have sz: "base_size ov < 2 ^ 47" using ok by (simp add: ov_ok_def)
  have run: "cluster_no q = cluster_no pos" "slot_pos ov q = slot_pos ov pos + (q - pos)" if "pos \<le> q" "q < pos + length bs" for q
    using slot_pos_run [OF that len(1)] that len(2) pos(1) sz by auto
  have same: "slot_pos ov' p = slot_pos ov p" "omap ov' = omap ov" "base ov' = base ov"
    by (simp_all add: ov'_def slot_pos_def slot_offset_def)
  show "disk_byte ov' p = (if pos \<le> p \<and> p < pos + length bs then bs ! (p - pos) else disk_byte ov p)"
  proof (cases "pos \<le> p \<and> p < pos + length bs")
    case True
    then have "fbyte (ofile ov') (slot_pos ov p) = bs ! (slot_pos ov p - slot_pos ov pos)"
      using run(2) [of p] put_inside [of "slot_pos ov pos" "slot_pos ov p" bs "ofile ov"] by (auto simp: ov'_def)
    also have "slot_pos ov p - slot_pos ov pos = p - pos" using run(2) [of p] True by simp
    finally have "fbyte (ofile ov') (slot_pos ov p) = bs ! (p - pos)" .
    then show ?thesis using True run(1) [of p] pos(2) same by (simp add: disk_byte_def)
  next
    case False
    have "\<not> (slot_pos ov pos \<le> slot_pos ov p \<and> slot_pos ov p < slot_pos ov pos + length bs)"
      if e: "omap ov ! cluster_no p \<noteq> 0"
    proof
      assume a: "slot_pos ov pos \<le> slot_pos ov p \<and> slot_pos ov p < slot_pos ov pos + length bs"
      define q where "q = pos + (slot_pos ov p - slot_pos ov pos)"
      have q: "pos \<le> q" "q < pos + length bs" using a by (auto simp: q_def)
      then have "slot_pos ov q = slot_pos ov p" "q < base_size ov" "omap ov ! cluster_no q \<noteq> 0"
        using run [of q] a len(2) pos by (auto simp: q_def)
      then have "q = p" using slot_pos_inj [OF ok _ p _ e] by blast
      then show False using q False by simp
    qed
    then show ?thesis
      using False same slot_pos_bounds(3) [OF ok p] by (auto simp: disk_byte_def ov'_def put_outside)
  qed
qed

section \<open>Claiming a cluster\<close>

lemma used_less:
  assumes "ov_ok ov" "c < length (omap ov)" "omap ov ! c = 0"
  shows "unat (used ov) < length (omap ov)" "unat (used ov + 1) = unat (used ov) + 1" "used ov + 1 \<noteq> 0"
proof -
  have "length (filter (\<lambda>e. e \<noteq> 0) (omap ov)) < length (omap ov)"
    using assms(2,3) nth_mem [of c "omap ov"] by (intro length_filter_less [of 0]) auto
  then show l: "unat (used ov) < length (omap ov)" using assms(1) by (simp add: ov_ok_def)
  have "length (omap ov) < 2 ^ 32" using assms(1) clusters_less by (simp add: ov_ok_def)
  then show u: "unat (used ov + 1) = unat (used ov) + 1" using l by (simp add: unat_word_ariths)
  then show "used ov + 1 \<noteq> 0" by (metis add_is_0 one_neq_zero unat_0)
qed

lemma filter_update:
  "c < length xs \<Longrightarrow> xs ! c = 0 \<Longrightarrow> v \<noteq> 0 \<Longrightarrow> length (filter (\<lambda>e. e \<noteq> 0) (xs[c := v])) = Suc (length (filter (\<lambda>e. e \<noteq> (0 :: u32)) xs))"
  by (induction xs arbitrary: c) (auto simp: nth_Cons' gr0_conv_Suc split: if_splits nat.splits)

text \<open>A claim moves the cluster's bytes into the overlay or fails; the disk reads the same either way.\<close>

definition same_disk :: "overlay \<Rightarrow> overlay \<Rightarrow> bool" where
  "same_disk ov ov' \<longleftrightarrow> ov_ok ov' \<and> base ov' = base ov \<and> base_size ov' = base_size ov \<and>
     data_start ov' = data_start ov \<and> (\<forall>p<base_size ov. disk_byte ov' p = disk_byte ov p)"

lemma new_slot:
  fixes ov c f fs
  assumes ok: "ov_ok ov" and c: "c < length (omap ov)" "omap ov ! c = 0"
    and f: "flen (ofile ov) \<le> flen f" "slot_offset ov (used ov) + kCluster \<le> flen f"
    and old: "\<And>q. data_start ov \<le> q \<Longrightarrow> q < data_start ov + unat (used ov) * kCluster \<Longrightarrow> fbyte f q = fbyte (ofile ov) q"
    and new: "\<And>q. q < kCluster \<Longrightarrow> c * kCluster + q < base_size ov \<Longrightarrow>
      fbyte f (slot_offset ov (used ov) + q) = fbyte (base ov) (c * kCluster + q)"
  defines "ov' \<equiv> ov\<lparr>ofile := f, faults := fs, omap := (omap ov)[c := used ov + 1], used := used ov + 1\<rparr>"
  shows "same_disk ov ov'"
proof -
  note u = used_less [OF ok c]
  have sz: "base_size ov < 2 ^ 47" using ok by (simp add: ov_ok_def)
  have le: "\<forall>d<length (omap ov). unat (omap ov ! d) \<le> unat (used ov)"
    and inj: "\<forall>c<length (omap ov). \<forall>d<length (omap ov). omap ov ! c = omap ov ! d \<longrightarrow> omap ov ! c \<noteq> 0 \<longrightarrow> c = d"
    using ok unfolding ov_ok_def by blast+
  have fresh: "omap ov ! d \<noteq> used ov + 1" if "d < length (omap ov)" for d
    using ok that u(2) unfolding ov_ok_def by (metis Suc_eq_plus1 Suc_n_not_le_n)
  have "data_start ov + unat (used ov + 1) * kCluster \<le> flen f"
    using f(2) u(2) by (simp add: slot_offset_def algebra_simps)
  moreover have "\<forall>d<length (omap ov). unat ((omap ov)[c := used ov + 1] ! d) \<le> unat (used ov + 1)"
    using le u(2) c(1) by (auto simp: nth_list_update le_SucI)
  moreover have "\<forall>d<length (omap ov). \<forall>e<length (omap ov).
      (omap ov)[c := used ov + 1] ! d = (omap ov)[c := used ov + 1] ! e \<longrightarrow> (omap ov)[c := used ov + 1] ! d \<noteq> 0 \<longrightarrow> d = e"
    using inj fresh c(1) by (simp add: nth_list_update) metis
  ultimately have "ov_ok ov'"
    using ok c u filter_update [OF c u(3)] unfolding ov'_def by (simp add: ov_ok_def)
  moreover have "disk_byte ov' p = disk_byte ov p" if p: "p < base_size ov" for p
  proof (cases "cluster_no p = c")
    case True
    then have "c * kCluster + p mod kCluster = p" using p sz by (simp add: cluster_no) (metis div_mult_mod_eq)
    then show ?thesis
      using True c p u(3) new [of "p mod kCluster"] by (simp add: disk_byte_def slot_pos_def slot_offset_def ov'_def)
  next
    case False
    then have "omap ov' ! cluster_no p = omap ov ! cluster_no p" "slot_pos ov' p = slot_pos ov p"
      by (simp_all add: ov'_def slot_pos_def slot_offset_def)
    then show ?thesis using slot_pos_bounds [OF ok p] old by (simp add: disk_byte_def ov'_def)
  qed
  ultimately show ?thesis by (simp add: same_disk_def ov'_def)
qed

lemma same_disk_faults:
  assumes "ov_ok ov" shows "same_disk ov (ov\<lparr>faults := fs\<rparr>)"
  using assms by (simp add: same_disk_def ov_ok_def disk_byte_def slot_pos_def slot_offset_def)

lemma same_disk_trans: "same_disk a b \<Longrightarrow> same_disk b c \<Longrightarrow> same_disk a c"
  by (simp add: same_disk_def)

text \<open>A file that keeps the slots in use.\<close>

lemma same_disk_file:
  assumes "ov_ok ov" "flen (ofile ov) \<le> flen f"
    and "\<And>q. data_start ov \<le> q \<Longrightarrow> q < data_start ov + unat (used ov) * kCluster \<Longrightarrow> fbyte f q = fbyte (ofile ov) q"
  shows "same_disk ov (ov\<lparr>ofile := f, faults := fs\<rparr>)"
  using other_bytes [OF assms] by (simp add: same_disk_def)

lemma slot_region:
  assumes "ov_ok ov" "data_start ov \<le> q" "q < data_start ov + unat (used ov) * kCluster"
  shows "fbyte (put_bytes (ofile ov) (slot_offset ov (used ov)) bs) q = fbyte (ofile ov) q"
  using assms by (intro put_outside) (auto simp: ov_ok_def slot_offset_def)

lemma map_region:
  assumes "ov_ok ov" "c < length (omap ov)" "data_start ov \<le> q" "q < flen f" "length bs \<le> 4"
  shows "fbyte (put_bytes f (kMapStart + c * 4) bs) q = fbyte f q"
  using assms by (intro put_outside) (auto simp: ov_ok_def)

lemma cluster_start: "ov_ok ov \<Longrightarrow> c < length (omap ov) \<Longrightarrow> c * kCluster < base_size ov"
proof -
  assume "ov_ok ov" "c < length (omap ov)"
  then have "Suc c \<le> (base_size ov + kCluster - 1) div kCluster" by (simp add: ov_ok_def clusters_of)
  then have "Suc c * kCluster \<le> base_size ov + kCluster - 1"
    using div_times_less_eq_dividend le_trans mult_le_mono1 by blast
  then show ?thesis using kCluster_pos unfolding mult_Suc by linarith
qed

text \<open>The two writes of a claim: the copy of the cluster, then the map entry.\<close>

definition cluster_copy :: "overlay \<Rightarrow> nat \<Rightarrow> u8 list" where
  "cluster_copy ov c = (let n = min (base_size ov - c * kCluster) kCluster
     in bytes_at (base ov) (c * kCluster) n @ replicate (kCluster - n) 0)"

definition copied :: "overlay \<Rightarrow> nat \<Rightarrow> disk_file" where
  "copied ov c = put_bytes (ofile ov) (slot_offset ov (used ov)) (cluster_copy ov c)"

lemma length_copy [simp]: "length (cluster_copy ov c) = kCluster"
  by (simp add: cluster_copy_def bytes_at_def Let_def)

lemma copied_len: "flen (ofile ov) \<le> flen (copied ov c)" "slot_offset ov (used ov) + kCluster \<le> flen (copied ov c)"
proof -
  have "cluster_copy ov c \<noteq> []" by (metis kCluster_pos length_copy length_greater_0_conv)
  then show "flen (ofile ov) \<le> flen (copied ov c)" "slot_offset ov (used ov) + kCluster \<le> flen (copied ov c)"
    by (simp_all add: copied_def flen_put)
qed

lemma copied_new:
  assumes "q < kCluster" "c * kCluster + q < base_size ov"
  shows "fbyte (copied ov c) (slot_offset ov (used ov) + q) = fbyte (base ov) (c * kCluster + q)"
proof -
  have "fbyte (copied ov c) (slot_offset ov (used ov) + q) = cluster_copy ov c ! q"
    using assms(1) put_inside [of "slot_offset ov (used ov)" "slot_offset ov (used ov) + q" "cluster_copy ov c" "ofile ov"]
    by (simp add: copied_def)
  also have "\<dots> = fbyte (base ov) (c * kCluster + q)"
    using assms(1) less_diff_conv [of q "base_size ov" "c * kCluster"] assms(2)
    by (simp add: cluster_copy_def nth_append bytes_at_def Let_def add.commute)
  finally show ?thesis .
qed

lemma entry_keeps:
  assumes "ov_ok ov" "c < length (omap ov)" "length bs \<le> 4" "data_start ov \<le> q" "q < flen (copied ov c)"
  shows "fbyte (put_bytes (copied ov c) (kMapStart + c * 4) bs) q = fbyte (copied ov c) q"
  using assms map_region by blast

lemma entry_old:
  assumes ok: "ov_ok ov" and "c < length (omap ov)" "length bs \<le> 4"
    and q: "data_start ov \<le> q" "q < data_start ov + unat (used ov) * kCluster"
  shows "fbyte (put_bytes (copied ov c) (kMapStart + c * 4) bs) q = fbyte (ofile ov) q"
proof -
  have "q < flen (copied ov c)" using copied_len(2) [of ov c] q by (simp add: slot_offset_def)
  then show ?thesis using entry_keeps [OF assms(1-3) q(1)] slot_region [OF ok q] by (simp add: copied_def)
qed

lemma claimed_disk:
  assumes ok: "ov_ok ov" and c: "c < length (omap ov)" "omap ov ! c = 0"
  shows "same_disk ov (ov\<lparr>ofile := put_bytes (copied ov c) (kMapStart + c * 4) (put32 (used ov + 1)), faults := fs,
    omap := (omap ov)[c := used ov + 1], used := used ov + 1\<rparr>)"
proof (rule new_slot [OF ok c])
  have p: "length (put32 (used ov + 1)) \<le> 4" by (simp add: put32_def)
  let ?g = "put_bytes (copied ov c) (kMapStart + c * 4) (put32 (used ov + 1))"
  have g: "flen (copied ov c) \<le> flen ?g" by (rule flen_put_mono)
  then show "flen (ofile ov) \<le> flen ?g" "slot_offset ov (used ov) + kCluster \<le> flen ?g"
    using copied_len [of ov c] by simp_all
  show "fbyte ?g (slot_offset ov (used ov) + q) = fbyte (base ov) (c * kCluster + q)"
    if "q < kCluster" "c * kCluster + q < base_size ov" for q
    using entry_keeps [OF ok c(1) p, of "slot_offset ov (used ov) + q"] copied_len(2) [of ov c] copied_new [OF that] that
    by (simp add: slot_offset_def)
  show "fbyte ?g q = fbyte (ofile ov) q" if "data_start ov \<le> q" "q < data_start ov + unat (used ov) * kCluster" for q
    by (rule entry_old [OF ok c(1) p that])
qed

lemma claim_same_disk:
  assumes ok: "ov_ok ov" and c: "c < length (omap ov)" "omap ov ! c = 0"
  shows "same_disk ov (fst (claim ov c)) \<and> (snd (claim ov c) \<longrightarrow> omap (fst (claim ov c)) ! c \<noteq> 0) \<and>
    (faults ov = [] \<longrightarrow> snd (claim ov c) \<and> faults (fst (claim ov c)) = [])"
proof (cases rule: read_at_cases [of "base ov" "c * kCluster" "min (base_size ov - c * kCluster) kCluster" "faults ov"])
  case (fail fs)
  have "c * kCluster + min (base_size ov - c * kCluster) kCluster \<le> flen (base ov)"
    using ok cluster_start [OF ok c(1)] by (auto simp: ov_ok_def min_def)
  then show ?thesis using fail ok by (auto simp: claim_def Let_def same_disk_faults)
next
  case r: (ok fs)
  show ?thesis
  proof (cases rule: write_at_cases [of "ofile ov" "slot_offset ov (used ov)" "cluster_copy ov c" fs])
    case (fail k fs')
    have "same_disk ov (ov\<lparr>ofile := put_bytes (ofile ov) (slot_offset ov (used ov)) (take k (cluster_copy ov c)), faults := fs'\<rparr>)"
      by (rule same_disk_file [OF ok flen_put_mono slot_region [OF ok]])
    then show ?thesis using r fail by (auto simp: claim_def Let_def cluster_copy_def)
  next
    case w: (ok fs')
    show ?thesis
    proof (cases rule: write_at_cases [of "copied ov c" "kMapStart + c * 4" "put32 (used ov + 1)" fs'])
      case (fail k fs'')
      have "length (take k (put32 (used ov + 1))) \<le> 4" by (simp add: put32_def)
      then have "same_disk ov (ov\<lparr>ofile := put_bytes (copied ov c) (kMapStart + c * 4) (take k (put32 (used ov + 1))), faults := fs''\<rparr>)"
        by (intro same_disk_file [OF ok le_trans [OF copied_len(1) flen_put_mono]] entry_old [OF ok c(1)])
      then show ?thesis using r w fail by (auto simp: claim_def Let_def cluster_copy_def copied_def)
    next
      case m: (ok fs'')
      then show ?thesis
        using claimed_disk [OF ok c, of fs''] r w used_less(3) [OF ok c] c(1)
        by (auto simp: claim_def Let_def cluster_copy_def copied_def)
    qed
  qed
qed

section \<open>Writes\<close>

text \<open>After a write of \<open>bs\<close> at \<open>pos\<close> that reports \<open>n\<close> bytes moved: those bytes are on the disk, bytes outside the
  request are as before, and a byte of the request beyond \<open>n\<close> (a failed access) is the old or the new one.\<close>

definition written :: "nat \<Rightarrow> u8 list \<Rightarrow> nat \<Rightarrow> overlay \<Rightarrow> overlay \<Rightarrow> bool" where
  "written pos bs n ov ov' \<longleftrightarrow> ov_ok ov' \<and> base ov' = base ov \<and> base_size ov' = base_size ov \<and> n \<le> length bs \<and>
     (\<forall>p<base_size ov.
        if pos \<le> p \<and> p < pos + n then disk_byte ov' p = bs ! (p - pos)
        else if pos \<le> p \<and> p < pos + length bs then disk_byte ov' p \<in> {disk_byte ov p, bs ! (p - pos)}
        else disk_byte ov' p = disk_byte ov p)"

lemma write_slot_chunk:
  assumes ok: "ov_ok ov" and pos: "pos < base_size ov" "omap ov ! cluster_no pos \<noteq> 0"
    and len: "length bs \<le> kCluster - pos mod kCluster" "length bs \<le> base_size ov - pos"
    and w: "write_at (ofile ov) (slot_pos ov pos) bs (faults ov) = (f, b, fs)"
  shows "written pos bs (if b then length bs else 0) ov (ov\<lparr>ofile := f, faults := fs\<rparr>) \<and> (faults ov = [] \<longrightarrow> b \<and> fs = [])"
proof (cases rule: write_at_cases [of "ofile ov" "slot_pos ov pos" bs "faults ov"])
  case (ok fs')
  then show ?thesis using slot_write [OF assms(1) pos len] w by (simp add: written_def)
next
  case (fail k fs')
  have l: "length (take k bs) \<le> kCluster - pos mod kCluster" "length (take k bs) \<le> base_size ov - pos" using len by auto
  show ?thesis using fail slot_write [OF assms(1) pos l] w by (auto simp: written_def nth_take)
qed

lemma write_chunk_written:
  assumes ok: "ov_ok ov" and pos: "pos < base_size ov"
    and len: "length bs \<le> kCluster - pos mod kCluster" "length bs \<le> base_size ov - pos"
  shows "written pos bs (if snd (write_chunk ov pos bs) then length bs else 0) ov (fst (write_chunk ov pos bs)) \<and>
    (faults ov = [] \<longrightarrow> snd (write_chunk ov pos bs) \<and> faults (fst (write_chunk ov pos bs)) = [])"
proof -
  let ?c = "cluster_no pos"
  define r where "r = (if omap ov ! ?c = 0 then claim ov ?c else (ov, True))"
  have d: "same_disk ov (fst r)" and e: "snd r \<longrightarrow> omap (fst r) ! ?c \<noteq> 0" "faults ov = [] \<longrightarrow> snd r \<and> faults (fst r) = []"
    using claim_same_disk [OF ok cluster_in_range [OF ok pos]] same_disk_faults [OF ok, of "faults ov"]
    by (auto simp: r_def)
  obtain f b fs where w: "write_at (ofile (fst r)) (slot_pos (fst r) pos) bs (faults (fst r)) = (f, b, fs)"
    by (cases "write_at (ofile (fst r)) (slot_pos (fst r) pos) bs (faults (fst r))") auto
  have form: "write_chunk ov pos bs = (if snd r then ((fst r)\<lparr>ofile := f, faults := fs\<rparr>, b) else (fst r, False))"
    using w by (simp add: write_chunk_def r_def [symmetric] Let_def case_prod_beta slot_pos_def)
  show ?thesis
  proof (cases "snd r")
    case True
    have "written pos bs (if b then length bs else 0) (fst r) ((fst r)\<lparr>ofile := f, faults := fs\<rparr>) \<and> (faults (fst r) = [] \<longrightarrow> b \<and> fs = [])"
      using write_slot_chunk [OF _ _ _ _ _ w] d e(1) True pos len by (simp add: same_disk_def)
    then show ?thesis using True form d e(2) by (auto simp: written_def same_disk_def)
  next
    case False
    then show ?thesis using form d e(2) by (auto simp: written_def same_disk_def)
  qed
qed

lemma written_append:
  assumes "written pos bs (length bs) ov ov'" "written (pos + length bs) cs n ov' ov''"
  shows "written pos (bs @ cs) (length bs + n) ov ov''"
  unfolding written_def
proof (intro conjI allI impI)
  fix p assume p: "p < base_size ov"
  have 1: "disk_byte ov' p = (if pos \<le> p \<and> p < pos + length bs then bs ! (p - pos) else disk_byte ov p)"
    using assms(1) p by (auto simp: written_def split: if_splits)
  have 2: "if pos + length bs \<le> p \<and> p < pos + length bs + n then disk_byte ov'' p = cs ! (p - (pos + length bs))
      else if pos + length bs \<le> p \<and> p < pos + length bs + length cs
      then disk_byte ov'' p \<in> {disk_byte ov' p, cs ! (p - (pos + length bs))} else disk_byte ov'' p = disk_byte ov' p"
    using assms p unfolding written_def by metis
  consider "pos \<le> p" "p < pos + length bs" | "pos + length bs \<le> p" "p < pos + length bs + length cs"
    | "p < pos \<or> pos + length bs + length cs \<le> p" by linarith
  then show "if pos \<le> p \<and> p < pos + (length bs + n) then disk_byte ov'' p = (bs @ cs) ! (p - pos)
    else if pos \<le> p \<and> p < pos + length (bs @ cs) then disk_byte ov'' p \<in> {disk_byte ov p, (bs @ cs) ! (p - pos)}
    else disk_byte ov'' p = disk_byte ov p"
    using 1 2 by cases (auto simp: nth_append diff_diff_left split: if_splits)
qed (use assms in \<open>auto simp: written_def\<close>)

lemma written_prefix:
  assumes "written pos (take k bs) 0 ov ov'" shows "written pos bs 0 ov ov'"
  unfolding written_def
proof (intro conjI allI impI)
  fix p assume "p < base_size ov"
  then have "if pos \<le> p \<and> p < pos + min (length bs) k then disk_byte ov' p \<in> {disk_byte ov p, take k bs ! (p - pos)}
      else disk_byte ov' p = disk_byte ov p"
    using assms by (auto simp: written_def split: if_splits)
  then show "if pos \<le> p \<and> p < pos + 0 then disk_byte ov' p = bs ! (p - pos)
    else if pos \<le> p \<and> p < pos + length bs then disk_byte ov' p \<in> {disk_byte ov p, bs ! (p - pos)}
    else disk_byte ov' p = disk_byte ov p"
    by (auto split: if_splits)
qed (use assms in \<open>auto simp: written_def\<close>)

lemma overlay_write_written:
  "ov_ok ov \<Longrightarrow> written pos bs (snd (overlay_write ov pos bs)) ov (fst (overlay_write ov pos bs)) \<and>
    (faults ov = [] \<longrightarrow> snd (overlay_write ov pos bs) = min (length bs) (base_size ov - pos) \<and> faults (fst (overlay_write ov pos bs)) = [])"
proof (induction ov pos bs rule: overlay_write.induct)
  case (1 ov pos bs)
  let ?len = "chunk_len ov pos (length bs)"
  define r where "r = write_chunk ov pos (take ?len bs)"
  show ?case
  proof (cases "bs = [] \<or> base_size ov \<le> pos")
    case True
    then show ?thesis
      using 1(2) by (auto simp: overlay_write.simps [of ov pos bs] written_def)
  next
    case False
    have len: "?len \<le> length bs" "?len \<le> kCluster - pos mod kCluster" "?len \<le> base_size ov - pos"
      by (simp_all add: chunk_len_def)
    have lt: "length (take ?len bs) = ?len" using len(1) by simp
    have w: "written pos (take ?len bs) (if snd r then ?len else 0) ov (fst r)" "faults ov = [] \<longrightarrow> snd r \<and> faults (fst r) = []"
      using write_chunk_written [OF 1(2), of pos "take ?len bs"] len False unfolding lt r_def [symmetric] by simp_all
    show ?thesis
    proof (cases "snd r")
      case True
      define t where "t = overlay_write (fst r) (pos + ?len) (drop ?len bs)"
      have r: "r = (fst r, True)" using True by (metis prod.collapse)
      have okr: "ov_ok (fst r)" using w(1) by (simp add: written_def)
      have ih: "written (pos + ?len) (drop ?len bs) (snd t) (fst r) (fst t)"
        "faults (fst r) = [] \<longrightarrow> snd t = min (length bs - ?len) (base_size (fst r) - (pos + ?len)) \<and> faults (fst t) = []"
        using 1(1) [OF False refl r [symmetric, unfolded r_def] refl] okr
        unfolding t_def r_def [symmetric] length_drop by blast+
      have "overlay_write ov pos bs = (fst t, ?len + snd t)"
        using False True unfolding r_def t_def by (simp add: overlay_write.simps [of ov pos bs] Let_def case_prod_beta)
      moreover have "written pos bs (?len + snd t) ov (fst t)"
        using written_append [of pos "take ?len bs" ov "fst r" "drop ?len bs" "snd t" "fst t"] w(1) ih(1) True
        unfolding lt by simp
      moreover have "base_size (fst r) = base_size ov" using w(1) by (simp add: written_def)
      then have "?len + min (length bs - ?len) (base_size (fst r) - (pos + ?len)) = min (length bs) (base_size ov - pos)"
        using len by simp
      ultimately show ?thesis using ih(2) w(2) by simp
    next
      case False
      then have "overlay_write ov pos bs = (fst r, 0)"
        using \<open>\<not> (bs = [] \<or> base_size ov \<le> pos)\<close> unfolding r_def
        by (simp add: overlay_write.simps [of ov pos bs] Let_def case_prod_beta)
      then show ?thesis using False w written_prefix [of pos ?len bs ov "fst r"] by simp
    qed
  qed
qed

section \<open>Reads\<close>

lemma read_chunk_bytes:
  assumes ok: "ov_ok ov" and pos: "pos < base_size ov"
    and len: "len \<le> kCluster - pos mod kCluster" "len \<le> base_size ov - pos"
  shows "\<exists>fs. fst (read_chunk ov pos len) = ov\<lparr>faults := fs\<rparr> \<and> (faults ov = [] \<longrightarrow> fs = [])"
    and "snd (read_chunk ov pos len) = Some bs \<Longrightarrow> bs = map (disk_byte ov) [pos..<pos + len]"
    and "faults ov = [] \<Longrightarrow> snd (read_chunk ov pos len) \<noteq> None"
proof -
  define e where "e = (omap ov ! cluster_no pos \<noteq> 0)"
  define src where "src = (if e then ofile ov else base ov)"
  define at where "at = (if e then slot_pos ov pos else pos)"
  have form: "read_chunk ov pos len = (let (r, fs) = read_at src at len (faults ov) in (ov\<lparr>faults := fs\<rparr>, r))"
    by (simp add: read_chunk_def src_def at_def e_def slot_pos_def Let_def)
  have sz: "base_size ov < 2 ^ 47" using ok by (simp add: ov_ok_def)
  have run: "cluster_no q = cluster_no pos" "slot_pos ov q = slot_pos ov pos + (q - pos)" if "pos \<le> q" "q < pos + len" for q
    using slot_pos_run [OF that len(1)] that len(2) pos sz by auto
  have "at + len \<le> flen src"
  proof (cases "e \<and> 0 < len")
    case True
    then have l: "pos \<le> pos + len - 1" "pos + len - 1 < pos + len" "pos + len - 1 < base_size ov" using len pos by auto
    then have "slot_pos ov (pos + len - 1) < flen (ofile ov)"
      using slot_pos_bounds(3) [OF ok l(3)] run(1) [OF l(1,2)] True by (simp add: e_def)
    then show ?thesis using True run(2) [OF l(1,2)] by (simp add: src_def at_def)
  next
    case False
    then show ?thesis using slot_pos_bounds(3) [OF ok pos] len pos ok by (auto simp: src_def at_def e_def ov_ok_def)
  qed
  moreover have "bytes_at src at len = map (disk_byte ov) [pos..<pos + len]"
  proof (rule nth_equalityI)
    show "bytes_at src at len ! i = map (disk_byte ov) [pos..<pos + len] ! i" if "i < length (bytes_at src at len)" for i
      using that run [of "pos + i"] by (simp add: bytes_at_def disk_byte_def src_def at_def e_def)
  qed (simp add: bytes_at_def)
  ultimately show "\<exists>fs. fst (read_chunk ov pos len) = ov\<lparr>faults := fs\<rparr> \<and> (faults ov = [] \<longrightarrow> fs = [])"
    and "snd (read_chunk ov pos len) = Some bs \<Longrightarrow> bs = map (disk_byte ov) [pos..<pos + len]"
    and "faults ov = [] \<Longrightarrow> snd (read_chunk ov pos len) \<noteq> None"
    by (cases rule: read_at_cases [of src at len "faults ov"]; auto simp: form)+
qed

text \<open>A read returns a prefix of the disk's bytes, all of them when no access fails, and changes nothing.\<close>

lemma overlay_read_bytes:
  "ov_ok ov \<Longrightarrow> (\<exists>fs. fst (overlay_read ov pos n) = ov\<lparr>faults := fs\<rparr> \<and> (faults ov = [] \<longrightarrow> fs = [])) \<and>
    (\<exists>k \<le> min n (base_size ov - pos). snd (overlay_read ov pos n) = map (disk_byte ov) [pos..<pos + k] \<and>
      (faults ov = [] \<longrightarrow> k = min n (base_size ov - pos)))"
proof (induction ov pos n rule: overlay_read.induct)
  case (1 ov pos n)
  let ?len = "chunk_len ov pos n"
  have len: "?len \<le> n" "?len \<le> kCluster - pos mod kCluster" "?len \<le> base_size ov - pos" by (simp_all add: chunk_len_def)
  show ?case
  proof (cases "n = 0 \<or> base_size ov \<le> pos")
    case True
    then show ?thesis by (auto simp: overlay_read.simps [of ov pos n] intro!: exI [of _ "faults ov"])
  next
    case False
    then have pos: "pos < base_size ov" by simp
    note c = read_chunk_bytes [OF 1(2) pos len(2,3)]
    obtain fs where fs: "fst (read_chunk ov pos ?len) = ov\<lparr>faults := fs\<rparr>" "faults ov = [] \<longrightarrow> fs = []" using c(1) by blast
    show ?thesis
    proof (cases "snd (read_chunk ov pos ?len)")
      case None
      then have "overlay_read ov pos n = (ov\<lparr>faults := fs\<rparr>, [])"
        using False fs(1) by (simp add: overlay_read.simps [of ov pos n] Let_def case_prod_beta)
      then show ?thesis using None c(3) fs(2) by auto
    next
      case (Some bs)
      let ?t = "overlay_read (ov\<lparr>faults := fs\<rparr>) (pos + ?len) (n - ?len)"
      have t: "overlay_read ov pos n = (fst ?t, bs @ snd ?t)"
        using False fs(1) Some by (simp add: overlay_read.simps [of ov pos n] Let_def case_prod_beta)
      have "read_chunk ov pos ?len = (ov\<lparr>faults := fs\<rparr>, Some bs)" using fs(1) Some by (metis prod.collapse)
      note ih = 1(1) [OF False refl this [symmetric] refl]
      have same: "ov_ok (ov\<lparr>faults := fs\<rparr>)" "disk_byte (ov\<lparr>faults := fs\<rparr>) = disk_byte ov"
        using 1(2) by (simp_all add: ov_ok_def disk_byte_def slot_pos_def slot_offset_def fun_eq_iff)
      obtain k gs where k: "k \<le> min (n - ?len) (base_size ov - (pos + ?len))" "snd ?t = map (disk_byte ov) [pos + ?len..<pos + ?len + k]"
        "fs = [] \<longrightarrow> k = min (n - ?len) (base_size ov - (pos + ?len))" and "fst ?t = ov\<lparr>faults := gs\<rparr>" "fs = [] \<longrightarrow> gs = []"
        using ih [OF same(1)] unfolding same(2) by auto
      moreover have "bs @ snd ?t = map (disk_byte ov) [pos..<pos + (?len + k)]"
        using c(2) [OF Some] k(2) upt_add_eq_append [of pos "pos + ?len" k] by (simp add: add.assoc)
      moreover have m: "?len + min (n - ?len) (base_size ov - (pos + ?len)) = min n (base_size ov - pos)"
        using len(1,3) by linarith
      have "?len + k \<le> min n (base_size ov - pos)" "fs = [] \<longrightarrow> ?len + k = min n (base_size ov - pos)"
        using k(1,3) unfolding m [symmetric] by simp_all
      ultimately show ?thesis using t fs(2) by (auto intro!: exI [of _ "?len + k"])
    qed
  qed
qed

section \<open>A disk\<close>

text \<open>The contract of a disk of a fixed size, as a locale: the bytes, and what reads and writes that fit do to them.\<close>

locale byte_disk =
  fixes valid :: "'s \<Rightarrow> bool" and dsize :: "'s \<Rightarrow> nat" and byte :: "'s \<Rightarrow> nat \<Rightarrow> u8"
    and rd :: "'s \<Rightarrow> nat \<Rightarrow> nat \<Rightarrow> 's \<times> u8 list" and wr :: "'s \<Rightarrow> nat \<Rightarrow> u8 list \<Rightarrow> 's \<times> nat"
  assumes rd_bytes: "valid s \<Longrightarrow> pos + n \<le> dsize s \<Longrightarrow> snd (rd s pos n) = map (byte s) [pos..<pos + n]"
    and rd_keeps: "valid s \<Longrightarrow> valid (fst (rd s pos n)) \<and> dsize (fst (rd s pos n)) = dsize s \<and> (\<forall>p<dsize s. byte (fst (rd s pos n)) p = byte s p)"
    and wr_bytes: "valid s \<Longrightarrow> pos + length bs \<le> dsize s \<Longrightarrow> p < dsize s \<Longrightarrow>
      byte (fst (wr s pos bs)) p = (if pos \<le> p \<and> p < pos + length bs then bs ! (p - pos) else byte s p)"
    and wr_keeps: "valid s \<Longrightarrow> pos + length bs \<le> dsize s \<Longrightarrow>
      valid (fst (wr s pos bs)) \<and> dsize (fst (wr s pos bs)) = dsize s \<and> snd (wr s pos bs) = length bs"
begin

lemma read_back: "valid s \<Longrightarrow> pos + length bs \<le> dsize s \<Longrightarrow> snd (rd (fst (wr s pos bs)) pos (length bs)) = bs"
  using rd_bytes [of "fst (wr s pos bs)" pos "length bs"] wr_keeps [of s pos bs] wr_bytes [of s pos bs]
  by (auto intro!: nth_equalityI)

lemma read_elsewhere:
  assumes "valid s" "pos + length bs \<le> dsize s" "q + n \<le> dsize s" "q + n \<le> pos \<or> pos + length bs \<le> q"
  shows "snd (rd (fst (wr s pos bs)) q n) = snd (rd s q n)"
  using assms rd_bytes [of "fst (wr s pos bs)" q n] rd_bytes [of s q n] wr_keeps [of s pos bs] wr_bytes [of s pos bs]
  by auto

end

interpretation overlay_disk: byte_disk "\<lambda>ov. ov_ok ov \<and> faults ov = []" base_size disk_byte overlay_read overlay_write
proof
  fix s :: overlay and pos n p :: nat and bs :: "u8 list"
  assume v: "ov_ok s \<and> faults s = []"
  note r = overlay_read_bytes [of s pos n] and w = overlay_write_written [of s pos bs]
  show "snd (overlay_read s pos n) = map (disk_byte s) [pos..<pos + n]" if "pos + n \<le> base_size s"
    using r v that by auto
  show "(ov_ok (fst (overlay_read s pos n)) \<and> faults (fst (overlay_read s pos n)) = []) \<and> base_size (fst (overlay_read s pos n)) = base_size s \<and>
      (\<forall>p<base_size s. disk_byte (fst (overlay_read s pos n)) p = disk_byte s p)"
    using r v same_disk_faults [of s "[]"] by (auto simp: same_disk_def)
  assume f: "pos + length bs \<le> base_size s"
  show "(ov_ok (fst (overlay_write s pos bs)) \<and> faults (fst (overlay_write s pos bs)) = []) \<and>
      base_size (fst (overlay_write s pos bs)) = base_size s \<and> snd (overlay_write s pos bs) = length bs"
    using w v f by (auto simp: written_def)
  show "disk_byte (fst (overlay_write s pos bs)) p =
      (if pos \<le> p \<and> p < pos + length bs then bs ! (p - pos) else disk_byte s p)" if "p < base_size s"
    using w v f that by (auto simp: written_def split: if_splits)
qed

section \<open>From an empty overlay\<close>

datatype ov_op = Rd nat nat | Wr nat "u8 list"

fun ov_step :: "overlay \<Rightarrow> ov_op \<Rightarrow> overlay" where
  "ov_step ov (Rd pos n) = fst (overlay_read ov pos n)"
| "ov_step ov (Wr pos bs) = fst (overlay_write ov pos bs)"

lemma ov_step_ok: "ov_ok ov \<Longrightarrow> ov_ok (ov_step ov x) \<and> base (ov_step ov x) = base ov \<and> base_size (ov_step ov x) = base_size ov"
proof (cases x)
  case (Rd pos n)
  assume "ov_ok ov"
  then show ?thesis using Rd overlay_read_bytes [of ov pos n] by (auto simp: ov_ok_def)
next
  case (Wr pos bs)
  assume "ov_ok ov"
  then show ?thesis using Wr overlay_write_written [of ov pos bs] by (simp add: written_def)
qed

lemma ov_history_ok:
  "ov_ok ov \<Longrightarrow> ov_ok (foldl ov_step ov xs) \<and> base (foldl ov_step ov xs) = base ov \<and> base_size (foldl ov_step ov xs) = base_size ov"
proof (induction xs arbitrary: ov)
  case (Cons x xs)
  then show ?case using ov_step_ok [OF Cons.prems, of x] by simp
qed simp

lemma round_up: "x \<le> (x + kCluster - 1) div kCluster * kCluster"
proof -
  have "(x + kCluster - 1) mod kCluster < kCluster" by simp
  then show ?thesis using div_mult_mod_eq [of "x + kCluster - 1" kCluster] by linarith
qed

lemma length_header [simp]: "length (header sz tag) = 36"
  by (simp add: header_def kMagic_def put32_def put64_def)

lemma header_not_empty [simp]: "header sz tag \<noteq> []"
  by (metis length_header list.size(3) zero_neq_numeral)

lemma base_tag_size: "base_tag b sz fs = (Some tag, fs') \<Longrightarrow> sz \<le> flen b"
  by (cases "sz > kCluster")
    (auto simp: base_tag_def read_at_def Let_def next_fault_def split: prod.splits option.splits if_splits list.splits)

text \<open>A file just made: the header and an empty map.\<close>

lemma open_new:
  assumes "overlay_open b sz (Absent True) fs = Inr ov" "sz < 2 ^ 47"
  obtains tag fs' where "base_tag b sz fs = (Some tag, fs')" "base ov = b" "base_size ov = sz"
    "omap ov = replicate (clusters_of sz) 0" "used ov = 0"
    "data_start ov = (kMapStart + clusters_of sz * 4 + kCluster - 1) div kCluster * kCluster"
    "ofile ov = put_bytes \<lparr>flen = 0, fbyte = (\<lambda>_. 0)\<rparr> 0 (header sz tag @ replicate (data_start ov - 36) 0)"
    "ov_ok ov"
proof -
  obtain tag fs' where tag: "base_tag b sz fs = (Some tag, fs')"
    using assms(1) by (auto simp: overlay_open_def split: prod.splits option.splits)
  define ds where "ds = (kMapStart + clusters_of sz * 4 + kCluster - 1) div kCluster * kCluster"
  have ds: "kMapStart + clusters_of sz * 4 \<le> ds" unfolding ds_def by (rule round_up)
  have ov: "base ov = b" "base_size ov = sz" "omap ov = replicate (clusters_of sz) 0" "used ov = 0" "data_start ov = ds"
    "ofile ov = put_bytes \<lparr>flen = 0, fbyte = (\<lambda>_. 0)\<rparr> 0 (header sz tag @ replicate (ds - 36) 0)"
    using assms(1) tag
    by (auto simp: overlay_open_def open_absent_def write_at_def Let_def ds_def split: prod.splits option.splits if_splits)
  moreover have "flen (ofile ov) = ds" using ov(6) ds by (simp add: flen_put kMapStart_def)
  then have "ov_ok ov"
    using ov ds assms(2) base_tag_size [OF tag] by (auto simp: ov_ok_def)
  ultimately show thesis using that [OF tag] by (simp add: ds_def)
qed

text \<open>
  C12. The overlay is a disk. From a new overlay over any base, after any reads and writes and whichever
  host accesses failed on the way: the base is untouched; a read returns the disk's bytes, all that
  were asked for (up to the end of the disk) when no access fails; a write that reports \<open>k\<close> bytes has
  put exactly those on the disk and changed no byte outside its request, and it reports all of them
  when no access fails; what was written is read back.
\<close>

theorem overlay_refines_disk:
  assumes "overlay_open b sz (Absent True) fs = Inr ov0" "sz < 2 ^ 47" "ov = foldl ov_step ov0 xs"
  shows "base ov = b \<and> (xs = [] \<longrightarrow> (\<forall>p < sz. disk_byte ov p = fbyte b p)) \<and>
    (\<exists>k \<le> min n (sz - pos). snd (overlay_read ov pos n) = map (disk_byte ov) [pos..<pos + k] \<and>
       (faults ov = [] \<longrightarrow> k = min n (sz - pos))) \<and>
    written pos bs (snd (overlay_write ov pos bs)) ov (fst (overlay_write ov pos bs)) \<and>
    (faults ov = [] \<longrightarrow> snd (overlay_write ov pos bs) = min (length bs) (sz - pos)) \<and>
    (faults ov = [] \<and> pos + length bs \<le> sz \<longrightarrow> snd (overlay_read (fst (overlay_write ov pos bs)) pos (length bs)) = bs)"
proof -
  obtain "ov_ok ov0" "base ov0 = b" "base_size ov0 = sz" and new: "omap ov0 = replicate (clusters_of sz) 0"
    using open_new [OF assms(1,2)] by metis
  then have ok: "ov_ok ov" "base ov = b" "base_size ov = sz" using ov_history_ok [of ov0 xs] assms(3) by simp_all
  moreover have "disk_byte ov p = fbyte b p" if "xs = []" "p < sz" for p
    using that new ok cluster_in_range [OF ok(1), of p] assms(3) by (simp add: disk_byte_def)
  ultimately show ?thesis
    using overlay_read_bytes [OF ok(1), of pos n] overlay_write_written [OF ok(1), of pos bs]
      overlay_disk.read_back [of ov pos bs] by simp
qed

text \<open>A three-byte base.\<close>

definition example_base :: disk_file where
  "example_base = \<lparr>flen = 3, fbyte = (\<lambda>p. if p = 0 then 7 else if p = 1 then 8 else if p = 2 then 9 else 0)\<rparr>"

lemma example_open: "\<exists>ov. overlay_open example_base 3 (Absent True) [] = Inr ov \<and> faults ov = []"
  by (simp add: overlay_open_def open_absent_def base_tag_def read_at_def write_at_def next_fault_def example_base_def
      kCluster_def Let_def)

theorem overlay_refines_disk_witness:
  "\<exists>ov. overlay_open example_base 3 (Absent True) [] = Inr ov \<and> snd (overlay_read ov 0 5) = [7, 8, 9] \<and>
     snd (overlay_read (fst (overlay_write ov 1 [5])) 1 1) = [5]"
proof -
  obtain ov where ov: "overlay_open example_base 3 (Absent True) [] = Inr ov" "faults ov = []" using example_open by blast
  have b: "\<forall>p < 3. disk_byte ov p = fbyte example_base p"
    using overlay_refines_disk [OF ov(1) _ refl, of "[]" 0 0 "[]"] by simp
  have "snd (overlay_read ov 0 5) = map (disk_byte ov) [0..<3]"
    using overlay_refines_disk [OF ov(1) _ refl, of "[]" 5 0 "[]"] ov(2) by auto
  moreover have "snd (overlay_read (fst (overlay_write ov 1 [5])) 1 1) = [5]"
    using overlay_refines_disk [OF ov(1) _ refl, of "[]" 0 1 "[5]"] ov(2) by simp
  ultimately show ?thesis using ov b by (auto simp: example_base_def numeral_3_eq_3)
qed

end
