(* ===== verification/Disk_Overlay_Reopen.thy ===== *)
theory Disk_Overlay_Reopen
  imports Disk_Overlay_Facts
begin

text \<open>
  The overlay file itself: its header and cluster map always say what the overlay in memory says, as
  long as a failed write leaves nothing behind, so that closing the overlay (or losing the process)
  after any accesses and opening the file again gives the same disk; over another base it is refused.
\<close>

section \<open>Little-endian numbers\<close>

lemma get32_put32: "get32 (put32 v @ r) = v"
proof (rule bit_word_eqI)
  fix n assume "n < LENGTH(32)"
  then consider "n < 8" | "8 \<le> n" "n < 16" | "16 \<le> n" "n < 24" | "24 \<le> n" "n < 32" by fastforce
  then show "bit (get32 (put32 v @ r)) n = bit v n" by cases (auto simp: get32_def put32_def bit_simps)
qed

lemma get32_append: "length xs = 4 \<Longrightarrow> get32 (xs @ r) = get32 xs"
  by (simp add: get32_def nth_append)

lemma put64_parts: "put64 v = put32 (ucast v) @ put32 (ucast (drop_bit 32 v))"
  by (simp add: put64_def put32_def) (auto intro!: bit_word_eqI simp: bit_simps)

lemma get64_put64: "get64 (put64 v @ r) = v"
proof -
  have "length (put32 (ucast v :: u32)) = 4" by (simp add: put32_def)
  then have "drop 4 (put64 v @ r) = put32 (ucast (drop_bit 32 v)) @ r" by (simp add: put64_parts)
  moreover have "get32 (put64 v @ r) = ucast v" by (simp add: put64_parts get32_put32)
  ultimately show ?thesis
    by (simp only: get64_def get32_put32) (auto intro!: bit_word_eqI simp: bit_simps)
qed

lemma length_put [simp]: "length (put32 v) = 4" "length (put64 w) = 8"
  by (simp_all add: put32_def put64_def)

text \<open>What \<open>open\<close> reads back out of a header.\<close>

lemma header_fields:
  defines "h sz tag r \<equiv> header sz tag @ r"
  shows "take 8 (h sz tag r) = kMagic" "get32 (drop 8 (h sz tag r)) = kVersion" "get32 (drop 12 (h sz tag r)) = of_nat kCluster"
    "get64 (drop 16 (h sz tag r)) = of_nat sz" "get64 (drop 24 (h sz tag r)) = tag" "get32 (drop 32 (h sz tag r)) = of_nat (clusters_of sz)"
  by (simp_all add: h_def header_def get32_put32 get64_put64 kMagic_def)

section \<open>Accesses that leave nothing behind when they fail\<close>

definition clean :: "faults \<Rightarrow> bool" where
  "clean fs \<longleftrightarrow> (\<forall>k. Some k \<in> set fs \<longrightarrow> k = 0)"

lemma clean_next: "clean fs \<Longrightarrow> clean (snd (next_fault fs))" "clean fs \<Longrightarrow> fst (next_fault fs) = Some k \<Longrightarrow> k = 0"
  by (cases fs; auto simp: clean_def next_fault_def)+

lemma write_at_clean:
  assumes "clean fs" "write_at f pos bs fs = (f', ok, fs')"
  shows "f' = (if ok then put_bytes f pos bs else f)" "clean fs'"
  using assms clean_next [of fs] by (auto simp: write_at_def put_bytes_def split: prod.splits option.splits)

lemma read_at_clean: "clean fs \<Longrightarrow> clean (snd (read_at f pos n fs))"
  using clean_next [of fs] by (auto simp: read_at_def split: prod.splits option.splits)

lemma bytes_at_put_other:
  "q + n \<le> flen f \<Longrightarrow> q + n \<le> pos \<or> pos + length bs \<le> q \<Longrightarrow> bytes_at (put_bytes f pos bs) q n = bytes_at f q n"
  by (auto simp: bytes_at_def put_outside)

lemma bytes_at_put: "bytes_at (put_bytes f pos bs) pos (length bs) = bs"
  by (auto simp: bytes_at_def put_inside intro: nth_equalityI)

section \<open>The file says what memory says\<close>

definition kept :: "u64 \<Rightarrow> overlay \<Rightarrow> bool" where
  "kept tag ov \<longleftrightarrow> bytes_at (ofile ov) 0 36 = header (base_size ov) tag \<and>
     (\<forall>c<length (omap ov). bytes_at (ofile ov) (kMapStart + c * 4) 4 = put32 (omap ov ! c)) \<and>
     (used ov = 0 \<or> used ov \<in> set (omap ov)) \<and>
     data_start ov = (kMapStart + clusters_of (base_size ov) * 4 + kCluster - 1) div kCluster * kCluster \<and>
     clean (faults ov)"

text \<open>A write into the slots touches neither the header nor the map.\<close>

lemma kept_slot_write:
  assumes "ov_ok ov" "kept tag ov" "data_start ov \<le> pos" "clean fs"
  shows "kept tag (ov\<lparr>ofile := put_bytes (ofile ov) pos bs, faults := fs\<rparr>)"
proof -
  have ds: "kMapStart + length (omap ov) * 4 \<le> data_start ov" "data_start ov \<le> flen (ofile ov)"
    using assms(1) by (simp_all add: ov_ok_def)
  then have "bytes_at (put_bytes (ofile ov) pos bs) 0 36 = bytes_at (ofile ov) 0 36"
    using assms(3) by (intro bytes_at_put_other) (simp_all add: kMapStart_def)
  moreover have "bytes_at (put_bytes (ofile ov) pos bs) (kMapStart + c * 4) 4 = bytes_at (ofile ov) (kMapStart + c * 4) 4"
    if "c < length (omap ov)" for c
    using ds assms(3) that by (intro bytes_at_put_other) auto
  ultimately show ?thesis using assms(2,4) by (simp add: kept_def)
qed

lemma kept_faults: "kept tag ov \<Longrightarrow> clean fs \<Longrightarrow> kept tag (ov\<lparr>faults := fs\<rparr>)"
  by (simp add: kept_def)

lemma kept_claimed:
  assumes ok: "ov_ok ov" and kept: "kept tag ov" and c: "c < length (omap ov)" and fs: "clean fs"
  shows "kept tag (ov\<lparr>ofile := put_bytes (copied ov c) (kMapStart + c * 4) (put32 (used ov + 1)), faults := fs,
    omap := (omap ov)[c := used ov + 1], used := used ov + 1\<rparr>)"
proof -
  have k: "kept tag (ov\<lparr>ofile := copied ov c, faults := fs\<rparr>)"
    unfolding copied_def using kept_slot_write [OF ok kept _ fs] by (simp add: slot_offset_def)
  have ds: "kMapStart + length (omap ov) * 4 \<le> flen (copied ov c)"
    using ok copied_len(1) [of ov c] by (simp add: ov_ok_def)
  let ?g = "put_bytes (copied ov c) (kMapStart + c * 4) (put32 (used ov + 1))"
  have "bytes_at ?g 0 36 = bytes_at (copied ov c) 0 36"
    using ds by (intro bytes_at_put_other) (simp_all add: kMapStart_def)
  moreover have "bytes_at ?g (kMapStart + d * 4) 4 = put32 ((omap ov)[c := used ov + 1] ! d)" if "d < length (omap ov)" for d
  proof (cases "d = c")
    case True
    then show ?thesis using bytes_at_put [of "copied ov c" "kMapStart + c * 4" "put32 (used ov + 1)"] c by simp
  next
    case False
    then have "bytes_at ?g (kMapStart + d * 4) 4 = bytes_at (copied ov c) (kMapStart + d * 4) 4"
      using ds that by (intro bytes_at_put_other) auto
    then show ?thesis using False k that by (simp add: kept_def)
  qed
  ultimately show ?thesis using k c by (simp add: kept_def set_update_memI)
qed

lemma claim_kept:
  assumes ok: "ov_ok ov" and kept: "kept tag ov" and c: "c < length (omap ov)"
  shows "kept tag (fst (claim ov c))"
proof -
  have cl: "clean (faults ov)" using kept by (simp add: kept_def)
  obtain r fs where r: "read_at (base ov) (c * kCluster) (min (base_size ov - c * kCluster) kCluster) (faults ov) = (r, fs)"
    by (metis surj_pair)
  have fs: "clean fs" using read_at_clean [OF cl] r by (metis snd_conv)
  obtain f b gs where w: "write_at (ofile ov) (slot_offset ov (used ov)) (cluster_copy ov c) fs = (f, b, gs)" by (metis prod_cases3)
  note f = write_at_clean [OF fs w]
  obtain g b' hs where m: "write_at f (kMapStart + c * 4) (put32 (used ov + 1)) gs = (g, b', hs)" by (metis prod_cases3)
  note g = write_at_clean [OF f(2) m]
  show ?thesis
  proof (cases r)
    case None
    then show ?thesis using r kept_faults [OF kept fs] by (simp add: claim_def Let_def)
  next
    case (Some bs)
    then have bs: "bs = bytes_at (base ov) (c * kCluster) (min (base_size ov - c * kCluster) kCluster)"
      using r by (auto simp: read_at_def split: prod.splits option.splits if_splits)
    have form: "claim ov c = (if \<not> b then (ov\<lparr>ofile := f, faults := gs\<rparr>, False)
        else if \<not> b' then (ov\<lparr>ofile := g, faults := hs\<rparr>, False)
        else (ov\<lparr>ofile := g, faults := hs, omap := (omap ov)[c := used ov + 1], used := used ov + 1\<rparr>, True))"
      using r w m Some by (simp add: claim_def Let_def cluster_copy_def bs)
    have copy: "kept tag (ov\<lparr>ofile := copied ov c, faults := hs\<rparr>)"
      unfolding copied_def using kept_slot_write [OF ok kept _ g(2)] by (simp add: slot_offset_def)
    have same: "ov\<lparr>ofile := ofile ov, faults := gs\<rparr> = ov\<lparr>faults := gs\<rparr>" by simp
    show ?thesis
      using form f g copy kept_faults [OF kept f(2)] kept_claimed [OF ok kept c g(2)]
      by (auto simp: copied_def [symmetric] same split: if_splits)
  qed
qed

lemma write_chunk_kept:
  assumes ok: "ov_ok ov" and kept: "kept tag ov" and pos: "pos < base_size ov"
  shows "kept tag (fst (write_chunk ov pos bs))"
proof -
  let ?c = "cluster_no pos"
  define r where "r = (if omap ov ! ?c = 0 then claim ov ?c else (ov, True))"
  have "same_disk ov (fst r)" and e: "snd r \<longrightarrow> omap (fst r) ! ?c \<noteq> 0"
    using claim_same_disk [OF ok cluster_in_range [OF ok pos]] same_disk_faults [OF ok, of "faults ov"] by (auto simp: r_def)
  then have okr: "ov_ok (fst r)" "pos < base_size (fst r)" using pos by (simp_all add: same_disk_def)
  have k: "kept tag (fst r)" using claim_kept [OF ok kept cluster_in_range [OF ok pos]] kept by (simp add: r_def)
  obtain f b fs where w: "write_at (ofile (fst r)) (slot_pos (fst r) pos) bs (faults (fst r)) = (f, b, fs)" by (metis prod_cases3)
  have "clean (faults (fst r))" using k by (simp add: kept_def)
  note f = write_at_clean [OF this w]
  have "kept tag ((fst r)\<lparr>ofile := f, faults := fs\<rparr>)" if "snd r"
    using kept_slot_write [OF okr(1) k slot_pos_bounds(1) [OF okr] f(2)] kept_faults [OF k f(2)] e that f(1) by (cases b) simp_all
  then show ?thesis
    using k w by (simp add: write_chunk_def r_def [symmetric] Let_def case_prod_beta slot_pos_def)
qed

lemma overlay_write_kept: "ov_ok ov \<Longrightarrow> kept tag ov \<Longrightarrow> kept tag (fst (overlay_write ov pos bs))"
proof (induction ov pos bs rule: overlay_write.induct)
  case (1 ov pos bs)
  let ?len = "chunk_len ov pos (length bs)"
  define r where "r = write_chunk ov pos (take ?len bs)"
  show ?case
  proof (cases "bs = [] \<or> base_size ov \<le> pos")
    case False
    then have k: "kept tag (fst r)" using write_chunk_kept [OF 1(2,3)] by (simp add: r_def)
    have "length (take ?len bs) \<le> kCluster - pos mod kCluster" "length (take ?len bs) \<le> base_size ov - pos"
      by (simp_all add: chunk_len_def)
    then have okr: "ov_ok (fst r)"
      using write_chunk_written [OF 1(2), of pos "take ?len bs"] False by (simp add: r_def written_def)
    have "kept tag (fst (overlay_write (fst r) (pos + ?len) (drop ?len bs)))" if "snd r"
      using 1(1) [OF False refl _ refl okr k] that by (metis prod.collapse r_def)
    then show ?thesis
      using False k unfolding r_def by (auto simp: overlay_write.simps [of ov pos bs] Let_def case_prod_beta split: bool.splits)
  qed (use 1(3) in \<open>simp add: overlay_write.simps [of ov pos bs]\<close>)
qed

lemma overlay_read_kept: "kept tag ov \<Longrightarrow> kept tag (fst (overlay_read ov pos n))"
proof (induction ov pos n rule: overlay_read.induct)
  case (1 ov pos n)
  let ?len = "chunk_len ov pos n"
  define r where "r = read_chunk ov pos ?len"
  have "clean (faults ov)" using 1(2) by (simp add: kept_def)
  note read_at_clean [OF this]
  then have k: "kept tag (fst r)"
    using kept_faults [OF 1(2)] by (simp add: r_def read_chunk_def Let_def case_prod_beta)
  show ?case
  proof (cases "n = 0 \<or> base_size ov \<le> pos")
    case False
    have "kept tag (fst (overlay_read (fst r) (pos + ?len) (n - ?len)))" if "snd r = Some bs" for bs
      using 1(1) [OF False refl _ refl k] that by (metis prod.collapse r_def)
    then show ?thesis
      using False k unfolding r_def
      by (auto simp: overlay_read.simps [of ov pos n] Let_def case_prod_beta split: option.splits)
  qed (use 1(2) in \<open>simp add: overlay_read.simps [of ov pos n]\<close>)
qed

lemma history_kept: "ov_ok ov \<Longrightarrow> kept tag ov \<Longrightarrow> kept tag (foldl ov_step ov xs)"
proof (induction xs arbitrary: ov)
  case (Cons x xs)
  have "kept tag (ov_step ov x)"
    using Cons.prems overlay_write_kept overlay_read_kept by (cases x) simp_all
  then show ?case using Cons.IH ov_step_ok [OF Cons.prems(1), of x] by simp
qed simp

section \<open>Opening the file again\<close>

lemma base_tag_again:
  assumes "base_tag b sz fs = (Some tag, fs')" shows "base_tag b sz [] = (Some tag, [])"
  using assms by (auto simp: base_tag_def read_at_def next_fault_def Let_def split: prod.splits option.splits list.splits if_splits)

lemma base_tag_clean: "clean fs \<Longrightarrow> clean (snd (base_tag b sz fs))"
  using read_at_clean by (auto simp: base_tag_def Let_def split: prod.splits option.splits) (metis snd_conv)+

lemma open_clean:
  assumes "overlay_open b sz (Absent True) fs = Inr ov" "clean fs" shows "clean (faults ov)"
proof -
  obtain tag fs1 where 1: "base_tag b sz fs = (Some tag, fs1)"
    using assms(1) by (auto simp: overlay_open_def split: prod.splits option.splits)
  define ov1 where "ov1 = \<lparr>base = b, base_size = sz, ofile = \<lparr>flen = 0, fbyte = (\<lambda>_. 0)\<rparr>,
    data_start = (kMapStart + clusters_of sz * 4 + kCluster - 1) div kCluster * kCluster,
    omap = replicate (clusters_of sz) 0, used = 0, faults = fs1\<rparr>"
  obtain f ok fs2 where 2: "write_at \<lparr>flen = 0, fbyte = (\<lambda>_. 0)\<rparr> 0
      (header sz tag @ replicate (data_start ov1 - length (header sz tag)) 0) fs1 = (f, ok, fs2)" by (metis prod_cases3)
  have "clean fs1" using base_tag_clean [OF assms(2)] 1 by (metis snd_conv)
  then have "clean fs2" using write_at_clean(2) [OF _ 2] by blast
  then have "clean (snd (next_fault fs2))" by (rule clean_next)
  moreover have "open_absent ov1 tag = Inr ov" using assms(1) 1 by (simp add: overlay_open_def ov1_def Let_def)
  then have "faults ov = snd (next_fault fs2)"
    using 2 by (auto simp: open_absent_def Let_def ov1_def split: if_splits prod.splits option.splits)
  ultimately show ?thesis by simp
qed

lemma bytes_at_put_part: "pos \<le> q \<Longrightarrow> q + n \<le> pos + length bs \<Longrightarrow> bytes_at (put_bytes f pos bs) q n = take n (drop (q - pos) bs)"
  by (auto simp: bytes_at_def put_inside intro: nth_equalityI)

lemma kept_new:
  assumes "overlay_open b sz (Absent True) fs = Inr ov" "sz < 2 ^ 47" "clean fs"
  obtains tag where "base_tag b sz [] = (Some tag, [])" "kept tag ov" "ov_ok ov" "base ov = b" "base_size ov = sz"
proof -
  obtain tag fs' where o: "base_tag b sz fs = (Some tag, fs')" "base ov = b" "base_size ov = sz"
    "omap ov = replicate (clusters_of sz) 0" "used ov = 0"
    "data_start ov = (kMapStart + clusters_of sz * 4 + kCluster - 1) div kCluster * kCluster"
    "ofile ov = put_bytes \<lparr>flen = 0, fbyte = (\<lambda>_. 0)\<rparr> 0 (header sz tag @ replicate (data_start ov - 36) 0)" "ov_ok ov"
    using open_new [OF assms(1,2)] by metis
  have ds: "kMapStart + clusters_of sz * 4 \<le> data_start ov" unfolding o(6) by (rule round_up)
  then have "bytes_at (ofile ov) 0 36 = header sz tag"
    unfolding o(7) by (subst bytes_at_put_part) (simp_all add: kMapStart_def)
  moreover have "bytes_at (ofile ov) (kMapStart + c * 4) 4 = put32 0" if "c < clusters_of sz" for c
  proof -
    have q: "kMapStart + c * 4 + 4 \<le> data_start ov" "36 \<le> kMapStart + c * 4" using ds that by (simp_all add: kMapStart_def)
    then have "bytes_at (ofile ov) (kMapStart + c * 4) 4 = replicate 4 0"
      unfolding o(7) by (subst bytes_at_put_part) (simp_all add: min_def)
    then show ?thesis by (simp add: put32_def numeral_eq_Suc)
  qed
  ultimately have "kept tag ov"
    using o open_clean [OF assms(1,3)] by (simp add: kept_def)
  then show thesis using that [OF base_tag_again [OF o(1)]] o(2,3,8) by blast
qed

lemma bytes_at_add: "bytes_at f p (a + b) = bytes_at f p a @ bytes_at f (p + a) b"
  using upt_add_eq_append [of p "p + a" b] by (simp add: bytes_at_def add.assoc)

lemma foldl_max:
  "(\<And>x. x \<in> set xs \<Longrightarrow> x \<le> u) \<Longrightarrow> a \<le> u \<Longrightarrow> a = u \<or> u \<in> set xs \<Longrightarrow> foldl max a xs = (u :: u32)"
  by (induction xs arbitrary: a) (auto simp: max_def intro: antisym)

lemma reopen_same:
  assumes ok: "ov_ok ov" and kept: "kept tag ov" and tag: "base_tag (base ov) (base_size ov) [] = (Some tag, [])"
  shows "overlay_open (base ov) (base_size ov) (Present (ofile ov)) [] = Inr (ov\<lparr>faults := []\<rparr>)"
proof -
  let ?N = "clusters_of (base_size ov)"
  have N: "length (omap ov) = ?N" and ds: "kMapStart + ?N * 4 \<le> flen (ofile ov)" using ok by (auto simp: ov_ok_def)
  define r where "r = bytes_at (ofile ov) 36 4"
  have "bytes_at (ofile ov) 0 40 = bytes_at (ofile ov) 0 36 @ r"
    using bytes_at_add [of "ofile ov" 0 36 4] by (simp add: r_def)
  then have hdr: "bytes_at (ofile ov) 0 40 = header (base_size ov) tag @ r" using kept by (simp add: kept_def)
  have entry: "get32 (drop (c * 4) (bytes_at (ofile ov) kMapStart (?N * 4))) = omap ov ! c" if "c < ?N" for c
  proof -
    have "drop (c * 4) (bytes_at (ofile ov) kMapStart (?N * 4)) = bytes_at (ofile ov) (kMapStart + c * 4) (4 + (?N - Suc c) * 4)"
      using that by (simp add: bytes_at_def drop_map algebra_simps)
    also have "\<dots> = bytes_at (ofile ov) (kMapStart + c * 4) 4 @ bytes_at (ofile ov) (kMapStart + c * 4 + 4) ((?N - Suc c) * 4)"
      by (rule bytes_at_add)
    finally show ?thesis using kept that N get32_put32 by (simp add: kept_def)
  qed
  have mp: "map (\<lambda>c. get32 (drop (c * 4) (bytes_at (ofile ov) kMapStart (?N * 4)))) [0..<?N] = omap ov"
    using entry N by (intro nth_equalityI) simp_all
  have used: "foldl max 0 (omap ov) = used ov"
    using ok kept by (intro foldl_max) (auto simp: ov_ok_def kept_def in_set_conv_nth word_le_nat_alt)
  show ?thesis
    using tag hdr header_fields [of "base_size ov" tag r] ds mp used kept N
    by (simp add: overlay_open_def open_present_def read_at_def next_fault_def Let_def kMapStart_def kept_def)
qed

text \<open>A file made over another base, or one that is not an overlay at all, is refused.\<close>

lemma reopen_other_base:
  assumes ok: "ov_ok ov" and kept: "kept tag ov" and tag': "base_tag b' sz' [] = (Some tag', [])"
    and other: "(of_nat sz' :: u64) \<noteq> of_nat (base_size ov) \<or> tag' \<noteq> tag"
  shows "overlay_open b' sz' (Present (ofile ov)) [] = Inl Another_base"
proof -
  define r where "r = bytes_at (ofile ov) 36 4"
  have "bytes_at (ofile ov) 0 40 = bytes_at (ofile ov) 0 36 @ r"
    using bytes_at_add [of "ofile ov" 0 36 4] by (simp add: r_def)
  then have hdr: "bytes_at (ofile ov) 0 40 = header (base_size ov) tag @ r" using kept by (simp add: kept_def)
  have "40 \<le> flen (ofile ov)" using ok by (auto simp: ov_ok_def kMapStart_def)
  then show ?thesis
    using hdr header_fields [of "base_size ov" tag r] tag' other
    by (auto simp: overlay_open_def open_present_def read_at_def next_fault_def Let_def)
qed

text \<open>
  C13. The overlay file survives. After any reads and writes on a new overlay, with any host accesses
  failing (a failed write leaving nothing behind), opening the file it left over the same base
  succeeds and gives the same disk, byte for byte; over a base of another size or with another hash
  of its first and last cluster it is refused.
\<close>

theorem overlay_reopens:
  assumes "overlay_open b sz (Absent True) fs = Inr ov0" "sz < 2 ^ 47" "\<And>k. Some k \<in> set fs \<Longrightarrow> k = 0"
    and "ov = foldl ov_step ov0 xs"
  shows "(\<exists>ov'. overlay_open b sz (Present (ofile ov)) [] = Inr ov' \<and> (\<forall>p < sz. disk_byte ov' p = disk_byte ov p)) \<and>
    (base_tag b' sz' [] = (Some tag', []) \<and> sz' < 2 ^ 64 \<and> (sz' \<noteq> sz \<or> Some tag' \<noteq> fst (base_tag b sz [])) \<longrightarrow>
      overlay_open b' sz' (Present (ofile ov)) [] = Inl Another_base)"
proof -
  have cl: "clean fs" using assms(3) by (simp add: clean_def)
  obtain tag where 0: "base_tag b sz [] = (Some tag, [])" "kept tag ov0" "ov_ok ov0" "base ov0 = b" "base_size ov0 = sz"
    using kept_new [OF assms(1,2) cl] by metis
  have 1: "ov_ok ov" "kept tag ov" "base ov = b" "base_size ov = sz"
    using ov_history_ok [OF 0(3), of xs] history_kept [OF 0(3,2), of xs] 0(4,5) assms(4) by simp_all
  have "overlay_open b sz (Present (ofile ov)) [] = Inr (ov\<lparr>faults := []\<rparr>)"
    using reopen_same [OF 1(1,2)] 0(1) 1(3,4) by simp
  moreover have "disk_byte (ov\<lparr>faults := []\<rparr>) p = disk_byte ov p" for p
    by (simp add: disk_byte_def slot_pos_def slot_offset_def)
  moreover have "overlay_open b' sz' (Present (ofile ov)) [] = Inl Another_base"
    if "base_tag b' sz' [] = (Some tag', [])" "sz' < 2 ^ 64" "sz' \<noteq> sz \<or> Some tag' \<noteq> fst (base_tag b sz [])"
  proof (rule reopen_other_base [OF 1(1,2) that(1)])
    have "unat (of_nat sz' :: u64) = sz'" "unat (of_nat sz :: u64) = sz" using that(2) assms(2) by (simp_all add: unat_of_nat)
    then show "(of_nat sz' :: u64) \<noteq> of_nat (base_size ov) \<or> tag' \<noteq> tag" using that(3) 0(1) 1(4) by (metis fst_conv)
  qed
  ultimately show ?thesis by blast
qed

theorem overlay_reopens_witness:
  "\<exists>ov ov'. overlay_open example_base 3 (Absent True) [] = Inr ov \<and>
     overlay_open example_base 3 (Present (ofile (fst (overlay_write ov 1 [5])))) [] = Inr ov' \<and>
     (\<forall>p < 3. disk_byte ov' p = disk_byte (fst (overlay_write ov 1 [5])) p)"
proof -
  obtain ov where "overlay_open example_base 3 (Absent True) [] = Inr ov" using example_open by blast
  then show ?thesis using overlay_reopens [OF _ _ _ refl, of example_base 3 "[]" ov "[Wr 1 [5]]" example_base 3 0] by auto
qed

end
