(* ===== verification/I2c_Bus.thy ===== *)
theory I2c_Bus
  imports Axp_Prelude
begin

text \<open>
  The bit-level I2C bus of \<^verbatim>\<open>src/src/devices/common/i2c_spd.cpp\<close>: \<open>I2CBus\<close>, the open-drain wires
  SCL and SDA between one host and its parts, and \<open>Eeprom24C02\<close>, the write-protected serial EEPROM
  that is the only part boards attach (DIMM SPDs, remote management memories, monitor EDIDs). The
  bus traces (\<open>trace_bits_\<close>, \<open>trace_byte_\<close>) only print and are left out.
\<close>

section \<open>The serial EEPROM\<close>

datatype i2c_st = IDLE | ADDR | WORD | RECV | XMIT | RECV_ACK
datatype ack_phase = ACK_NONE | ACK_ADDR | ACK_WORD | ACK_RECV | ACK_DATA

record eeprom24 =
  addr7 :: u8
  e_mem :: "u8 list"
  e_st :: i2c_st
  e_ack_phase :: ack_phase
  shreg :: u8
  bitpos :: u8
  wordptr :: u8
  e_rw :: bool
  ack_pull :: bool
  addr_match :: bool
  ack_seen :: bool

definition new_eeprom24 :: "u8 \<Rightarrow> u8 list \<Rightarrow> eeprom24" where
  "new_eeprom24 a img = \<lparr>addr7 = a,
     e_mem = (if length img < 256 then img @ replicate (256 - length img) 0xff else img),
     e_st = IDLE, e_ack_phase = ACK_NONE, shreg = 0, bitpos = 0, wordptr = 0, e_rw = False,
     ack_pull = False, addr_match = False, ack_seen = False\<rparr>"

definition pull_sda_low :: "eeprom24 \<Rightarrow> bool" where "pull_sda_low d = ack_pull d"

text \<open>\<open>I2CDevice::pull_scl_low\<close>, which the EEPROM does not override: no clock stretching.\<close>

definition pull_scl_low :: "eeprom24 \<Rightarrow> bool" where "pull_scl_low d = False"

definition enter_idle :: "eeprom24 \<Rightarrow> eeprom24" where
  "enter_idle d = d\<lparr>e_st := IDLE, e_ack_phase := ACK_NONE, shreg := 0, bitpos := 0,
     ack_pull := False, addr_match := False, ack_seen := False\<rparr>"

definition enter_addr :: "eeprom24 \<Rightarrow> eeprom24" where
  "enter_addr d = d\<lparr>e_st := ADDR, shreg := 0, bitpos := 0, e_ack_phase := ACK_ADDR,
     ack_pull := False, addr_match := False, ack_seen := False\<rparr>"

definition enter_word :: "eeprom24 \<Rightarrow> eeprom24" where
  "enter_word d = d\<lparr>e_st := WORD, shreg := 0, bitpos := 0, e_ack_phase := ACK_WORD,
     ack_pull := False, ack_seen := False\<rparr>"

definition enter_recv :: "eeprom24 \<Rightarrow> eeprom24" where
  "enter_recv d = d\<lparr>e_st := RECV, shreg := 0, bitpos := 0, e_ack_phase := ACK_RECV,
     ack_pull := False, ack_seen := False\<rparr>"

text \<open>\<open>mem_[wordptr_++]\<close>: the pointer is a byte and the memory has at least 256 bytes.\<close>

definition enter_xmit :: "eeprom24 \<Rightarrow> eeprom24" where
  "enter_xmit d =
     (let v = e_mem d ! unat (wordptr d)
      in d\<lparr>e_st := XMIT, bitpos := 0, e_ack_phase := ACK_DATA, ack_seen := False,
           shreg := v, wordptr := wordptr d + 1, ack_pull := (v AND 0x80 = 0)\<rparr>)"

definition on_start :: "eeprom24 \<Rightarrow> eeprom24" where "on_start d = enter_addr d"
definition on_stop :: "eeprom24 \<Rightarrow> eeprom24" where "on_stop d = enter_idle d"

text \<open>\<open>(shreg_ << 1) | sda\<close>, which the three receiving states share.\<close>

definition shift_in :: "u8 \<Rightarrow> bool \<Rightarrow> u8" where
  "shift_in s sda = push_bit 1 s OR of_flag sda"

definition on_scl_rise :: "eeprom24 \<Rightarrow> bool \<Rightarrow> eeprom24" where
  "on_scl_rise d sda = (case e_st d of
     ADDR \<Rightarrow>
       let d = d\<lparr>shreg := shift_in (shreg d) sda, bitpos := bitpos d + 1\<rparr>
       in if bitpos d = 8
          then d\<lparr>e_rw := (shreg d AND 1 \<noteq> 0), addr_match := (drop_bit 1 (shreg d) = addr7 d),
                 e_st := RECV_ACK, bitpos := 0\<rparr>
          else d
   | WORD \<Rightarrow>
       let d = d\<lparr>shreg := shift_in (shreg d) sda, bitpos := bitpos d + 1\<rparr>
       in if bitpos d = 8
          then d\<lparr>wordptr := (if addr_match d then shreg d else wordptr d), e_st := RECV_ACK, bitpos := 0\<rparr>
          else d
   | RECV \<Rightarrow>
       let d = d\<lparr>shreg := shift_in (shreg d) sda, bitpos := bitpos d + 1\<rparr>
       in if bitpos d = 8
          then d\<lparr>wordptr := (wordptr d AND NOT 7) OR ((wordptr d + 1) AND 7), e_st := RECV_ACK, bitpos := 0\<rparr>
          else d
   | XMIT \<Rightarrow>
       let d = d\<lparr>bitpos := bitpos d + 1\<rparr>
       in if bitpos d = 8 then d\<lparr>e_st := RECV_ACK, bitpos := 0\<rparr> else d
   | RECV_ACK \<Rightarrow>
       let d = d\<lparr>ack_seen := True\<rparr>
       in if e_ack_phase d = ACK_DATA \<and> sda then enter_idle d else d
   | IDLE \<Rightarrow> d)"

definition prepare_next_tx_bit :: "eeprom24 \<Rightarrow> eeprom24" where
  "prepare_next_tx_bit d =
     (if bitpos d < 8 then d\<lparr>ack_pull := (shreg d AND drop_bit (unat (bitpos d)) 0x80 = 0)\<rparr> else d)"

definition on_scl_fall :: "eeprom24 \<Rightarrow> eeprom24" where
  "on_scl_fall d =
     (if e_st d = RECV_ACK
      then if \<not> ack_seen d
           then d\<lparr>ack_pull := (if e_ack_phase d = ACK_DATA then False else addr_match d)\<rparr>
           else if \<not> addr_match d then enter_idle d
           else if e_ack_phase d = ACK_ADDR then (if \<not> e_rw d then enter_word d else enter_xmit d)
           else if e_ack_phase d = ACK_WORD \<or> e_ack_phase d = ACK_RECV then enter_recv d
           else if e_ack_phase d = ACK_DATA then enter_xmit d
           else d
      else if e_st d = XMIT then prepare_next_tx_bit d
      else d)"

section \<open>The wires\<close>

record i2c_bus =
  host_scl :: bool
  host_sda :: bool
  line_scl :: bool
  line_sda :: bool
  devs :: "eeprom24 list"

definition new_bus :: i2c_bus where
  "new_bus = \<lparr>host_scl = True, host_sda = True, line_scl = True, line_sda = True, devs = []\<rparr>"

definition recompute_lines :: "i2c_bus \<Rightarrow> i2c_bus" where
  "recompute_lines b =
     b\<lparr>line_scl := host_scl b \<and> \<not> list_ex pull_scl_low (devs b),
       line_sda := host_sda b \<and> \<not> list_ex pull_sda_low (devs b)\<rparr>"

definition attach :: "i2c_bus \<Rightarrow> eeprom24 \<Rightarrow> i2c_bus" where
  "attach b d = recompute_lines (b\<lparr>devs := devs b @ [d]\<rparr>)"

definition notify_start :: "i2c_bus \<Rightarrow> i2c_bus" where
  "notify_start b = b\<lparr>devs := map on_start (devs b)\<rparr>"

definition notify_stop :: "i2c_bus \<Rightarrow> i2c_bus" where
  "notify_stop b = b\<lparr>devs := map on_stop (devs b)\<rparr>"

definition notify_scl_rise :: "i2c_bus \<Rightarrow> i2c_bus" where
  "notify_scl_rise b = b\<lparr>devs := map (\<lambda>d. on_scl_rise d (line_sda b)) (devs b)\<rparr>"

definition notify_scl_fall :: "i2c_bus \<Rightarrow> i2c_bus" where
  "notify_scl_fall b = b\<lparr>devs := map on_scl_fall (devs b)\<rparr>"

definition drive_from_host :: "i2c_bus \<Rightarrow> bool \<Rightarrow> bool \<Rightarrow> i2c_bus" where
  "drive_from_host b scl_release sda_release =
     (let old_scl = line_scl b;
          old_sda = line_sda b;
          b = recompute_lines (b\<lparr>host_scl := scl_release, host_sda := sda_release\<rparr>);
          b = (if old_sda \<and> \<not> line_sda b \<and> line_scl b then notify_start b
               else if \<not> old_sda \<and> line_sda b \<and> line_scl b then notify_stop b
               else b);
          b = (if \<not> old_scl \<and> line_scl b then notify_scl_rise b
               else if old_scl \<and> \<not> line_scl b then notify_scl_fall b
               else b)
      in recompute_lines b)"

end
