(* ===== verification/Pcf8584.thy ===== *)
theory Pcf8584
  imports I2c_Bus
begin

text \<open>
  The PCF8584 I2C bus controller (\<^verbatim>\<open>src/src/platforms/ds10/PCF8584.cpp\<close>), the bus master that the
  DS10's and DS20E's firmware reaches through two byte registers: S0, the data shift register, and
  S1, control on write and status on read. Every byte goes out on the wires of \<^verbatim>\<open>I2c_Bus\<close> while the
  register access is handled. The state file and the register trace are left out.
\<close>

abbreviation (input) CTL_PIN :: u8 where "CTL_PIN \<equiv> 0x80"
abbreviation (input) CTL_ESO :: u8 where "CTL_ESO \<equiv> 0x40"
abbreviation (input) CTL_ES1 :: u8 where "CTL_ES1 \<equiv> 0x20"
abbreviation (input) CTL_STA :: u8 where "CTL_STA \<equiv> 0x04"
abbreviation (input) CTL_STO :: u8 where "CTL_STO \<equiv> 0x02"
abbreviation (input) CTL_ACK :: u8 where "CTL_ACK \<equiv> 0x01"
abbreviation (input) STS_PIN :: u8 where "STS_PIN \<equiv> 0x80"
abbreviation (input) STS_LRB :: u8 where "STS_LRB \<equiv> 0x08"
abbreviation (input) STS_BB :: u8 where "STS_BB \<equiv> 0x01"

section \<open>The wire\<close>

text \<open>\<open>scl_sda\<close> is \<open>drive_from_host\<close> on the controller's bus.\<close>

definition send_start :: "i2c_bus \<Rightarrow> i2c_bus" where
  "send_start b =
     (let b = drive_from_host b False True;
          b = drive_from_host b True True;
          b = drive_from_host b True False
      in drive_from_host b False False)"

definition send_stop :: "i2c_bus \<Rightarrow> i2c_bus" where
  "send_stop b =
     (let b = drive_from_host b False False;
          b = drive_from_host b True False
      in drive_from_host b True True)"

text \<open>One turn of the loops of \<open>send_byte\<close> and \<open>recv_byte\<close>: SDA is set while SCL is low, SCL goes
  up, the line is looked at, SCL goes down.\<close>

definition clock_bit :: "i2c_bus \<Rightarrow> bool \<Rightarrow> i2c_bus \<times> bool" where
  "clock_bit b x =
     (let b = drive_from_host b False x;
          b = drive_from_host b True x
      in (drive_from_host b False x, line_sda b))"

definition send_byte :: "i2c_bus \<Rightarrow> u8 \<Rightarrow> i2c_bus \<times> bool" where
  "send_byte b v =
     (let b = foldl (\<lambda>b i. fst (clock_bit b (drop_bit i v AND 1 \<noteq> 0))) b (rev [0..<8]);
          (b, sda) = clock_bit b True
      in (b, \<not> sda))"

definition sample_bit :: "i2c_bus \<times> u8 \<Rightarrow> i2c_bus \<times> u8" where
  "sample_bit r = (let (b, sda) = clock_bit (fst r) True in (b, shift_in (snd r) sda))"

definition recv_byte :: "i2c_bus \<Rightarrow> bool \<Rightarrow> i2c_bus \<times> u8" where
  "recv_byte b ack =
     (let (b, v) = (sample_bit ^^ 8) (b, 0);
          b = fst (clock_bit b (\<not> ack))
      in (drive_from_host b False True, v))"

section \<open>The registers\<close>

record pcf =
  m_bus :: i2c_bus
  s0 :: u8
  s1 :: u8
  status :: u8
  own :: u8
  clock_sel :: u8
  reading :: bool
  addressed :: bool

definition new_pcf :: "i2c_bus \<Rightarrow> pcf" where
  "new_pcf b = \<lparr>m_bus = drive_from_host b True True, s0 = 0, s1 = 0, status = STS_PIN OR STS_BB,
     own = 0, clock_sel = 0, reading = False, addressed = False\<rparr>"

definition set_bus_free :: "pcf \<Rightarrow> bool \<Rightarrow> pcf" where
  "set_bus_free p fr =
     (if fr then p\<lparr>status := status p OR STS_BB\<rparr> else p\<lparr>status := status p AND NOT STS_BB\<rparr>)"

text \<open>What a byte sent leaves: whether it was acknowledged, and PIN and LRB of the status.\<close>

definition note_ack :: "pcf \<Rightarrow> i2c_bus \<times> bool \<Rightarrow> pcf" where
  "note_ack p r =
     (let p = p\<lparr>m_bus := fst r, addressed := snd r, status := status p AND NOT (STS_PIN OR STS_LRB)\<rparr>
      in if \<not> addressed p then p\<lparr>status := status p OR STS_LRB\<rparr> else p)"

definition begin_transfer :: "pcf \<Rightarrow> pcf" where
  "begin_transfer p =
     (let p = set_bus_free (p\<lparr>m_bus := send_start (m_bus p)\<rparr>) False;
          p = p\<lparr>reading := (s0 p AND 1 \<noteq> 0)\<rparr>;
          p = note_ack p (send_byte (m_bus p) (s0 p))
      in if addressed p \<and> reading p
         then let (b, v) = recv_byte (m_bus p) True in p\<lparr>m_bus := b, s0 := v\<rparr>
         else p)"

definition pcf_read :: "pcf \<Rightarrow> u64 \<Rightarrow> pcf \<times> u8" where
  "pcf_read p address =
     (if address AND 1 = 0
      then let dat = s0 p
           in if reading p \<and> addressed p \<and> s1 p AND CTL_ESO \<noteq> 0
              then let (b, v) = recv_byte (m_bus p) (s1 p AND CTL_ACK \<noteq> 0)
                   in (p\<lparr>m_bus := b, s0 := v\<rparr>, dat)
              else (p, dat)
      else (p, status p))"

definition pcf_write :: "pcf \<Rightarrow> u64 \<Rightarrow> u64 \<Rightarrow> pcf" where
  "pcf_write p address dat =
     (let b = (ucast dat :: u8) in
      if address AND 1 = 0
      then if s1 p AND CTL_ESO = 0
           then if s1 p AND CTL_ES1 \<noteq> 0 then p\<lparr>clock_sel := b\<rparr> else p\<lparr>own := b\<rparr>
           else let p = p\<lparr>s0 := b\<rparr>
                in if status p AND STS_BB \<noteq> 0 then p else note_ack p (send_byte (m_bus p) b)
      else let p = p\<lparr>s1 := b\<rparr>
           in if b AND CTL_STA \<noteq> 0 then begin_transfer p
              else if b AND CTL_STO \<noteq> 0
              then let p = set_bus_free (p\<lparr>m_bus := send_stop (m_bus p)\<rparr>) True
                   in p\<lparr>reading := False, addressed := False, status := status p OR STS_PIN\<rparr>
              else if status p AND STS_BB \<noteq> 0 then p\<lparr>status := status p OR STS_PIN\<rparr>
              else p\<lparr>status := status p AND NOT STS_PIN\<rparr>)"

end
