(* ===== verification/I2c_Facts.thy ===== *)
theory I2c_Facts
  imports Pcf8584
begin

text \<open>
  What a byte on the wires does: the bit-level bus and its EEPROMs refine a bus of byte
  transactions, in which a part is addressed, its pointer set, and its memory read from there.
\<close>

section \<open>One clock\<close>

lemma no_stretching [simp]: "list_ex pull_scl_low ds = False"
  by (simp add: pull_scl_low_def list_ex_iff)

abbreviation pulled :: "eeprom24 list \<Rightarrow> bool" where "pulled ds \<equiv> list_ex ack_pull ds"

lemma pull_sda_low_eq [simp]: "pull_sda_low = ack_pull"
  by (simp add: pull_sda_low_def fun_eq_iff)

text \<open>The bus with SCL held low and SDA driven to \<open>x\<close>.\<close>

definition low_bus :: "bool \<Rightarrow> eeprom24 list \<Rightarrow> i2c_bus" where
  "low_bus x ds = \<lparr>host_scl = False, host_sda = x, line_scl = False, line_sda = x \<and> \<not> pulled ds, devs = ds\<rparr>"

definition dclock :: "eeprom24 \<Rightarrow> bool \<Rightarrow> eeprom24" where
  "dclock d sda = on_scl_fall (on_scl_rise d sda)"

lemma low_bus_simps [simp]: "line_scl (low_bus x ds) = False" "devs (low_bus x ds) = ds"
  by (simp_all add: low_bus_def)

lemma drive_low:
  "drive_from_host b False x = low_bus x (if line_scl b then map on_scl_fall (devs b) else devs b)"
  by (cases b) (simp add: drive_from_host_def recompute_lines_def notify_scl_fall_def low_bus_def Let_def)

lemma clock_bit_low:
  fixes b x defines "L \<equiv> x \<and> \<not> pulled (devs b)"
  assumes "\<not> line_scl b"
  shows "clock_bit b x = (low_bus x (map (\<lambda>d. dclock d L) (devs b)),
     x \<and> \<not> pulled (map (\<lambda>d. on_scl_rise d L) (devs b)))"
  using assms
  by (auto simp: clock_bit_def drive_low drive_from_host_def [of _ True] low_bus_def recompute_lines_def
      notify_scl_rise_def notify_start_def notify_stop_def dclock_def L_def Let_def comp_def)

section \<open>Parts that listen\<close>

definition idle :: "eeprom24 \<Rightarrow> bool" where "idle d \<longleftrightarrow> e_st d = IDLE \<and> \<not> ack_pull d"

definition listens :: "u8 \<Rightarrow> eeprom24 \<Rightarrow> bool" where
  "listens k d \<longleftrightarrow> \<not> ack_pull d \<and> (e_st d = IDLE \<or> e_st d \<in> {ADDR, WORD, RECV} \<and> bitpos d = k)"

lemma idle_clock [simp]: "idle d \<Longrightarrow> on_scl_rise d x = d" "idle d \<Longrightarrow> on_scl_fall d = d" "idle d \<Longrightarrow> dclock d x = d"
  by (simp_all add: idle_def dclock_def on_scl_rise_def on_scl_fall_def)

lemma idle_no_pull [simp]: "idle d \<Longrightarrow> \<not> ack_pull d"
  by (simp add: idle_def)

lemma dclock_receive:
  assumes "e_st d \<in> {ADDR, WORD, RECV}" "bitpos d + 1 \<noteq> 8"
  shows "dclock d x = d\<lparr>shreg := shift_in (shreg d) x, bitpos := bitpos d + 1\<rparr>"
  using assms by (cases "e_st d") (simp_all add: dclock_def on_scl_rise_def on_scl_fall_def Let_def)

lemma listens_clock: "listens k d \<Longrightarrow> k + 1 \<noteq> 8 \<Longrightarrow> listens (k + 1) (dclock d x)"
  using dclock_receive [of d x] idle_clock(3) [of d x] by (auto simp: listens_def idle_def)

lemma listens_unpulled: "list_all (listens k) ds \<Longrightarrow> \<not> pulled ds"
  by (auto simp: list_all_iff list_ex_iff listens_def)

lemma send_bits:
  assumes "\<not> line_scl b" "list_all (listens (of_nat k)) (devs b)" "k + length xs \<le> 8"
  shows "\<not> line_scl (foldl (\<lambda>b x. fst (clock_bit b x)) b xs) \<and>
    devs (foldl (\<lambda>b x. fst (clock_bit b x)) b xs) = map (\<lambda>d. foldl dclock d xs) (devs b)"
  using assms
proof (induction xs arbitrary: b k)
  case (Cons x xs)
  have step: "fst (clock_bit b x) = low_bus x (map (\<lambda>d. dclock d x) (devs b))"
    using Cons.prems listens_unpulled [OF Cons.prems(2)] by (simp add: clock_bit_low)
  show ?case
  proof (cases "xs = []")
    case True
    then show ?thesis by (simp add: step)
  next
    case False
    then have "k < 7" using Cons.prems(3) by (cases xs) auto
    then have "(of_nat k + 1 :: u8) \<noteq> 8"
      by (simp add: word_unat_eq_iff unat_word_ariths unat_of_nat take_bit_nat_eq_self)
    then have "list_all (listens (of_nat (Suc k))) (devs (low_bus x (map (\<lambda>d. dclock d x) (devs b))))"
      using Cons.prems(2) listens_clock [of "of_nat k"] by (simp add: list_all_iff add.commute)
    then show ?thesis
      using Cons.IH [of "low_bus x (map (\<lambda>d. dclock d x) (devs b))" "Suc k"] Cons.prems(3)
      by (simp add: step comp_def)
  qed
qed simp

section \<open>One byte, as the parts see it\<close>

definition bits8 :: "u8 \<Rightarrow> bool list" where
  "bits8 v = map (\<lambda>i. drop_bit i v AND 1 \<noteq> 0) (rev [0..<8])"

lemma bits8_eq: "bits8 v = [bit v 7, bit v 6, bit v 5, bit v 4, bit v 3, bit v 2, bit v 1, bit v 0]"
  by (simp add: bits8_def upt_rec numeral_eq_Suc and_one_eq bit_iff_odd_drop_bit odd_iff_mod_2_eq_one)

lemma bit_shift_in: "bit (shift_in s x) n \<longleftrightarrow> n < 8 \<and> (if n = 0 then x else bit s (n - 1))"
  unfolding shift_in_def of_flag_def bit_or_iff bit_push_bit_iff
  by (auto simp: bit_1_iff bit_imp_le_length dest: bit_imp_le_length)

lemma shift_in_byte: "foldl shift_in s (bits8 v) = v"
proof (rule bit_word_eqI)
  fix n assume "n < LENGTH(8)"
  then have "n \<in> {0, 1, 2, 3, 4, 5, 6, 7}" by auto
  then show "bit (foldl shift_in s (bits8 v)) n = bit v n"
    by (auto simp: bits8_eq bit_shift_in)
qed

lemma receive_bits:
  assumes "e_st d \<in> {ADDR, WORD, RECV}" "bitpos d = of_nat k" "k + length xs < 8"
  shows "foldl dclock d xs = d\<lparr>shreg := foldl shift_in (shreg d) xs, bitpos := of_nat (k + length xs)\<rparr>"
  using assms
proof (induction xs arbitrary: d k)
  case Nil
  then show ?case by (metis add.right_neutral eeprom24.surjective eeprom24.update_convs(5,6) foldl_Nil list.size(3))
next
  case (Cons x xs)
  have "(of_nat k + 1 :: u8) \<noteq> 8"
    using Cons.prems(3) by (simp add: word_unat_eq_iff unat_word_ariths unat_of_nat take_bit_nat_eq_self)
  then have "dclock d x = d\<lparr>shreg := shift_in (shreg d) x, bitpos := of_nat (Suc k)\<rparr>"
    using dclock_receive [of d x] Cons.prems by (simp add: add.commute)
  then show ?case
    using Cons.IH [of "dclock d x" "Suc k"] Cons.prems by simp
qed

text \<open>A part that has taken a byte acknowledges it while SCL is low before the ninth clock.\<close>

definition took :: "eeprom24 \<Rightarrow> u8 \<Rightarrow> eeprom24" where
  "took d v = (case e_st d of
     ADDR \<Rightarrow> d\<lparr>shreg := v, bitpos := 0, e_rw := (v AND 1 \<noteq> 0), addr_match := (drop_bit 1 v = addr7 d),
              e_st := RECV_ACK, ack_pull := (drop_bit 1 v = addr7 d)\<rparr>
   | WORD \<Rightarrow> d\<lparr>shreg := v, bitpos := 0, wordptr := (if addr_match d then v else wordptr d),
              e_st := RECV_ACK, ack_pull := addr_match d\<rparr>
   | RECV \<Rightarrow> d\<lparr>shreg := v, bitpos := 0, wordptr := (wordptr d AND NOT 7) OR ((wordptr d + 1) AND 7),
              e_st := RECV_ACK, ack_pull := addr_match d\<rparr>
   | _ \<Rightarrow> d)"

lemma receive_byte:
  assumes "e_st d \<in> {ADDR, WORD, RECV}" "bitpos d = 0" "\<not> ack_seen d" "e_ack_phase d \<noteq> ACK_DATA"
  shows "foldl dclock d (bits8 v) = took d v"
proof -
  obtain xs x where v: "bits8 v = xs @ [x]" "length xs = 7"
    by (auto simp: bits8_eq)
  have "foldl dclock d xs = d\<lparr>shreg := foldl shift_in (shreg d) xs, bitpos := 7\<rparr>"
    using receive_bits [of d 0 xs] assms v by simp
  moreover have "shift_in (foldl shift_in (shreg d) xs) x = v"
    using shift_in_byte [of "shreg d" v] v by simp
  ultimately show ?thesis
    using assms v by (cases "e_st d") (simp_all add: dclock_def on_scl_rise_def on_scl_fall_def took_def Let_def)
qed

section \<open>One byte, on the wires\<close>

lemma send_byte_low:
  fixes b v defines "ds \<equiv> map (\<lambda>d. foldl dclock d (bits8 v)) (devs b)"
  defines "L \<equiv> \<not> pulled ds"
  assumes "\<not> line_scl b" "list_all (listens 0) (devs b)"
  shows "send_byte b v = (low_bus True (map (\<lambda>d. dclock d L) ds), pulled (map (\<lambda>d. on_scl_rise d L) ds))"
proof -
  define c where "c = foldl (\<lambda>b i. fst (clock_bit b (drop_bit i v AND 1 \<noteq> 0))) b (rev [0..<8])"
  have "c = foldl (\<lambda>b x. fst (clock_bit b x)) b (bits8 v)"
    unfolding c_def bits8_def by (simp add: foldl_map)
  then have c: "\<not> line_scl c" "devs c = ds"
    using send_bits [of b 0 "bits8 v"] assms by (simp_all add: bits8_eq)
  have "send_byte b v = (let (b, sda) = clock_bit c True in (b, \<not> sda))"
    unfolding send_byte_def c_def by simp
  then show ?thesis using c by (simp add: clock_bit_low L_def)
qed

text \<open>The ninth clock for a part that took a byte: it acknowledges if it was addressed, and goes on to
  what follows.\<close>

definition after :: "eeprom24 \<Rightarrow> u8 \<Rightarrow> eeprom24" where
  "after d v = (if idle d then d else dclock (took d v) False)"

lemma ninth_clock:
  assumes "e_st d \<in> {ADDR, WORD, RECV}" "e_ack_phase d \<noteq> ACK_DATA"
  shows "ack_pull (on_scl_rise (took d v) x) = ack_pull (took d v)"
    and "dclock (took d v) x = after d v"
  using assms
  by (cases "e_st d"; simp add: took_def on_scl_rise_def dclock_def after_def idle_def Let_def)+

definition ready :: "eeprom24 \<Rightarrow> bool" where
  "ready d \<longleftrightarrow> idle d \<or> e_st d \<in> {ADDR, WORD, RECV} \<and> bitpos d = 0 \<and> \<not> ack_seen d \<and>
     e_ack_phase d \<noteq> ACK_DATA \<and> \<not> ack_pull d"

lemma foldl_idle: "idle d \<Longrightarrow> foldl dclock d xs = d"
  by (induction xs) simp_all

lemma ready_byte: "ready d \<Longrightarrow> foldl dclock d (bits8 v) = (if idle d then d else took d v)"
  by (auto simp: ready_def foldl_idle receive_byte)

lemma send_byte_ready:
  assumes "\<not> line_scl b" "list_all ready (devs b)"
  shows "send_byte b v = (low_bus True (map (\<lambda>d. after d v) (devs b)),
     list_ex (\<lambda>d. \<not> idle d \<and> ack_pull (took d v)) (devs b))"
proof -
  have rd: "ready d" if "d \<in> set (devs b)" for d using assms(2) that by (simp add: list_all_iff)
  have l: "list_all (listens 0) (devs b)"
    using assms(2) by (auto simp: list_all_iff ready_def listens_def idle_def)
  have "dclock (foldl dclock d (bits8 v)) x = after d v" if "d \<in> set (devs b)" for d x
    using rd [OF that] ninth_clock(2) [of d v x] by (cases "idle d") (auto simp: ready_byte after_def [of d] ready_def)
  moreover have "ack_pull (on_scl_rise (foldl dclock d (bits8 v)) x) \<longleftrightarrow> \<not> idle d \<and> ack_pull (took d v)"
    if "d \<in> set (devs b)" for d x
    using rd [OF that] by (auto simp: ready_byte ready_def ninth_clock(1))
  ultimately show ?thesis
    unfolding send_byte_low [OF assms(1) l] by (auto simp: list_ex_iff cong: map_cong)
qed

text \<open>A part that sends holds bit \<open>7 - k\<close> of its shift register on SDA before clock \<open>k\<close>.\<close>

definition sends :: "nat \<Rightarrow> eeprom24 \<Rightarrow> bool" where
  "sends k d \<longleftrightarrow> e_st d = XMIT \<and> bitpos d = of_nat k \<and> (ack_pull d \<longleftrightarrow> \<not> bit (shreg d) (7 - k))"

lemma and_bit_mask: "k < 8 \<Longrightarrow> (v AND drop_bit k 0x80 = 0) \<longleftrightarrow> \<not> bit v (7 - k)" for v :: u8
proof -
  assume "k < 8"
  then have "k \<in> {0, 1, 2, 3, 4, 5, 6, 7}" by auto
  then have "drop_bit k (0x80 :: u8) = mask1 (7 - k)"
    by (auto simp: mask1_def)
  then show ?thesis by (simp add: and_mask1_eq_0)
qed

lemma sends_clock:
  assumes "sends k d" "k < 7"
  shows "dclock d x = d\<lparr>bitpos := of_nat (Suc k), ack_pull := \<not> bit (shreg d) (6 - k)\<rparr>"
    and "ack_pull (on_scl_rise d x) = ack_pull d"
proof -
  have k: "(of_nat (Suc k) :: u8) < 8" "unat (of_nat (Suc k) :: u8) = Suc k"
    using assms(2) by (simp_all add: word_less_nat_alt unat_of_nat take_bit_nat_eq_self del: of_nat_Suc)
  then have "on_scl_rise d x = d\<lparr>bitpos := of_nat (Suc k)\<rparr>"
    using assms by (auto simp: sends_def on_scl_rise_def Let_def add.commute)
  then show "dclock d x = d\<lparr>bitpos := of_nat (Suc k), ack_pull := \<not> bit (shreg d) (6 - k)\<rparr>"
    "ack_pull (on_scl_rise d x) = ack_pull d"
    using assms k and_bit_mask [of "Suc k" "shreg d"]
    by (simp_all add: dclock_def on_scl_fall_def sends_def prepare_next_tx_bit_def del: of_nat_Suc)
qed

lemma map_one: "list_all idle ds \<Longrightarrow> (\<And>e. idle e \<Longrightarrow> f e = e) \<Longrightarrow> map f (ds[j := d]) = ds[j := f d]"
  by (simp add: map_update list_all_iff map_idI)

lemma pulled_one: "list_all idle ds \<Longrightarrow> j < length ds \<Longrightarrow> pulled (ds[j := d]) = ack_pull d"
  by (auto simp: list_all_iff list_ex_iff idle_def set_update_memI dest: set_update_subset_insert [THEN subsetD])

lemma recv_bits:
  assumes "\<not> line_scl b" "devs b = ds[j := d]" "list_all idle ds" "j < length ds" "sends 0 d" "n \<le> 7"
  shows "\<not> line_scl (fst ((sample_bit ^^ n) (b, 0))) \<and>
    devs (fst ((sample_bit ^^ n) (b, 0))) = ds[j := d\<lparr>bitpos := of_nat n, ack_pull := \<not> bit (shreg d) (7 - n)\<rparr>] \<and>
    snd ((sample_bit ^^ n) (b, 0)) = foldl shift_in 0 (take n (bits8 (shreg d)))"
  using assms(6)
proof (induction n)
  case 0
  have "d\<lparr>bitpos := 0, ack_pull := \<not> bit (shreg d) 7\<rparr> = d"
    using assms(5) by (cases d) (simp add: sends_def)
  then show ?case using assms by simp
next
  case (Suc n)
  let ?r = "(sample_bit ^^ n) (b, 0)"
  let ?e = "d\<lparr>bitpos := of_nat n, ack_pull := \<not> bit (shreg d) (7 - n)\<rparr>"
  have n: "n < 7" "n < length (bits8 (shreg d))" using Suc.prems by (simp_all add: bits8_eq)
  have e: "sends n ?e" using assms(5) by (simp add: sends_def)
  have "clock_bit (fst ?r) True =
      (low_bus True (ds[j := ?e\<lparr>bitpos := of_nat (Suc n), ack_pull := \<not> bit (shreg d) (6 - n)\<rparr>]), bit (shreg d) (7 - n))"
    using Suc n assms(3,4) sends_clock [OF e n(1)]
    by (simp add: clock_bit_low map_one pulled_one del: of_nat_Suc)
  moreover have "bits8 (shreg d) ! n = bit (shreg d) (7 - n)"
    using n(1) by (simp add: bits8_def rev_nth and_one_eq bit_iff_odd_drop_bit odd_iff_mod_2_eq_one)
  ultimately show ?case
    using Suc n by (simp add: sample_bit_def [of "(sample_bit ^^ n) (b, 0)"] take_Suc_conv_app_nth del: of_nat_Suc)
qed

text \<open>The eighth and the ninth clock of a byte a part sends.\<close>

definition sent :: "eeprom24 \<Rightarrow> bool \<Rightarrow> eeprom24" where
  "sent d ack = (let d = d\<lparr>bitpos := 0, e_st := RECV_ACK, ack_pull := False, ack_seen := True\<rparr>
     in if ack then enter_xmit d else enter_idle d)"

lemma recv_byte_sends:
  assumes "\<not> line_scl b" "devs b = ds[j := d]" "list_all idle ds" "j < length ds" "sends 0 d"
    and "\<not> ack_seen d" "e_ack_phase d = ACK_DATA" "addr_match d"
  shows "recv_byte b ack = (low_bus True (ds[j := sent d ack]), shreg d)"
proof -
  let ?r = "(sample_bit ^^ 7) (b, 0)"
  let ?e = "d\<lparr>bitpos := 7, ack_pull := \<not> bit (shreg d) 0\<rparr>"
  let ?f = "d\<lparr>bitpos := 0, e_st := RECV_ACK, ack_pull := False\<rparr>"
  have r: "\<not> line_scl (fst ?r)" "devs (fst ?r) = ds[j := ?e]" "snd ?r = foldl shift_in 0 (take 7 (bits8 (shreg d)))"
    using recv_bits [OF assms(1-5), of 7] by simp_all
  have st: "e_st d = XMIT" using assms(5) by (simp add: sends_def)
  have e: "dclock ?e x = ?f" "ack_pull (on_scl_rise ?e x) \<longleftrightarrow> \<not> bit (shreg d) 0" for x
    using st assms by (simp_all add: dclock_def on_scl_rise_def on_scl_fall_def)
  have c8: "clock_bit (fst ?r) True = (low_bus True (ds[j := ?f]), bit (shreg d) 0)"
    using r assms(3,4) by (simp add: clock_bit_low map_one pulled_one e)
  have "foldl shift_in 0 (take 7 (bits8 (shreg d)) @ [bit (shreg d) 0]) = shreg d"
    using shift_in_byte [of 0 "shreg d"] by (simp add: bits8_eq)
  then have v: "shift_in (snd ?r) (bit (shreg d) 0) = shreg d" using r by simp
  have "(sample_bit ^^ 8) (b, 0) = sample_bit ?r" by (simp add: numeral_eq_Suc)
  then have eight: "(sample_bit ^^ 8) (b, 0) = (low_bus True (ds[j := ?f]), shreg d)"
    by (simp add: sample_bit_def [of ?r] c8 v)
  have "dclock ?f (\<not> ack) = sent d ack"
    using assms by (simp add: dclock_def on_scl_rise_def on_scl_fall_def sent_def enter_idle_def Let_def)
  then have "fst (clock_bit (low_bus True (ds[j := ?f])) (\<not> ack)) = low_bus (\<not> ack) (ds[j := sent d ack])"
    using assms(3,4) by (simp add: clock_bit_low map_one pulled_one)
  then show ?thesis
    unfolding recv_byte_def by (simp add: eight drive_low)
qed

lemma recv_byte_idle:
  assumes "\<not> line_scl b" "list_all idle (devs b)"
  shows "recv_byte b ack = (low_bus True (devs b), 0xff)"
proof -
  have np: "\<not> pulled (devs b)" using assms(2) by (auto simp: list_ex_iff list_all_iff)
  have c: "clock_bit c x = (low_bus x (devs b), x)" if "\<not> line_scl c" "devs c = devs b" for c x
    using that assms np by (simp add: clock_bit_low list_all_iff map_idI cong: map_cong)
  have "sample_bit (c, v) = (low_bus True (devs b), shift_in v True)" if "\<not> line_scl c" "devs c = devs b" for c v
    using c [OF that] by (simp add: sample_bit_def)
  then have "(sample_bit ^^ 8) (b, 0) = (low_bus True (devs b), foldl shift_in 0 (replicate 8 True))"
    using assms(1) by (simp add: numeral_eq_Suc)
  moreover have "foldl shift_in 0 (replicate 8 True) = (0xff :: u8)"
    using shift_in_byte [of 0 "0xff"] by (simp add: bits8_eq numeral_eq_Suc)
  ultimately show ?thesis by (simp add: recv_byte_def c drive_low)
qed

section \<open>START and STOP\<close>

definition free_bus :: "eeprom24 list \<Rightarrow> i2c_bus" where
  "free_bus ds = \<lparr>host_scl = True, host_sda = True, line_scl = True, line_sda = True, devs = ds\<rparr>"

text \<open>Between bytes the bus is low with parts that listen, or free with every part idle.\<close>

definition between :: "i2c_bus \<Rightarrow> bool" where
  "between b \<longleftrightarrow> list_all ready (devs b) \<and> (line_scl b \<longrightarrow> list_all idle (devs b))"

lemma ready_edges:
  assumes "ready d"
  shows "\<not> ack_pull d" "\<not> ack_pull (on_scl_rise d x)" "enter_addr (on_scl_rise d x) = enter_addr d"
    "enter_idle (on_scl_rise d x) = enter_idle d"
  using assms
  by (cases "e_st d"; auto simp: ready_def idle_def on_scl_rise_def enter_addr_def enter_idle_def Let_def)+

lemma drive_low_between:
  "between b \<Longrightarrow> drive_from_host b False x = low_bus x (devs b)"
  by (auto simp: drive_low between_def list_all_iff map_idI)

lemma enter_unpulled: "\<not> pulled (map enter_addr ds)" "\<not> pulled (map enter_idle ds)"
  by (simp_all add: list_ex_iff enter_addr_def enter_idle_def)

lemma send_start_between:
  assumes "between b"
  shows "send_start b = low_bus False (map enter_addr (devs b))"
proof -
  have rd: "ready d" if "d \<in> set (devs b)" for d using assms that by (simp add: between_def list_all_iff)
  have np: "\<not> pulled (devs b)" "\<not> pulled (map (\<lambda>d. on_scl_rise d x) (devs b))" for x
    using ready_edges rd by (auto simp: list_ex_iff)
  have st: "map (on_start \<circ> (\<lambda>d. on_scl_rise d x)) (devs b) = map enter_addr (devs b)" for x
    using ready_edges rd by (simp add: on_start_def)
  have fall: "on_scl_fall (enter_addr d) = enter_addr d" for d
    by (simp add: enter_addr_def on_scl_fall_def)
  have up: "drive_from_host (low_bus True (devs b)) True True = free_bus (map (\<lambda>d. on_scl_rise d True) (devs b))"
    using np by (simp add: drive_from_host_def low_bus_def free_bus_def recompute_lines_def notify_scl_rise_def Let_def)
  let ?s = "drive_from_host (free_bus (map (\<lambda>d. on_scl_rise d True) (devs b))) True False"
  have "line_scl ?s" "devs ?s = map enter_addr (devs b)"
    using st [of True]
    by (simp_all add: drive_from_host_def free_bus_def recompute_lines_def notify_start_def Let_def del: map_map)
      (simp add: comp_def)
  then have "drive_from_host ?s False False = low_bus False (map enter_addr (devs b))"
    by (simp add: drive_low fall comp_def)
  then show ?thesis
    by (simp add: send_start_def drive_low_between [OF assms] up)
qed

lemma send_stop_between:
  assumes "between b"
  shows "send_stop b = free_bus (map enter_idle (devs b))"
proof -
  have rd: "ready d" if "d \<in> set (devs b)" for d using assms that by (simp add: between_def list_all_iff)
  have "\<not> pulled (devs b)" "\<not> pulled (map (\<lambda>d. on_scl_rise d x) (devs b))" for x
    using ready_edges rd by (auto simp: list_ex_iff)
  moreover have "map (\<lambda>d. on_stop (on_scl_rise d x)) (devs b) = map enter_idle (devs b)" for x
    using ready_edges rd by (simp add: on_stop_def)
  ultimately show ?thesis
    using enter_unpulled(2) [of "devs b"]
    unfolding send_stop_def drive_low_between [OF assms]
    by (simp add: drive_from_host_def low_bus_def free_bus_def recompute_lines_def notify_stop_def
        notify_scl_rise_def Let_def comp_def del: map_eq_conv)
qed

end
