(* ===== verification/I2c_Refine.thy ===== *)
theory I2c_Refine
  imports I2c_Facts
begin

text \<open>
  The abstract bus: parts with an address, a memory and a pointer, and transactions of whole bytes
  on them. The wires of \<^verbatim>\<open>I2c_Bus\<close>, driven bit by bit by \<^verbatim>\<open>Pcf8584\<close>, implement it.
\<close>

section \<open>Transactions\<close>

datatype i2c_phase = Free | Off | Ptr nat | Data nat | Out nat

record i2c_spec =
  sp_parts :: "(u8 \<times> u8 list) list"
  sp_ptr :: "u8 list"
  sp_phase :: i2c_phase

datatype i2c_op = Begin u8 | Put u8 | Get bool | End
datatype i2c_out = Acked bool | Got u8 | Quiet

definition part_at :: "i2c_spec \<Rightarrow> u8 \<Rightarrow> nat option" where
  "part_at a x = find (\<lambda>i. fst (sp_parts a ! i) = x) [0..<length (sp_parts a)]"

text \<open>The pointer after a data byte of a write: the next byte of its 8-byte page.\<close>

definition page_next :: "u8 \<Rightarrow> u8" where
  "page_next p = (p AND NOT 7) OR ((p + 1) AND 7)"

text \<open>What a host may do: it neither starts, stops nor sends while a part is sending.\<close>

fun spec_ok :: "i2c_spec \<Rightarrow> i2c_op \<Rightarrow> bool" where
  "spec_ok a (Begin v) = (case sp_phase a of Out j \<Rightarrow> False | _ \<Rightarrow> True)"
| "spec_ok a (Put v) = (case sp_phase a of Free \<Rightarrow> False | Out j \<Rightarrow> False | _ \<Rightarrow> True)"
| "spec_ok a (Get ack) = (case sp_phase a of Off \<Rightarrow> True | Out j \<Rightarrow> True | _ \<Rightarrow> False)"
| "spec_ok a End = (case sp_phase a of Out j \<Rightarrow> False | _ \<Rightarrow> True)"

fun spec_step :: "i2c_spec \<Rightarrow> i2c_op \<Rightarrow> i2c_spec \<times> i2c_out" where
  "spec_step a (Begin v) = (case part_at a (drop_bit 1 v) of
     None \<Rightarrow> (a\<lparr>sp_phase := Off\<rparr>, Acked False)
   | Some j \<Rightarrow> (a\<lparr>sp_phase := (if v AND 1 = 0 then Ptr j else Out j)\<rparr>, Acked True))"
| "spec_step a (Put v) = (case sp_phase a of
     Ptr j \<Rightarrow> (a\<lparr>sp_ptr := (sp_ptr a)[j := v], sp_phase := Data j\<rparr>, Acked True)
   | Data j \<Rightarrow> (a\<lparr>sp_ptr := (sp_ptr a)[j := page_next (sp_ptr a ! j)], sp_phase := Data j\<rparr>, Acked True)
   | _ \<Rightarrow> (a, Acked False))"
| "spec_step a (Get ack) = (case sp_phase a of
     Out j \<Rightarrow> (a\<lparr>sp_ptr := (sp_ptr a)[j := sp_ptr a ! j + 1], sp_phase := (if ack then Out j else Off)\<rparr>,
               Got (snd (sp_parts a ! j) ! unat (sp_ptr a ! j)))
   | _ \<Rightarrow> (a, Got 0xff))"
| "spec_step a End = (a\<lparr>sp_phase := Free\<rparr>, Quiet)"

fun wire_step :: "i2c_bus \<Rightarrow> i2c_op \<Rightarrow> i2c_bus \<times> i2c_out" where
  "wire_step b (Begin v) = map_prod id Acked (send_byte (send_start b) v)"
| "wire_step b (Put v) = map_prod id Acked (send_byte b v)"
| "wire_step b (Get ack) = map_prod id Got (recv_byte b ack)"
| "wire_step b End = (send_stop b, Quiet)"

section \<open>The refinement relation\<close>

definition part_rel :: "i2c_phase \<Rightarrow> nat \<Rightarrow> u8 \<times> u8 list \<Rightarrow> u8 \<Rightarrow> eeprom24 \<Rightarrow> bool" where
  "part_rel ph i am p d \<longleftrightarrow> addr7 d = fst am \<and> e_mem d = snd am \<and>
     (if ph = Ptr i
      then e_st d = WORD \<and> bitpos d = 0 \<and> e_ack_phase d = ACK_WORD \<and> \<not> ack_pull d \<and> addr_match d \<and>
           \<not> ack_seen d \<and> wordptr d = p
      else if ph = Data i
      then e_st d = RECV \<and> bitpos d = 0 \<and> e_ack_phase d = ACK_RECV \<and> \<not> ack_pull d \<and> addr_match d \<and>
           \<not> ack_seen d \<and> wordptr d = p
      else if ph = Out i
      then sends 0 d \<and> e_ack_phase d = ACK_DATA \<and> addr_match d \<and> \<not> ack_seen d \<and>
           shreg d = e_mem d ! unat p \<and> wordptr d = p + 1
      else idle d \<and> wordptr d = p)"

definition bus_rel :: "i2c_bus \<Rightarrow> i2c_spec \<Rightarrow> bool" where
  "bus_rel b a \<longleftrightarrow> distinct (map fst (sp_parts a)) \<and> length (devs b) = length (sp_parts a) \<and>
     length (sp_ptr a) = length (sp_parts a) \<and>
     (\<forall>i<length (devs b). part_rel (sp_phase a) i (sp_parts a ! i) (sp_ptr a ! i) (devs b ! i)) \<and>
     (case sp_phase a of Free \<Rightarrow> line_scl b | Off \<Rightarrow> \<not> line_scl b
      | Ptr j \<Rightarrow> \<not> line_scl b \<and> j < length (devs b) | Data j \<Rightarrow> \<not> line_scl b \<and> j < length (devs b)
      | Out j \<Rightarrow> \<not> line_scl b \<and> j < length (devs b))"

lemma part_at_Some: "part_at a x = Some j \<Longrightarrow> j < length (sp_parts a) \<and> fst (sp_parts a ! j) = x"
  by (auto simp: part_at_def find_Some_iff)

lemma part_at_None: "part_at a x = None \<Longrightarrow> i < length (sp_parts a) \<Longrightarrow> fst (sp_parts a ! i) \<noteq> x"
  by (auto simp: part_at_def find_None_iff)

lemma part_at_eq:
  assumes "distinct (map fst (sp_parts a))" "j < length (sp_parts a)" "fst (sp_parts a ! j) = x"
  shows "part_at a x = Some j"
proof (cases "part_at a x")
  case None
  then show ?thesis using part_at_None assms by blast
next
  case (Some i)
  then show ?thesis using part_at_Some [OF Some] assms nth_eq_iff_index_eq [OF assms(1), of i j] by simp
qed

lemma bus_rel_ready:
  assumes "bus_rel b a" "\<And>j. sp_phase a \<noteq> Out j"
  shows "list_all ready (devs b)" "between b"
proof -
  have "ready (devs b ! i)" if "i < length (devs b)" for i
    using assms that unfolding bus_rel_def part_rel_def ready_def by (cases "sp_phase a") (auto split: if_splits)
  then show "list_all ready (devs b)" by (simp add: list_all_length)
  moreover have "line_scl b \<Longrightarrow> sp_phase a = Free"
    using assms unfolding bus_rel_def by (cases "sp_phase a") auto
  ultimately show "between b"
    using assms by (auto simp: between_def list_all_length bus_rel_def part_rel_def)
qed

section \<open>Each transaction\<close>

lemma part_rel_other: "ph \<notin> {Ptr i, Data i, Out i} \<Longrightarrow> part_rel ph i am p d = part_rel Off i am p d"
  by (auto simp: part_rel_def)

lemma enter_addr_simps [simp]:
  "e_st (enter_addr d) = ADDR" "\<not> idle (enter_addr d)" "ready (enter_addr d)"
  "addr7 (enter_addr d) = addr7 d"
  by (simp_all add: enter_addr_def idle_def ready_def)

lemma took_addr: "ack_pull (took (enter_addr d) v) \<longleftrightarrow> drop_bit 1 v = addr7 d"
  by (simp add: took_def enter_addr_def)

lemma after_addr:
  assumes "addr7 d = fst am" "e_mem d = snd am" "wordptr d = p"
  shows "part_rel (if drop_bit 1 v \<noteq> fst am then Off else if v AND 1 = 0 then Ptr i else Out i) i am p
    (after (enter_addr d) v)"
proof -
  let ?e = "(took (enter_addr d) v)\<lparr>ack_seen := True\<rparr>"
  have took: "took (enter_addr d) v = (enter_addr d)\<lparr>shreg := v, e_rw := (v AND 1 \<noteq> 0),
      addr_match := (drop_bit 1 v = addr7 d), e_st := RECV_ACK, ack_pull := (drop_bit 1 v = addr7 d)\<rparr>"
    by (simp add: took_def enter_addr_def)
  have "on_scl_rise (took (enter_addr d) v) False = ?e"
    unfolding took by (simp add: on_scl_rise_def enter_addr_def)
  then have "after (enter_addr d) v = on_scl_fall ?e"
    by (simp add: after_def dclock_def)
  moreover have "e_st ?e = RECV_ACK" "ack_seen ?e" "addr_match ?e \<longleftrightarrow> drop_bit 1 v = addr7 d"
    "e_ack_phase ?e = ACK_ADDR" "e_rw ?e \<longleftrightarrow> v AND 1 \<noteq> 0"
    unfolding took by (simp_all add: enter_addr_def)
  ultimately have "after (enter_addr d) v = (if drop_bit 1 v \<noteq> addr7 d then enter_idle ?e
      else if v AND 1 = 0 then enter_word ?e else enter_xmit ?e)"
    by (simp add: on_scl_fall_def)
  moreover have "part_rel Off i am p (enter_idle ?e)"
    using assms unfolding took by (simp add: part_rel_def enter_idle_def enter_addr_def idle_def)
  moreover have "drop_bit 1 v = addr7 d \<Longrightarrow> part_rel (Ptr i) i am p (enter_word ?e)"
    using assms unfolding took by (simp add: part_rel_def enter_word_def enter_addr_def)
  moreover have "drop_bit 1 v = addr7 d \<Longrightarrow> part_rel (Out i) i am p (enter_xmit ?e)"
    using assms and_bit_mask [of 0 "e_mem d ! unat p"] unfolding took
    by (simp add: part_rel_def enter_xmit_def enter_addr_def sends_def Let_def)
  ultimately show ?thesis using assms(1) by auto
qed

lemma after_put:
  "part_rel (Ptr i) i am p d \<Longrightarrow> part_rel (Data i) i am v (after d v)"
  "part_rel (Data i) i am p d \<Longrightarrow> part_rel (Data i) i am (page_next p) (after d v)"
  by (auto simp: part_rel_def after_def took_def dclock_def on_scl_rise_def on_scl_fall_def enter_recv_def
      page_next_def idle_def Let_def)

lemma took_put:
  "part_rel (Ptr i) i am p d \<Longrightarrow> ack_pull (took d v) \<and> \<not> idle d"
  "part_rel (Data i) i am p d \<Longrightarrow> ack_pull (took d v) \<and> \<not> idle d"
  by (auto simp: part_rel_def took_def idle_def)

lemma after_get:
  assumes "part_rel (Out i) i am p d"
  shows "part_rel (if ack then Out i else Off) i am (p + 1) (sent d ack)"
  using assms and_bit_mask [of 0 "e_mem d ! unat (p + 1)"]
  by (auto simp: part_rel_def sent_def enter_xmit_def enter_idle_def sends_def idle_def Let_def)

lemma after_end: "part_rel ph i am p d \<Longrightarrow> ph \<noteq> Out i \<Longrightarrow> part_rel Free i am p (enter_idle d)"
  by (auto simp: part_rel_def enter_idle_def idle_def split: if_splits)

lemma refine_Begin:
  assumes "bus_rel b a" "spec_ok a (Begin v)"
  shows "bus_rel (fst (wire_step b (Begin v))) (fst (spec_step a (Begin v))) \<and>
    snd (wire_step b (Begin v)) = snd (spec_step a (Begin v))"
proof -
  have nout: "sp_phase a \<noteq> Out j" for j using assms(2) by auto
  note bt = bus_rel_ready(2) [OF assms(1) nout]
  let ?ds = "map (\<lambda>d. after (enter_addr d) v) (devs b)"
  have w: "wire_step b (Begin v) = (low_bus True ?ds, Acked (list_ex (\<lambda>d. drop_bit 1 v = addr7 d) (devs b)))"
    using send_byte_ready [of "low_bus False (map enter_addr (devs b))" v]
    by (simp add: send_start_between [OF bt] list_all_iff comp_def took_addr list_ex_iff)
  have len: "length (devs b) = length (sp_parts a)" "length (sp_ptr a) = length (sp_parts a)"
    and dist: "distinct (map fst (sp_parts a))"
    using assms(1) by (simp_all add: bus_rel_def)
  have d: "addr7 (devs b ! i) = fst (sp_parts a ! i)" "e_mem (devs b ! i) = snd (sp_parts a ! i)"
    "wordptr (devs b ! i) = sp_ptr a ! i" if "i < length (devs b)" for i
    using assms(1) that nout by (auto simp: bus_rel_def part_rel_def split: if_splits)
  have r: "part_rel (if drop_bit 1 v \<noteq> fst (sp_parts a ! i) then Off else if v AND 1 = 0 then Ptr i else Out i) i
      (sp_parts a ! i) (sp_ptr a ! i) (?ds ! i)" if "i < length (devs b)" for i
    using after_addr [OF d [OF that]] that by simp
  show ?thesis
  proof (cases "part_at a (drop_bit 1 v)")
    case None
    have "part_rel Off i (sp_parts a ! i) (sp_ptr a ! i) (?ds ! i)" if "i < length (devs b)" for i
      using r [OF that] part_at_None [OF None, of i] that len by auto
    moreover have "\<not> list_ex (\<lambda>d. drop_bit 1 v = addr7 d) (devs b)"
      using part_at_None [OF None] len d(1) by (fastforce simp: list_ex_length simp del: One_nat_def)
    ultimately show ?thesis unfolding w using None len dist by (auto simp: bus_rel_def)
  next
    case (Some j)
    note j = part_at_Some [OF Some]
    have ne: "fst (sp_parts a ! i) \<noteq> drop_bit 1 v" if "i < length (devs b)" "i \<noteq> j" for i
      using j dist that len nth_eq_iff_index_eq [OF dist, of i j] by auto
    have "part_rel (if v AND 1 = 0 then Ptr j else Out j) i (sp_parts a ! i) (sp_ptr a ! i) (?ds ! i)"
      if "i < length (devs b)" for i
    proof (cases "i = j")
      case True
      then show ?thesis using r [OF that] j by (simp split: if_split_asm)
    next
      case False
      then have "part_rel Off i (sp_parts a ! i) (sp_ptr a ! i) (?ds ! i)"
        using r [OF that] ne [OF that] by auto
      then show ?thesis
        using False part_rel_other [of "if v AND 1 = 0 then Ptr j else Out j" i "sp_parts a ! i"] by simp
    qed
    moreover have "list_ex (\<lambda>d. drop_bit 1 v = addr7 d) (devs b)"
      using j d len by (auto simp: list_ex_length)
    ultimately show ?thesis
      unfolding w using Some j len dist by (auto simp: bus_rel_def)
  qed
qed

text \<open>The parts as the one that is active and the idle rest.\<close>

lemma rel_active:
  assumes "bus_rel b a" "j < length (devs b)" "sp_phase a \<in> {Ptr j, Data j, Out j}"
  shows "\<exists>ds. list_all idle ds \<and> length ds = length (devs b) \<and> devs b = ds[j := devs b ! j]"
proof -
  let ?ds = "(devs b)[j := enter_idle (devs b ! j)]"
  have "idle (?ds ! i)" if "i < length (devs b)" for i
    using assms that by (cases "i = j") (auto simp: bus_rel_def part_rel_def idle_def enter_idle_def)
  then show ?thesis by (intro exI [of _ ?ds]) (simp add: list_all_length)
qed

lemma rel_off: "bus_rel b a \<Longrightarrow> sp_phase a = Off \<Longrightarrow> list_all idle (devs b)"
  by (simp add: bus_rel_def part_rel_def list_all_length)

lemma bus_rel_update:
  assumes "bus_rel b a" "j < length (devs b)" "sp_phase a \<in> {Ptr j, Data j, Out j}" "ph \<in> {Off, Ptr j, Data j, Out j}"
    and "part_rel ph j (sp_parts a ! j) p d" "devs b' = (devs b)[j := d]" "\<not> line_scl b'"
  shows "bus_rel b' (a\<lparr>sp_ptr := (sp_ptr a)[j := p], sp_phase := ph\<rparr>)"
proof -
  have "part_rel ph i (sp_parts a ! i) ((sp_ptr a)[j := p] ! i) ((devs b)[j := d] ! i)" if "i < length (devs b)" for i
    using assms(1-5) that part_rel_other [of ph i "sp_parts a ! i"] part_rel_other [of "sp_phase a" i "sp_parts a ! i"]
    by (cases "i = j") (auto simp: bus_rel_def)
  then show ?thesis
    using assms by (auto simp: bus_rel_def split: i2c_phase.splits)
qed

lemma refine_Put:
  assumes "bus_rel b a" "spec_ok a (Put v)"
  shows "bus_rel (fst (wire_step b (Put v))) (fst (spec_step a (Put v))) \<and>
    snd (wire_step b (Put v)) = snd (spec_step a (Put v))"
proof -
  have nout: "sp_phase a \<noteq> Out j" for j using assms(2) by auto
  have low: "\<not> line_scl b" using assms by (auto simp: bus_rel_def split: i2c_phase.splits)
  let ?P = "\<lambda>d. \<not> idle d \<and> ack_pull (took d v)"
  have w: "wire_step b (Put v) = (low_bus True (map (\<lambda>d. after d v) (devs b)), Acked (list_ex ?P (devs b)))"
    using send_byte_ready [OF low bus_rel_ready(1) [OF assms(1) nout]] by simp
  show ?thesis
  proof (cases "\<exists>j. sp_phase a \<in> {Ptr j, Data j}")
    case True
    then obtain j where ph: "sp_phase a \<in> {Ptr j, Data j}" by blast
    then have j: "j < length (devs b)" using assms(1) by (auto simp: bus_rel_def)
    obtain ds where ds: "list_all idle ds" "length ds = length (devs b)" "devs b = ds[j := devs b ! j]"
      using rel_active [OF assms(1) j] ph by auto
    have "map (\<lambda>d. after d v) (ds[j := devs b ! j]) = ds[j := after (devs b ! j) v]"
      by (rule map_one [OF ds(1)]) (simp add: after_def)
    moreover have "\<dots> = (devs b)[j := after (devs b ! j) v]" using ds(3) by (metis list_update_overwrite)
    ultimately have dv: "map (\<lambda>d. after d v) (devs b) = (devs b)[j := after (devs b ! j) v]"
      using ds(3) by simp
    have pj: "part_rel (sp_phase a) j (sp_parts a ! j) (sp_ptr a ! j) (devs b ! j)"
      using assms(1) j by (simp add: bus_rel_def)
    then have "?P (devs b ! j)" using ph took_put [of j "sp_parts a ! j"] by auto
    then have "list_ex ?P (devs b)" using j by (auto simp: list_ex_length)
    moreover have "part_rel (Data j) j (sp_parts a ! j)
        (if sp_phase a = Ptr j then v else page_next (sp_ptr a ! j)) (after (devs b ! j) v)"
      using ph pj after_put [of j "sp_parts a ! j"] by auto
    ultimately show ?thesis
      unfolding w using ph bus_rel_update [OF assms(1) j, of "Data j"] dv by auto
  next
    case False
    then have off: "sp_phase a = Off" using assms(2) by (auto split: i2c_phase.splits)
    have "map (\<lambda>d. after d v) (devs b) = devs b" "\<not> list_ex ?P (devs b)"
      using rel_off [OF assms(1) off] by (auto simp: list_all_iff list_ex_iff after_def intro: map_idI)
    then show ?thesis
      unfolding w using off assms(1) by (simp add: bus_rel_def)
  qed
qed

lemma refine_Get:
  assumes "bus_rel b a" "spec_ok a (Get ack)"
  shows "bus_rel (fst (wire_step b (Get ack))) (fst (spec_step a (Get ack))) \<and>
    snd (wire_step b (Get ack)) = snd (spec_step a (Get ack))"
proof (cases "sp_phase a")
  case (Out j)
  then have j: "j < length (devs b)" and low: "\<not> line_scl b" using assms(1) by (auto simp: bus_rel_def)
  obtain ds where ds: "list_all idle ds" "length ds = length (devs b)" "devs b = ds[j := devs b ! j]"
    using rel_active [OF assms(1) j] Out by auto
  have pj: "part_rel (Out j) j (sp_parts a ! j) (sp_ptr a ! j) (devs b ! j)"
    using assms(1) j Out by (simp add: bus_rel_def)
  have "recv_byte b ack = (low_bus True (ds[j := sent (devs b ! j) ack]), shreg (devs b ! j))"
    using pj j ds low by (intro recv_byte_sends [where d = "devs b ! j" and ds = ds]) (auto simp: part_rel_def)
  moreover have "ds[j := sent (devs b ! j) ack] = (devs b)[j := sent (devs b ! j) ack]"
    using ds(3) by (metis list_update_overwrite)
  moreover have "shreg (devs b ! j) = snd (sp_parts a ! j) ! unat (sp_ptr a ! j)"
    using pj by (simp add: part_rel_def)
  moreover have "bus_rel (low_bus True ((devs b)[j := sent (devs b ! j) ack]))
      (a\<lparr>sp_ptr := (sp_ptr a)[j := sp_ptr a ! j + 1], sp_phase := (if ack then Out j else Off)\<rparr>)"
    using Out after_get [OF pj, of ack] by (intro bus_rel_update [OF assms(1) j]) auto
  ultimately show ?thesis using Out by simp
next
  case Off
  then have "\<not> line_scl b" using assms(1) by (simp add: bus_rel_def)
  then show ?thesis
    using recv_byte_idle [OF _ rel_off [OF assms(1) Off]] Off assms(1) by (simp add: bus_rel_def)
qed (use assms(2) in auto)

lemma refine_End:
  assumes "bus_rel b a" "spec_ok a End"
  shows "bus_rel (fst (wire_step b End)) (fst (spec_step a End)) \<and> snd (wire_step b End) = snd (spec_step a End)"
proof -
  have nout: "sp_phase a \<noteq> Out j" for j using assms(2) by auto
  have "part_rel Free i (sp_parts a ! i) (sp_ptr a ! i) (enter_idle (devs b ! i))" if "i < length (devs b)" for i
    using assms(1) that nout by (intro after_end [of "sp_phase a"]) (auto simp: bus_rel_def)
  then show ?thesis
    using send_stop_between [OF bus_rel_ready(2) [OF assms(1) nout]] assms(1)
    by (simp add: bus_rel_def free_bus_def)
qed

section \<open>Sequences of transactions\<close>

fun transact :: "('b \<Rightarrow> i2c_op \<Rightarrow> 'b \<times> i2c_out) \<Rightarrow> 'b \<Rightarrow> i2c_op list \<Rightarrow> 'b \<times> i2c_out list" where
  "transact f b [] = (b, [])"
| "transact f b (x # xs) = (let (b, y) = f b x; (b, ys) = transact f b xs in (b, y # ys))"

fun spec_allows :: "i2c_spec \<Rightarrow> i2c_op list \<Rightarrow> bool" where
  "spec_allows a [] = True"
| "spec_allows a (x # xs) = (spec_ok a x \<and> spec_allows (fst (spec_step a x)) xs)"

text \<open>What the user of a bus relies on: each transaction it is allowed answers as the abstract bus does.\<close>

locale transaction_bus =
  fixes stp :: "'b \<Rightarrow> i2c_op \<Rightarrow> 'b \<times> i2c_out"
    and rel :: "'b \<Rightarrow> i2c_spec \<Rightarrow> bool"
  assumes stp_rel: "rel b a \<Longrightarrow> spec_ok a x \<Longrightarrow> rel (fst (stp b x)) (fst (spec_step a x))"
    and stp_out: "rel b a \<Longrightarrow> spec_ok a x \<Longrightarrow> snd (stp b x) = snd (spec_step a x)"
begin

lemma transact_rel:
  "rel b a \<Longrightarrow> spec_allows a xs \<Longrightarrow>
     rel (fst (transact stp b xs)) (fst (transact spec_step a xs)) \<and>
     snd (transact stp b xs) = snd (transact spec_step a xs)"
proof (induction xs arbitrary: b a)
  case (Cons x xs)
  then show ?case
    using Cons.IH [of "fst (stp b x)" "fst (spec_step a x)"] stp_rel [of b a x] stp_out [of b a x]
    by (simp add: split_beta Let_def)
qed simp

end

lemma wire_refines:
  assumes "bus_rel b a" "spec_ok a x"
  shows "bus_rel (fst (wire_step b x)) (fst (spec_step a x)) \<and> snd (wire_step b x) = snd (spec_step a x)"
  using assms refine_Begin refine_Put refine_Get refine_End by (cases x) blast+

interpretation i2c_wires: transaction_bus wire_step bus_rel
  by unfold_locales (simp_all only: wire_refines)

text \<open>A bus with one part per address and image, and its abstraction.\<close>

definition bus_of :: "(u8 \<times> u8 list) list \<Rightarrow> i2c_bus" where
  "bus_of parts = foldl attach new_bus (map (\<lambda>(a, img). new_eeprom24 a img) parts)"

definition spec_of :: "(u8 \<times> u8 list) list \<Rightarrow> i2c_spec" where
  "spec_of parts = \<lparr>sp_parts = map (\<lambda>(a, img). (a, e_mem (new_eeprom24 a img))) parts,
     sp_ptr = replicate (length parts) 0, sp_phase = Free\<rparr>"

lemma new_eeprom24_idle [simp]: "idle (new_eeprom24 a img)" "wordptr (new_eeprom24 a img) = 0" "addr7 (new_eeprom24 a img) = a"
  by (simp_all add: new_eeprom24_def idle_def)

lemma attach_idle: "list_all idle ds \<Longrightarrow> idle d \<Longrightarrow> attach (free_bus ds) d = free_bus (ds @ [d])"
  using pulled_one [of "ds @ [d]" "length ds" d] by (simp add: attach_def recompute_lines_def free_bus_def pull_scl_low_def)

lemma bus_of_eq: "bus_of parts = free_bus (map (\<lambda>(a, img). new_eeprom24 a img) parts)"
proof -
  have "list_all idle xs \<Longrightarrow> list_all idle ds \<Longrightarrow> foldl attach (free_bus ds) xs = free_bus (ds @ xs)" for ds xs
    by (induction xs arbitrary: ds) (simp_all add: attach_idle)
  moreover have "new_bus = free_bus []" by (simp add: new_bus_def free_bus_def)
  moreover have "list_all idle (map (\<lambda>(a, img). new_eeprom24 a img) parts)"
    by (auto simp: list_all_iff)
  ultimately show ?thesis unfolding bus_of_def by (metis append_Nil list.pred_inject(1))
qed

lemma bus_of_rel:
  assumes "distinct (map fst parts)"
  shows "bus_rel (bus_of parts) (spec_of parts)"
proof -
  have "map (fst \<circ> (\<lambda>(a, img). (a, e_mem (new_eeprom24 a img)))) parts = map fst parts"
    by (simp add: split_beta)
  then show ?thesis
    using assms by (auto simp: bus_of_eq bus_rel_def spec_of_def free_bus_def part_rel_def split_beta simp del: map_eq_conv)
qed

text \<open>
  C20. The I2C bus behaves as a bus of byte transactions. For EEPROMs with distinct addresses attached
  to a free bus, every sequence of transactions a host may issue (START and address, data bytes,
  bytes received with ACK or NACK, STOP), clocked onto the wires bit by bit, answers exactly as
  the abstract bus: the part addressed and no other acknowledges, a byte after the address sets its
  pointer, the bytes read are those of its memory from the pointer on (wrapping at 256), data
  bytes written are acknowledged and move the pointer within its page but change no memory, and
  a bus nobody drives reads as ones.
\<close>

theorem i2c_bus_refines:
  assumes "distinct (map fst parts)" and "spec_allows (spec_of parts) xs"
  shows "snd (transact wire_step (bus_of parts) xs) = snd (transact spec_step (spec_of parts) xs)"
  using i2c_wires.transact_rel [OF bus_of_rel [OF assms(1)] assms(2)] by blast

text \<open>Two parts; byte 5 of the second is read, and an address without a part is tried.\<close>

theorem i2c_bus_refines_witness:
  "snd (transact wire_step (bus_of [(0x50, [1, 2]), (0x51, [10, 11, 12, 13, 14, 15, 16])])
     [Begin 0xa2, Put 5, Begin 0xa3, Get True, Get True, Get False, End, Begin 0xa4]) =
   [Acked True, Acked True, Acked True, Got 15, Got 16, Got 0xff, Quiet, Acked False]"
proof -
  let ?ps = "[(0x50, [1, 2]), (0x51, [10, 11, 12, 13, 14, 15, 16])] :: (u8 \<times> u8 list) list"
  let ?xs = "[Begin 0xa2, Put 5, Begin 0xa3, Get True, Get True, Get False, End, Begin 0xa4]"
  define M where "M a img = e_mem (new_eeprom24 a img)" for a img
  have m: "M 0x51 [10, 11, 12, 13, 14, 15, 16] ! 5 = 15" "M 0x51 [10, 11, 12, 13, 14, 15, 16] ! 6 = 16"
    "M 0x51 [10, 11, 12, 13, 14, 15, 16] ! 7 = 0xff"
    by (simp_all add: M_def new_eeprom24_def nth_append)
  have sp: "spec_of ?ps = \<lparr>sp_parts = [(0x50, M 0x50 [1, 2]), (0x51, M 0x51 [10, 11, 12, 13, 14, 15, 16])],
      sp_ptr = [0, 0], sp_phase = Free\<rparr>"
    by (simp add: spec_of_def M_def)
  have ok: "spec_allows (spec_of ?ps) ?xs"
    by (simp add: sp part_at_def)
  have "snd (transact spec_step (spec_of ?ps) ?xs) =
      [Acked True, Acked True, Acked True, Got 15, Got 16, Got 0xff, Quiet, Acked False]"
    by (simp add: sp part_at_def m)
  then show ?thesis using i2c_bus_refines [OF _ ok] by simp
qed

end
