(* ===== verification/Pcf8584_Facts.thy ===== *)
theory Pcf8584_Facts
  imports I2c_Refine
begin

text \<open>
  The PCF8584's registers on top of the transactions of \<^verbatim>\<open>I2c_Refine\<close>: what firmware reads from a
  part through S0 and S1.
\<close>

section \<open>Register accesses as transactions\<close>

text \<open>The controller's bus is in abstract state \<open>a\<close> and its BB flag says whether the bus is free.\<close>

definition pcf_rel :: "pcf \<Rightarrow> i2c_spec \<Rightarrow> bool" where
  "pcf_rel p a \<longleftrightarrow> bus_rel (m_bus p) a \<and> (bit (status p) 0 \<longleftrightarrow> sp_phase a = Free)"

lemma sent_Begin:
  assumes "bus_rel b a" "spec_ok a (Begin v)"
  shows "bus_rel (fst (send_byte (send_start b) v)) (fst (spec_step a (Begin v)))"
    "Acked (snd (send_byte (send_start b) v)) = snd (spec_step a (Begin v))"
  using refine_Begin [OF assms] by simp_all

lemma sent_Put:
  assumes "bus_rel b a" "spec_ok a (Put v)"
  shows "bus_rel (fst (send_byte b v)) (fst (spec_step a (Put v)))"
    "Acked (snd (send_byte b v)) = snd (spec_step a (Put v))"
  using refine_Put [OF assms] by simp_all

lemma sent_Get:
  assumes "bus_rel b a" "spec_ok a (Get ack)"
  shows "bus_rel (fst (recv_byte b ack)) (fst (spec_step a (Get ack)))"
    "Got (snd (recv_byte b ack)) = snd (spec_step a (Get ack))"
  using refine_Get [OF assms] by simp_all

lemma sent_End:
  assumes "bus_rel b a" "spec_ok a End"
  shows "bus_rel (send_stop b) (a\<lparr>sp_phase := Free\<rparr>)"
  using refine_End [OF assms] by simp

lemma status_masks: "s AND STS_BB = 0 \<longleftrightarrow> \<not> bit s 0" "s AND STS_LRB = 0 \<longleftrightarrow> \<not> bit s 3" for s :: u8
  using and_mask1_eq_0 [of s 0] and_mask1_eq_0 [of s 3] by (simp_all add: mask1_def)

text \<open>The masks of the status register, in the form in which the simplifier leaves them.\<close>

lemma status_bits [simp]:
  "\<not> bit (s AND - 2) 0" "bit (s AND - 137) 0 = bit s 0" "\<not> bit (s AND - 137) 3" "bit (s AND - 129) 0 = bit s 0"
  "bit (s OR 1) 0" "bit (s OR 8) 0 = bit s 0" "bit (s OR 8) 3" "bit (s OR 0x80) 0 = bit s 0"
  for s :: u8
  unfolding bit_and_iff bit_or_iff by simp_all

text \<open>Writing S1 with STA: START, the address in S0, and for a read the first byte.\<close>

lemma note_ack_simps [simp]:
  "m_bus (note_ack p r) = fst r" "addressed (note_ack p r) = snd r" "bit (status (note_ack p r)) 0 = bit (status p) 0"
  "bit (status (note_ack p r)) 3 \<longleftrightarrow> \<not> snd r" "s0 (note_ack p r) = s0 p" "s1 (note_ack p r) = s1 p"
  "reading (note_ack p r) = reading p"
  by (simp_all add: note_ack_def Let_def)

lemma begin_transfer_write:
  assumes "pcf_rel p a" "spec_ok a (Begin (s0 p))" "s0 p AND 1 = 0" "part_at a (drop_bit 1 (s0 p)) = Some j"
  shows "pcf_rel (begin_transfer p) (a\<lparr>sp_phase := Ptr j\<rparr>) \<and> s1 (begin_transfer p) = s1 p \<and>
    \<not> reading (begin_transfer p) \<and> \<not> bit (status (begin_transfer p)) 3"
  using sent_Begin [of "m_bus p" a "s0 p"] assms
  by (simp add: begin_transfer_def set_bus_free_def pcf_rel_def Let_def)

lemma begin_transfer_absent:
  assumes "pcf_rel p a" "spec_ok a (Begin (s0 p))" "part_at a (drop_bit 1 (s0 p)) = None"
  shows "pcf_rel (begin_transfer p) (a\<lparr>sp_phase := Off\<rparr>) \<and> bit (status (begin_transfer p)) 3"
  using sent_Begin [of "m_bus p" a "s0 p"] assms
  by (simp add: begin_transfer_def set_bus_free_def pcf_rel_def Let_def)

lemma begin_transfer_read:
  assumes "pcf_rel p a" "spec_ok a (Begin (s0 p))" "s0 p AND 1 \<noteq> 0" "part_at a (drop_bit 1 (s0 p)) = Some j"
  defines "q \<equiv> begin_transfer p"
  shows "pcf_rel q (a\<lparr>sp_ptr := (sp_ptr a)[j := sp_ptr a ! j + 1], sp_phase := Out j\<rparr>) \<and> s1 q = s1 p \<and>
    reading q \<and> addressed q \<and> \<not> bit (status q) 3 \<and> s0 q = snd (sp_parts a ! j) ! unat (sp_ptr a ! j)"
proof -
  let ?r = "send_byte (send_start (m_bus p)) (s0 p)"
  have r: "bus_rel (fst ?r) (a\<lparr>sp_phase := Out j\<rparr>)" "snd ?r"
    using sent_Begin [of "m_bus p" a "s0 p"] assms by (simp_all add: pcf_rel_def)
  show ?thesis
    using sent_Get [OF r(1), of True] r(2) assms(3)
    by (simp add: q_def begin_transfer_def set_bus_free_def pcf_rel_def split_beta Let_def)
qed

section \<open>A random read\<close>

text \<open>Firmware that reads \<open>n + 2\<close> bytes from byte \<open>w\<close> of the part at address \<open>x\<close>: the pointer is set
  by a write transfer, a read transfer follows, the last byte but one is taken after ACK has been
  cleared, and the last one after STOP. The result starts with the status after the address.\<close>

fun read_s0 :: "pcf \<Rightarrow> nat \<Rightarrow> pcf \<times> u8 list" where
  "read_s0 p 0 = (p, [])"
| "read_s0 p (Suc n) = (let (p, v) = pcf_read p 0; (p, vs) = read_s0 p n in (p, v # vs))"

definition set_pointer :: "pcf \<Rightarrow> u64 \<Rightarrow> u64 \<Rightarrow> pcf \<times> u8" where
  "set_pointer p x w =
     (let p = pcf_write p 0 (push_bit 1 x);
          p = pcf_write p 1 0xc5;
          s = snd (pcf_read p 1);
          p = pcf_write p 0 w
      in (pcf_write p 1 0xc3, s))"

definition random_read :: "pcf \<Rightarrow> u64 \<Rightarrow> u64 \<Rightarrow> nat \<Rightarrow> pcf \<times> u8 \<times> u8 list" where
  "random_read p x w n =
     (let (p, s) = set_pointer p x w;
          p = pcf_write p 0 (push_bit 1 x OR 1);
          p = pcf_write p 1 0xc5;
          (p, vs) = read_s0 p n;
          p = pcf_write p 1 0x40;
          (p, v1) = pcf_read p 0;
          p = pcf_write p 1 0xc3;
          (p, v2) = pcf_read p 0
      in (p, s, vs @ [v1, v2]))"

lemma read_s0_bytes:
  assumes "pcf_rel p a" "sp_phase a = Out j" "reading p" "addressed p" "s1 p = 0xc5"
    and "s0 p = snd (sp_parts a ! j) ! unat q" "sp_ptr a ! j = q + 1" "j < length (sp_ptr a)"
  shows "\<exists>p'. read_s0 p n = (p', map (\<lambda>k. snd (sp_parts a ! j) ! unat (q + of_nat k)) [0..<n]) \<and>
    pcf_rel p' (a\<lparr>sp_ptr := (sp_ptr a)[j := q + of_nat n + 1]\<rparr>) \<and> reading p' \<and> addressed p' \<and> s1 p' = 0xc5 \<and>
    s0 p' = snd (sp_parts a ! j) ! unat (q + of_nat n)"
  using assms
proof (induction n arbitrary: p a q)
  case 0
  have "a\<lparr>sp_ptr := (sp_ptr a)[j := q + 1]\<rparr> = a" using 0 by (metis i2c_spec.surjective i2c_spec.update_convs(2) list_update_id)
  then show ?case using 0 by simp
next
  case (Suc n)
  let ?b = "recv_byte (m_bus p) True" and ?a = "a\<lparr>sp_ptr := (sp_ptr a)[j := q + 2]\<rparr>"
  have same: "a\<lparr>sp_ptr := (sp_ptr a)[j := q + 2], sp_phase := Out j\<rparr> = ?a" using Suc.prems by (cases a) simp
  have "bus_rel (fst ?b) (a\<lparr>sp_ptr := (sp_ptr a)[j := q + 2], sp_phase := Out j\<rparr>)"
    "snd ?b = snd (sp_parts a ! j) ! unat (q + 1)"
    using sent_Get [of "m_bus p" a True] Suc.prems by (simp_all add: pcf_rel_def add.assoc)
  note g = this [unfolded same]
  have p: "pcf_read p 0 = (p\<lparr>m_bus := fst ?b, s0 := snd ?b\<rparr>, s0 p)"
    using Suc.prems by (simp add: pcf_read_def split_beta Let_def)
  have "map (\<lambda>k. snd (sp_parts a ! j) ! unat (q + of_nat k)) [0..<Suc n] =
      snd (sp_parts a ! j) ! unat q # map (\<lambda>k. snd (sp_parts a ! j) ! unat (q + 1 + of_nat k)) [0..<n]"
    by (simp add: upt_conv_Cons map_Suc_upt [symmetric] comp_def add.assoc del: upt_Suc)
  then show ?case
    using Suc.IH [of "p\<lparr>m_bus := fst ?b, s0 := snd ?b\<rparr>" ?a "q + 1"] g Suc.prems p
    by (auto simp: pcf_rel_def add.assoc)
qed

text \<open>The last two bytes: ACK is cleared, the byte in S0 is taken and the next one clocked in with a NACK,
  STOP is sent and that byte taken.\<close>

lemma read_tail:
  assumes "pcf_rel p a" "sp_phase a = Out j" "reading p" "addressed p"
  defines "q \<equiv> pcf_write p 1 0x40"
  defines "r \<equiv> pcf_write (fst (pcf_read q 0)) 1 0xc3"
  shows "snd (pcf_read q 0) = s0 p \<and> snd (pcf_read r 0) = snd (sp_parts a ! j) ! unat (sp_ptr a ! j) \<and>
    pcf_rel (fst (pcf_read r 0)) (a\<lparr>sp_ptr := (sp_ptr a)[j := sp_ptr a ! j + 1], sp_phase := Free\<rparr>) \<and>
    s1 (fst (pcf_read r 0)) = 0xc3"
proof -
  have q: "q = p\<lparr>s1 := 0x40, status := status p AND NOT STS_PIN\<rparr>"
    using assms by (simp add: q_def pcf_write_def pcf_rel_def status_masks)
  let ?b = "recv_byte (m_bus p) False" and ?a = "a\<lparr>sp_ptr := (sp_ptr a)[j := sp_ptr a ! j + 1], sp_phase := Off\<rparr>"
  have g: "bus_rel (fst ?b) ?a" "snd ?b = snd (sp_parts a ! j) ! unat (sp_ptr a ! j)"
    using sent_Get [of "m_bus p" a False] assms by (simp_all add: pcf_rel_def)
  have rd: "pcf_read q 0 = (q\<lparr>m_bus := fst ?b, s0 := snd ?b\<rparr>, s0 p)"
    using assms(3,4) unfolding q by (simp add: pcf_read_def split_beta Let_def)
  have "bus_rel (send_stop (fst ?b)) (?a\<lparr>sp_phase := Free\<rparr>)"
    by (rule sent_End [OF g(1)]) simp
  then show ?thesis
    using g(2) unfolding r_def rd by (simp add: pcf_write_def pcf_read_def set_bus_free_def pcf_rel_def Let_def)
qed

text \<open>An address byte: seven bits of address, then the direction.\<close>

lemma address_byte:
  fixes x :: u64
  assumes "x < 0x80"
  shows "drop_bit 1 (ucast (push_bit 1 x) :: u8) = ucast x" "(ucast (push_bit 1 x) :: u8) AND 1 = 0"
    "drop_bit 1 (ucast (push_bit 1 x OR 1) :: u8) = ucast x" "(ucast (push_bit 1 x OR 1) :: u8) AND 1 \<noteq> 0"
proof -
  have "x = take_bit 7 x" using assms by (simp add: word_less_nat_alt take_bit_nat_eq_self word_unat_eq_iff unsigned_take_bit_eq)
  then have h: "n < 7" if "bit x n" for n using that by (metis bit_take_bit_iff)
  have "bit (drop_bit 1 (ucast (push_bit 1 x) :: u8)) n = bit (ucast x :: u8) n"
    "bit (drop_bit 1 (ucast (push_bit 1 x OR 1) :: u8)) n = bit (ucast x :: u8) n" for n
    unfolding bit_drop_bit_eq comp_def bit_unsigned_iff bit_push_bit_iff bit_or_iff bit_1_iff
    using h [of n] by (auto simp: bit_imp_le_length)
  then show "drop_bit 1 (ucast (push_bit 1 x) :: u8) = ucast x" "drop_bit 1 (ucast (push_bit 1 x OR 1) :: u8) = ucast x"
    by (auto intro: bit_word_eqI)
  show "(ucast (push_bit 1 x) :: u8) AND 1 = 0" "(ucast (push_bit 1 x OR 1) :: u8) AND 1 \<noteq> 0"
    unfolding status_masks(1) bit_unsigned_iff bit_or_iff bit_push_bit_iff by (simp_all add: bit_1_iff)
qed

lemma set_pointer_rel:
  fixes x w :: u64 and p :: pcf
  assumes "pcf_rel p a" "sp_phase a = Free" "s1 p AND CTL_ESO \<noteq> 0" "part_at a (ucast x) = Some j" "x < 0x80"
  defines "r \<equiv> set_pointer p x w"
  shows "pcf_rel (fst r) (a\<lparr>sp_ptr := (sp_ptr a)[j := ucast w], sp_phase := Free\<rparr>) \<and> s1 (fst r) = 0xc3 \<and> \<not> bit (snd r) 3"
proof -
  note v = address_byte [OF assms(5)]
  let ?v = "ucast (push_bit 1 x) :: u8"
  let ?p = "begin_transfer (p\<lparr>s0 := ?v, s1 := 0xc5\<rparr>)"
  have "pcf_write (pcf_write p 0 (push_bit 1 x)) 1 0xc5 = ?p"
    using assms by (simp add: pcf_write_def pcf_rel_def status_masks Let_def)
  moreover have b: "pcf_rel ?p (a\<lparr>sp_phase := Ptr j\<rparr>)" "s1 ?p = 0xc5" "\<not> bit (status ?p) 3"
    using begin_transfer_write [of "p\<lparr>s0 := ?v, s1 := 0xc5\<rparr>" a j] assms v by (simp_all add: pcf_rel_def)
  moreover have "snd (pcf_read ?p 1) = status ?p" by (simp add: pcf_read_def)
  moreover have bb: "\<not> bit (status ?p) 0" using b(1) by (simp add: pcf_rel_def)
  moreover have "pcf_write ?p 0 w = note_ack (?p\<lparr>s0 := ucast w\<rparr>) (send_byte (m_bus ?p) (ucast w))"
    using b(2) bb by (simp add: pcf_write_def status_masks Let_def)
  moreover have "bus_rel (send_stop (fst (send_byte (m_bus ?p) (ucast w))))
      (a\<lparr>sp_ptr := (sp_ptr a)[j := ucast w], sp_phase := Free\<rparr>)"
    using sent_Put [of "m_bus ?p" "a\<lparr>sp_phase := Ptr j\<rparr>" "ucast w"] b(1)
      sent_End [of "fst (send_byte (m_bus ?p) (ucast w))" "a\<lparr>sp_ptr := (sp_ptr a)[j := ucast w], sp_phase := Data j\<rparr>"]
    by (simp add: pcf_rel_def)
  ultimately show ?thesis
    by (simp add: r_def set_pointer_def pcf_write_def [of _ 1 "0xc3"] set_bus_free_def pcf_rel_def Let_def)
qed

lemma random_read_rel:
  fixes x w :: u64 and p :: pcf and n :: nat
  assumes "pcf_rel p a" "sp_phase a = Free" "s1 p AND CTL_ESO \<noteq> 0" "part_at a (ucast x) = Some j" "x < 0x80"
  defines "r \<equiv> random_read p x w n"
  shows "\<not> bit (fst (snd r)) 3 \<and>
    snd (snd r) = map (\<lambda>k. snd (sp_parts a ! j) ! unat (ucast w + of_nat k :: u8)) [0..<n + 2] \<and>
    pcf_rel (fst r) (a\<lparr>sp_ptr := (sp_ptr a)[j := ucast w + of_nat n + 2], sp_phase := Free\<rparr>)"
proof -
  obtain p1 s where sp: "set_pointer p x w = (p1, s)" by (cases "set_pointer p x w")
  define a1 where "a1 = a\<lparr>sp_ptr := (sp_ptr a)[j := ucast w], sp_phase := Free\<rparr>"
  have r1: "pcf_rel p1 a1" "s1 p1 = 0xc3" "\<not> bit s 3"
    using set_pointer_rel [OF assms(1-5), of w] sp by (simp_all add: a1_def)
  have j: "j < length (sp_ptr a)" using assms(1) part_at_Some [OF assms(4)] by (simp add: pcf_rel_def bus_rel_def)
  note v = address_byte [OF assms(5)]
  let ?v = "ucast (push_bit 1 x OR 1) :: u8"
  define p2 where "p2 = begin_transfer (p1\<lparr>s0 := ?v, s1 := 0xc5\<rparr>)"
  have w2: "pcf_write (pcf_write p1 0 (push_bit 1 x OR 1)) 1 0xc5 = p2"
    using r1 by (simp add: p2_def a1_def pcf_write_def pcf_rel_def status_masks Let_def)
  define a2 where "a2 = a1\<lparr>sp_ptr := (sp_ptr a1)[j := ucast w + 1], sp_phase := Out j\<rparr>"
  have "part_at a1 (ucast x) = Some j" using assms(4) by (simp add: part_at_def a1_def)
  then have r2: "pcf_rel p2 a2" "s1 p2 = 0xc5" "reading p2" "addressed p2"
    "s0 p2 = snd (sp_parts a2 ! j) ! unat (ucast w :: u8)" "sp_ptr a2 ! j = ucast w + 1" "j < length (sp_ptr a2)" "sp_phase a2 = Out j"
    using begin_transfer_read [of "p1\<lparr>s0 := ?v, s1 := 0xc5\<rparr>" a1 j] r1(1) v j
    by (simp_all add: p2_def a2_def a1_def pcf_rel_def)
  obtain p3 where r3: "read_s0 p2 n = (p3, map (\<lambda>k. snd (sp_parts a2 ! j) ! unat (ucast w + of_nat k :: u8)) [0..<n])"
    "pcf_rel p3 (a2\<lparr>sp_ptr := (sp_ptr a2)[j := ucast w + of_nat n + 1]\<rparr>)" "reading p3" "addressed p3"
    "s0 p3 = snd (sp_parts a2 ! j) ! unat (ucast w + of_nat n :: u8)"
    using read_s0_bytes [OF r2(1,8,3,4,2,5,6,7), of n] by blast
  have "random_read p x w n = (let p = pcf_write p3 1 0x40; r = pcf_read p 0; q = pcf_write (fst r) 1 0xc3
      in (fst (pcf_read q 0), s, map (\<lambda>k. snd (sp_parts a2 ! j) ! unat (ucast w + of_nat k :: u8)) [0..<n] @ [snd r, snd (pcf_read q 0)]))"
    using w2 by (simp add: random_read_def sp r3(1) split_beta Let_def)
  then show ?thesis
    using read_tail [OF r3(2) _ r3(3,4), of j] r3(5) r1(3) j
    by (simp add: r_def a1_def a2_def Let_def ac_simps)
qed

text \<open>
  C23. Firmware reads the board's serial memories through the PCF8584. On a controller whose bus carries
  parts with distinct addresses, once firmware has enabled the serial interface (S1 = C1), a
  random read of \<open>n + 2\<close> bytes from byte \<open>w\<close> of a part finds LRB clear after the address
  and returns exactly the part's bytes \<open>w\<close>, \<open>w + 1\<close>, ... (wrapping at 256), whatever they are.
\<close>

theorem pcf_random_read:
  assumes "distinct (map fst parts)" and "j < length parts" and "parts ! j = (ucast x, img)" and "x < 0x80"
  shows "\<exists>p s. random_read (pcf_write (new_pcf (bus_of parts)) 1 0xc1) x w n =
      (p, s, map (\<lambda>k. e_mem (new_eeprom24 (ucast x) img) ! unat (ucast w + of_nat k :: u8)) [0..<n + 2]) \<and> s AND STS_LRB = 0"
proof -
  let ?p = "pcf_write (new_pcf (bus_of parts)) 1 0xc1" and ?a = "spec_of parts"
  have "\<not> pulled (devs (bus_of parts))"
    by (auto simp: bus_of_eq free_bus_def list_ex_iff)
  then have "drive_from_host (bus_of parts) True True = bus_of parts"
    by (simp add: drive_from_host_def bus_of_eq free_bus_def recompute_lines_def Let_def)
  then have "pcf_rel ?p ?a" "s1 ?p AND CTL_ESO \<noteq> 0"
    using bus_of_rel [OF assms(1)]
    by (simp_all add: new_pcf_def pcf_write_def pcf_rel_def spec_of_def)
  moreover have "part_at ?a (ucast x) = Some j"
    using assms(2,3) bus_of_rel [OF assms(1)] by (intro part_at_eq) (simp_all add: bus_rel_def spec_of_def)
  ultimately show ?thesis
    using random_read_rel [of ?p ?a x j w n] assms by (cases "random_read ?p x w n") (auto simp: status_masks spec_of_def)
qed

text \<open>The second of two parts, from byte 254 on: the pointer wraps.\<close>

theorem pcf_random_read_witness:
  "\<exists>p s. random_read (pcf_write (new_pcf (bus_of [(0x50, []), (0x51, [7])])) 1 0xc1) 0x51 0xfe 1 =
     (p, s, [0xff, 0xff, 7]) \<and> s AND STS_LRB = 0"
proof -
  have "e_mem (new_eeprom24 0x51 [7]) ! 0 = 7" "e_mem (new_eeprom24 0x51 [7]) ! 254 = 0xff"
    "e_mem (new_eeprom24 0x51 [7]) ! 255 = 0xff"
    by (simp_all add: new_eeprom24_def)
  then have "map (\<lambda>k. e_mem (new_eeprom24 0x51 [7]) ! unat (0xfe + of_nat k :: u8)) [0..<1 + 2] = [0xff, 0xff, 7]"
    by (simp add: upt_rec)
  then show ?thesis
    using pcf_random_read [of "[(0x50, []), (0x51, [7])]" 1 "0x51" "[7]" "0xfe" 1] by simp
qed

end
