(* ===== verification/Cchip_Pins.thy ===== *)
theory Cchip_Pins
  imports Alpha_Cpu_Facts
begin

text \<open>
  What the Cchips of the 21272 family drive: the interrupt pins of the board's processors
  (\<open>irq_h\<close> of \<^verbatim>\<open>src/src/cpu/AlphaCPU.hpp\<close>) and the release of the secondary processors
  (\<open>CSystem::arbitration_cleared\<close>, \<^verbatim>\<open>src/src/system/System.cpp\<close>). The interface between a chipset
  and the pins is the locale \<open>irq_pins\<close>.
\<close>

section \<open>The board's processors\<close>

datatype secondary_start = SECONDARIES_BY_CONSOLE | SECONDARIES_AFTER_ARBITRATION

record board =
  b_cpus :: "cpu list"
  b_wait :: "bool list"
  b_secondaries :: secondary_start
  b_pending :: bool

definition cpu_num :: "board \<Rightarrow> nat" where
  "cpu_num b = length (b_cpus b)"

text \<open>\<open>m_sys->get_cpu(i)->irq_h(number, assert, delay)\<close>.\<close>

definition cpu_irq :: "board \<Rightarrow> nat \<Rightarrow> nat \<Rightarrow> bool \<Rightarrow> int \<Rightarrow> board" where
  "cpu_irq b i number assert delay =
     b\<lparr>b_cpus := (b_cpus b)[i := irq_h (b_cpus b ! i) number assert delay]\<rparr>"

definition start_secondaries :: "board \<Rightarrow> board" where
  "start_secondaries b =
     (if b_secondaries b = SECONDARIES_BY_CONSOLE \<or> cpu_num b < 2 then b else b\<lparr>b_pending := True\<rparr>)"

text \<open>One processor of \<open>release_secondaries\<close>: it starts at the PALcode reset entry.\<close>

definition release_cpu :: "board \<Rightarrow> nat \<Rightarrow> board" where
  "release_cpu b i =
     (if \<not> b_wait b ! i then b
      else let c = b_cpus b ! i
           in b\<lparr>b_cpus := (b_cpus b)[i := set_pc c (c_pal_base c OR 1)], b_wait := (b_wait b)[i := False]\<rparr>)"

definition release_secondaries :: "board \<Rightarrow> board" where
  "release_secondaries b =
     (if \<not> b_pending b then b
      else foldl release_cpu (b\<lparr>b_pending := False\<rparr>) [1..<cpu_num b])"

definition arbitration_cleared :: "board \<Rightarrow> nat \<Rightarrow> board" where
  "arbitration_cleared b cpu =
     (if b_secondaries b = SECONDARIES_AFTER_ARBITRATION \<and> cpu = 0 \<and> b_pending b
      then release_secondaries b else b)"

section \<open>Pins\<close>

text \<open>A pin is asserted when its request is up or on its way (the device lines are delayed).\<close>

definition line_up :: "cpu \<Rightarrow> nat \<Rightarrow> bool" where
  "line_up c k \<longleftrightarrow> bit (c_eir c) k \<or> c_irq_timer c k \<noteq> 0"

text \<open>
  What a chipset relies on: \<open>irq\<close> sets one pin to the level given and leaves the others, and nothing the
  processor does by itself changes a pin. Its lemmas are about driving several pins of several
  processors.
\<close>

locale irq_pins =
  fixes pin :: "'c \<Rightarrow> nat \<Rightarrow> bool"
    and irq :: "'c \<Rightarrow> nat \<Rightarrow> bool \<Rightarrow> int \<Rightarrow> 'c"
    and stp :: "'c \<Rightarrow> 'op \<Rightarrow> 'c"
    and own :: "'c \<Rightarrow> 'op \<Rightarrow> bool"
  assumes pin_irq: "k < 6 \<Longrightarrow> pin (irq c k a d) j = (if j = k then a else pin c j)"
    and pin_own: "own c x \<Longrightarrow> pin (stp c x) k = pin c k"
begin

text \<open>A pin driven to a level with the delay of its rising edge.\<close>

lemma pin_level:
  "k < 6 \<Longrightarrow> pin (if P then irq c k True d else irq c k False e) j = (if j = k then P else pin c j)"
  by (simp add: pin_irq)

end

lemma line_up_irq: "k < 32 \<Longrightarrow> line_up (irq_h c k a d) j = (if j = k then a else line_up c j)"
  by (auto simp: line_up_def irq_h_def Let_def and_mask1_eq_0 bit_set_mask1 bit_clear_mask1)

text \<open>Nothing but \<open>irq_h\<close> and the count-down touches the request register and the delays.\<close>

definition pins :: "cpu \<Rightarrow> u32 \<times> (nat \<Rightarrow> int)" where
  "pins c = (c_eir c, c_irq_timer c)"

lemma pins_simps [simp]:
  "pins (set_r c i v) = pins c" "pins (next_pc c) = pins c" "pins (set_pc c p) = pins c" "pins (add_pc c p) = pins c"
  "pins (go_pal c x) = pins c" "pins (kick c) = pins c" "pins (arith_trap_i c fl r) = pins c"
  "pins (dpc_context_changed c) = pins c" "pins (honour_dpc_flush_request c) = pins c" "pins (upd_tb f c) = pins c"
  by (simp_all add: pins_def set_r_def next_pc_def set_pc_def add_pc_def go_pal_def kick_def arith_trap_i_def
      dpc_context_changed_def honour_dpc_flush_request_def upd_tb_def cpu_clear_lock_def Let_def)

lemma pins_fields [simp]:
  "pins (c\<lparr>c_intr_flag := b\<rparr>) = pins c" "pins (c\<lparr>c_watch := b\<rparr>) = pins c" "pins (c\<lparr>c_current_pc := p\<rparr>) = pins c"
  "pins (c\<lparr>c_exit_requested := b\<rparr>) = pins c" "pins (c\<lparr>c_check_int := b\<rparr>) = pins c"
  "pins (c\<lparr>c_int_resignal := b, c_seq_remaining := n\<rparr>) = pins c" "pins (c\<lparr>c_int_resignal := b\<rparr>) = pins c"
  "pins (c\<lparr>c_dpc_flush_req := b, c_check_timers := d\<rparr>) = pins c"
  by (simp_all add: pins_def)

lemma pins_retire [simp]: "pins (retire c rc x) = pins c"
  by (simp add: retire_def split: alu.split prod.split)

lemma pins_mtpr [simp]: "pins (hw_mtpr c f v) = pins c"
proof -
  have "pins (mtpr_pctx c f v) = pins c"
  proof -
    have "pins (c\<lparr>c_aster := x\<rparr>) = pins c" "pins (c\<lparr>c_astrr := x\<rparr>) = pins c" "pins (c\<lparr>c_ppcen := b\<rparr>) = pins c"
      "pins (c\<lparr>c_fpen := b\<rparr>) = pins c" for c x b by (simp_all add: pins_def)
    then show ?thesis by (simp add: mtpr_pctx_def Let_def)
  qed
  then show ?thesis
    unfolding hw_mtpr_def
    by (intro if_pred [where P = "\<lambda>d. pins d = pins c"])
      (simp_all add: mtpr_cm_def mtpr_ier_def, simp_all add: pins_def mtpr_i_ctl_def mtpr_va_ctl_def mtpr_cc_ctl_def
        mtpr_cm_def mtpr_ier_def kick_def dpc_context_changed_def upd_tb_def)
qed

lemma pins_misc: "op_misc c f ins = Some c' \<Longrightarrow> pins c' = pins c"
  by (auto simp: op_misc_def Let_def split: if_splits)

lemma pins_control [simp]:
  "pins (do_CALL_PAL c f) = pins c" "pins (do_JMP c ins) = pins c" "pins (do_BR c ins) = pins c" "pins (do_HW_RET c ins) = pins c"
  by (simp_all add: do_CALL_PAL_def do_JMP_def do_BR_def do_HW_RET_def Let_def)

lemma pins_dispatch: "dispatch c ins = Some c' \<Longrightarrow> pins c' = pins c"
  by (auto simp: dispatch_def Let_def pins_misc split: if_splits)

lemma pins_execute: "execute c ins = Some c' \<Longrightarrow> pins c' = pins c"
  by (elim execute_cases) (auto simp: interrupted_def fetched_def dest!: pins_dispatch)

text \<open>What a processor does by itself: everything but a line change from outside.\<close>

definition cpu_own :: "cpu \<Rightarrow> cpu_op \<Rightarrow> bool" where
  "cpu_own c x \<longleftrightarrow> cpu_ok c x \<and>
     (case x of Irq n a d \<Rightarrow> False | Count_down n s \<Rightarrow> n < 6 \<and> 0 \<le> s | _ \<Rightarrow> True)"

lemma line_up_own: "cpu_own c x \<Longrightarrow> line_up (cpu_step c x) k = line_up c k"
proof (cases x)
  case (Exec ins)
  then show "cpu_own c x \<Longrightarrow> line_up (cpu_step c x) k = line_up c k"
    using pins_execute [of c ins] by (auto simp: cpu_own_def cpu_ok_def line_up_def pins_def)
next
  case (Count_down n s)
  then show "cpu_own c x \<Longrightarrow> line_up (cpu_step c x) k = line_up c k"
    by (auto simp: cpu_own_def count_down_irq_def line_up_def bit_set_mask1 Let_def)
qed (simp_all add: cpu_own_def line_up_def)

interpretation pin: irq_pins line_up irq_h cpu_step cpu_own
  by unfold_locales (simp_all add: line_up_irq line_up_own)

text \<open>Delays stay between 0 and 100 clocks, the delay the Cchips give their device lines; the timer and
  interprocessor lines have none.\<close>

definition delays_ok :: "cpu \<Rightarrow> bool" where
  "delays_ok c \<longleftrightarrow> (\<forall>k. 0 \<le> c_irq_timer c k \<and> c_irq_timer c k \<le> 100) \<and> c_irq_timer c 2 = 0 \<and> c_irq_timer c 3 = 0"

lemma delays_irq:
  "delays_ok c \<Longrightarrow> 0 \<le> d \<Longrightarrow> d \<le> 100 \<Longrightarrow> d = 0 \<or> n < 2 \<Longrightarrow> delays_ok (irq_h c n a d)"
  by (auto simp: delays_ok_def irq_h_def Let_def)

lemma delays_own: "cpu_own c x \<Longrightarrow> delays_ok c \<Longrightarrow> delays_ok (cpu_step c x)"
proof (cases x)
  case (Exec ins)
  then show "cpu_own c x \<Longrightarrow> delays_ok c \<Longrightarrow> delays_ok (cpu_step c x)"
    using pins_execute [of c ins] by (auto simp: cpu_own_def cpu_ok_def delays_ok_def pins_def)
next
  case (Count_down n s)
  have "delays_ok c \<Longrightarrow> 0 \<le> s \<Longrightarrow> c_irq_timer c n - s \<le> 100" by (simp add: delays_ok_def add_increasing2 diff_le_eq)
  with Count_down show "cpu_own c x \<Longrightarrow> delays_ok c \<Longrightarrow> delays_ok (cpu_step c x)"
    by (auto simp: cpu_own_def count_down_irq_def delays_ok_def Let_def)
qed (simp_all add: cpu_own_def delays_ok_def)

text \<open>A processor in working order: no interrupt is lost and its delays are in range.\<close>

definition cpu_sound :: "cpu \<Rightarrow> bool" where
  "cpu_sound c \<longleftrightarrow> no_lost c \<and> delays_ok c"

lemma sound_irq: "cpu_sound c \<Longrightarrow> 0 \<le> d \<Longrightarrow> d \<le> 100 \<Longrightarrow> d = 0 \<or> n < 2 \<Longrightarrow> cpu_sound (irq_h c n a d)"
  using no_lost_step [of c "Irq n a d"] by (simp add: cpu_sound_def delays_irq cpu_ok_def)

lemma sound_own: "cpu_own c x \<Longrightarrow> cpu_sound c \<Longrightarrow> cpu_sound (cpu_step c x)"
  using no_lost_step [of c x] by (auto simp: cpu_sound_def delays_own cpu_own_def)

text \<open>Once its delay is over, an enabled line interrupts native-mode code at the next instruction.\<close>

lemma line_delivers:
  assumes "cpu_sound c" "line_up c k" "k < 6" "bit (c_eien c) k" "\<not> pal_mode c"
  defines "d \<equiv> count_down_irq c k 100"
  shows "\<exists>c'. execute d ins = Some c' \<and> c_pc c' = c_pal_base c OR INTERRUPT OR 1 \<and> c_exc_addr c' = c_pc c \<and>
    c_r c' = c_r c \<and> bit (isum c') (33 + k)"
proof -
  have t: "0 \<le> c_irq_timer c k" "c_irq_timer c k \<le> 100" using assms(1) by (auto simp: cpu_sound_def delays_ok_def)
  have up: "bit (c_eir d) k" using assms(2,3) t by (auto simp: d_def count_down_irq_def line_up_def bit_set_mask1 Let_def)
  have same: "c_eien d = c_eien c" "c_pal_base d = c_pal_base c" "c_pc d = c_pc c" "c_r d = c_r c"
    by (simp_all add: d_def count_down_irq_def Let_def)
  have "bit (c_eien d AND c_eir d) k" using up same assms(4) by (simp add: bit_and_iff)
  then have dl: "int_deliverable d" by (auto simp: int_deliverable_def)
  have "no_lost d" using no_lost_step [of c "Count_down k 100"] assms(1) by (simp add: cpu_sound_def cpu_ok_def d_def)
  moreover have "\<not> pal_mode d" using assms(5) same by (simp add: pal_mode_def)
  ultimately obtain c' where c': "execute d ins = Some c'" "c_pc c' = c_pal_base d OR INTERRUPT OR 1"
      "c_exc_addr c' = c_pc d" "c_r c' = c_r d" "c' = interrupted d"
    using interrupt_entry [of d ins] dl by (auto simp: execute_eq no_lost_def)
  have "c_eir c' = c_eir d" "c_eien c' = c_eien d"
    by (simp_all add: c'(5) interrupted_def go_pal_def set_pc_def cpu_clear_lock_def Let_def)
  then have "bit (c_eir c' AND c_eien c') k" using up same assms(4) by (simp add: bit_and_iff)
  then have "bit (push_bit 33 (ucast (c_eir c' AND c_eien c')) :: u64) (33 + k)"
    using assms(3) by (simp add: bit_push_bit_iff bit_unsigned_iff)
  then have "bit (isum c') (33 + k)" unfolding isum_def by (simp only: bit_or_iff simp_thms)
  then show ?thesis using c' same by auto
qed

end
