(* ===== verification/Dimm_Model.thy ===== *)
theory Dimm_Model
  imports I2c_Bus
begin

text \<open>
  The DIMM population a Cchip reports (\<^verbatim>\<open>src/src/chipsets/DimmModel.cpp\<close>): which arrays of which
  DIMMs make up the machine's memory, where each starts, and the SPD image each set's EEPROM
  holds. Sizes in megabytes are 32-bit and addresses 64-bit in the source; with at most
  \<open>2 ^ 32\<close> MB no value here reaches either width's end, so they are natural numbers.
\<close>

section \<open>The population\<close>

record dimm_array =
  dimms :: nat
  dimm_mb :: nat
  a_base :: nat
  a_spd :: "u8 list"

definition a_bytes :: "dimm_array \<Rightarrow> nat" where
  "a_bytes a = (dimms a * dimm_mb a) * 2 ^ 20"

definition no_array :: dimm_array where
  "no_array = \<lparr>dimms = 0, dimm_mb = 0, a_base = 0, a_spd = []\<rparr>"

text \<open>The SPD image: rows, columns and ranks by capacity.\<close>

definition spd_geometry :: "nat \<Rightarrow> u8 \<times> u8 \<times> u8" where
  "spd_geometry mb =
     (if mb = 16 then (11, 8, 1) else if mb = 32 then (11, 9, 1) else if mb = 64 then (12, 9, 1)
      else if mb = 128 then (13, 9, 1) else if mb = 256 then (13, 10, 2) else if mb = 512 then (14, 10, 2)
      else if mb = 1024 then (14, 10, 2) else (13, 10, 2))"

definition build_sdram_spd :: "nat \<Rightarrow> bool \<Rightarrow> u8 list" where
  "build_sdram_spd mb registered_ecc =
     (let (rows, cols, ranks) = spd_geometry mb;
          b = (replicate 256 0)[0 := 0x80, 1 := 0x08, 2 := 0x04, 3 := rows, 4 := cols,
                5 := (if registered_ecc then 0x20 else 0) OR 0x02, 6 := 0x04, 7 := 64, 8 := 0,
                11 := 8, 12 := 0, 17 := ranks, 9 := 20, 10 := 2, 18 := 20, 19 := 20, 20 := 10,
                21 := 10, 22 := 45, 23 := 0x06];
          s = foldl (\<lambda>s i. s + b ! i) 0 [0..<63]
      in b[63 := 0 - s])"

text \<open>\<open>model_dimms\<close>; dividing by a DIMM size of zero is undefined.\<close>

definition model_dimms :: "nat \<Rightarrow> dimm_array list option" where
  "model_dimms total_mb =
     (let dmb = (if total_mb div 4 > 1024 then 1024 else total_mb div 4) in
      if dmb = 0 then None
      else let n_dimms = total_mb div dmb;
               n_arrays = (n_dimms + 7) div 8
           in Some (map (\<lambda>a. if a < n_arrays
                then let d = n_dimms div n_arrays
                     in \<lparr>dimms = d, dimm_mb = dmb, a_base = a * ((d * dmb) * 2 ^ 20),
                         a_spd = build_sdram_spd dmb True\<rparr>
                else no_array) [0..<4]))"

datatype array_refusal = Not_a_power_of_two | Less_than_64 | More_than_8192

definition dimm_array_refusal :: "nat \<Rightarrow> array_refusal option" where
  "dimm_array_refusal mb =
     (if mb = 0 then None
      else if mb AND (mb - 1) \<noteq> 0 then Some Not_a_power_of_two
      else if mb < 64 then Some Less_than_64
      else if mb > 8192 then Some More_than_8192
      else None)"

text \<open>One turn of the inner loop of \<open>model_dimm_arrays\<close>, and the two loops: sizes from 8192 down
  to 64, arrays from 0 to 3.\<close>

definition place :: "nat list \<Rightarrow> nat \<Rightarrow> dimm_array list \<times> nat \<Rightarrow> nat \<Rightarrow> dimm_array list \<times> nat" where
  "place mb sz st a =
     (let (p, nxt) = st in
      if mb ! a \<noteq> sz then (p, nxt)
      else let d = (if sz > 4096 then 8 else 4);
               arr = \<lparr>dimms = d, dimm_mb = sz div d, a_base = nxt, a_spd = build_sdram_spd (sz div d) True\<rparr>
           in (p[a := arr], nxt + a_bytes arr))"

definition array_sizes :: "nat list" where
  "array_sizes = map (\<lambda>k. drop_bit k 8192) [0..<8]"

definition model_dimm_arrays :: "nat list \<Rightarrow> dimm_array list" where
  "model_dimm_arrays mb =
     fst (foldl (\<lambda>st sz. foldl (place mb sz) st [0..<4]) (replicate 4 no_array, 0) array_sizes)"

definition attach_dimm_spd :: "i2c_bus \<Rightarrow> dimm_array list \<Rightarrow> i2c_bus" where
  "attach_dimm_spd bus d =
     foldl (\<lambda>b a. foldl (\<lambda>b s. attach b (new_eeprom24 (of_nat (0x50 + a * 2 + s)) (a_spd (d ! a))))
        b [0..<dimms (d ! a) div 4]) bus [0..<4]"

section \<open>The SPD image\<close>

text \<open>What the image says of the DIMM's capacity: \<open>2 ^ (rows + columns)\<close> cells of 8 bytes in each of
  its banks and ranks.\<close>

definition spd_capacity :: "u8 list \<Rightarrow> nat" where
  "spd_capacity b = 2 ^ unat (b ! 3 + b ! 4) * unat (b ! 7) div 8 * unat (b ! 6) * unat (b ! 17)"

lemma checksum_zero:
  fixes b :: "u8 list"
  assumes "63 < length b"
  shows "foldl (+) 0 (take 64 (b[63 := 0 - foldl (\<lambda>s i. s + b ! i) 0 [0..<63]])) = 0"
proof -
  have "take 64 (b[63 := x]) = take 63 b @ [x]" for x
    using assms take_Suc_conv_app_nth [of 63 "b[63 := x]"] by simp
  moreover have "foldl (\<lambda>s i. s + b ! i) 0 [0..<63] = foldl (+) 0 (map ((!) b) [0..<63])"
    by (simp add: foldl_map)
  moreover have "map ((!) b) [0..<63] = take 63 b"
    using assms by (intro nth_equalityI) auto
  ultimately show ?thesis by simp
qed

lemma spd_checksum: "foldl (+) 0 (take 64 (build_sdram_spd mb e)) = 0"
  unfolding build_sdram_spd_def Let_def split_beta by (rule checksum_zero) simp

text \<open>The geometry is coherent with the capacity except for 256 MB and 512 MB DIMMs, whose images describe
  twice the memory.\<close>

lemma spd_capacity_of:
  "mb \<in> {16, 32, 64, 128, 1024} \<Longrightarrow> spd_capacity (build_sdram_spd mb e) = mb * 2 ^ 20"
  "mb \<in> {256, 512} \<Longrightarrow> spd_capacity (build_sdram_spd mb e) = 2 * mb * 2 ^ 20"
  by (auto simp: build_sdram_spd_def spd_geometry_def spd_capacity_def Let_def)

section \<open>The arrays tile memory\<close>

text \<open>The arrays in the order in which they are placed: the populated ones, largest first.\<close>

definition order :: "nat list \<Rightarrow> nat list" where
  "order mb = concat (map (\<lambda>sz. filter (\<lambda>a. mb ! a = sz) [0..<4]) array_sizes)"

definition arr_of :: "nat \<Rightarrow> nat \<Rightarrow> dimm_array" where
  "arr_of sz nxt = (let d = (if sz > 4096 then 8 else 4)
     in \<lparr>dimms = d, dimm_mb = sz div d, a_base = nxt, a_spd = build_sdram_spd (sz div d) True\<rparr>)"

definition place1 :: "nat list \<Rightarrow> dimm_array list \<times> nat \<Rightarrow> nat \<Rightarrow> dimm_array list \<times> nat" where
  "place1 mb st a = ((fst st)[a := arr_of (mb ! a) (snd st)], snd st + a_bytes (arr_of (mb ! a) (snd st)))"

lemma place_filter: "foldl (place mb sz) st xs = foldl (place1 mb) st (filter (\<lambda>a. mb ! a = sz) xs)"
  by (induction xs arbitrary: st) (auto simp: place_def place1_def arr_of_def Let_def split_beta)

lemma model_dimm_arrays_order: "model_dimm_arrays mb = fst (foldl (place1 mb) (replicate 4 no_array, 0) (order mb))"
proof -
  have "foldl (\<lambda>st sz. foldl (place1 mb) st (f sz)) st ss = foldl (place1 mb) st (concat (map f ss))" for f st ss
    by (induction ss arbitrary: st) simp_all
  then show ?thesis unfolding model_dimm_arrays_def order_def place_filter by (rule arg_cong)
qed

definition size_ok :: "nat \<Rightarrow> bool" where
  "size_ok sz \<longleftrightarrow> sz \<in> set array_sizes"

lemma array_sizes_eq: "array_sizes = [8192, 4096, 2048, 1024, 512, 256, 128, 64]"
  by (simp add: array_sizes_def upt_rec)

lemma and_pred_eq_0: "0 < x \<Longrightarrow> x AND (x - 1) = 0 \<Longrightarrow> \<exists>k. x = 2 ^ k" for x :: nat
proof (induction x rule: less_induct)
  case (less x)
  have r: "x AND (x - 1) = of_bool (odd x \<and> odd (x - 1)) + 2 * ((x div 2) AND ((x - 1) div 2))"
    by (rule and_rec)
  show ?case
  proof (cases "even x")
    case True
    then have "(x - 1) div 2 = x div 2 - 1" using less.prems by (auto elim!: evenE)
    then have "x div 2 AND (x div 2 - 1) = 0" using r less.prems True by simp
    then obtain k where "x div 2 = 2 ^ k" using less.IH [of "x div 2"] less.prems True by (auto elim!: evenE)
    then have "x = 2 ^ Suc k" using True by (auto elim!: evenE)
    then show ?thesis by blast
  next
    case False
    then have "(x - 1) div 2 = x div 2" by (auto elim!: oddE)
    then have "x div 2 = 0" using r less.prems by simp
    then have "x = 2 ^ 0" using less.prems by simp
    then show ?thesis by blast
  qed
qed

lemma refusal_sizes: "dimm_array_refusal mb = None \<Longrightarrow> mb = 0 \<or> mb \<in> set array_sizes"
proof -
  assume r: "dimm_array_refusal mb = None"
  show ?thesis
  proof (cases "mb = 0")
    case False
    then have h: "mb AND (mb - 1) = 0" "64 \<le> mb" "mb \<le> 8192"
      using r by (auto simp: dimm_array_refusal_def split: if_splits)
    then obtain k where k: "mb = 2 ^ k" using and_pred_eq_0 [of mb] by auto
    have "6 \<le> k" "k \<le> 13"
      using h k power_increasing_iff [of "2 :: nat" 6 k] power_increasing_iff [of "2 :: nat" k 13] by simp_all
    then have "k \<in> {6, 7, 8, 9, 10, 11, 12, 13}" by auto
    then show ?thesis using k by (auto simp: array_sizes_eq)
  qed simp
qed

lemma bytes_arr_of: "sz \<in> set array_sizes \<Longrightarrow> a_bytes (arr_of sz n) = sz * 2 ^ 20"
  by (auto simp: array_sizes_eq a_bytes_def arr_of_def)

lemma arr_of_simps [simp]: "a_base (arr_of sz n) = n" "dimms (arr_of sz n) \<noteq> 0"
  by (simp_all add: arr_of_def Let_def)

lemma order_facts:
  "set (order mb) = {a. a < 4 \<and> mb ! a \<in> set array_sizes}" "distinct (order mb)"
  "sorted_wrt (\<lambda>a b. mb ! b dvd mb ! a) (order mb)"
proof -
  have g: "distinct (concat (map (\<lambda>sz. filter (\<lambda>a. mb ! a = sz) [0..<4]) ss)) \<and>
      sorted_wrt (\<lambda>a b. mb ! b dvd mb ! a) (concat (map (\<lambda>sz. filter (\<lambda>a. mb ! a = sz) [0..<4]) ss))"
    if "distinct ss" "sorted_wrt (\<lambda>s t. t dvd s) ss" for ss
    using that
  proof (induction ss)
    case (Cons s ss)
    have "sorted_wrt (\<lambda>a b. mb ! b dvd mb ! a) (filter (\<lambda>a. mb ! a = s) xs)" for xs
      by (induction xs) auto
    then show ?case using Cons by (auto simp: sorted_wrt_append)
  qed simp
  show "set (order mb) = {a. a < 4 \<and> mb ! a \<in> set array_sizes}"
    by (auto simp: order_def)
  have "distinct array_sizes" "sorted_wrt (\<lambda>s t. t dvd s) array_sizes"
    by (simp_all add: array_sizes_eq)
  from g [OF this] show "distinct (order mb)" "sorted_wrt (\<lambda>a b. mb ! b dvd mb ! a) (order mb)"
    by (simp_all add: order_def)
qed

definition within :: "dimm_array \<Rightarrow> nat \<Rightarrow> bool" where
  "within a x \<longleftrightarrow> a_base a \<le> x \<and> x < a_base a + a_bytes a"

text \<open>The arrays \<open>xs\<close> of \<open>r\<close> fill the addresses from \<open>n\<close> to the end of \<open>r\<close>, each at a multiple of its
  size; the others are those of \<open>p\<close>.\<close>

definition tiles :: "nat list \<Rightarrow> nat list \<Rightarrow> dimm_array list \<Rightarrow> nat \<Rightarrow> dimm_array list \<times> nat \<Rightarrow> bool" where
  "tiles mb xs p n r \<longleftrightarrow> length (fst r) = length p \<and> snd r = n + (\<Sum>a\<leftarrow>xs. mb ! a * 2 ^ 20) \<and>
     (\<forall>a. a \<notin> set xs \<longrightarrow> fst r ! a = p ! a) \<and>
     (\<forall>a\<in>set xs. \<exists>b. fst r ! a = arr_of (mb ! a) b \<and> n \<le> b \<and> mb ! a * 2 ^ 20 dvd b) \<and>
     (\<forall>x. (\<exists>a\<in>set xs. within (fst r ! a) x) \<longleftrightarrow> n \<le> x \<and> x < snd r) \<and>
     (\<forall>x. \<forall>a\<in>set xs. \<forall>b\<in>set xs. within (fst r ! a) x \<and> within (fst r ! b) x \<longrightarrow> a = b)"

lemma tiles_Cons:
  assumes "y \<notin> set xs" "y < length p" "mb ! y \<in> set array_sizes" "mb ! y * 2 ^ 20 dvd n"
    and t: "tiles mb xs (p[y := arr_of (mb ! y) n]) (n + mb ! y * 2 ^ 20) r"
  shows "tiles mb (y # xs) p n r"
proof -
  let ?B = "mb ! y * 2 ^ 20"
  have y: "fst r ! y = arr_of (mb ! y) n" using t assms(1,2) by (simp add: tiles_def)
  have wy: "within (fst r ! y) x \<longleftrightarrow> n \<le> x \<and> x < n + ?B" for x
    by (simp add: y within_def bytes_arr_of [OF assms(3)])
  have wx: "(\<exists>a\<in>set xs. within (fst r ! a) x) \<longleftrightarrow> n + ?B \<le> x \<and> x < snd r" for x
    using t by (simp add: tiles_def)
  have fin: "n + ?B \<le> snd r" using t by (simp add: tiles_def)
  have cover: "(\<exists>a\<in>set (y # xs). within (fst r ! a) x) \<longleftrightarrow> n \<le> x \<and> x < snd r" for x
    using wy [of x] wx [of x] fin by (simp only: set_simps bex_simps) linarith
  have uniq: "a = b" if "a \<in> set (y # xs)" "b \<in> set (y # xs)" "within (fst r ! a) x" "within (fst r ! b) x" for a b x
  proof -
    have "a \<in> set xs \<Longrightarrow> n + ?B \<le> x" "b \<in> set xs \<Longrightarrow> n + ?B \<le> x" using wx [of x] that by blast+
    moreover have "a = b" if "a \<in> set xs" "b \<in> set xs"
      using t that \<open>within (fst r ! a) x\<close> \<open>within (fst r ! b) x\<close> unfolding tiles_def by blast
    ultimately show ?thesis using that wy [of x] by (cases "a = y"; cases "b = y") auto
  qed
  have bases: "\<exists>b. fst r ! a = arr_of (mb ! a) b \<and> n \<le> b \<and> mb ! a * 2 ^ 20 dvd b" if "a \<in> set (y # xs)" for a
    using that y assms(4) t unfolding tiles_def by (cases "a = y") (auto dest!: add_leD1)
  show ?thesis
    unfolding tiles_def using cover uniq bases t by (auto simp: tiles_def)
qed

lemma place1_tiles:
  assumes "distinct xs" "sorted_wrt (\<lambda>a b. mb ! b dvd mb ! a) xs"
    and "\<And>a. a \<in> set xs \<Longrightarrow> a < length p \<and> mb ! a \<in> set array_sizes \<and> mb ! a * 2 ^ 20 dvd n"
  shows "tiles mb xs p n (foldl (place1 mb) (p, n) xs)"
  using assms
proof (induction xs arbitrary: p n)
  case Nil
  then show ?case by (simp add: tiles_def)
next
  case (Cons y xs)
  let ?p = "p[y := arr_of (mb ! y) n]"
  have y: "y < length p" "mb ! y \<in> set array_sizes" "mb ! y * 2 ^ 20 dvd n" "y \<notin> set xs"
    using Cons.prems by auto
  have "a < length ?p \<and> mb ! a \<in> set array_sizes \<and> mb ! a * 2 ^ 20 dvd n + mb ! y * 2 ^ 20" if "a \<in> set xs" for a
    using that Cons.prems by (auto simp: mult_dvd_mono)
  then have "tiles mb xs ?p (n + mb ! y * 2 ^ 20) (foldl (place1 mb) (?p, n + mb ! y * 2 ^ 20) xs)"
    using Cons by (intro Cons.IH) auto
  moreover have "place1 mb (p, n) y = (?p, n + mb ! y * 2 ^ 20)"
    by (simp add: place1_def bytes_arr_of [OF y(2)])
  ultimately show ?case using y by (simp only: foldl_Cons) (rule tiles_Cons)
qed

text \<open>The arrays of an accepted configuration: where each lies, that together they cover memory from 0
  without a hole, and that no two overlap.\<close>

lemma arrays_tile:
  fixes mb :: "nat list"
  assumes "length mb = 4" "\<And>a. a < 4 \<Longrightarrow> dimm_array_refusal (mb ! a) = None"
  defines "p \<equiv> model_dimm_arrays mb" and "tot \<equiv> sum_list mb * 2 ^ 20"
  shows "length p = 4"
    and "a < 4 \<Longrightarrow> mb ! a = 0 \<Longrightarrow> p ! a = no_array"
    and "a < 4 \<Longrightarrow> mb ! a \<noteq> 0 \<Longrightarrow> \<exists>b. p ! a = arr_of (mb ! a) b \<and> mb ! a \<in> set array_sizes \<and> mb ! a * 2 ^ 20 dvd b"
    and "(\<exists>a<4. within (p ! a) x) \<longleftrightarrow> x < tot"
    and "a < 4 \<Longrightarrow> b < 4 \<Longrightarrow> within (p ! a) x \<Longrightarrow> within (p ! b) x \<Longrightarrow> a = b"
proof -
  let ?r = "foldl (place1 mb) (replicate 4 no_array, 0) (order mb)"
  have t: "tiles mb (order mb) (replicate 4 no_array) 0 ?r"
    using order_facts [of mb] by (intro place1_tiles) auto
  have p: "p = fst ?r" by (simp add: p_def model_dimm_arrays_order)
  have ok: "mb ! a = 0 \<or> mb ! a \<in> set array_sizes" if "a < 4" for a
    using assms(2) [OF that] refusal_sizes by blast
  have out: "a \<notin> set (order mb) \<longleftrightarrow> mb ! a = 0" if "a < 4" for a
    using ok [OF that] that by (auto simp: order_facts array_sizes_eq)
  show "length p = 4" using t by (simp add: p tiles_def)
  show zero: "p ! a = no_array" if "a < 4" "mb ! a = 0" for a
    using t that out by (simp add: p tiles_def)
  show "\<exists>b. p ! a = arr_of (mb ! a) b \<and> mb ! a \<in> set array_sizes \<and> mb ! a * 2 ^ 20 dvd b" if "a < 4" "mb ! a \<noteq> 0"
    using t out [of a] ok [of a] that by (auto simp: p tiles_def)
  have wz: "a \<in> set (order mb)" if "a < 4" "within (p ! a) x" for a x
    using that zero [of a] out [of a] by (auto simp: within_def no_array_def a_bytes_def)
  have "(\<Sum>a\<leftarrow>order mb. mb ! a * 2 ^ 20) = (\<Sum>a\<in>set (order mb). mb ! a * 2 ^ 20)"
    by (simp add: sum_list_distinct_conv_sum_set order_facts)
  also have "\<dots> = (\<Sum>a\<in>{..<4}. mb ! a * 2 ^ 20)"
    using out by (intro sum.mono_neutral_left) (auto simp: order_facts)
  also have "\<dots> = tot"
    using assms(1) by (simp add: tot_def sum_list_sum_nth atLeast0LessThan flip: sum_distrib_right)
  finally have "snd ?r = tot" using t by (simp add: tiles_def)
  then have "(\<exists>a\<in>set (order mb). within (p ! a) x) \<longleftrightarrow> x < tot"
    using t by (simp add: p tiles_def)
  moreover have "a < 4" if "a \<in> set (order mb)" for a using that by (simp add: order_facts)
  ultimately show "(\<exists>a<4. within (p ! a) x) \<longleftrightarrow> x < tot"
    using wz by blast
  show "a = b" if "a < 4" "b < 4" "within (p ! a) x" "within (p ! b) x"
    using t wz [OF that(1,3)] wz [OF that(2,4)] that(3,4) unfolding p tiles_def by blast
qed

end
