(* ===== verification/Tsunami_Cchip.thy ===== *)
theory Tsunami_Cchip
  imports Cchip_Pins Dimm_Model
begin

text \<open>
  The Cchip of the Tsunami/Typhoon chipset: the registers of
  \<^verbatim>\<open>src/src/chipsets/tsunami/TsunamiCchip.cpp\<close> and the interrupt delivery of \<^verbatim>\<open>Tsunami.cpp\<close>
  (\<open>interrupt\<close>, \<open>drive_lines\<close>, \<open>interval_tick\<close>, \<open>power_on_state\<close>). Every one of these runs under
  the chipset's lock, so a call is one step. Prints and counters are left out.
\<close>

section \<open>State\<close>

record tsunami =
  t_csc :: u64
  t_dim :: "u64 list"
  t_drir :: u64
  t_misc :: u64
  t_mpd_bus :: i2c_bus
  t_cks_out :: bool
  t_ds_out :: bool
  t_dimms :: "dimm_array list"
  t_board :: board

text \<open>The Cchip's part of \<open>power_on_state\<close>.\<close>

definition power_on_state :: "tsunami \<Rightarrow> u8 \<Rightarrow> tsunami" where
  "power_on_state t cchip_rev =
     t\<lparr>t_dim := [0, 0, 0, 0], t_drir := 0, t_misc := push_bit 32 (ucast cchip_rev), t_csc := 0x3142444014157803\<rparr>"

section \<open>Interrupts\<close>

definition tsunami_drive_lines :: "u64 \<Rightarrow> u64 list \<Rightarrow> board \<Rightarrow> nat \<Rightarrow> board" where
  "tsunami_drive_lines drir dim b i =
     (let b = (if drir AND dim ! i AND 0x00ffffffffffffff \<noteq> 0 then cpu_irq b i 1 True 100 else cpu_irq b i 1 False 0)
      in if drir AND dim ! i AND 0xfc00000000000000 \<noteq> 0 then cpu_irq b i 0 True 100 else cpu_irq b i 0 False 0)"

definition tsunami_interrupt :: "tsunami \<Rightarrow> int \<Rightarrow> bool \<Rightarrow> tsunami" where
  "tsunami_interrupt t number assert =
     (if number < 0 then t
      else let drir = (if assert then t_drir t OR mask1 (nat number) else t_drir t AND NOT (mask1 (nat number)))
           in t\<lparr>t_drir := drir,
                t_board := foldl (tsunami_drive_lines drir (t_dim t)) (t_board t) [0..<cpu_num (t_board t)]\<rparr>)"

text \<open>The ITINTR bits of a tick: processor 0's also sets those of the processors that are not there.\<close>

definition itintr :: "nat \<Rightarrow> nat \<Rightarrow> u64" where
  "itintr n cpu =
     foldl (\<lambda>m i. m OR push_bit i 0x10) (push_bit cpu 0x10) (if cpu = 0 then [n..<4] else [])"

definition tsunami_interval_tick :: "tsunami \<Rightarrow> nat \<Rightarrow> tsunami" where
  "tsunami_interval_tick t cpu =
     (let b = cpu_irq (t_board t) cpu 2 True 0
      in t\<lparr>t_misc := t_misc t OR itintr (cpu_num (t_board t)) cpu,
           t_board := tsunami_drive_lines (t_drir t) (t_dim t) b cpu\<rparr>)"

section \<open>Registers\<close>

text \<open>AARn: \<open>while ((U64(1) << arr_bits) < arr.bytes())\<close>.\<close>

definition arr_bits :: "nat \<Rightarrow> nat" where
  "arr_bits bytes = while (\<lambda>k. 2 ^ k < bytes) Suc 0"

definition tsunami_aar :: "dimm_array \<Rightarrow> u64" where
  "tsunami_aar arr =
     (if dimms arr = 0 then 0
      else of_nat (a_base arr) OR push_bit 12 (ucast (of_nat (arr_bits (a_bytes arr)) - 23 :: u32)))"

text \<open>Which DIM or DIR register address \<open>a\<close> names.\<close>

definition dim_index :: "u32 \<Rightarrow> nat" where
  "dim_index a = unat ((drop_bit 9 a AND 2) OR (drop_bit 6 a AND 1))"

definition mpd_levels :: "i2c_bus \<Rightarrow> u64" where
  "mpd_levels b = push_bit 2 (of_flag (line_scl b)) OR push_bit 3 (of_flag (line_sda b))"

definition cchip_csr_read :: "tsunami \<Rightarrow> u32 \<Rightarrow> nat \<Rightarrow> u64" where
  "cchip_csr_read t a cpuid =
     (if a = 0x000 then t_csc t
      else if a = 0x080 then t_misc t OR of_nat cpuid
      else if a = 0x0c0 then mpd_levels (t_mpd_bus t)
      else if a \<in> {0x100, 0x140, 0x180, 0x1c0} then tsunami_aar (t_dimms t ! unat (drop_bit 6 a AND 3))
      else if a \<in> {0x200, 0x240, 0x600, 0x640} then t_dim t ! dim_index a
      else if a \<in> {0x280, 0x2c0, 0x680, 0x6c0} then t_drir t AND t_dim t ! dim_index a
      else if a = 0x300 then t_drir t
      else 0)"

text \<open>The loops of the MISC write: stop the interval timer, stop and set interprocessor interrupts.\<close>

definition misc_clear :: "u64 \<Rightarrow> nat \<Rightarrow> u64 \<Rightarrow> board \<Rightarrow> nat \<Rightarrow> board" where
  "misc_clear bits line dat b i =
     (if dat AND push_bit i bits \<noteq> 0 then cpu_irq b i line False 0 else b)"

definition misc_ipreq :: "u64 \<Rightarrow> u64 \<times> board \<Rightarrow> nat \<Rightarrow> u64 \<times> board" where
  "misc_ipreq dat mb i =
     (if dat AND push_bit i 0x1000 \<noteq> 0
      then (fst mb OR push_bit i 0x100, cpu_irq (snd mb) i 3 True 0) else mb)"

definition misc_arbitrate :: "u64 \<Rightarrow> board \<Rightarrow> nat \<Rightarrow> u64 \<Rightarrow> u64 \<times> board" where
  "misc_arbitrate misc b cpuid dat =
     (let misc = misc OR (dat AND 0x00000f0000f00000);
          misc = misc AND NOT (dat AND 0x0000000010000ff0);
          (misc, b) = (if dat AND 0x0000000001000000 \<noteq> 0
             then (misc AND NOT 0x0000000000ff0000, arbitration_cleared b cpuid) else (misc, b))
      in if dat AND 0x00000000000f0000 \<noteq> 0
         then if misc AND 0x00000000000f0000 = 0 then (misc OR (dat AND 0x00000000000f0000), b) else (misc, b)
         else (misc, b))"

definition misc_write :: "u64 \<Rightarrow> board \<Rightarrow> nat \<Rightarrow> u64 \<Rightarrow> u64 \<times> board" where
  "misc_write misc b cpuid dat =
     (let (misc, b) = misc_arbitrate misc b cpuid dat;
          n = cpu_num b;
          b = (if dat AND 0x00000000000000f0 \<noteq> 0 then foldl (misc_clear 0x10 2 dat) b [0..<n] else b);
          b = (if dat AND 0x0000000000000f00 \<noteq> 0 then foldl (misc_clear 0x100 3 dat) b [0..<n] else b)
      in if dat AND 0x000000000000f000 \<noteq> 0 then foldl (misc_ipreq dat) (misc, b) [0..<n] else (misc, b))"

definition dim_write :: "tsunami \<Rightarrow> nat \<Rightarrow> u64 \<Rightarrow> tsunami" where
  "dim_write t n dat =
     (let dim = (t_dim t)[n := dat]; b = t_board t
      in t\<lparr>t_dim := dim,
           t_board := (if n < cpu_num b
             then let b = (if t_drir t AND dim ! n AND 0x00ffffffffffffff \<noteq> 0 then cpu_irq b n 1 True 100
                           else cpu_irq b n 1 False 0)
                  in if t_drir t AND dim ! n AND 0xfc00000000000000 \<noteq> 0 then cpu_irq b n 0 True 100
                     else cpu_irq b n 0 False 0
             else b)\<rparr>)"

definition cchip_csr_write :: "tsunami \<Rightarrow> u32 \<Rightarrow> u64 \<Rightarrow> nat \<Rightarrow> tsunami" where
  "cchip_csr_write t a dat cpuid =
     (if a = 0x000 then t\<lparr>t_csc := (t_csc t AND NOT 0x0777777fff3f0000) OR (dat AND 0x0777777fff3f0000)\<rparr>
      else if a = 0x080 then let (misc, b) = misc_write (t_misc t) (t_board t) cpuid dat in t\<lparr>t_misc := misc, t_board := b\<rparr>
      else if a = 0x0c0
      then let cks = (dat AND 1 \<noteq> 0); ds = (dat AND 2 \<noteq> 0)
           in t\<lparr>t_cks_out := cks, t_ds_out := ds, t_mpd_bus := drive_from_host (t_mpd_bus t) cks ds\<rparr>
      else if a \<in> {0x200, 0x240, 0x600, 0x640} then dim_write t (dim_index a) dat
      else t)"

end
