(* ===== verification/Tsunami_Cchip_Facts.thy ===== *)
theory Tsunami_Cchip_Facts
  imports Tsunami_Cchip
begin

text \<open>
  The pins follow the registers: after any history of device interrupts, ticks, register writes and
  instructions, every processor's lines show exactly its DIR and its MISC bits.
\<close>

section \<open>One operation on every processor\<close>

definition upd_cpu :: "(cpu \<Rightarrow> cpu) \<Rightarrow> board \<Rightarrow> nat \<Rightarrow> board" where
  "upd_cpu g b i = b\<lparr>b_cpus := (b_cpus b)[i := g (b_cpus b ! i)]\<rparr>"

definition each_cpu :: "(nat \<Rightarrow> cpu \<Rightarrow> cpu) \<Rightarrow> board \<Rightarrow> board" where
  "each_cpu g b = b\<lparr>b_cpus := map (\<lambda>i. g i (b_cpus b ! i)) [0..<cpu_num b]\<rparr>"

lemma upd_cpu_simps [simp]:
  "cpu_num (upd_cpu g b i) = cpu_num b" "length (b_cpus (upd_cpu g b i)) = length (b_cpus b)"
  "b_wait (upd_cpu g b i) = b_wait b"
  "j < cpu_num b \<Longrightarrow> b_cpus (upd_cpu g b i) ! j = (if j = i then g (b_cpus b ! i) else b_cpus b ! j)"
  by (simp_all add: upd_cpu_def cpu_num_def nth_list_update)

lemma each_cpu_simps [simp]:
  "cpu_num (each_cpu g b) = cpu_num b" "b_wait (each_cpu g b) = b_wait b"
  "j < cpu_num b \<Longrightarrow> b_cpus (each_cpu g b) ! j = g j (b_cpus b ! j)"
  by (simp_all add: each_cpu_def cpu_num_def)

lemma board_eqI:
  "b_wait b = b_wait d \<Longrightarrow> b_secondaries b = b_secondaries d \<Longrightarrow> b_pending b = b_pending d \<Longrightarrow> cpu_num b = cpu_num d \<Longrightarrow>
   (\<And>i. i < cpu_num b \<Longrightarrow> b_cpus b ! i = b_cpus d ! i) \<Longrightarrow> b = d" for b d :: board
  by (cases b, cases d) (auto simp: cpu_num_def intro: nth_equalityI)

lemma upd_cpu_id [simp]: "upd_cpu (\<lambda>c. c) b i = b"
  by (simp add: upd_cpu_def)

lemma upd_cpu_upd_cpu: "i < cpu_num b \<Longrightarrow> upd_cpu h (upd_cpu g b i) i = upd_cpu (\<lambda>c. h (g c)) b i"
  by (simp add: upd_cpu_def cpu_num_def)

lemma foldl_upd_cpu: "foldl (\<lambda>b i. upd_cpu (g i) b i) b [0..<cpu_num b] = each_cpu g b"
proof -
  have f: "cpu_num d = cpu_num b \<and> b_wait d = b_wait b \<and> b_secondaries d = b_secondaries b \<and> b_pending d = b_pending b \<and>
      (\<forall>j<cpu_num b. b_cpus d ! j = (if j < n then g j (b_cpus b ! j) else b_cpus b ! j))"
    if "d = foldl (\<lambda>b i. upd_cpu (g i) b i) b [0..<n]" "n \<le> cpu_num b" for n d
    using that
  proof (induction n arbitrary: d)
    case (Suc n)
    let ?e = "foldl (\<lambda>b i. upd_cpu (g i) b i) b [0..<n]"
    have "d = upd_cpu (g n) ?e n" using Suc.prems by simp
    then show ?case using Suc.IH [OF refl] Suc.prems by (auto simp: upd_cpu_def cpu_num_def nth_list_update less_Suc_eq)
  qed simp
  from f [OF refl order_refl] show ?thesis
    by (intro board_eqI) (simp_all add: each_cpu_def cpu_num_def)
qed

lemma foldl_upd_cpu_on:
  assumes "\<And>b i. i < n \<Longrightarrow> cpu_num b = n \<Longrightarrow> f b i = upd_cpu (g i) b i" "cpu_num b = n"
  shows "foldl f b [0..<n] = each_cpu g b"
proof -
  have "foldl f b xs = foldl (\<lambda>b i. upd_cpu (g i) b i) b xs" if "set xs \<subseteq> {..<n}" "cpu_num b = n" for xs b
    using that by (induction xs arbitrary: b) (simp_all add: assms(1))
  from this [of "[0..<n]" b] show ?thesis using foldl_upd_cpu [of g b] assms(2) by (simp add: atLeast0LessThan)
qed

lemma each_cpu_compose: "each_cpu h (each_cpu g b) = each_cpu (\<lambda>i c. h i (g i c)) b"
  by (rule board_eqI) (simp_all, simp_all add: each_cpu_def)

lemma each_cpu_id: "(\<And>i c. i < cpu_num b \<Longrightarrow> g i c = c) \<Longrightarrow> each_cpu g b = b"
  by (rule board_eqI) (simp_all, simp_all add: each_cpu_def)

section \<open>The chipset's operations as pin levels\<close>

definition set_line :: "nat \<Rightarrow> bool \<Rightarrow> cpu \<Rightarrow> cpu" where
  "set_line k P c = (if P then irq_h c k True 100 else irq_h c k False 0)"

definition dev_level :: "u64 \<Rightarrow> u64 \<Rightarrow> bool" where "dev_level drir dim \<longleftrightarrow> drir AND dim AND 0x00ffffffffffffff \<noteq> 0"
definition err_level :: "u64 \<Rightarrow> u64 \<Rightarrow> bool" where "err_level drir dim \<longleftrightarrow> drir AND dim AND 0xfc00000000000000 \<noteq> 0"

lemma drive_lines_upd:
  assumes "i < cpu_num b"
  shows "tsunami_drive_lines drir dim b i =
    upd_cpu (\<lambda>c. set_line 0 (err_level drir (dim ! i)) (set_line 1 (dev_level drir (dim ! i)) c)) b i"
proof -
  have "(if P then cpu_irq d i k True 100 else cpu_irq d i k False 0) = upd_cpu (set_line k P) d i" for P d k
    by (simp add: cpu_irq_def upd_cpu_def set_line_def)
  then show ?thesis
    using assms by (simp add: tsunami_drive_lines_def Let_def upd_cpu_upd_cpu dev_level_def err_level_def)
qed

lemma line_up_set_line [simp]: "k < 6 \<Longrightarrow> line_up (set_line k P c) j = (if j = k then P else line_up c j)"
  unfolding set_line_def by (rule pin.pin_level)

lemma sound_set_line [simp]: "cpu_sound c \<Longrightarrow> k < 2 \<Longrightarrow> cpu_sound (set_line k P c)"
  by (simp add: set_line_def sound_irq)

section \<open>The MISC register\<close>

lemma and_pushed: "dat AND push_bit i (push_bit k 1) = 0 \<longleftrightarrow> \<not> bit dat (k + i)" for dat :: u64
  using and_mask1_eq_0 [of dat "i + k"] unfolding mask1_def push_bit_push_bit by (simp add: add.commute)

lemma misc_tests:
  "dat AND push_bit i 0x10 = 0 \<longleftrightarrow> \<not> bit dat (4 + i)" "dat AND push_bit i 0x100 = 0 \<longleftrightarrow> \<not> bit dat (8 + i)"
  "dat AND push_bit i 0x1000 = 0 \<longleftrightarrow> \<not> bit dat (12 + i)" for dat :: u64
  using and_pushed [of dat i 4] and_pushed [of dat i 8] and_pushed [of dat i 12] by simp_all

lemma less_4_cases: "i < (4 :: nat) \<Longrightarrow> i = 0 \<or> i = 1 \<or> i = 2 \<or> i = 3"
  by auto

lemma and_zero_bit: "dat AND m = 0 \<Longrightarrow> bit m k \<Longrightarrow> \<not> bit dat k" for dat m :: u64
  by (metis bit_and_iff bit_0_eq bot_apply bot_bool_def)

text \<open>A whole field that is clear has every bit clear.\<close>

lemma misc_fields:
  fixes dat :: u64
  assumes "i < 4"
  shows "dat AND 0xf0 = 0 \<Longrightarrow> \<not> bit dat (4 + i)" "dat AND 0xf00 = 0 \<Longrightarrow> \<not> bit dat (8 + i)"
    "dat AND 0xf000 = 0 \<Longrightarrow> \<not> bit dat (12 + i)"
  using less_4_cases [OF assms] by (auto elim!: and_zero_bit [rotated, THEN notE] and_zero_bit)

text \<open>What a MISC write does to processor \<open>i\<close>'s pins.\<close>

definition misc_cpu :: "u64 \<Rightarrow> nat \<Rightarrow> cpu \<Rightarrow> cpu" where
  "misc_cpu dat i c =
     (let c = (if bit dat (4 + i) then irq_h c 2 False 0 else c);
          c = (if bit dat (8 + i) then irq_h c 3 False 0 else c)
      in if bit dat (12 + i) then irq_h c 3 True 0 else c)"

text \<open>The MISC bits before the interprocessor requests of the write.\<close>

definition misc_base :: "u64 \<Rightarrow> u64 \<Rightarrow> u64" where
  "misc_base misc dat =
     (let misc = (misc OR (dat AND 0x00000f0000f00000)) AND NOT (dat AND 0x0000000010000ff0);
          misc = (if dat AND 0x0000000001000000 \<noteq> 0 then misc AND NOT 0x0000000000ff0000 else misc)
      in if dat AND 0x00000000000f0000 \<noteq> 0 \<and> misc AND 0x00000000000f0000 = 0
         then misc OR (dat AND 0x00000000000f0000) else misc)"

definition ipreq_bits :: "u64 \<Rightarrow> nat \<Rightarrow> u64 \<Rightarrow> u64" where
  "ipreq_bits dat n misc = foldl (\<lambda>m i. if bit dat (12 + i) then m OR push_bit i 0x100 else m) misc [0..<n]"

definition misc_board :: "board \<Rightarrow> nat \<Rightarrow> u64 \<Rightarrow> board" where
  "misc_board b cpuid dat = (if dat AND 0x0000000001000000 \<noteq> 0 then arbitration_cleared b cpuid else b)"

lemma cpu_irq_upd: "cpu_irq b i k a d = upd_cpu (\<lambda>c. irq_h c k a d) b i"
  by (simp add: cpu_irq_def upd_cpu_def)

lemma ipreq_split:
  "foldl (misc_ipreq dat) (m, b) xs =
     (foldl (\<lambda>m i. if bit dat (12 + i) then m OR push_bit i 0x100 else m) m xs,
      foldl (\<lambda>b i. if bit dat (12 + i) then cpu_irq b i 3 True 0 else b) b xs)"
  by (induction xs arbitrary: m b) (simp_all add: misc_ipreq_def misc_tests)

lemma misc_loops:
  assumes "cpu_num b \<le> 4"
  shows "(if dat AND 0xf0 \<noteq> 0 then foldl (misc_clear 0x10 2 dat) b [0..<cpu_num b] else b) =
      each_cpu (\<lambda>i c. if bit dat (4 + i) then irq_h c 2 False 0 else c) b"
    "(if dat AND 0xf00 \<noteq> 0 then foldl (misc_clear 0x100 3 dat) b [0..<cpu_num b] else b) =
      each_cpu (\<lambda>i c. if bit dat (8 + i) then irq_h c 3 False 0 else c) b"
    "(if dat AND 0xf000 \<noteq> 0 then foldl (misc_ipreq dat) (m, b) [0..<cpu_num b] else (m, b)) =
      (ipreq_bits dat (cpu_num b) m, each_cpu (\<lambda>i c. if bit dat (12 + i) then irq_h c 3 True 0 else c) b)"
proof -
  have fl: "foldl (misc_clear w k dat) b [0..<cpu_num b] = each_cpu (\<lambda>i c. if dat AND push_bit i w \<noteq> 0 then irq_h c k False 0 else c) b"
    for w k by (rule foldl_upd_cpu_on) (simp_all add: misc_clear_def cpu_irq_upd)
  have fi: "foldl (\<lambda>b i. if bit dat (12 + i) then cpu_irq b i 3 True 0 else b) b [0..<cpu_num b] =
      each_cpu (\<lambda>i c. if bit dat (12 + i) then irq_h c 3 True 0 else c) b"
    by (rule foldl_upd_cpu_on) (simp_all add: cpu_irq_upd)
  have no: "i < cpu_num b \<Longrightarrow> i < 4" for i using assms by simp
  show "(if dat AND 0xf0 \<noteq> 0 then foldl (misc_clear 0x10 2 dat) b [0..<cpu_num b] else b) =
      each_cpu (\<lambda>i c. if bit dat (4 + i) then irq_h c 2 False 0 else c) b"
    using each_cpu_id [of b "\<lambda>i c. if bit dat (4 + i) then irq_h c 2 False 0 else c"] misc_fields(1) [OF no]
    by (cases "dat AND 0xf0 = 0") (simp_all add: fl misc_tests)
  show "(if dat AND 0xf00 \<noteq> 0 then foldl (misc_clear 0x100 3 dat) b [0..<cpu_num b] else b) =
      each_cpu (\<lambda>i c. if bit dat (8 + i) then irq_h c 3 False 0 else c) b"
    using each_cpu_id [of b "\<lambda>i c. if bit dat (8 + i) then irq_h c 3 False 0 else c"] misc_fields(2) [OF no]
    by (cases "dat AND 0xf00 = 0") (simp_all add: fl misc_tests)
  have "ipreq_bits dat (cpu_num b) m = m" if "dat AND 0xf000 = 0"
  proof -
    have "foldl (\<lambda>m i. if bit dat (12 + i) then m OR push_bit i 0x100 else m) m xs = m" if "set xs \<subseteq> {..<4}" for xs
      using that misc_fields(3) [OF _ \<open>dat AND 0xf000 = 0\<close>] by (induction xs) auto
    from this [of "[0..<cpu_num b]"] show ?thesis using assms by (simp add: ipreq_bits_def atLeast0LessThan)
  qed
  then show "(if dat AND 0xf000 \<noteq> 0 then foldl (misc_ipreq dat) (m, b) [0..<cpu_num b] else (m, b)) =
      (ipreq_bits dat (cpu_num b) m, each_cpu (\<lambda>i c. if bit dat (12 + i) then irq_h c 3 True 0 else c) b)"
    using misc_fields(3) [OF no] each_cpu_id [of b "\<lambda>i c. if bit dat (12 + i) then irq_h c 3 True 0 else c"]
    by (cases "dat AND 0xf000 = 0") (simp_all add: ipreq_split fi ipreq_bits_def)
qed

lemma release_simps [simp]:
  "cpu_num (release_cpu b i) = cpu_num b" "length (b_wait (release_cpu b i)) = length (b_wait b)"
  by (simp_all add: release_cpu_def cpu_num_def Let_def)

lemma foldl_release [simp]:
  "cpu_num (foldl release_cpu b xs) = cpu_num b" "length (b_wait (foldl release_cpu b xs)) = length (b_wait b)"
  by (induction xs arbitrary: b) simp_all

lemma arbitration_simps [simp]:
  "cpu_num (arbitration_cleared b c) = cpu_num b" "length (b_wait (arbitration_cleared b c)) = length (b_wait b)"
  by (simp_all add: arbitration_cleared_def release_secondaries_def cpu_num_def [of "b\<lparr>b_pending := x\<rparr>" for x])
    (simp_all add: cpu_num_def)

lemma misc_board_simps [simp]: "cpu_num (misc_board b c dat) = cpu_num b"
  by (simp add: misc_board_def)

lemma misc_arbitrate_eq: "misc_arbitrate misc b cpuid dat = (misc_base misc dat, misc_board b cpuid dat)"
  unfolding misc_arbitrate_def misc_base_def misc_board_def Let_def split_beta by simp

lemma misc_write_eq:
  assumes "cpu_num b \<le> 4"
  shows "misc_write misc b cpuid dat =
    (ipreq_bits dat (cpu_num b) (misc_base misc dat), each_cpu (misc_cpu dat) (misc_board b cpuid dat))"
proof -
  let ?b = "misc_board b cpuid dat"
  have n: "cpu_num ?b \<le> 4" using assms by simp
  let ?b2 = "each_cpu (\<lambda>i c. if bit dat (4 + i) then irq_h c 2 False 0 else c) ?b"
  let ?b3 = "each_cpu (\<lambda>i c. if bit dat (8 + i) then irq_h c 3 False 0 else c) ?b2"
  have l2: "(if dat AND 0xf00 \<noteq> 0 then foldl (misc_clear 0x100 3 dat) ?b2 [0..<cpu_num ?b] else ?b2) = ?b3"
    using misc_loops(2) [of ?b2 dat] n unfolding each_cpu_simps(1) .
  have "misc_write misc b cpuid dat =
      (if dat AND 0xf000 \<noteq> 0 then foldl (misc_ipreq dat) (misc_base misc dat, ?b3) [0..<cpu_num ?b3] else (misc_base misc dat, ?b3))"
    unfolding misc_write_def misc_arbitrate_eq Let_def prod.case misc_loops(1) [OF n] l2 by simp
  also have "\<dots> = (ipreq_bits dat (cpu_num b) (misc_base misc dat), each_cpu (misc_cpu dat) ?b)"
    using misc_loops(3) [of ?b3 dat] n by (simp add: each_cpu_compose misc_cpu_def [abs_def] Let_def)
  finally show ?thesis .
qed

text \<open>The interrupt bits of MISC after a write.\<close>

lemma bit_ipreq: "n \<le> 4 \<Longrightarrow> bit (ipreq_bits dat n m) k \<longleftrightarrow> bit m k \<or> (\<exists>i<n. k = 8 + i \<and> bit dat (12 + i))"
proof (induction n)
  case (Suc n)
  have "bit (push_bit n 0x100 :: u64) k \<longleftrightarrow> k = 8 + n"
  proof -
    have "push_bit n 0x100 = (mask1 (8 + n) :: u64)" by (simp add: mask1_def push_bit_eq_mult power_add)
    then show ?thesis using Suc.prems by (simp add: bit_mask1)
  qed
  then show ?case using Suc by (auto simp: ipreq_bits_def bit_or_iff less_Suc_eq)
qed (simp add: ipreq_bits_def)

lemma bit_misc_base:
  assumes "4 \<le> k" "k < 12"
  shows "bit (misc_base misc dat) k \<longleftrightarrow> bit misc k \<and> \<not> bit dat k"
proof -
  have "k \<in> {4, 5, 6, 7, 8, 9, 10, 11}" using assms by auto
  then show ?thesis unfolding misc_base_def Let_def by (auto simp: bit_or_iff bit_and_iff bit_not_iff)
qed

section \<open>The invariant\<close>

definition pins_ok :: "tsunami \<Rightarrow> bool" where
  "pins_ok t \<longleftrightarrow> (\<forall>i<cpu_num (t_board t). let c = b_cpus (t_board t) ! i in
     line_up c 1 = dev_level (t_drir t) (t_dim t ! i) \<and> line_up c 0 = err_level (t_drir t) (t_dim t ! i) \<and>
     line_up c 2 = bit (t_misc t) (4 + i) \<and> line_up c 3 = bit (t_misc t) (8 + i))"

definition cchip_ok :: "tsunami \<Rightarrow> bool" where
  "cchip_ok t \<longleftrightarrow> cpu_num (t_board t) \<le> 4 \<and> length (t_dim t) = 4 \<and> length (b_wait (t_board t)) = cpu_num (t_board t) \<and>
     (\<forall>i<cpu_num (t_board t). cpu_sound (b_cpus (t_board t) ! i)) \<and> pins_ok t"

lemma interrupt_ok:
  assumes "cchip_ok t" "number < 64"
  shows "cchip_ok (tsunami_interrupt t number up)"
proof -
  let ?b = "t_board t"
  let ?drir = "if up then t_drir t OR mask1 (nat number) else t_drir t AND NOT (mask1 (nat number))"
  have "foldl (tsunami_drive_lines ?drir (t_dim t)) ?b [0..<cpu_num ?b] =
      each_cpu (\<lambda>i c. set_line 0 (err_level ?drir (t_dim t ! i)) (set_line 1 (dev_level ?drir (t_dim t ! i)) c)) ?b"
    by (rule foldl_upd_cpu_on) (simp_all add: drive_lines_upd)
  then show ?thesis
    using assms(1) by (simp add: tsunami_interrupt_def cchip_ok_def pins_ok_def Let_def)
qed

lemma bit_itintr:
  assumes "n \<le> 4" "cpu < n" "k < 8"
  shows "bit (itintr n cpu) (4 + k) \<longleftrightarrow> k = cpu \<or> (cpu = 0 \<and> n \<le> k \<and> k < 4)"
proof -
  have p: "push_bit i 0x10 = (mask1 (4 + i) :: u64)" for i by (simp add: mask1_def push_bit_eq_mult power_add)
  have "bit (foldl (\<lambda>m i. m OR mask1 (4 + i)) m xs) (4 + k) \<longleftrightarrow> bit m (4 + k) \<or> k \<in> set xs" for m :: u64 and xs
  proof (induction xs arbitrary: m)
    case (Cons x xs)
    have "bit (m OR mask1 (4 + x)) (4 + k) \<longleftrightarrow> bit m (4 + k) \<or> k = x"
      using assms(3) unfolding bit_set_mask1 by auto
    then show ?case using Cons.IH [of "m OR mask1 (4 + x)"] by simp
  qed simp
  then show ?thesis using assms unfolding itintr_def p by (auto simp: bit_mask1)
qed

lemma tick_ok:
  assumes "cchip_ok t" "cpu < cpu_num (t_board t)"
  shows "cchip_ok (tsunami_interval_tick t cpu)"
proof -
  let ?b = "t_board t"
  have n: "cpu_num ?b \<le> 4" using assms(1) by (simp add: cchip_ok_def)
  have bits: "bit (t_misc t OR itintr (cpu_num ?b) cpu) (4 + i) \<longleftrightarrow> bit (t_misc t) (4 + i) \<or> i = cpu"
    "bit (t_misc t OR itintr (cpu_num ?b) cpu) (8 + i) \<longleftrightarrow> bit (t_misc t) (8 + i)" if "i < cpu_num ?b" for i
    using bit_itintr [OF n assms(2), of i] bit_itintr [OF n assms(2), of "4 + i"] that n assms(2)
    by (auto simp: bit_or_iff add.assoc [symmetric])
  have "tsunami_drive_lines (t_drir t) (t_dim t) (cpu_irq ?b cpu 2 True 0) cpu =
      upd_cpu (\<lambda>c. set_line 0 (err_level (t_drir t) (t_dim t ! cpu)) (set_line 1 (dev_level (t_drir t) (t_dim t ! cpu)) (irq_h c 2 True 0))) ?b cpu"
    using assms(2) by (simp add: cpu_irq_upd drive_lines_upd upd_cpu_upd_cpu)
  then show ?thesis
    using assms by (auto simp: tsunami_interval_tick_def cchip_ok_def pins_ok_def bits line_up_irq sound_irq Let_def)
qed

lemma dim_write_ok:
  assumes "cchip_ok t" "n < 4"
  shows "cchip_ok (dim_write t n dat)"
proof -
  let ?b = "t_board t" and ?dim = "(t_dim t)[n := dat]"
  have "dim_write t n dat = t\<lparr>t_dim := ?dim,
      t_board := (if n < cpu_num ?b then tsunami_drive_lines (t_drir t) ?dim ?b n else ?b)\<rparr>"
    by (simp add: dim_write_def tsunami_drive_lines_def Let_def)
  then show ?thesis
    using assms by (auto simp: cchip_ok_def pins_ok_def drive_lines_upd nth_list_update Let_def)
qed

text \<open>Releasing the secondaries moves program counters and nothing else that the pins depend on.\<close>

lemma release_keeps:
  "i < cpu_num b \<Longrightarrow> pins (b_cpus (release_cpu b j) ! i) = pins (b_cpus b ! i) \<and>
     (cpu_sound (b_cpus b ! i) \<longrightarrow> cpu_sound (b_cpus (release_cpu b j) ! i))"
proof -
  have "cpu_sound c \<Longrightarrow> cpu_sound (set_pc c (c_pal_base c OR 1))" for c
    by (auto simp: cpu_sound_def delays_ok_def set_pc_def parity_simps intro!: no_lost_set_pc [unfolded set_pc_def])
  then show "i < cpu_num b \<Longrightarrow> ?thesis"
    by (cases "i = j") (auto simp: release_cpu_def cpu_num_def Let_def)
qed

lemma arbitration_keeps:
  assumes "i < cpu_num b"
  shows "pins (b_cpus (arbitration_cleared b c) ! i) = pins (b_cpus b ! i)"
    "cpu_sound (b_cpus b ! i) \<Longrightarrow> cpu_sound (b_cpus (arbitration_cleared b c) ! i)"
proof -
  have f: "pins (b_cpus (foldl release_cpu b xs) ! i) = pins (b_cpus b ! i) \<and>
      (cpu_sound (b_cpus b ! i) \<longrightarrow> cpu_sound (b_cpus (foldl release_cpu b xs) ! i))" if "i < cpu_num b" for b xs
    using that by (induction xs arbitrary: b) (auto simp: release_keeps)
  show "pins (b_cpus (arbitration_cleared b c) ! i) = pins (b_cpus b ! i)"
    "cpu_sound (b_cpus b ! i) \<Longrightarrow> cpu_sound (b_cpus (arbitration_cleared b c) ! i)"
    using f [of "b\<lparr>b_pending := False\<rparr>"] assms
    by (auto simp: arbitration_cleared_def release_secondaries_def cpu_num_def)
qed

lemma line_up_pins: "pins c = pins d \<Longrightarrow> line_up c k = line_up d k"
  by (simp add: pins_def line_up_def)

lemma misc_board_keeps:
  assumes "i < cpu_num b"
  shows "line_up (b_cpus (misc_board b c dat) ! i) k = line_up (b_cpus b ! i) k"
    "cpu_sound (b_cpus b ! i) \<Longrightarrow> cpu_sound (b_cpus (misc_board b c dat) ! i)"
  using arbitration_keeps [OF assms] line_up_pins [OF arbitration_keeps(1) [OF assms]] by (simp_all add: misc_board_def)

lemma misc_cpu_line:
  "line_up (misc_cpu dat i c) k =
     (if k = 2 then line_up c 2 \<and> \<not> bit dat (4 + i)
      else if k = 3 then bit dat (12 + i) \<or> line_up c 3 \<and> \<not> bit dat (8 + i) else line_up c k)"
  by (simp add: misc_cpu_def line_up_irq Let_def)

lemma sound_misc_cpu: "cpu_sound c \<Longrightarrow> cpu_sound (misc_cpu dat i c)"
  by (simp add: misc_cpu_def sound_irq Let_def)

lemma misc_write_ok:
  assumes "cchip_ok t"
  shows "cchip_ok (t\<lparr>t_misc := fst (misc_write (t_misc t) (t_board t) c dat), t_board := snd (misc_write (t_misc t) (t_board t) c dat)\<rparr>)"
proof -
  let ?b = "t_board t"
  have n: "cpu_num ?b \<le> 4" using assms by (simp add: cchip_ok_def)
  have bits: "bit (ipreq_bits dat (cpu_num ?b) (misc_base m dat)) (4 + i) \<longleftrightarrow> bit m (4 + i) \<and> \<not> bit dat (4 + i)"
    "bit (ipreq_bits dat (cpu_num ?b) (misc_base m dat)) (8 + i) \<longleftrightarrow> bit dat (12 + i) \<or> bit m (8 + i) \<and> \<not> bit dat (8 + i)"
    if "i < cpu_num ?b" for i m
    using that n by (auto simp: bit_ipreq bit_misc_base)
  have "length (b_wait (misc_board ?b c dat)) = length (b_wait ?b)" by (simp add: misc_board_def)
  then show ?thesis
    using assms
    by (simp add: misc_write_eq [OF n] cchip_ok_def pins_ok_def bits misc_cpu_line misc_board_keeps sound_misc_cpu Let_def)
qed

lemma csr_write_ok:
  assumes "cchip_ok t"
  shows "cchip_ok (cchip_csr_write t a dat c)"
proof -
  have "dim_index a < 4" if "a \<in> {0x200, 0x240, 0x600, 0x640}" using that by (auto simp: dim_index_def)
  then show ?thesis
    using assms dim_write_ok misc_write_ok [OF assms, of c dat]
    by (simp add: cchip_csr_write_def split_beta Let_def) (simp add: cchip_ok_def pins_ok_def)
qed

lemma cpu_num_irq [simp]: "cpu_num (cpu_irq b i k a d) = cpu_num b"
  by (simp add: cpu_irq_def cpu_num_def)

lemma cpu_num_drive [simp]: "cpu_num (tsunami_drive_lines drir dim b i) = cpu_num b"
  by (simp add: tsunami_drive_lines_def Let_def)

lemma cpu_num_drive_all [simp]: "cpu_num (foldl (tsunami_drive_lines drir dim) b xs) = cpu_num b"
  by (induction xs arbitrary: b) simp_all

lemma cpu_num_chip [simp]:
  "cpu_num (t_board (tsunami_interrupt t n up)) = cpu_num (t_board t)"
  "cpu_num (t_board (tsunami_interval_tick t i)) = cpu_num (t_board t)"
  "cpu_num (t_board t) \<le> 4 \<Longrightarrow> cpu_num (t_board (cchip_csr_write t a dat i)) = cpu_num (t_board t)"
  by (simp_all add: tsunami_interrupt_def tsunami_interval_tick_def cchip_csr_write_def dim_write_def misc_write_eq
      split_beta Let_def)

text \<open>A new Typhoon, and a board with one processor, for concrete runs.\<close>

definition one_cpu :: board where
  "one_cpu = \<lparr>b_cpus = [cpu_idle], b_wait = [False], b_secondaries = SECONDARIES_BY_CONSOLE, b_pending = False\<rparr>"

definition new_typhoon :: "board \<Rightarrow> tsunami" where
  "new_typhoon b = power_on_state \<lparr>t_csc = 0, t_dim = [], t_drir = 0, t_misc = 0, t_mpd_bus = new_bus, t_cks_out = True,
     t_ds_out = True, t_dimms = replicate 4 no_array, t_board = b\<rparr> 8"

end
