(* ===== verification/Tsunami_Machine.thy ===== *)
theory Tsunami_Machine
  imports Tsunami_Cchip_Facts Interrupt_Lines
begin

text \<open>
  The board at work: device wires (\<^verbatim>\<open>Interrupt_Lines\<close>), the Cchip and the processors, as a machine whose
  steps are the calls the program serialises (\<open>CSystem::interrupt\<close> of \<^verbatim>\<open>src/src/system/System.hpp\<close>,
  interval ticks, register writes) and what each processor does by itself.
\<close>

record machine =
  m_wires :: "request list"
  m_chip :: tsunami

text \<open>\<open>CSystem::interrupt\<close>: the wire's level goes to the chipset.\<close>

definition sys_interrupt :: "machine \<Rightarrow> int \<Rightarrow> bool \<Rightarrow> nat \<Rightarrow> int \<Rightarrow> machine" where
  "sys_interrupt m number assert source line =
     (let (w, level) = drive (m_wires m) number source line assert
      in m\<lparr>m_wires := w, m_chip := tsunami_interrupt (m_chip m) number level\<rparr>)"

definition run_cpu :: "machine \<Rightarrow> nat \<Rightarrow> cpu_op \<Rightarrow> machine" where
  "run_cpu m i x =
     (let t = m_chip m in m\<lparr>m_chip := t\<lparr>t_board := upd_cpu (\<lambda>c. cpu_step c x) (t_board t) i\<rparr>\<rparr>)"

datatype machine_op = Wire int bool nat int | Tick nat | Csr_write u32 u64 nat | Cpu nat cpu_op

fun machine_step :: "machine \<Rightarrow> machine_op \<Rightarrow> machine" where
  "machine_step m (Wire n up src l) = sys_interrupt m n up src l"
| "machine_step m (Tick i) = m\<lparr>m_chip := tsunami_interval_tick (m_chip m) i\<rparr>"
| "machine_step m (Csr_write a dat i) = m\<lparr>m_chip := cchip_csr_write (m_chip m) a dat i\<rparr>"
| "machine_step m (Cpu i x) = run_cpu m i x"

abbreviation the_cpu :: "machine \<Rightarrow> nat \<Rightarrow> cpu" where
  "the_cpu m i \<equiv> b_cpus (t_board (m_chip m)) ! i"

abbreviation cpus_of :: "machine \<Rightarrow> nat" where
  "cpus_of m \<equiv> cpu_num (t_board (m_chip m))"

text \<open>The chipset has 64 interrupt inputs; ticks, accesses and instructions are of processors there are.\<close>

fun machine_ok :: "machine \<Rightarrow> machine_op \<Rightarrow> bool" where
  "machine_ok m (Wire n up src l) = (n < 64)"
| "machine_ok m (Tick i) = (i < cpus_of m)"
| "machine_ok m (Csr_write a dat i) = (i < cpus_of m)"
| "machine_ok m (Cpu i x) = (i < cpus_of m \<and> cpu_own (the_cpu m i) x)"

definition machine_inv :: "machine \<Rightarrow> bool" where
  "machine_inv m \<longleftrightarrow> cchip_ok (m_chip m) \<and> distinct (m_wires m) \<and>
     (\<forall>k<64. bit (t_drir (m_chip m)) k \<longleftrightarrow> lines_level (m_wires m) (int k))"

lemma drir_simps [simp]:
  "t_drir (tsunami_interval_tick t i) = t_drir t" "t_drir (cchip_csr_write t a dat i) = t_drir t"
  by (simp_all add: tsunami_interval_tick_def cchip_csr_write_def dim_write_def split_beta Let_def)

lemma wire_step_inv:
  assumes "machine_inv m" "n < 64"
  shows "machine_inv (sys_interrupt m n up src l)"
proof -
  obtain w level where d: "drive (m_wires m) n src l up = (w, level)" by (cases "drive (m_wires m) n src l up")
  have dist: "distinct (m_wires m)" and old: "\<And>k. k < 64 \<Longrightarrow> bit (t_drir (m_chip m)) k \<longleftrightarrow> lines_level (m_wires m) (int k)"
    using assms(1) by (auto simp: machine_inv_def)
  have lv: "level = lines_level w n" "distinct w" "\<And>j. j \<noteq> n \<Longrightarrow> lines_level w j = lines_level (m_wires m) j"
    using wires.snd_drv [OF dist, of n src l up] wires.wok_drv [OF dist, of n src l up]
      wires.drv_frame [OF dist, of _ n src l up] d by simp_all
  have "bit (t_drir (tsunami_interrupt (m_chip m) n level)) k \<longleftrightarrow> lines_level w (int k)" if "k < 64" for k
    using old [OF that] lv that assms(2)
    by (cases "int k = n") (auto simp: tsunami_interrupt_def bit_set_mask1 bit_clear_mask1 Let_def)
  then show ?thesis
    using assms interrupt_ok [of "m_chip m" n level] lv(2) by (simp add: machine_inv_def sys_interrupt_def d)
qed

lemma cpu_step_inv:
  assumes "machine_inv m" "i < cpus_of m" "cpu_own (the_cpu m i) x"
  shows "machine_inv (run_cpu m i x)"
  using assms by (auto simp: machine_inv_def run_cpu_def cchip_ok_def pins_ok_def line_up_own sound_own Let_def)

lemma machine_step_inv: "machine_inv m \<Longrightarrow> machine_ok m x \<Longrightarrow> machine_inv (machine_step m x)"
proof (cases x)
  case (Wire n up src l)
  then show "machine_inv m \<Longrightarrow> machine_ok m x \<Longrightarrow> ?thesis" by (simp add: wire_step_inv)
next
  case (Cpu i y)
  then show "machine_inv m \<Longrightarrow> machine_ok m x \<Longrightarrow> ?thesis" by (simp add: cpu_step_inv)
qed (simp_all add: machine_inv_def tick_ok csr_write_ok)

interpretation mach: invariant_machine machine_step machine_ok machine_inv
  by unfold_locales (rule machine_step_inv)

text \<open>The states a history of permitted steps reaches from power-on, with \<open>n\<close> processors whose lines are down.\<close>

inductive reaches :: "machine \<Rightarrow> machine \<Rightarrow> bool" where
  start: "reaches m m"
| onward: "reaches m m' \<Longrightarrow> machine_ok m' x \<Longrightarrow> reaches m (machine_step m' x)"

definition powered_on :: "machine \<Rightarrow> bool" where
  "powered_on m \<longleftrightarrow> (\<exists>t rev. m_chip m = power_on_state t rev) \<and> m_wires m = [] \<and> cpus_of m \<le> 4 \<and>
     length (b_wait (t_board (m_chip m))) = cpus_of m \<and>
     (\<forall>i<cpus_of m. pins (the_cpu m i) = (0, \<lambda>_. 0) \<and> \<not> int_deliverable (the_cpu m i))"

lemma powered_on_inv:
  assumes "powered_on m"
  shows "machine_inv m"
proof -
  obtain t rev where t: "m_chip m = power_on_state t rev" using assms by (auto simp: powered_on_def)
  have "\<not> bit (push_bit 32 (ucast rev) :: u64) (4 + i)" "\<not> bit (push_bit 32 (ucast rev) :: u64) (8 + i)" if "i < 4" for i
    using that by (simp_all add: bit_push_bit_iff)
  then show ?thesis
    using assms t
    by (auto simp: powered_on_def machine_inv_def cchip_ok_def pins_ok_def power_on_state_def dev_level_def err_level_def
        cpu_sound_def no_lost_def delays_ok_def line_up_def pins_def lines_level_def Let_def)
qed

lemma reaches_inv: "reaches m m' \<Longrightarrow> machine_inv m \<Longrightarrow> machine_inv m'"
  by (induction rule: reaches.induct) (auto intro: mach.step_inv)


text \<open>One processor; input 5 is unmasked for it and then asserted by a device.\<close>

definition one_machine :: machine where
  "one_machine = \<lparr>m_wires = [], m_chip = new_typhoon one_cpu\<rparr>"

definition after_device :: machine where
  "after_device = machine_step (machine_step one_machine (Csr_write 0x200 0x20 0)) (Wire 5 True 1 0)"

lemma one_machine_on: "powered_on one_machine"
proof -
  have "int_deliverable cpu_idle = False" "pins cpu_idle = (0, \<lambda>_. 0)"
    by (simp_all add: cpu_idle_def int_deliverable_def pins_def)
  moreover have "\<exists>t rev. m_chip one_machine = power_on_state t rev" by (auto simp: one_machine_def new_typhoon_def)
  ultimately show ?thesis
    unfolding powered_on_def by (simp add: one_machine_def new_typhoon_def one_cpu_def cpu_num_def power_on_state_def)
qed

lemma after_device_facts:
  "reaches one_machine after_device" "cpus_of after_device = 1" "t_drir (m_chip after_device) = 0x20"
  "t_dim (m_chip after_device) = [0x20, 0, 0, 0]" "t_misc (m_chip after_device) = 0x800000000"
  "m_wires after_device = [\<lparr>r_input = 5, r_source = 1, r_line = 0\<rparr>]"
proof -
  have n: "cpus_of one_machine = 1" by (simp add: one_machine_def new_typhoon_def one_cpu_def cpu_num_def power_on_state_def)
  have "reaches one_machine (machine_step one_machine (Csr_write 0x200 0x20 0))"
    using n by (intro reaches.intros) simp_all
  then show "reaches one_machine after_device" unfolding after_device_def by (rule reaches.onward) simp
  show "cpus_of after_device = 1"
    using n by (simp add: after_device_def sys_interrupt_def split_beta)
  show "t_drir (m_chip after_device) = 0x20" "m_wires after_device = [\<lparr>r_input = 5, r_source = 1, r_line = 0\<rparr>]"
    by (simp_all add: after_device_def sys_interrupt_def one_machine_def new_typhoon_def power_on_state_def drive_def
        tsunami_interrupt_def mask1_def)
  show "t_dim (m_chip after_device) = [0x20, 0, 0, 0]" "t_misc (m_chip after_device) = 0x800000000"
    by (simp_all add: after_device_def sys_interrupt_def one_machine_def new_typhoon_def power_on_state_def split_beta
        tsunami_interrupt_def cchip_csr_write_def dim_write_def dim_index_def Let_def)
qed


section \<open>The shape of the registers\<close>

text \<open>The bits of MISC that can be set: DEVSUP, ABT and ABW, IPINTR and ITINTR; the rest is the revision.\<close>

abbreviation (input) MISC_FIELDS :: u64 where "MISC_FIELDS \<equiv> 0x00000f0000ff0ff0"
abbreviation (input) CSC_FIELDS :: u64 where "CSC_FIELDS \<equiv> 0x0777777fff3f0000"

definition cchip_typed :: "u8 \<Rightarrow> tsunami \<Rightarrow> bool" where
  "cchip_typed r t \<longleftrightarrow> length (t_dim t) = 4 \<and>
     t_misc t AND NOT MISC_FIELDS = push_bit 32 (ucast r) \<and>
     t_csc t AND NOT CSC_FIELDS = 0x3142444014157803 AND NOT CSC_FIELDS"

lemma misc_or: "x AND NOT MISC_FIELDS = 0 \<Longrightarrow> (m OR x) AND NOT MISC_FIELDS = m AND NOT MISC_FIELDS" for m x :: u64
  by (simp add: bit.conj_disj_distrib2)

lemma misc_or_and: "(m OR (dat AND c)) AND NOT MISC_FIELDS = m AND NOT MISC_FIELDS"
  if "c AND NOT MISC_FIELDS = 0" for m dat c :: u64
  using that by (intro misc_or) (simp only: and.assoc, simp)

lemma and_not_id: "x AND y = 0 \<Longrightarrow> x AND NOT y = x" for x y :: u64
proof -
  have "x = (x AND y) OR (x AND NOT y)" by (simp flip: bit.conj_disj_distrib)
  then show "x AND y = 0 \<Longrightarrow> ?thesis" by simp
qed

lemma misc_and:
  fixes m y :: u64 and r :: u8
  assumes "m AND NOT MISC_FIELDS = push_bit 32 (ucast r)" "push_bit 32 (ucast r) AND y = (0 :: u64)"
  shows "(m AND NOT y) AND NOT MISC_FIELDS = push_bit 32 (ucast r)"
proof -
  have "(m AND NOT y) AND NOT MISC_FIELDS = (m AND NOT MISC_FIELDS) AND NOT y" by (simp only: ac_simps)
  also have "\<dots> = push_bit 32 (ucast r) AND NOT y" using assms(1) by simp
  also have "\<dots> = push_bit 32 (ucast r)"
    using assms(2) by (rule and_not_id)
  finally show ?thesis .
qed

lemma push_and_low: "push_bit 32 (ucast (r :: u8)) AND (dat AND c) = (0 :: u64)" if "drop_bit 32 c = 0" for dat c :: u64
proof (rule bit_word_eqI)
  fix n
  have "\<not> bit (drop_bit 32 c) (n - 32)" using that by simp
  then show "bit (push_bit 32 (ucast r) AND (dat AND c)) n = bit (0 :: u64) n"
    by (auto simp: bit_and_iff bit_push_bit_iff bit_drop_bit_eq)
qed

lemma misc_base_typed:
  assumes "misc AND NOT MISC_FIELDS = push_bit 32 (ucast (r :: u8))"
  shows "misc_base misc dat AND NOT MISC_FIELDS = push_bit 32 (ucast r)"
proof -
  let ?m1 = "misc OR (dat AND 0x00000f0000f00000)"
  let ?m2 = "?m1 AND NOT (dat AND 0x0000000010000ff0)"
  have m1: "?m1 AND NOT MISC_FIELDS = push_bit 32 (ucast r)" using misc_or_and [of "0x00000f0000f00000" misc dat] assms by simp
  have m2: "?m2 AND NOT MISC_FIELDS = push_bit 32 (ucast r)" by (rule misc_and [OF m1]) (rule push_and_low, simp)
  have "push_bit 32 (ucast r) AND (0xff0000 AND 0xff0000) = (0 :: u64)" by (rule push_and_low) simp
  then have m3: "(?m2 AND NOT 0xff0000) AND NOT MISC_FIELDS = push_bit 32 (ucast r)" by (intro misc_and [OF m2]) simp
  have m4: "(m OR (dat AND 0xf0000)) AND NOT MISC_FIELDS = m AND NOT MISC_FIELDS" for m
    by (rule misc_or_and) simp
  show ?thesis
    unfolding misc_base_def Let_def using m2 m3 m4 [of ?m2] m4 [of "?m2 AND NOT 0xff0000"]
    by (cases "dat AND 0x1000000 = 0"; cases "dat AND 0xf0000 = 0") (simp_all only: simp_thms if_True if_False split: if_split)
qed

lemma ipreq_typed: "n \<le> 4 \<Longrightarrow> ipreq_bits dat n m AND NOT MISC_FIELDS = m AND NOT MISC_FIELDS"
proof (induction n)
  case (Suc n)
  have "n = 0 \<or> n = 1 \<or> n = 2 \<or> n = 3" using Suc.prems by auto
  then have "push_bit n 0x100 AND NOT MISC_FIELDS = (0 :: u64)" by auto
  then show ?case using Suc misc_or [of "push_bit n 0x100"] by (simp add: ipreq_bits_def)
qed (simp add: ipreq_bits_def)

lemma itintr_typed: "n \<le> 4 \<Longrightarrow> i < n \<Longrightarrow> (m OR itintr n i) AND NOT MISC_FIELDS = m AND NOT MISC_FIELDS"
proof -
  assume "n \<le> 4" "i < n"
  then have "n = 1 \<or> n = 2 \<or> n = 3 \<or> n = 4" "i = 0 \<or> i = 1 \<or> i = 2 \<or> i = 3" by auto
  then have "itintr n i AND NOT MISC_FIELDS = 0" by (elim disjE) (simp_all add: itintr_def upt_rec)
  then show ?thesis by (rule misc_or)
qed

lemma typed_step:
  assumes "machine_inv m" "machine_ok m x" "cchip_typed r (m_chip m)"
  shows "cchip_typed r (m_chip (machine_step m x))"
proof (cases x)
  case (Wire n up src l)
  then show ?thesis
    using assms(3) by (simp add: sys_interrupt_def tsunami_interrupt_def cchip_typed_def split_beta Let_def)
next
  case (Tick i)
  then show ?thesis
    using assms itintr_typed [of "cpus_of m" i] by (simp add: tsunami_interval_tick_def cchip_typed_def machine_inv_def cchip_ok_def)
next
  case (Cpu i y)
  then show ?thesis using assms(3) by (simp add: run_cpu_def cchip_typed_def Let_def)
next
  case (Csr_write a dat i)
  let ?t = "m_chip m"
  have n: "cpus_of m \<le> 4" using assms(1) by (simp add: machine_inv_def cchip_ok_def)
  have csc: "((c AND NOT CSC_FIELDS) OR (dat AND CSC_FIELDS)) AND NOT CSC_FIELDS = c AND NOT CSC_FIELDS" for c
    by (simp add: bit.conj_disj_distrib2 and.assoc)
  have "t_misc ?t AND NOT MISC_FIELDS = push_bit 32 (ucast r)" using assms(3) by (simp add: cchip_typed_def)
  then have "fst (misc_write (t_misc ?t) (t_board ?t) i dat) AND NOT MISC_FIELDS = push_bit 32 (ucast r)"
    using misc_base_typed [of "t_misc ?t" r dat] ipreq_typed [OF n] by (simp add: misc_write_eq [OF n])
  then show ?thesis
    using assms(3) csc csc [of "0x3142444014157803"] Csr_write
    by (simp add: cchip_csr_write_def dim_write_def cchip_typed_def split_beta Let_def)
qed

text \<open>
  C15. The Cchip's registers keep their shape. After any history from power-on there are four DIM
  registers, a read of MISC shows the chip's revision, the reading processor's number, and
  otherwise only bits of the fields DEVSUP, ABT, ABW, IPINTR and ITINTR (the write-only and
  reserved bits read as zero), and the read-only bits of CSC have their power-on values.
\<close>

theorem cchip_registers_typed:
  assumes "powered_on m0" and "m_chip m0 = power_on_state t r" and "reaches m0 m" and "i < 4"
  shows "length (t_dim (m_chip m)) = 4 \<and>
    cchip_csr_read (m_chip m) 0x080 i AND NOT MISC_FIELDS = push_bit 32 (ucast r) OR of_nat i \<and>
    cchip_csr_read (m_chip m) 0x000 i AND NOT CSC_FIELDS = 0x3142444014157803 AND NOT CSC_FIELDS"
proof -
  have "cchip_typed r (m_chip m0)"
  proof -
    have "push_bit 32 (ucast r) AND NOT MISC_FIELDS = (push_bit 32 (ucast r) :: u64)"
    proof (rule and_not_id, rule bit_word_eqI)
      fix n
      show "bit (push_bit 32 (ucast r) AND MISC_FIELDS) n = bit (0 :: u64) n"
      proof (cases "32 \<le> n \<and> n < 40")
        case True
        then have "n \<in> {32, 33, 34, 35, 36, 37, 38, 39}" by auto
        then show ?thesis by (auto simp: bit_and_iff)
      next
        case False
        then show ?thesis by (auto simp: bit_and_iff bit_push_bit_iff bit_unsigned_iff dest: bit_imp_le_length)
      qed
    qed
    then show ?thesis using assms(2) by (simp add: cchip_typed_def power_on_state_def)
  qed
  with assms(3) have "machine_inv m \<and> cchip_typed r (m_chip m)"
    using powered_on_inv [OF assms(1)]
    by (induction rule: reaches.induct) (auto intro: mach.step_inv typed_step)
  moreover have "of_nat i AND NOT MISC_FIELDS = (of_nat i :: u64)" using less_4_cases [OF assms(4)] by auto
  ultimately show ?thesis by (simp add: cchip_csr_read_def cchip_typed_def bit.conj_disj_distrib2)
qed

theorem cchip_registers_typed_witness:
  "cchip_csr_read (m_chip after_device) 0x080 2 AND NOT MISC_FIELDS = 0x800000002"
proof -
  have "m_chip one_machine = power_on_state (m_chip one_machine) 8"
    by (simp add: one_machine_def new_typhoon_def power_on_state_def)
  then show ?thesis
    using cchip_registers_typed [OF one_machine_on _ after_device_facts(1), of "m_chip one_machine" 8 2] by simp
qed

end
