(* ===== verification/Titan_Cchip.thy ===== *)
theory Titan_Cchip
  imports Tsunami_Cchip_Facts
begin

text \<open>
  The Titan's Cchip (\<^verbatim>\<open>src/src/chipsets/titan/TitanCchip.cpp\<close> and the interrupt delivery of
  \<^verbatim>\<open>Titan.cpp\<close>), and that it behaves as the Typhoon's where both have the registers: the source
  claims so of MISC, the DIMs and DIRs and the MPD pins, and takes the interval tick over.
\<close>

record titan =
  ti_csc :: u64
  ti_mtr :: u64
  ti_dim :: "u64 list"
  ti_drir :: u64
  ti_misc :: u64
  ti_prben :: u64
  ti_iic :: "u64 list"
  ti_mpr :: "u64 list"
  ti_ttr :: u64
  ti_tdr :: u64
  ti_pwr :: u64
  ti_cmonctla :: u64
  ti_cmonctlb :: u64
  ti_cpen :: u64
  ti_mpd_bus :: i2c_bus
  ti_cks_out :: bool
  ti_ds_out :: bool
  ti_array :: "(nat \<times> nat) list"
  ti_board :: board

definition titan_drive_lines :: "u64 \<Rightarrow> u64 list \<Rightarrow> board \<Rightarrow> nat \<Rightarrow> board" where
  "titan_drive_lines drir dim b i =
     (let b = (if drir AND dim ! i AND 0x00ffffffffffffff \<noteq> 0 then cpu_irq b i 1 True 100 else cpu_irq b i 1 False 0)
      in if drir AND dim ! i AND 0xfc00000000000000 \<noteq> 0 then cpu_irq b i 0 True 100 else cpu_irq b i 0 False 0)"

definition titan_interrupt :: "titan \<Rightarrow> int \<Rightarrow> bool \<Rightarrow> titan" where
  "titan_interrupt t number assert =
     (if number < 0 then t
      else let drir = (if assert then ti_drir t OR mask1 (nat number) else ti_drir t AND NOT (mask1 (nat number)))
           in t\<lparr>ti_drir := drir,
                ti_board := foldl (titan_drive_lines drir (ti_dim t)) (ti_board t) [0..<cpu_num (ti_board t)]\<rparr>)"

definition titan_interval_tick :: "titan \<Rightarrow> nat \<Rightarrow> titan" where
  "titan_interval_tick t cpu =
     (let n = cpu_num (ti_board t);
          it = foldl (\<lambda>m i. m OR push_bit i 0x10) (push_bit cpu 0x10) (if cpu = 0 then [n..<4] else []);
          b = cpu_irq (ti_board t) cpu 2 True 0
      in t\<lparr>ti_misc := ti_misc t OR it, ti_board := titan_drive_lines (ti_drir t) (ti_dim t) b cpu\<rparr>)"

definition titan_dim_index :: "u32 \<Rightarrow> nat" where
  "titan_dim_index a = unat ((drop_bit 9 a AND 2) OR (drop_bit 6 a AND 1))"

definition titan_aar :: "nat \<times> nat \<Rightarrow> u64" where
  "titan_aar arr =
     (if snd arr = 0 then 0
      else of_nat (fst arr) AND 0x7ff000000 OR
           push_bit 12 (ucast (of_nat (while (\<lambda>k. 2 ^ k < snd arr) Suc 0) - 23 :: u32)))"

text \<open>The source of an access is a processor, or none.\<close>

definition titan_cchip_read :: "titan \<Rightarrow> u32 \<Rightarrow> nat option \<Rightarrow> u64" where
  "titan_cchip_read t a src =
     (if a = 0x000 then ti_csc t
      else if a = 0x040 then ti_mtr t
      else if a = 0x080 then ti_misc t OR (of_nat (case src of Some i \<Rightarrow> i | None \<Rightarrow> 0) AND 3)
      else if a = 0x0c0 then push_bit 2 (of_flag (line_scl (ti_mpd_bus t))) OR push_bit 3 (of_flag (line_sda (ti_mpd_bus t)))
      else if a \<in> {0x100, 0x140, 0x180, 0x1c0} then titan_aar (ti_array t ! unat (drop_bit 6 a AND 3))
      else if a \<in> {0x200, 0x240, 0x600, 0x640} then ti_dim t ! titan_dim_index a
      else if a \<in> {0x280, 0x2c0, 0x680, 0x6c0} then ti_drir t AND ti_dim t ! titan_dim_index a
      else if a = 0x300 then ti_drir t
      else if a = 0x340 then ti_prben t
      else if a \<in> {0x380, 0x3c0} then ti_iic t ! unat (drop_bit 6 a AND 1)
      else if a \<in> {0x700, 0x740} then ti_iic t ! (2 + unat (drop_bit 6 a AND 1))
      else if a \<in> {0x400, 0x440, 0x480, 0x4c0} then ti_mpr t ! unat (drop_bit 6 a AND 3)
      else if a = 0x580 then ti_ttr t
      else if a = 0x5c0 then ti_tdr t
      else if a = 0x780 then ti_pwr t
      else if a = 0xc00 then ti_cmonctla t
      else if a = 0xc40 then ti_cmonctlb t
      else if a = 0xc80 \<or> a = 0xcc0 then 0
      else if a = 0xd00 then ti_cpen t
      else 0)"

definition titan_misc_cpu :: "u64 \<Rightarrow> u64 \<times> board \<Rightarrow> nat \<Rightarrow> u64 \<times> board" where
  "titan_misc_cpu dat mb i =
     (let (misc, b) = mb;
          b = (if dat AND push_bit i 0x10 \<noteq> 0 then cpu_irq b i 2 False 0 else b);
          b = (if dat AND push_bit i 0x100 \<noteq> 0 then cpu_irq b i 3 False 0 else b)
      in if dat AND push_bit i 0x1000 \<noteq> 0 then (misc OR push_bit i 0x100, cpu_irq b i 3 True 0) else (misc, b))"

definition titan_misc_write :: "u64 \<Rightarrow> board \<Rightarrow> nat option \<Rightarrow> u64 \<Rightarrow> u64 \<times> board" where
  "titan_misc_write misc b src dat =
     (let misc = misc OR (dat AND 0x00000f0000f00000);
          misc = misc AND NOT (dat AND 0x0000000010000ff0);
          (misc, b) = (if dat AND 0x0000000001000000 \<noteq> 0
             then (misc AND NOT 0x0000000000ff0000, case src of Some i \<Rightarrow> arbitration_cleared b i | None \<Rightarrow> b)
             else (misc, b));
          misc = (if dat AND 0x00000000000f0000 \<noteq> 0 \<and> misc AND 0x00000000000f0000 = 0
             then misc OR (dat AND 0x00000000000f0000) else misc)
      in foldl (titan_misc_cpu dat) (misc, b) [0..<cpu_num b])"

definition titan_cchip_write :: "titan \<Rightarrow> u32 \<Rightarrow> u64 \<Rightarrow> nat option \<Rightarrow> titan" where
  "titan_cchip_write t a dat src =
     (if a = 0x000 then t\<lparr>ti_csc := dat\<rparr>
      else if a = 0x040 then t\<lparr>ti_mtr := dat\<rparr>
      else if a = 0x080
      then let (misc, b) = titan_misc_write (ti_misc t) (ti_board t) src dat in t\<lparr>ti_misc := misc, ti_board := b\<rparr>
      else if a = 0x0c0
      then let cks = (dat AND 1 \<noteq> 0); ds = (dat AND 2 \<noteq> 0)
           in t\<lparr>ti_cks_out := cks, ti_ds_out := ds, ti_mpd_bus := drive_from_host (ti_mpd_bus t) cks ds\<rparr>
      else if a \<in> {0x200, 0x240, 0x600, 0x640}
      then let n = titan_dim_index a; dim = (ti_dim t)[n := dat]
           in t\<lparr>ti_dim := dim, ti_board := (if n < cpu_num (ti_board t)
                then titan_drive_lines (ti_drir t) dim (ti_board t) n else ti_board t)\<rparr>
      else if a = 0x340 then t\<lparr>ti_prben := dat\<rparr>
      else if a \<in> {0x380, 0x3c0} then t\<lparr>ti_iic := (ti_iic t)[unat (drop_bit 6 a AND 1) := dat]\<rparr>
      else if a \<in> {0x700, 0x740} then t\<lparr>ti_iic := (ti_iic t)[2 + unat (drop_bit 6 a AND 1) := dat]\<rparr>
      else if a \<in> {0x400, 0x440, 0x480, 0x4c0} then t\<lparr>ti_mpr := (ti_mpr t)[unat (drop_bit 6 a AND 3) := dat]\<rparr>
      else if a = 0x580 then t\<lparr>ti_ttr := dat\<rparr>
      else if a = 0x5c0 then t\<lparr>ti_tdr := dat\<rparr>
      else if a = 0x780 then t\<lparr>ti_pwr := dat\<rparr>
      else if a = 0xc00 then t\<lparr>ti_cmonctla := dat\<rparr>
      else if a = 0xc40 then t\<lparr>ti_cmonctlb := dat\<rparr>
      else if a = 0xd00 then t\<lparr>ti_cpen := dat\<rparr>
      else t)"

section \<open>The same Cchip\<close>

lemma titan_misc_step:
  assumes "i < cpu_num b"
  shows "titan_misc_cpu dat (m, b) i =
    (if bit dat (12 + i) then m OR push_bit i 0x100 else m, upd_cpu (misc_cpu dat i) b i)"
  using assms by (simp add: titan_misc_cpu_def misc_cpu_def [abs_def] misc_tests cpu_irq_upd upd_cpu_upd_cpu Let_def)

lemma titan_misc_loop:
  "foldl (titan_misc_cpu dat) (m, b) [0..<cpu_num b] = (ipreq_bits dat (cpu_num b) m, each_cpu (misc_cpu dat) b)"
proof -
  have "foldl (titan_misc_cpu dat) (m, b) xs =
      (foldl (\<lambda>m i. if bit dat (12 + i) then m OR push_bit i 0x100 else m) m xs, foldl (\<lambda>b i. upd_cpu (misc_cpu dat i) b i) b xs)"
    if "set xs \<subseteq> {..<cpu_num b}" for xs m b
    using that by (induction xs arbitrary: m b) (simp_all add: titan_misc_step)
  from this [of "[0..<cpu_num b]" b m] show ?thesis by (simp add: ipreq_bits_def foldl_upd_cpu atLeast0LessThan)
qed

lemma titan_misc_write_eq:
  assumes "cpu_num b \<le> 4"
  shows "titan_misc_write misc b (Some i) dat = misc_write misc b i dat"
proof -
  have "titan_misc_write misc b (Some i) dat =
      foldl (titan_misc_cpu dat) (misc_base misc dat, misc_board b i dat) [0..<cpu_num (misc_board b i dat)]"
    unfolding titan_misc_write_def misc_base_def misc_board_def Let_def by simp
  then show ?thesis using assms unfolding titan_misc_loop by (simp add: misc_write_eq)
qed

text \<open>A Titan and a Typhoon with the same shared registers, pins and processors.\<close>

definition same_cchip :: "titan \<Rightarrow> tsunami \<Rightarrow> bool" where
  "same_cchip s t \<longleftrightarrow> ti_dim s = t_dim t \<and> ti_drir s = t_drir t \<and> ti_misc s = t_misc t \<and> ti_mpd_bus s = t_mpd_bus t \<and>
     ti_cks_out s = t_cks_out t \<and> ti_ds_out s = t_ds_out t \<and> ti_board s = t_board t"

lemma titan_drive_eq: "titan_drive_lines = tsunami_drive_lines"
  by (simp add: titan_drive_lines_def tsunami_drive_lines_def fun_eq_iff)

lemma titan_dim_index_eq: "titan_dim_index = dim_index"
  by (simp add: titan_dim_index_def dim_index_def fun_eq_iff)

lemma same_cchip_reads:
  assumes "same_cchip s t" "i < 4"
    and "a \<in> {0x080, 0x0c0, 0x200, 0x240, 0x600, 0x640, 0x280, 0x2c0, 0x680, 0x6c0, 0x300}"
  shows "titan_cchip_read s a (Some i) = cchip_csr_read t a i"
proof -
  have "of_nat i AND 3 = (of_nat i :: u64)" using less_4_cases [OF assms(2)] by auto
  then show ?thesis
    using assms(1,3) by (elim insertE emptyE)
      (simp_all add: same_cchip_def titan_cchip_read_def cchip_csr_read_def mpd_levels_def titan_dim_index_eq)
qed

lemma same_cchip_writes:
  assumes "same_cchip s t" "cpu_num (t_board t) \<le> 4" "a \<in> {0x080, 0x0c0, 0x200, 0x240, 0x600, 0x640}"
  shows "same_cchip (titan_cchip_write s a dat (Some i)) (cchip_csr_write t a dat i)"
proof -
  have dim: "dim_write t n dat = t\<lparr>t_dim := (t_dim t)[n := dat], t_board := (if n < cpu_num (t_board t)
      then tsunami_drive_lines (t_drir t) ((t_dim t)[n := dat]) (t_board t) n else t_board t)\<rparr>" for n
    by (simp add: dim_write_def tsunami_drive_lines_def Let_def)
  show ?thesis
    using assms(1,3) titan_misc_write_eq [OF assms(2)]
    by (elim insertE emptyE) (simp_all add: same_cchip_def titan_cchip_write_def cchip_csr_write_def dim
        titan_dim_index_eq titan_drive_eq split_beta Let_def)
qed

lemma same_cchip_events:
  assumes "same_cchip s t"
  shows "same_cchip (titan_interrupt s n up) (tsunami_interrupt t n up)"
    "same_cchip (titan_interval_tick s i) (tsunami_interval_tick t i)"
  using assms
  by (auto simp: same_cchip_def titan_interrupt_def tsunami_interrupt_def titan_interval_tick_def
      tsunami_interval_tick_def titan_drive_eq itintr_def Let_def)

section \<open>Histories\<close>

datatype cchip_event = Ev_interrupt int bool | Ev_tick nat | Ev_write u32 u64 nat

fun titan_event :: "titan \<Rightarrow> cchip_event \<Rightarrow> titan" where
  "titan_event t (Ev_interrupt n up) = titan_interrupt t n up"
| "titan_event t (Ev_tick i) = titan_interval_tick t i"
| "titan_event t (Ev_write a dat i) = titan_cchip_write t a dat (Some i)"

fun typhoon_event :: "tsunami \<Rightarrow> cchip_event \<Rightarrow> tsunami" where
  "typhoon_event t (Ev_interrupt n up) = tsunami_interrupt t n up"
| "typhoon_event t (Ev_tick i) = tsunami_interval_tick t i"
| "typhoon_event t (Ev_write a dat i) = cchip_csr_write t a dat i"

text \<open>The registers both Cchips have with one meaning.\<close>

fun shared_event :: "cchip_event \<Rightarrow> bool" where
  "shared_event (Ev_write a dat i) = (a \<in> {0x080, 0x0c0, 0x200, 0x240, 0x600, 0x640})"
| "shared_event _ = True"

lemma cpu_num_event: "cpu_num (t_board t) \<le> 4 \<Longrightarrow> cpu_num (t_board (typhoon_event t x)) = cpu_num (t_board t)"
  by (cases x) simp_all

lemma same_cchip_history:
  "same_cchip s t \<Longrightarrow> cpu_num (t_board t) \<le> 4 \<Longrightarrow> list_all shared_event xs \<Longrightarrow>
     same_cchip (foldl titan_event s xs) (foldl typhoon_event t xs)"
proof (induction xs arbitrary: s t)
  case (Cons x xs)
  have "same_cchip (titan_event s x) (typhoon_event t x)"
    using Cons.prems same_cchip_events [of s t] same_cchip_writes [of s t] by (cases x) auto
  then show ?case using Cons cpu_num_event [of t x] by simp
qed simp

text \<open>
  C18. The Titan's Cchip behaves as the Typhoon's. Two chips that start with the same DIMs, DRIR, MISC,
  MPD pins and processors and see the same device interrupts, ticks and writes to those registers
  drive their processors into the same states and answer every read of MISC, MPD, DIMn, DIRn and
  DRIR alike, although the Titan handles a MISC write processor by processor and the Typhoon
  request by request.
\<close>

theorem titan_as_typhoon:
  assumes "same_cchip s t" and "cpu_num (t_board t) \<le> 4" and "list_all shared_event xs" and "i < 4"
    and "a \<in> {0x080, 0x0c0, 0x200, 0x240, 0x600, 0x640, 0x280, 0x2c0, 0x680, 0x6c0, 0x300}"
  shows "ti_board (foldl titan_event s xs) = t_board (foldl typhoon_event t xs) \<and>
    titan_cchip_read (foldl titan_event s xs) a (Some i) = cchip_csr_read (foldl typhoon_event t xs) a i"
  using same_cchip_history [OF assms(1-3)] same_cchip_reads [OF _ assms(4,5)] by (auto simp: same_cchip_def)

text \<open>A new Titan and a new Typhoon with one processor: an interprocessor interrupt shows in MISC.\<close>

definition new_titan :: "board \<Rightarrow> titan" where
  "new_titan b = \<lparr>ti_csc = 0x3142444014157803, ti_mtr = 0, ti_dim = [0, 0, 0, 0], ti_drir = 0, ti_misc = 0x800000000,
     ti_prben = 0, ti_iic = [0, 0, 0, 0], ti_mpr = [0, 0, 0, 0], ti_ttr = 0, ti_tdr = 0, ti_pwr = 0, ti_cmonctla = 0,
     ti_cmonctlb = 0, ti_cpen = 0, ti_mpd_bus = new_bus, ti_cks_out = True, ti_ds_out = True,
     ti_array = replicate 4 (0, 0), ti_board = b\<rparr>"

theorem titan_as_typhoon_witness:
  "ti_board (titan_cchip_write (new_titan one_cpu) 0x080 0x1000 (Some 0)) =
     t_board (cchip_csr_write (new_typhoon one_cpu) 0x080 0x1000 0) \<and>
   cchip_csr_read (cchip_csr_write (new_typhoon one_cpu) 0x080 0x1000 0) 0x080 0 = 0x800000100"
proof -
  let ?t = "cchip_csr_write (new_typhoon one_cpu) 0x080 0x1000 0"
  have "same_cchip (new_titan one_cpu) (new_typhoon one_cpu)" "cpu_num (t_board (new_typhoon one_cpu)) \<le> 4"
    by (simp_all add: same_cchip_def new_titan_def new_typhoon_def power_on_state_def one_cpu_def cpu_num_def)
  then have "ti_board (titan_cchip_write (new_titan one_cpu) 0x080 0x1000 (Some 0)) = t_board ?t"
    using titan_as_typhoon [of "new_titan one_cpu" "new_typhoon one_cpu" "[Ev_write 0x080 0x1000 0]" 0 "0x080"] by simp
  moreover have "t_misc ?t = 0x800000100"
    by (simp add: cchip_csr_write_def misc_write_def misc_arbitrate_def misc_ipreq_def new_typhoon_def power_on_state_def
        one_cpu_def cpu_num_def)
  ultimately show ?thesis by (simp add: cchip_csr_read_def)
qed

end
