(* ===== verification/Memory_Arrays.thy ===== *)
theory Memory_Arrays
  imports Tsunami_Cchip_Facts
begin

text \<open>
  The memory arrays as the console sees them: AAR0 to AAR3 of the Typhoon's Cchip on the population of
  \<^verbatim>\<open>Dimm_Model\<close>.
\<close>

section \<open>One address register\<close>

text \<open>The two fields of AARn, ADDR<34:24> and ASIZ<15:12>: an array of \<open>2 ^ (ASIZ + 23)\<close> bytes, which the Cchip selects by
  comparing an address with the base under the size's mask.\<close>

definition aar_addr :: "u64 \<Rightarrow> nat" where "aar_addr v = unat (v AND 0x7ff000000)"
definition aar_asiz :: "u64 \<Rightarrow> nat" where "aar_asiz v = unat (drop_bit 12 v AND 0xf)"

definition aar_selects :: "u64 \<Rightarrow> nat \<Rightarrow> bool" where
  "aar_selects v x \<longleftrightarrow> aar_asiz v \<noteq> 0 \<and> x div 2 ^ (aar_asiz v + 23) * 2 ^ (aar_asiz v + 23) = aar_addr v"

lemma arr_bits_power: "arr_bits (2 ^ m) = m"
proof -
  have "arr_bits (2 ^ m) = while (\<lambda>k. \<not> (2 :: nat) ^ m \<le> 2 ^ k) Suc 0" by (simp add: arr_bits_def not_le)
  also have "\<dots> = (LEAST k. (2 :: nat) ^ m \<le> 2 ^ k)" by (rule while_Suc_Least [of _ m]) simp
  also have "\<dots> = m" by (rule Least_equality) simp_all
  finally show ?thesis .
qed

lemma bit_below: "b < 2 ^ m \<Longrightarrow> bit b n \<Longrightarrow> n < m" for b :: nat
  by (metis bit_take_bit_iff take_bit_nat_eq_self)

lemma bit_above: "2 ^ m dvd b \<Longrightarrow> bit b n \<Longrightarrow> m \<le> n" for b :: nat
  by (metis bit_push_bit_iff dvd_def mult.commute push_bit_eq_mult)

lemma aar_fields:
  assumes "2 ^ 26 dvd b" "b < 2 ^ 35" "k < 16"
  shows "aar_addr (of_nat b OR push_bit 12 (of_nat k)) = b" "aar_asiz (of_nat b OR push_bit 12 (of_nat k)) = k"
proof -
  let ?v = "of_nat b OR push_bit 12 (of_nat k) :: u64"
  have b: "26 \<le> n \<and> n < 35" if "bit b n" for n using bit_above [OF assms(1) that] bit_below [OF assms(2) that] by simp
  have k: "n < 4" if "bit k n" for n using bit_below [of k 4 n] assms(3) that by simp
  have "bit (?v AND push_bit 24 (mask 11)) n = bit (of_nat b :: u64) n" for n
    unfolding bit_and_iff bit_or_iff bit_push_bit_iff bit_mask_iff bit_of_nat_iff
    using b [of n] k [of "n - 12"] by auto
  then have "?v AND push_bit 24 (mask 11) = of_nat b" by (auto intro: bit_word_eqI)
  moreover have "push_bit 24 (mask 11) = (0x7ff000000 :: u64)" by (simp add: mask_eq_exp_minus_1)
  ultimately show "aar_addr ?v = b" using assms(2) by (simp add: aar_addr_def unat_of_nat)
  have "bit (drop_bit 12 ?v AND mask 4) n = bit (of_nat k :: u64) n" for n
    unfolding bit_and_iff bit_or_iff bit_push_bit_iff bit_drop_bit_eq comp_def bit_mask_iff bit_of_nat_iff
    using b [of "12 + n"] k [of n] by auto
  then have "drop_bit 12 ?v AND mask 4 = of_nat k" by (auto intro: bit_word_eqI)
  moreover have "mask 4 = (0xf :: u64)" by (simp add: mask_eq_exp_minus_1)
  ultimately show "aar_asiz ?v = k" using assms(3) by (simp add: aar_asiz_def unat_of_nat)
qed

section \<open>The four registers\<close>

lemma div_eq_iff_within: "0 < B \<Longrightarrow> B dvd b \<Longrightarrow> x div B * B = b \<longleftrightarrow> b \<le> x \<and> x < b + B" for B :: nat
proof -
  assume B: "0 < B" "B dvd b"
  then obtain c where c: "b = c * B" by (metis dvd_def mult.commute)
  have "x div B = c \<longleftrightarrow> c * B \<le> x \<and> x < Suc c * B"
    using B(1) by (metis div_nat_eqI dividend_less_div_times mult.commute mult_Suc times_div_less_eq_dividend)
  then show ?thesis using B(1) c by (simp add: add.commute)
qed

lemma aar_arr_of:
  assumes "sz \<in> set array_sizes" "sz * 2 ^ 20 dvd b" "b < 2 ^ 35"
  shows "aar_selects (tsunami_aar (arr_of sz b)) x \<longleftrightarrow> within (arr_of sz b) x"
proof -
  obtain k where k: "sz = 2 ^ (k + 3)" "3 \<le> k" "k \<le> 10"
  proof -
    have "sz = 2 ^ (3 + 3) \<or> sz = 2 ^ (4 + 3) \<or> sz = 2 ^ (5 + 3) \<or> sz = 2 ^ (6 + 3) \<or> sz = 2 ^ (7 + 3) \<or>
        sz = 2 ^ (8 + 3) \<or> sz = 2 ^ (9 + 3) \<or> sz = 2 ^ (10 + 3)"
      using assms(1) by (auto simp: array_sizes_eq)
    then show thesis using that [of 3] that [of 4] that [of 5] that [of 6] that [of 7] that [of 8] that [of 9] that [of 10]
      by (elim disjE) auto
  qed
  have bytes: "a_bytes (arr_of sz b) = 2 ^ (k + 23)" using bytes_arr_of [OF assms(1)] k by (simp add: power_add)
  have "k \<in> {3, 4, 5, 6, 7, 8, 9, 10}" using k by auto
  then have "ucast (of_nat (k + 23) - 23 :: u32) = (of_nat k :: u64)" by auto
  then have "tsunami_aar (arr_of sz b) = of_nat b OR push_bit 12 (of_nat k)"
    by (simp add: tsunami_aar_def bytes arr_bits_power del: of_nat_add)
  moreover have al: "2 ^ (k + 23) dvd b" using assms(2) k by (simp add: power_add mult.commute)
  then have "2 ^ 26 dvd b" using k(2) le_imp_power_dvd [of 26 "k + 23" "2 :: nat"] dvd_trans by force
  ultimately have "aar_addr (tsunami_aar (arr_of sz b)) = b" "aar_asiz (tsunami_aar (arr_of sz b)) = k"
    using aar_fields [of b k] assms(3) k by auto
  then show ?thesis
    using k(2,3) al div_eq_iff_within [of "2 ^ (k + 23)" b x] by (simp add: aar_selects_def within_def bytes)
qed

definition selected :: "tsunami \<Rightarrow> nat \<Rightarrow> nat \<Rightarrow> nat \<Rightarrow> bool" where
  "selected t cpu n x \<longleftrightarrow> n < 4 \<and> aar_selects (cchip_csr_read t (0x100 + 0x40 * of_nat n) cpu) x"

text \<open>
  C22. The four address registers decode memory. For every configuration of arrays that
  \<open>dimm_array_refusal\<close> accepts, each address below the memory's size is selected by exactly one of
  AAR0 to AAR3 as a processor reads them, and no address above it by any: every array starts at a
  multiple of its size and memory has no hole and no overlap.
\<close>

theorem memory_arrays_decode:
  assumes "length mb = 4" and "list_all (\<lambda>s. dimm_array_refusal s = None) mb" and "t_dimms t = model_dimm_arrays mb"
  shows "if x < sum_list mb * 2 ^ 20 then \<exists>!n. selected t cpu n x else \<not> (\<exists>n. selected t cpu n x)"
proof -
  let ?p = "model_dimm_arrays mb"
  have r: "dimm_array_refusal (mb ! a) = None" if "a < 4" for a
    using assms(1,2) that by (simp add: list_all_length)
  note tile = arrays_tile [OF assms(1) r]
  have "sum_list mb \<le> 4 * 8192"
  proof -
    have "s \<le> 8192" if "s \<in> set mb" for s
      using assms(2) that refusal_sizes [of s] by (auto simp: list_all_iff array_sizes_eq)
    then show ?thesis using sum_list_mono [of mb "\<lambda>s. s" "\<lambda>_. 8192"] assms(1) by (simp add: sum_list_triv)
  qed
  then have total: "sum_list mb * 2 ^ 20 \<le> 2 ^ 35" by simp
  have "selected t cpu n x \<longleftrightarrow> n < 4 \<and> within (?p ! n) x" for n
  proof (cases "n < 4")
    case True
    have "cchip_csr_read t (0x100 + 0x40 * of_nat n) cpu = tsunami_aar (?p ! n)"
    proof -
      have "n = 0 \<or> n = 1 \<or> n = 2 \<or> n = 3" using True by auto
      then show ?thesis using assms(3) by (elim disjE) (simp_all add: cchip_csr_read_def)
    qed
    moreover have "aar_selects (tsunami_aar (?p ! n)) x \<longleftrightarrow> within (?p ! n) x"
    proof (cases "mb ! n = 0")
      case True
      then show ?thesis
        using tile(2) [OF _ \<open>n < 4\<close>] by (simp add: tsunami_aar_def no_array_def aar_selects_def aar_asiz_def within_def a_bytes_def)
    next
      case False
      then obtain b where b: "?p ! n = arr_of (mb ! n) b" "mb ! n \<in> set array_sizes" "mb ! n * 2 ^ 20 dvd b"
        using tile(3) [OF _ True] by blast
      have "within (?p ! n) b" using b bytes_arr_of [OF b(2)] False by (simp add: within_def)
      then have "b < 2 ^ 35" using tile(4) [of b] True total by force
      then show ?thesis using aar_arr_of [OF b(2,3)] b(1) by simp
    qed
    ultimately show ?thesis by (simp add: selected_def True)
  qed (simp add: selected_def)
  then show ?thesis using tile(4) [of x] tile(5) [of _ _ x] by auto
qed

text \<open>512 MB and 1 GB: the last byte of memory is selected, the next address is not.\<close>

theorem memory_arrays_decode_witness:
  "(\<exists>!n. selected ((new_typhoon one_cpu)\<lparr>t_dimms := model_dimm_arrays [512, 1024, 0, 0]\<rparr>) 0 n 0x5fffffff) \<and>
   \<not> (\<exists>n. selected ((new_typhoon one_cpu)\<lparr>t_dimms := model_dimm_arrays [512, 1024, 0, 0]\<rparr>) 0 n 0x60000000)"
proof -
  have "list_all (\<lambda>s. dimm_array_refusal s = None) [512, 1024, 0, 0]"
    by (simp add: dimm_array_refusal_def)
  then show ?thesis
    using memory_arrays_decode [of "[512, 1024, 0, 0]" "(new_typhoon one_cpu)\<lparr>t_dimms := model_dimm_arrays [512, 1024, 0, 0]\<rparr>" "0x5fffffff" 0]
      memory_arrays_decode [of "[512, 1024, 0, 0]" "(new_typhoon one_cpu)\<lparr>t_dimms := model_dimm_arrays [512, 1024, 0, 0]\<rparr>" "0x60000000" 0]
    by simp
qed

end
