(* ===== verification/Pci_Windows.thy ===== *)
theory Pci_Windows
  imports Axp_Prelude
begin

text \<open>
  DMA address translation: the PCI windows of \<^verbatim>\<open>src/src/chipsets/PciWindows.hpp\<close> and the three chipsets
  that translate with them, the Tsunami's Pchips (\<^verbatim>\<open>TsunamiPchip.cpp\<close>), the Titan's PA-chip ports
  (\<^verbatim>\<open>Titan.cpp\<close>) and the EV7's IO7 (\<^verbatim>\<open>Io7.cpp\<close>). The quadword a scatter-gather entry is read from
  is \<open>rd\<close>, the value of \<open>CSystem::ReadMem\<close> at an address.
\<close>

section \<open>One window\<close>

definition pci_hit :: "u64 \<Rightarrow> u64 \<Rightarrow> u32 \<Rightarrow> bool" where
  "pci_hit wsba wsm address \<longleftrightarrow>
     wsba AND 1 \<noteq> 0 \<and> (ucast address XOR wsba) AND 0xfff00000 AND NOT wsm = 0"

definition pci_direct :: "u32 \<Rightarrow> u64 \<Rightarrow> u64 \<Rightarrow> u64" where
  "pci_direct address wsm tba =
     (let wsm = wsm AND 0x00000000fff00000
      in (ucast address AND (wsm OR 0x00000000000fffff)) OR (tba AND NOT wsm AND 0x00000007fff00000))"

definition pte_address :: "u32 \<Rightarrow> u64 \<Rightarrow> u64 \<Rightarrow> u64" where
  "pte_address address wsm tba =
     (let wsm = wsm AND 0x00000000fff00000
      in drop_bit 10 (ucast address AND (wsm OR 0x00000000000fe000)) OR
         (tba AND 0x00000007fffffc00 AND NOT (drop_bit 10 wsm)))"

definition from_pte :: "u64 \<Rightarrow> u32 \<Rightarrow> u64" where
  "from_pte pte address =
     (let a = (push_bit 12 pte AND 0x00000007ffffe000) OR (ucast address AND 0x0000000000001fff)
      in if pte AND 0x0000000090000000 \<noteq> 0 then a OR 0x0000080000000000 else a)"

section \<open>The chipsets\<close>

record pci_windows =
  w_wsba :: "u64 list"
  w_wsm :: "u64 list"
  w_tba :: "u64 list"
  w_pctl :: u64

text \<open>\<open>pci_phys_scatter_gather\<close>: an invalid entry is an exception, here \<open>None\<close>.\<close>

definition pci_phys_scatter_gather :: "(u64 \<Rightarrow> u64) \<Rightarrow> u32 \<Rightarrow> u64 \<Rightarrow> u64 \<Rightarrow> u64 option" where
  "pci_phys_scatter_gather rd address wsm tba =
     (let pte = rd (pte_address address wsm tba)
      in if pte AND 1 = 0 then None else Some (from_pte pte address))"

definition outside_hole :: "u64 \<Rightarrow> u32 \<Rightarrow> bool" where
  "outside_hole pctl address \<longleftrightarrow> pctl AND 0x20 = 0 \<or> address < 0x00080000 \<or> address > 0x000fffff"

fun tsunami_windows :: "(u64 \<Rightarrow> u64) \<Rightarrow> pci_windows \<Rightarrow> u64 \<Rightarrow> u32 \<Rightarrow> nat list \<Rightarrow> u64" where
  "tsunami_windows rd p loc address [] = loc"
| "tsunami_windows rd p loc address (j # js) =
     (if j = 3 \<and> w_wsba p ! 3 AND 0x0000008000000000 \<noteq> 0 then tsunami_windows rd p loc address js
      else if w_wsba p ! j AND 1 \<noteq> 0 \<and> (ucast address XOR w_wsba p ! j) AND 0xfff00000 AND NOT (w_wsm p ! j) = 0
      then if w_wsba p ! j AND 2 \<noteq> 0
           then case pci_phys_scatter_gather rd address (w_wsm p ! j) (w_tba p ! j) of Some a \<Rightarrow> a | None \<Rightarrow> loc
           else pci_direct address (w_wsm p ! j) (w_tba p ! j)
      else tsunami_windows rd p loc address js)"

definition tsunami_pci_phys :: "(u64 \<Rightarrow> u64) \<Rightarrow> pci_windows \<Rightarrow> nat \<Rightarrow> u32 \<Rightarrow> u64" where
  "tsunami_pci_phys rd p pcibus address =
     (let loc = 0x80000000000 OR (of_nat pcibus * 0x200000000) OR ucast address
      in if outside_hole (w_pctl p) address then tsunami_windows rd p loc address [0, 1, 2, 3] else loc)"

fun titan_windows :: "(u64 \<Rightarrow> u64) \<Rightarrow> pci_windows \<Rightarrow> u32 \<Rightarrow> nat list \<Rightarrow> u64 option" where
  "titan_windows rd p address [] = None"
| "titan_windows rd p address (j # js) =
     (if \<not> pci_hit (w_wsba p ! j) (w_wsm p ! j) address then titan_windows rd p address js
      else if w_wsba p ! j AND 2 = 0 then Some (pci_direct address (w_wsm p ! j) (w_tba p ! j))
      else let pte = rd (pte_address address (w_wsm p ! j) (w_tba p ! j))
           in if pte AND 1 \<noteq> 0 then Some (from_pte pte address) else None)"

definition titan_pci_phys :: "(u64 \<Rightarrow> u64) \<Rightarrow> pci_windows \<Rightarrow> u32 \<Rightarrow> u32 \<Rightarrow> u64" where
  "titan_pci_phys rd p hose address =
     (case (if outside_hole (w_pctl p) address then titan_windows rd p address [0, 1, 2, 3] else None) of
        Some a \<Rightarrow> a
      | None \<Rightarrow> (0x0000080000000000 + 0x0000000200000000 * ucast (hose AND 3)) OR ucast address)"

fun io7_windows :: "(u64 \<Rightarrow> u64) \<Rightarrow> pci_windows \<Rightarrow> u32 \<Rightarrow> nat list \<Rightarrow> u64 option" where
  "io7_windows rd p address [] = None"
| "io7_windows rd p address (j # js) =
     (if \<not> pci_hit (w_wsba p ! j) (w_wsm p ! j) address then io7_windows rd p address js
      else if w_wsba p ! j AND 2 = 0 then Some (pci_direct address (w_wsm p ! j) (w_tba p ! j))
      else let pte = rd (pte_address address (w_wsm p ! j) (w_tba p ! j))
           in if pte AND 1 \<noteq> 0
              then Some ((push_bit 12 pte AND 0x00000007ffffe000) OR (ucast address AND 0x0000000000001fff))
              else None)"

text \<open>\<open>base\<close> is the port's \<open>io7_base\<close>.\<close>

definition io7_pci_phys :: "(u64 \<Rightarrow> u64) \<Rightarrow> pci_windows \<Rightarrow> u64 \<Rightarrow> u32 \<Rightarrow> u64" where
  "io7_pci_phys rd p base address =
     (case io7_windows rd p address [0, 1, 2, 3] of Some a \<Rightarrow> a | None \<Rightarrow> base OR ucast address)"

section \<open>The windows as arithmetic\<close>

text \<open>A window mask with \<open>k\<close> ones: a window of \<open>2 ^ (20 + k)\<close> bytes, from 1 MB to 4 GB.\<close>

definition window_bits :: "u64 \<Rightarrow> nat \<Rightarrow> bool" where
  "window_bits wsm k \<longleftrightarrow> k \<le> 12 \<and> wsm AND 0xfff00000 = push_bit 20 (mask k)"

lemma window_masks:
  "0xfff00000 = (push_bit 20 (mask 12) :: u64)" "0x7fff00000 = (push_bit 20 (mask 15) :: u64)" "0xfffff = (mask 20 :: u64)"
  "0xfe000 = (push_bit 13 (mask 7) :: u64)" "0x7fffffc00 = (push_bit 10 (mask 25) :: u64)"
  "0x7ffffe000 = (push_bit 13 (mask 22) :: u64)" "0x1fff = (mask 13 :: u64)"
  by (simp_all add: mask_eq_exp_minus_1)

lemma round_down_plus: "y < 2 ^ n \<Longrightarrow> x div 2 ^ n * 2 ^ n + y = push_bit n (drop_bit n x) OR y" for x y :: nat
proof -
  assume "y < 2 ^ n"
  then have "take_bit n y = y" by (rule take_bit_nat_eq_self)
  then have "bit y m \<Longrightarrow> m < n" for m by (metis bit_take_bit_iff)
  then have "push_bit n (drop_bit n x) AND y = 0"
    by (force simp: bit_eq_iff bit_simps)
  then show ?thesis by (simp add: disjunctive_add_eq_or [symmetric] push_bit_eq_mult drop_bit_eq_div)
qed

lemma pci_direct_arith:
  assumes "window_bits wsm k"
  shows "unat (pci_direct address wsm tba) =
    unat tba mod 2 ^ 35 div 2 ^ (20 + k) * 2 ^ (20 + k) + unat address mod 2 ^ (20 + k)"
proof -
  have wsm: "wsm AND 0xfff00000 = push_bit 20 (mask k)" "k \<le> 12" using assms by (simp_all add: window_bits_def)
  have "unat (pci_direct address wsm tba) =
      push_bit (20 + k) (drop_bit (20 + k) (take_bit 35 (unat tba))) OR take_bit (20 + k) (unat address)"
  proof (rule bit_eqI)
    fix n
    have "pci_direct address wsm tba = (ucast address AND (push_bit 20 (mask k) OR mask 20)) OR
        (tba AND NOT (push_bit 20 (mask k)) AND push_bit 20 (mask 15))"
      unfolding pci_direct_def Let_def wsm(1) by (simp only: window_masks)
    then show "bit (unat (pci_direct address wsm tba)) n =
        bit (push_bit (20 + k) (drop_bit (20 + k) (take_bit 35 (unat tba))) OR take_bit (20 + k) (unat address)) n"
      using wsm(2) by (auto simp: bit_simps)
  qed
  then show ?thesis by (simp add: round_down_plus take_bit_eq_mod)
qed

lemma pci_hit_arith:
  assumes "window_bits wsm k"
  shows "pci_hit wsba wsm address \<longleftrightarrow>
    bit wsba 0 \<and> unat address div 2 ^ (20 + k) = unat wsba mod 2 ^ 32 div 2 ^ (20 + k)"
proof -
  have wsm: "wsm AND push_bit 20 (mask 12) = push_bit 20 (mask k)" "k \<le> 12"
    using assms by (simp_all add: window_bits_def window_masks(1))
  have w: "bit wsm n \<longleftrightarrow> n < 20 + k" if "20 \<le> n" "n < 32" for n
    using that arg_cong [OF wsm(1), of "\<lambda>x. bit x n"] by (auto simp: bit_simps)
  have en: "wsba AND 1 \<noteq> 0 \<longleftrightarrow> bit wsba 0" using and_mask1_eq_0 [of wsba 0] by (simp add: mask1_def)
  have "(ucast address XOR wsba) AND push_bit 20 (mask 12) AND NOT wsm = 0 \<longleftrightarrow>
      (\<forall>n. 20 \<le> n \<and> n < 32 \<and> 20 + k \<le> n \<longrightarrow> bit address n = bit wsba n)"
    (is "?x = 0 \<longleftrightarrow> ?R")
  proof
    assume h: "?x = 0"
    show ?R
    proof (intro allI impI)
      fix n assume "20 \<le> n \<and> n < 32 \<and> 20 + k \<le> n"
      then show "bit address n = bit wsba n"
        using arg_cong [OF h, of "\<lambda>x. bit x n"] w [of n] by (auto simp: bit_simps)
    qed
  next
    assume h: ?R
    show "?x = 0"
    proof (rule bit_word_eqI)
      fix n
      show "bit ?x n = bit (0 :: u64) n" using h w [of n] by (auto simp: bit_simps)
    qed
  qed
  also have "\<dots> \<longleftrightarrow> drop_bit (20 + k) (unat address) = drop_bit (20 + k) (take_bit 32 (unat wsba))"
  proof
    assume h: "\<forall>n. 20 \<le> n \<and> n < 32 \<and> 20 + k \<le> n \<longrightarrow> bit address n = bit wsba n"
    show "drop_bit (20 + k) (unat address) = drop_bit (20 + k) (take_bit 32 (unat wsba))"
    proof (rule bit_eqI)
      fix n
      have "bit address (20 + k + n) \<Longrightarrow> 20 + k + n < 32" by (auto dest: bit_imp_le_length)
      then show "bit (drop_bit (20 + k) (unat address)) n = bit (drop_bit (20 + k) (take_bit 32 (unat wsba))) n"
        using h [rule_format, of "20 + k + n"] by (auto simp: bit_simps)
    qed
  next
    assume h: "drop_bit (20 + k) (unat address) = drop_bit (20 + k) (take_bit 32 (unat wsba))"
    show "\<forall>n. 20 \<le> n \<and> n < 32 \<and> 20 + k \<le> n \<longrightarrow> bit address n = bit wsba n"
    proof (intro allI impI)
      fix n assume n: "20 \<le> n \<and> n < 32 \<and> 20 + k \<le> n"
      then show "bit address n = bit wsba n"
        using arg_cong [OF h, of "\<lambda>x. bit x (n - (20 + k))"] by (auto simp: bit_simps)
    qed
  qed
  finally show ?thesis
    unfolding pci_hit_def window_masks(1) en by (simp add: drop_bit_eq_div take_bit_eq_mod)
qed

lemma pte_address_arith:
  assumes "window_bits wsm k"
  shows "unat (pte_address address wsm tba) =
    unat tba mod 2 ^ 35 div 2 ^ (10 + k) * 2 ^ (10 + k) + 8 * (unat address mod 2 ^ (20 + k) div 2 ^ 13)"
proof -
  have wsm: "wsm AND 0xfff00000 = push_bit 20 (mask k)" "k \<le> 12" using assms by (simp_all add: window_bits_def)
  let ?p = "push_bit 3 (drop_bit 13 (take_bit (20 + k) (unat address)))"
  have eq: "pte_address address wsm tba = drop_bit 10 (ucast address AND (push_bit 20 (mask k) OR push_bit 13 (mask 7))) OR
      (tba AND push_bit 10 (mask 25) AND NOT (drop_bit 10 (push_bit 20 (mask k))))"
    unfolding pte_address_def Let_def wsm(1) by (simp only: window_masks)
  have "unat (pte_address address wsm tba) = push_bit (10 + k) (drop_bit (10 + k) (take_bit 35 (unat tba))) OR ?p"
  proof (rule bit_eqI)
    fix n
    have "bit address (10 + n) = bit address (13 + (n - 3))" if "3 \<le> n" using that by (simp add: add.commute)
    then show "bit (unat (pte_address address wsm tba)) n =
        bit (push_bit (10 + k) (drop_bit (10 + k) (take_bit 35 (unat tba))) OR ?p) n"
      unfolding eq using wsm(2) by (auto simp: bit_simps dest: bit_imp_le_length)
  qed
  moreover have "?p < 2 ^ (10 + k)"
  proof -
    have "unat address mod 2 ^ (20 + k) div 2 ^ 13 < 2 ^ (7 + k)"
      by (rule less_mult_imp_div_less) (simp add: power_add)
    then show ?thesis by (simp add: push_bit_eq_mult drop_bit_eq_div take_bit_eq_mod power_add)
  qed
  ultimately have "unat (pte_address address wsm tba) = take_bit 35 (unat tba) div 2 ^ (10 + k) * 2 ^ (10 + k) + ?p"
    using round_down_plus by metis
  then show ?thesis by (simp add: push_bit_eq_mult drop_bit_eq_div take_bit_eq_mod)
qed

lemma from_pte_arith:
  "unat (from_pte pte address) =
     (if pte AND 0x90000000 \<noteq> 0 then 2 ^ 43 else 0) + (unat pte div 2 mod 2 ^ 22 * 2 ^ 13 + unat address mod 2 ^ 13)"
proof -
  let ?a = "(push_bit 12 pte AND push_bit 13 (mask 22)) OR (ucast address AND mask 13) :: u64"
  have a: "unat ?a = push_bit 13 (take_bit 22 (drop_bit 1 (unat pte))) OR take_bit 13 (unat address)"
  proof (rule bit_eqI)
    fix n
    have "Suc (n - 13) = n - 12" if "13 \<le> n" using that by simp
    then show "bit (unat ?a) n = bit (push_bit 13 (take_bit 22 (drop_bit 1 (unat pte))) OR take_bit 13 (unat address)) n"
      by (auto simp: bit_simps)
  qed
  also have "\<dots> = push_bit 13 (drop_bit 13 (push_bit 13 (take_bit 22 (drop_bit 1 (unat pte))))) OR take_bit 13 (unat address)"
    by (simp add: push_bit_eq_mult drop_bit_eq_div)
  also have "\<dots> = unat pte div 2 mod 2 ^ 22 * 2 ^ 13 + unat address mod 2 ^ 13"
    by (subst round_down_plus [symmetric]) (simp_all add: push_bit_eq_mult drop_bit_eq_div take_bit_eq_mod)
  finally have v: "unat ?a = unat pte div 2 mod 2 ^ 22 * 2 ^ 13 + unat address mod 2 ^ 13" .
  have "?a AND 0x80000000000 = 0"
    using and_mask1_eq_0 [of ?a 43] by (simp add: mask1_def bit_simps)
  then have "?a OR 0x80000000000 = ?a + 0x80000000000" by (simp add: disjunctive_add_eq_or)
  moreover have "unat pte div 2 mod 2 ^ 22 < 2 ^ 22" "unat address mod 2 ^ 13 < 2 ^ 13" by simp_all
  then have "unat ?a < 2 ^ 36" unfolding v by simp
  ultimately have "unat (?a OR 0x80000000000) = unat ?a + 2 ^ 43"
    by (simp add: unat_word_ariths)
  then show ?thesis using v unfolding from_pte_def Let_def window_masks by simp
qed

section \<open>DMA translation\<close>

text \<open>
  The reference: numbers instead of masks. A window is its base register, the logarithm of its size in
  megabytes and its translated base; the first enabled one that contains the address translates it,
  directly or through the page table entry of its 8 KB page, and an address that none translates
  stays on its hose.
\<close>

definition in_window :: "u64 \<times> nat \<times> u64 \<Rightarrow> nat \<Rightarrow> bool" where
  "in_window w x = (case w of (wsba, k, tba) \<Rightarrow> bit wsba 0 \<and> x div 2 ^ (20 + k) = unat wsba mod 2 ^ 32 div 2 ^ (20 + k))"

definition window_phys :: "(u64 \<Rightarrow> u64) \<Rightarrow> u64 \<times> nat \<times> u64 \<Rightarrow> nat \<Rightarrow> nat option" where
  "window_phys rd w x = (case w of (wsba, k, tba) \<Rightarrow>
     let tb = unat tba mod 2 ^ 35 in
     if bit wsba 1
     then let pte = rd (of_nat (tb div 2 ^ (10 + k) * 2 ^ (10 + k) + 8 * (x mod 2 ^ (20 + k) div 2 ^ 13)))
          in if bit pte 0
             then Some ((if bit pte 31 \<or> bit pte 28 then 2 ^ 43 else 0) + (unat pte div 2 mod 2 ^ 22 * 2 ^ 13 + x mod 2 ^ 13))
             else None
     else Some (tb div 2 ^ (20 + k) * 2 ^ (20 + k) + x mod 2 ^ (20 + k)))"

definition ref_phys :: "(u64 \<Rightarrow> u64) \<Rightarrow> (u64 \<times> nat \<times> u64) list \<Rightarrow> bool \<Rightarrow> nat \<Rightarrow> nat \<Rightarrow> nat" where
  "ref_phys rd ws hole hose x =
     (case (if hole \<and> 0x80000 \<le> x \<and> x \<le> 0xfffff then None
            else Option.bind (find (\<lambda>w. in_window w x) ws) (\<lambda>w. window_phys rd w x)) of
        Some a \<Rightarrow> a
      | None \<Rightarrow> 2 ^ 43 + hose * 2 ^ 33 + x)"

definition windows_of :: "pci_windows \<Rightarrow> nat list \<Rightarrow> (u64 \<times> nat \<times> u64) list" where
  "windows_of p ks = map (\<lambda>j. (w_wsba p ! j, ks ! j, w_tba p ! j)) [0, 1, 2, 3]"

lemma sg_bits: "pte AND 1 = 0 \<longleftrightarrow> \<not> bit pte 0" "pte AND 2 = 0 \<longleftrightarrow> \<not> bit pte 1"
  "pte AND 0x90000000 = 0 \<longleftrightarrow> \<not> bit pte 31 \<and> \<not> bit pte 28" for pte :: u64
proof -
  show "pte AND 1 = 0 \<longleftrightarrow> \<not> bit pte 0" "pte AND 2 = 0 \<longleftrightarrow> \<not> bit pte 1"
    using and_mask1_eq_0 [of pte 0] and_mask1_eq_0 [of pte 1] by (simp_all add: mask1_def)
  have "0x90000000 = (mask1 31 OR mask1 28 :: u64)" by (simp add: mask1_def)
  then have "pte AND 0x90000000 = (pte AND mask1 31) OR (pte AND mask1 28)" by (simp only: bit.conj_disj_distrib)
  then show "pte AND 0x90000000 = 0 \<longleftrightarrow> \<not> bit pte 31 \<and> \<not> bit pte 28"
    by (simp only: or_eq_0_iff and_mask1_eq_0)
qed

lemma window_phys_eq:
  assumes "window_bits wsm k"
  shows "window_phys rd (wsba, k, tba) (unat address) = map_option unat
    (if wsba AND 2 \<noteq> 0 then pci_phys_scatter_gather rd address wsm tba else Some (pci_direct address wsm tba))"
proof -
  have "of_nat (unat tba mod 2 ^ 35 div 2 ^ (10 + k) * 2 ^ (10 + k) + 8 * (unat address mod 2 ^ (20 + k) div 2 ^ 13)) =
      pte_address address wsm tba"
    unfolding pte_address_arith [OF assms, of address tba, symmetric] by simp
  then show ?thesis
    unfolding window_phys_def pci_phys_scatter_gather_def
    by (simp add: Let_def sg_bits pci_direct_arith [OF assms] from_pte_arith)
qed

lemma tsunami_windows_eq:
  assumes "\<And>j. j \<in> set js \<Longrightarrow> window_bits (w_wsm p ! j) (ks ! j)" "w_wsba p ! 3 AND 0x8000000000 = 0"
  shows "unat (tsunami_windows rd p loc address js) =
    (case Option.bind (find (\<lambda>w. in_window w (unat address)) (map (\<lambda>j. (w_wsba p ! j, ks ! j, w_tba p ! j)) js))
       (\<lambda>w. window_phys rd w (unat address)) of Some a \<Rightarrow> a | None \<Rightarrow> unat loc)"
  using assms(1)
proof (induction js)
  case (Cons j js)
  have k: "window_bits (w_wsm p ! j) (ks ! j)" using Cons.prems by simp
  have hit: "w_wsba p ! j AND 1 \<noteq> 0 \<and> (ucast address XOR w_wsba p ! j) AND 0xfff00000 AND NOT (w_wsm p ! j) = 0 \<longleftrightarrow>
      in_window (w_wsba p ! j, ks ! j, w_tba p ! j) (unat address)"
    using pci_hit_arith [OF k, of "w_wsba p ! j" address] by (simp add: pci_hit_def in_window_def)
  show ?case
    using Cons assms(2) window_phys_eq [OF k, of rd "w_wsba p ! j" "w_tba p ! j" address]
    by (simp add: hit split: option.split)
qed simp

lemma titan_windows_eq:
  assumes "w_wsba p ! 3 AND 0x8000000000 = 0"
  shows "tsunami_windows rd p loc address js = (case titan_windows rd p address js of Some a \<Rightarrow> a | None \<Rightarrow> loc)"
  by (induction js) (auto simp: assms pci_hit_def pci_phys_scatter_gather_def Let_def)

lemma disjoint_or_plus: "x < 2 ^ n \<Longrightarrow> push_bit n y OR x = push_bit n y + x" for x y :: u64
proof -
  assume "x < 2 ^ n"
  have "push_bit n y AND x = 0"
  proof (rule bit_word_eqI)
    fix m
    show "bit (push_bit n y AND x) m = bit (0 :: u64) m"
      using \<open>x < 2 ^ n\<close> by (auto simp: bit_simps dest: bit_imp_le_length) (metis bit_take_bit_iff less_mask_eq linorder_not_le take_bit_eq_mask)
  qed
  then show ?thesis by (simp add: disjunctive_add_eq_or)
qed

lemma local_address:
  assumes "h < 4"
  shows "(0x80000000000 OR (of_nat h * 0x200000000) OR ucast address :: u64) = 0x80000000000 + of_nat h * 0x200000000 + ucast (address :: u32)"
    and "unat (0x80000000000 + of_nat h * 0x200000000 + ucast address :: u64) = 2 ^ 43 + h * 2 ^ 33 + unat (address :: u32)"
proof -
  have lt: "unat address < 2 ^ 32" using unsigned_less [of address, where ?'a = nat] by simp
  have u: "unat (ucast address :: u64) = unat address"
    unfolding unsigned_ucast_eq using lt by (simp add: take_bit_nat_eq_self)
  have h: "h = 0 \<or> h = 1 \<or> h = 2 \<or> h = 3" using assms by arith
  have a: "ucast address < (2 ^ 33 :: u64)" using lt by (simp add: word_less_nat_alt u)
  have o: "(0x80000000000 OR (of_nat h * 0x200000000) :: u64) = push_bit 33 (0x400 + of_nat h)"
    using h by (elim disjE) simp_all
  have p: "push_bit 33 (0x400 + of_nat h) = (0x80000000000 + of_nat h * 0x200000000 :: u64)"
    using h by (elim disjE) simp_all
  show "(0x80000000000 OR (of_nat h * 0x200000000) OR ucast address :: u64) =
      0x80000000000 + of_nat h * 0x200000000 + ucast address"
    unfolding or.assoc [symmetric] o p [symmetric] disjoint_or_plus [OF a] ..
  show "unat (0x80000000000 + of_nat h * 0x200000000 + ucast address :: u64) = 2 ^ 43 + h * 2 ^ 33 + unat address"
    using h lt by (elim disjE) (simp_all add: unat_word_ariths u)
qed

lemma titan_hose:
  assumes "h < 4"
  shows "(0x0000080000000000 + 0x0000000200000000 * ucast ((of_nat h :: u32) AND 3) :: u64) =
    0x80000000000 OR (of_nat h * 0x200000000)"
proof -
  have "h = 0 \<or> h = 1 \<or> h = 2 \<or> h = 3" using assms by arith
  then show ?thesis by (elim disjE) simp_all
qed

text \<open>The IO7 has the same windows, but never points a scatter-gather page at PIO space.\<close>

lemma take_43_direct: "take_bit 43 (pci_direct address wsm tba) = pci_direct address wsm tba"
proof (rule bit_word_eqI)
  fix n
  have "bit address n \<Longrightarrow> n < 43" by (auto dest: bit_imp_le_length)
  then show "bit (take_bit 43 (pci_direct address wsm tba)) n = bit (pci_direct address wsm tba) n"
    unfolding pci_direct_def Let_def window_masks by (auto simp: bit_simps)
qed

lemma take_43_from_pte:
  "take_bit 43 (from_pte pte address) = (push_bit 12 pte AND 0x00000007ffffe000) OR (ucast address AND 0x0000000000001fff)"
proof -
  have p: "0x80000000000 = (push_bit 43 1 :: u64)" by simp
  show ?thesis
  proof (rule bit_word_eqI)
    fix n
    show "bit (take_bit 43 (from_pte pte address)) n =
        bit ((push_bit 12 pte AND 0x00000007ffffe000) OR (ucast address AND 0x0000000000001fff)) n"
      unfolding from_pte_def Let_def window_masks p by (auto simp del: push_bit_of_1 simp: bit_simps)
  qed
qed

lemma io7_windows_eq: "io7_windows rd p address js = map_option (take_bit 43) (titan_windows rd p address js)"
  by (induction js) (simp_all add: Let_def take_43_direct take_43_from_pte)

text \<open>
  C19. Under three conditions the Pchips and the PA-chip ports translate DMA addresses the same way, and as
  the reference does:
  with window masks of \<open>k\<close> ones, no dual-address window 3 and a hose below 4, an address goes through the first enabled
  window that contains it, \<open>2 ^ k\<close> MB long, either to its offset in the translated base or through
  its 8 KB page's entry, an address in the hole, in no window or with an invalid entry stays on its
  hose at \<open>2 ^ 43 + hose * 2 ^ 33\<close>, and the result does not wrap.
\<close>

theorem dma_translates:
  assumes "\<And>j. j < 4 \<Longrightarrow> window_bits (w_wsm p ! j) (ks ! j)" "w_wsba p ! 3 AND 0x8000000000 = 0" "hose < 4"
  shows "unat (tsunami_pci_phys rd p hose address) =
      ref_phys rd (windows_of p ks) (bit (w_pctl p) 5) hose (unat address) \<and>
    titan_pci_phys rd p (of_nat hose) address = tsunami_pci_phys rd p hose address"
proof
  let ?loc = "0x80000000000 OR (of_nat hose * 0x200000000) OR ucast address :: u64"
  have loc: "unat ?loc = 2 ^ 43 + hose * 2 ^ 33 + unat address" using local_address [OF assms(3)] by metis
  have "w_pctl p AND 0x20 = 0 \<longleftrightarrow> \<not> bit (w_pctl p) 5" using and_mask1_eq_0 [of "w_pctl p" 5] by (simp add: mask1_def)
  then have hole: "outside_hole (w_pctl p) address \<longleftrightarrow>
      \<not> (bit (w_pctl p) 5 \<and> 0x80000 \<le> unat address \<and> unat address \<le> 0xfffff)"
    unfolding outside_hole_def by (auto simp: word_less_nat_alt)
  have "j \<in> set [0, 1, 2, 3] \<Longrightarrow> window_bits (w_wsm p ! j) (ks ! j)" for j using assms(1) by auto
  note windows = tsunami_windows_eq [of "[0, 1, 2, 3]" p ks, OF this assms(2), of rd ?loc address]
  show "unat (tsunami_pci_phys rd p hose address) =
      ref_phys rd (windows_of p ks) (bit (w_pctl p) 5) hose (unat address)"
    unfolding tsunami_pci_phys_def ref_phys_def windows_of_def Let_def hole
    by (simp only: if_distrib [of unat] windows loc split: if_split) simp
  show "titan_pci_phys rd p (of_nat hose) address = tsunami_pci_phys rd p hose address"
    unfolding titan_pci_phys_def tsunami_pci_phys_def Let_def titan_windows_eq [OF assms(2)] titan_hose [OF assms(3)]
      or.assoc by (cases "outside_hole (w_pctl p) address") (simp_all only: if_True if_False option.simps)
qed

text \<open>A 1 GB direct window at 1 GB and an 8 MB scatter-gather window at 8 MB, with two concrete accesses.\<close>

definition dma_example :: pci_windows where
  "dma_example = \<lparr>w_wsba = [0x00800003, 0x40000001, 0, 0], w_wsm = [0x00700000, 0x3ff00000, 0, 0],
     w_tba = [0x00010000, 0x80000000, 0, 0], w_pctl = 0x20\<rparr>"

theorem dma_translates_witness:
  "unat (tsunami_pci_phys (\<lambda>_. 0x15) dma_example 1 0x41234567) = 0x81234567 \<and>
   unat (titan_pci_phys (\<lambda>a. if a = 0x10010 then 0x15 else 0) dma_example 1 0x00804321) = 0x14321"
proof
  have k: "window_bits (w_wsm dma_example ! j) ([3, 10, 0, 0] ! j)" if "j < 4" for j
  proof -
    have "j = 0 \<or> j = 1 \<or> j = 2 \<or> j = 3" using that by arith
    then show ?thesis by (elim disjE) (simp_all add: dma_example_def window_bits_def mask_eq_exp_minus_1)
  qed
  have dac: "w_wsba dma_example ! 3 AND 0x8000000000 = 0" by (simp add: dma_example_def)
  note phys = ref_phys_def windows_of_def in_window_def window_phys_def dma_example_def
  show "unat (tsunami_pci_phys (\<lambda>_. 0x15) dma_example 1 0x41234567) = 0x81234567"
    using dma_translates [where hose = 1 and rd = "\<lambda>_. 0x15" and address = "0x41234567", OF k dac]
    by (simp add: phys bit_simps)
  show "unat (titan_pci_phys (\<lambda>a. if a = 0x10010 then 0x15 else 0) dma_example 1 0x00804321) = 0x14321"
    using dma_translates [where hose = 1 and rd = "\<lambda>a. if a = 0x10010 then 0x15 else 0" and address = "0x00804321",
      OF k dac]
    by (simp add: phys bit_simps)
qed

end
