(* ===== verification/Flash_Rom.thy ===== *)
theory Flash_Rom
  imports Axp_Prelude
begin

text \<open>
  The AM29F016 flash parts of \<^verbatim>\<open>src/src/platforms/es40/Flash.cpp\<close>: the command state machine of each part, the
  searches for firmware in the flash, and its image file. A guest access is one step (the processors'
  accesses to the TIG bus are not serialized by the source; the theorems are about one access at a
  time). The host's clock and the success of a file operation are arguments; the trace is left out.
\<close>

section \<open>State\<close>

datatype flash_mode = MODE_READ | MODE_STEP1 | MODE_STEP2 | MODE_AUTOSEL | MODE_PROGRAM
  | MODE_ERASE_STEP3 | MODE_ERASE_STEP4 | MODE_ERASE_STEP5 | MODE_CONFIRM_0 | MODE_CONFIRM_1

record flash =
  fl_bytes :: "u8 list"
  fl_mode :: "flash_mode list"
  fl_dirty :: bool
  fl_last_dirty :: int

abbreviation CHIP_SIZE :: nat where "CHIP_SIZE \<equiv> 0x200000"

definition set_chip_mode :: "flash \<Rightarrow> nat \<Rightarrow> flash_mode \<Rightarrow> flash" where
  "set_chip_mode f c md = f\<lparr>fl_mode := (fl_mode f)[c := md]\<rparr>"

definition fill_ff :: "u8 list \<Rightarrow> nat \<Rightarrow> nat \<Rightarrow> u8 list" where
  "fill_ff bs start n = take start bs @ replicate n 0xff @ drop (start + n) bs"

section \<open>Guest accesses\<close>

text \<open>\<open>(int)(address >> 6)\<close>, compared as unsigned: each byte has 64 bytes of bus addresses.\<close>

definition flash_index :: "u64 \<Rightarrow> nat" where
  "flash_index address = unat (ucast (drop_bit 6 address) :: u32)"

definition flash_read :: "flash \<Rightarrow> u64 \<Rightarrow> u64 \<times> flash" where
  "flash_read f address =
     (let a = flash_index address; c = a div CHIP_SIZE in
      if a \<ge> length (fl_bytes f) then (0xff, f)
      else if address AND 4 \<noteq> 0 then (0, f)
      else case fl_mode f ! c of
        MODE_AUTOSEL \<Rightarrow> (if a mod 256 = 0 then 1 else if a mod 256 = 1 then 0xad else 0, f)
      | MODE_CONFIRM_0 \<Rightarrow> (0x80, set_chip_mode f c MODE_READ)
      | MODE_CONFIRM_1 \<Rightarrow> (0x80, set_chip_mode f c MODE_CONFIRM_0)
      | _ \<Rightarrow> (ucast (fl_bytes f ! a), f))"

text \<open>The commands that change bytes: \<open>now\<close> is the host's \<open>time()\<close>.\<close>

definition program_byte :: "flash \<Rightarrow> int \<Rightarrow> nat \<Rightarrow> u8 \<Rightarrow> flash" where
  "program_byte f now a byte =
     (let newv = fl_bytes f ! a AND byte in
      if newv \<noteq> fl_bytes f ! a
      then f\<lparr>fl_bytes := (fl_bytes f)[a := newv], fl_last_dirty := now, fl_dirty := True\<rparr> else f)"

definition erase_range :: "flash \<Rightarrow> int \<Rightarrow> nat \<Rightarrow> nat \<Rightarrow> flash" where
  "erase_range f now start n =
     f\<lparr>fl_bytes := fill_ff (fl_bytes f) start n, fl_last_dirty := now, fl_dirty := True\<rparr>"

definition flash_write :: "flash \<Rightarrow> int \<Rightarrow> u64 \<Rightarrow> u64 \<Rightarrow> flash" where
  "flash_write f now address dat =
     (let a = flash_index address; ad = a mod 0x800; c = a div CHIP_SIZE; byte = ucast dat :: u8;
          reset = (byte = 0xf0 \<or> byte = 0xff) in
      if a \<ge> length (fl_bytes f) then f
      else if address AND 4 \<noteq> 0 then f
      else case fl_mode f ! c of
        MODE_PROGRAM \<Rightarrow> set_chip_mode (program_byte f now a byte) c MODE_READ
      | MODE_STEP1 \<Rightarrow> set_chip_mode f c
          (if reset then MODE_READ else if ad = 0x2aa \<and> byte = 0x55 then MODE_STEP2 else MODE_READ)
      | MODE_STEP2 \<Rightarrow> set_chip_mode f c
          (if reset then MODE_READ else if ad \<noteq> 0x555 then MODE_READ
           else if byte = 0x90 then MODE_AUTOSEL else if byte = 0xa0 then MODE_PROGRAM
           else if byte = 0x80 then MODE_ERASE_STEP3 else MODE_READ)
      | MODE_ERASE_STEP3 \<Rightarrow> set_chip_mode f c
          (if reset then MODE_READ else if ad = 0x555 \<and> byte = 0xaa then MODE_ERASE_STEP4 else MODE_READ)
      | MODE_ERASE_STEP4 \<Rightarrow> set_chip_mode f c
          (if reset then MODE_READ else if ad = 0x2aa \<and> byte = 0x55 then MODE_ERASE_STEP5 else MODE_READ)
      | MODE_ERASE_STEP5 \<Rightarrow>
          (if reset then set_chip_mode f c MODE_READ
           else if ad = 0x555 \<and> byte = 0x10
           then set_chip_mode (erase_range f now (c * CHIP_SIZE) CHIP_SIZE) c MODE_CONFIRM_1
           else if byte = 0x30
           then set_chip_mode (erase_range f now (a div 0x10000 * 0x10000) 0x10000) c MODE_CONFIRM_1
           else set_chip_mode f c MODE_READ)
      | _ \<Rightarrow> set_chip_mode f c
          (if reset then MODE_READ else if ad = 0x555 \<and> byte = 0xaa then MODE_STEP1 else MODE_READ))"

section \<open>Firmware in the flash\<close>

text \<open>A little-endian longword; \<open>memcpy\<close> of four bytes and \<open>endian_32\<close>.\<close>

definition le32 :: "u8 list \<Rightarrow> nat \<Rightarrow> u32" where
  "le32 bs i = ucast (bs ! i) OR push_bit 8 (ucast (bs ! (i + 1))) OR push_bit 16 (ucast (bs ! (i + 2))) OR
     push_bit 24 (ucast (bs ! (i + 3)))"

definition mem_at :: "u8 list \<Rightarrow> nat \<Rightarrow> u8 list \<Rightarrow> bool" where
  "mem_at bs i xs = (take (length xs) (drop i bs) = xs)"

definition HasBootFirmware :: "flash \<Rightarrow> bool" where
  "HasBootFirmware f = mem_at (fl_bytes f) (0x10000 + 0x14) [0x43, 0x50, 0x51, 0]"

definition console_header :: "u8 list \<Rightarrow> nat \<Rightarrow> bool" where
  "console_header bs off =
     (let w = (\<lambda>k. le32 bs (off + 4 * k)) in
      \<not> (w 0 \<noteq> 0x5a5ac3c3 \<or> w 1 \<noteq> 0xa5a53c3c) \<and>
      \<not> (w 6 = 0 \<or> w 4 \<le> w 2 \<or> of_nat off + w 2 + w 4 > (of_nat (length bs) :: u32)))"

function console_from :: "u8 list \<Rightarrow> nat \<Rightarrow> (nat \<times> u32 \<times> u32 \<times> u64) option" where
  "console_from bs off =
     (if off + 0x38 \<le> length bs
      then if console_header bs off
           then Some (off, le32 bs (off + 8), le32 bs (off + 16), ucast (le32 bs (off + 24)))
           else console_from bs (off + 0x40)
      else None)"
  by pat_completeness auto
termination by (relation "measure (\<lambda>(bs, off). length bs - off)") auto

declare console_from.simps [simp del]

definition FindConsoleImage :: "flash \<Rightarrow> (nat \<times> u32 \<times> u32 \<times> u64) option" where
  "FindConsoleImage f = console_from (fl_bytes f) 0"

definition cpq_header :: "u8 list \<Rightarrow> u8 list \<Rightarrow> nat \<Rightarrow> bool" where
  "cpq_header bs name off =
     (let len = le32 bs (off + 0x2c); magic = le32 bs (off + 0x3c) in
      \<not> (\<not> mem_at bs (off + 0x14) [0x43, 0x50, 0x51, 0] \<or> magic \<noteq> 0x11223344 \<or> length name \<ge> 12 \<or>
         \<not> mem_at bs (off + 0x30) (name @ [0]) \<or> len = 0 \<or> off + 0x40 + unat len > length bs))"

function cpq_from :: "u8 list \<Rightarrow> u8 list \<Rightarrow> nat \<Rightarrow> (nat \<times> u32) option" where
  "cpq_from bs name off =
     (if off + 0x40 \<le> length bs
      then if cpq_header bs name off then Some (off, le32 bs (off + 0x2c)) else cpq_from bs name (off + 0x10000)
      else None)"
  by pat_completeness auto
termination by (relation "measure (\<lambda>(bs, name, off). length bs - off)") auto

declare cpq_from.simps [simp del]

definition FindCpqPartition :: "flash \<Rightarrow> u8 list \<Rightarrow> (nat \<times> u32) option" where
  "FindCpqPartition f name = cpq_from (fl_bytes f) name 0"

section \<open>The image file\<close>

text \<open>\<open>save_ok\<close> is whether \<open>save_file\<close> succeeds; it replaces the file whole or not at all.\<close>

definition SaveStateF :: "flash \<Rightarrow> bool \<Rightarrow> u8 list option \<Rightarrow> u8 list option" where
  "SaveStateF f save_ok file = (if save_ok then Some (fl_bytes f) else file)"

definition FlushIfDirty :: "flash \<Rightarrow> bool \<Rightarrow> u8 list option \<Rightarrow> flash \<times> u8 list option" where
  "FlushIfDirty f save_ok file =
     (if \<not> fl_dirty f then (f\<lparr>fl_dirty := False\<rparr>, file)
      else let f = f\<lparr>fl_dirty := False\<rparr> in (f, SaveStateF f save_ok file))"

definition check_state :: "flash \<Rightarrow> int \<Rightarrow> bool \<Rightarrow> u8 list option \<Rightarrow> flash \<times> u8 list option" where
  "check_state f now save_ok file =
     (if fl_dirty f \<and> now - fl_last_dirty f \<ge> 2 then FlushIfDirty f save_ok file else (f, file))"

datatype flash_error = Short_read | Obsolete_format | Invalid_size

text \<open>
  \<open>RestoreStateF\<close>: without a file one is created from the blank flash (or not, when the host does not
  let it: \<open>created\<close> bytes of it are written, \<open>None\<close> when it cannot be opened). \<open>got\<close> is what \<open>fread\<close>
  returns of the file's bytes.
\<close>

definition RestoreStateF ::
  "flash \<Rightarrow> u8 list option \<Rightarrow> nat option \<Rightarrow> nat \<Rightarrow> flash_error + flash \<times> u8 list option" where
  "RestoreStateF f file created got =
     (case file of
        None \<Rightarrow> Inr (f, map_option (\<lambda>n. take n (fl_bytes f)) created)
      | Some bs \<Rightarrow>
          if length bs = length (fl_bytes f)
          then if min got (length bs) \<noteq> length (fl_bytes f) then Inl Short_read
               else Inr (f\<lparr>fl_bytes := bs\<rparr>, file)
          else if length bs \<ge> 4 \<and> le32 bs 0 = 0xff3e3ff3 then Inl Obsolete_format
          else Inl Invalid_size)"

definition new_flash :: "nat \<Rightarrow> flash" where
  "new_flash chips = \<lparr>fl_bytes = replicate (chips * CHIP_SIZE) 0xff, fl_mode = [MODE_READ, MODE_READ],
     fl_dirty = False, fl_last_dirty = 0\<rparr>"

text \<open>The constructor; a number of parts that is not supported is a failure, here \<open>None\<close>.\<close>

definition CFlash :: "nat \<Rightarrow> u8 list option \<Rightarrow> nat option \<Rightarrow> nat \<Rightarrow> (flash_error + flash \<times> u8 list option) option" where
  "CFlash chips file created got =
     (if chips < 1 \<or> chips > 2 then None
      else Some (case RestoreStateF (new_flash chips) file created got of
          Inl e \<Rightarrow> Inl e
        | Inr (f, file') \<Rightarrow> Inr (f\<lparr>fl_dirty := False, fl_mode := [MODE_READ, MODE_READ]\<rparr>, file')))"

end
