(* ===== verification/Flash_Facts.thy ===== *)
theory Flash_Facts
  imports Flash_Rom
begin

text \<open>
  What the flash promises: a byte changes only at the end of a complete command sequence to its part, in
  the way the command says; the sequences work from any idle state; and what a search
  finds lies in the flash.
\<close>

section \<open>The invariant\<close>

definition flash_ok :: "flash \<Rightarrow> bool" where
  "flash_ok f \<longleftrightarrow> length (fl_mode f) = 2 \<and> (\<exists>chips. chips \<in> {1, 2} \<and> length (fl_bytes f) = chips * CHIP_SIZE)"

text \<open>Each byte belongs to a part, and erased ranges lie in the flash.\<close>

lemma flash_ok_chip:
  assumes "flash_ok f" "a < length (fl_bytes f)"
  shows "a div CHIP_SIZE < 2" "a div CHIP_SIZE * CHIP_SIZE + CHIP_SIZE \<le> length (fl_bytes f)"
    "a div 0x10000 * 0x10000 + 0x10000 \<le> length (fl_bytes f)"
proof -
  obtain chips where c: "chips = 1 \<or> chips = 2" "length (fl_bytes f) = chips * CHIP_SIZE"
    using assms(1) by (auto simp: flash_ok_def)
  show "a div CHIP_SIZE < 2" using c assms(2) by auto
  have "a div CHIP_SIZE < chips" using c assms(2) by (simp add: less_mult_imp_div_less)
  then have "Suc (a div CHIP_SIZE) * CHIP_SIZE \<le> chips * CHIP_SIZE" by (intro mult_le_mono1) simp
  then show "a div CHIP_SIZE * CHIP_SIZE + CHIP_SIZE \<le> length (fl_bytes f)" using c(2) by simp
  have "a div 0x10000 < chips * 32" using c assms(2) by (intro less_mult_imp_div_less) simp
  then have "Suc (a div 0x10000) * 0x10000 \<le> chips * 32 * 0x10000" by (intro mult_le_mono1) simp
  then show "a div 0x10000 * 0x10000 + 0x10000 \<le> length (fl_bytes f)" using c(2) by simp
qed

lemma length_fill [simp]: "start + n \<le> length bs \<Longrightarrow> length (fill_ff bs start n) = length bs"
  by (simp add: fill_ff_def)

lemma nth_fill: "start + n \<le> length bs \<Longrightarrow> x < length bs \<Longrightarrow>
    fill_ff bs start n ! x = (if start \<le> x \<and> x < start + n then 0xff else bs ! x)"
  by (auto simp: fill_ff_def nth_append)

lemma set_mode_simps [simp]: "fl_bytes (set_chip_mode f c md) = fl_bytes f" "fl_mode (set_chip_mode f c md) = (fl_mode f)[c := md]"
  by (simp_all add: set_chip_mode_def)

lemma program_byte_simps [simp]:
  "fl_bytes (program_byte f now a b) = (fl_bytes f)[a := fl_bytes f ! a AND b]" "fl_mode (program_byte f now a b) = fl_mode f"
  by (simp_all add: program_byte_def Let_def)

lemma erase_range_simps [simp]:
  "fl_bytes (erase_range f now s n) = fill_ff (fl_bytes f) s n" "fl_mode (erase_range f now s n) = fl_mode f"
  by (simp_all add: erase_range_def)

section \<open>Histories\<close>

datatype flash_op = Flash_read u64 | Flash_write u64 u64 int

fun flash_step :: "flash \<Rightarrow> flash_op \<Rightarrow> flash" where
  "flash_step f (Flash_read address) = snd (flash_read f address)"
| "flash_step f (Flash_write address dat now) = flash_write f now address dat"

text \<open>A write that reaches a part: its lane is wired and its byte exists.\<close>

definition reaches_part :: "nat \<Rightarrow> nat \<Rightarrow> u64 \<Rightarrow> bool" where
  "reaches_part sz c address \<longleftrightarrow>
     flash_index address < sz \<and> address AND 4 = 0 \<and> flash_index address div CHIP_SIZE = c"

text \<open>The bus cycles a part has seen, the last one first.\<close>

fun cycles :: "nat \<Rightarrow> nat \<Rightarrow> flash_op list \<Rightarrow> (nat \<times> u8) list" where
  "cycles sz c [] = []"
| "cycles sz c (Flash_write address dat now # ops) =
     cycles sz c ops @ (if reaches_part sz c address then [(flash_index address, ucast dat)] else [])"
| "cycles sz c (Flash_read address # ops) = cycles sz c ops"

lemma cycles_append: "cycles sz c (xs @ ys) = cycles sz c ys @ cycles sz c xs"
  by (induction sz c xs rule: cycles.induct) simp_all

text \<open>One command cycle: 555 or 2AA in the low eleven address bits, and the byte.\<close>

definition cyc :: "nat \<Rightarrow> u8 \<Rightarrow> nat \<times> u8 \<Rightarrow> bool" where
  "cyc ad b x \<longleftrightarrow> fst x mod 0x800 = ad \<and> snd x = b"

text \<open>The cycles begin, most recent first, with ones that match.\<close>

fun begins :: "(nat \<times> u8 \<Rightarrow> bool) list \<Rightarrow> (nat \<times> u8) list \<Rightarrow> bool" where
  "begins [] xs = True"
| "begins (p # ps) (x # xs) = (p x \<and> begins ps xs)"
| "begins (p # ps) [] = False"

lemma begins_tl: "begins (p # ps) xs \<Longrightarrow> begins ps (tl xs)"
  by (cases xs) simp_all

definition unlock :: "(nat \<times> u8 \<Rightarrow> bool) list" where
  "unlock = [cyc 0x2aa 0x55, cyc 0x555 0xaa]"

text \<open>What each state of the machine says of the last cycles.\<close>

fun seen :: "flash_mode \<Rightarrow> (nat \<times> u8 \<Rightarrow> bool) list" where
  "seen MODE_STEP1 = [cyc 0x555 0xaa]"
| "seen MODE_STEP2 = unlock"
| "seen MODE_AUTOSEL = cyc 0x555 0x90 # unlock"
| "seen MODE_PROGRAM = cyc 0x555 0xa0 # unlock"
| "seen MODE_ERASE_STEP3 = cyc 0x555 0x80 # unlock"
| "seen MODE_ERASE_STEP4 = cyc 0x555 0xaa # cyc 0x555 0x80 # unlock"
| "seen MODE_ERASE_STEP5 = unlock @ cyc 0x555 0x80 # unlock"
| "seen _ = []"

text \<open>Where a cycle that changes no byte leads, and that the states remember the cycles.\<close>

fun next_mode :: "flash_mode \<Rightarrow> nat \<times> u8 \<Rightarrow> flash_mode" where
  "next_mode MODE_STEP1 x = (if cyc 0x2aa 0x55 x then MODE_STEP2 else MODE_READ)"
| "next_mode MODE_STEP2 x =
     (if cyc 0x555 0x90 x then MODE_AUTOSEL else if cyc 0x555 0xa0 x then MODE_PROGRAM
      else if cyc 0x555 0x80 x then MODE_ERASE_STEP3 else MODE_READ)"
| "next_mode MODE_ERASE_STEP3 x = (if cyc 0x555 0xaa x then MODE_ERASE_STEP4 else MODE_READ)"
| "next_mode MODE_ERASE_STEP4 x = (if cyc 0x2aa 0x55 x then MODE_ERASE_STEP5 else MODE_READ)"
| "next_mode MODE_ERASE_STEP5 x = MODE_READ"
| "next_mode MODE_PROGRAM x = MODE_READ"
| "next_mode _ x = (if cyc 0x555 0xaa x then MODE_STEP1 else MODE_READ)"

lemma seen_next: "begins (seen md) xs \<Longrightarrow> begins (seen (next_mode md x)) (x # xs)"
  by (cases md) (auto simp: unlock_def)

text \<open>A write, as the part it reaches sees it.\<close>

lemma flash_write_cases:
  assumes "reaches_part (length (fl_bytes f)) c address"
  obtains (quiet) "flash_write f now address dat = set_chip_mode f c (next_mode (fl_mode f ! c) (flash_index address, ucast dat))"
  | (program) "fl_mode f ! c = MODE_PROGRAM"
      "flash_write f now address dat = set_chip_mode (program_byte f now (flash_index address) (ucast dat)) c MODE_READ"
  | (chip) "fl_mode f ! c = MODE_ERASE_STEP5" "cyc 0x555 0x10 (flash_index address, ucast dat)"
      "flash_write f now address dat = set_chip_mode (erase_range f now (c * CHIP_SIZE) CHIP_SIZE) c MODE_CONFIRM_1"
  | (sector) "fl_mode f ! c = MODE_ERASE_STEP5" "ucast dat = (0x30 :: u8)"
      "flash_write f now address dat =
         set_chip_mode (erase_range f now (flash_index address div 0x10000 * 0x10000) 0x10000) c MODE_CONFIRM_1"
proof -
  have w: "\<not> flash_index address \<ge> length (fl_bytes f)" "\<not> address AND 4 \<noteq> 0" "flash_index address div CHIP_SIZE = c"
    using assms by (auto simp: reaches_part_def)
  note wr = flash_write_def [of f now address dat, unfolded Let_def w(3), simplified w(1,2) if_False]
  have "(0x90 :: u8) \<noteq> 0xa0" "(0x90 :: u8) \<noteq> 0x80" "(0xa0 :: u8) \<noteq> 0x80" by simp_all
  then show thesis
  proof (cases "fl_mode f ! c")
    case MODE_ERASE_STEP5
    consider "ucast dat = (0xf0 :: u8) \<or> ucast dat = (0xff :: u8)" | "cyc 0x555 0x10 (flash_index address, ucast dat)"
      | "ucast dat = (0x30 :: u8)"
      | "ucast dat \<noteq> (0xf0 :: u8)" "ucast dat \<noteq> (0xff :: u8)" "\<not> cyc 0x555 0x10 (flash_index address, ucast dat)"
        "ucast dat \<noteq> (0x30 :: u8)" by blast
    then show thesis
      by cases (use quiet chip sector wr MODE_ERASE_STEP5 in \<open>auto simp: cyc_def\<close>)
  qed (use quiet program wr in \<open>auto simp: cyc_def\<close>)
qed

lemma flash_write_ignored:
  assumes "\<And>c. \<not> reaches_part (length (fl_bytes f)) c address"
  shows "flash_write f now address dat = f"
  using assms [of "flash_index address div CHIP_SIZE"] by (auto simp: flash_write_def reaches_part_def Let_def)

lemma flash_read_keeps:
  "fl_bytes (snd (flash_read f address)) = fl_bytes f"
  "length (fl_mode (snd (flash_read f address))) = length (fl_mode f)"
  "c < length (fl_mode f) \<Longrightarrow> fl_mode (snd (flash_read f address)) ! c = fl_mode f ! c \<or> seen (fl_mode (snd (flash_read f address)) ! c) = []"
  by (cases "c = flash_index address div CHIP_SIZE", auto simp: flash_read_def Let_def split: flash_mode.split)+

lemma reached_chip: "flash_ok f \<Longrightarrow> reaches_part (length (fl_bytes f)) c address \<Longrightarrow> c < 2 \<and> c < length (fl_mode f)"
  using flash_ok_chip(1) [of f "flash_index address"] by (auto simp: reaches_part_def flash_ok_def)

text \<open>The states remember the cycles, whatever the guest does.\<close>

definition remembers :: "flash_op list \<Rightarrow> flash \<Rightarrow> bool" where
  "remembers ops f \<longleftrightarrow> flash_ok f \<and>
     (\<forall>c<2. begins (seen (fl_mode f ! c)) (cycles (length (fl_bytes f)) c ops))"

lemma flash_ok_step: "flash_ok f \<Longrightarrow> flash_ok (flash_step f x) \<and> length (fl_bytes (flash_step f x)) = length (fl_bytes f)"
proof (cases x)
  case (Flash_read address)
  then show "flash_ok f \<Longrightarrow> ?thesis"
    using flash_read_keeps(1,2) [of f address] by (auto simp: flash_ok_def)
next
  case (Flash_write address dat now)
  show "flash_ok f \<Longrightarrow> ?thesis"
  proof (cases "\<exists>c. reaches_part (length (fl_bytes f)) c address")
    case True
    then obtain c where c: "reaches_part (length (fl_bytes f)) c address" by blast
    assume ok: "flash_ok f"
    have i: "flash_index address < length (fl_bytes f)" "c = flash_index address div CHIP_SIZE"
      using c by (auto simp: reaches_part_def)
    note e = flash_ok_chip(2,3) [OF ok i(1), folded i(2)]
    from c show ?thesis
      using ok Flash_write e by (cases rule: flash_write_cases [of f c address now dat]) (auto simp: flash_ok_def)
  next
    case False
    then show "flash_ok f \<Longrightarrow> ?thesis" using flash_write_ignored [of f address] Flash_write by simp
  qed
qed

interpretation flashm: total_machine flash_step flash_ok
  by unfold_locales (simp add: flash_ok_step)

lemma remembers_step:
  assumes "remembers ops f"
  shows "remembers (ops @ [x]) (flash_step f x)"
proof -
  have ok: "flash_ok f" and b: "\<And>c. c < 2 \<Longrightarrow> begins (seen (fl_mode f ! c)) (cycles (length (fl_bytes f)) c ops)"
    using assms by (auto simp: remembers_def)
  have l: "length (fl_mode f) = 2" using ok by (simp add: flash_ok_def)
  note step = flash_ok_step [OF ok, of x]
  have "begins (seen (fl_mode (flash_step f x) ! c)) (cycles (length (fl_bytes f)) c (ops @ [x]))" if "c < 2" for c
  proof (cases x)
    case (Flash_read address)
    then show ?thesis
      using flash_read_keeps(3) [of c f address] b [OF that] that l by (auto simp: cycles_append)
  next
    case (Flash_write address dat now)
    show ?thesis
    proof (cases "\<exists>c. reaches_part (length (fl_bytes f)) c address")
      case True
      then obtain d where d: "reaches_part (length (fl_bytes f)) d address" by blast
      have "reaches_part (length (fl_bytes f)) c address \<longleftrightarrow> c = d" using d by (auto simp: reaches_part_def)
      moreover have "fl_mode (flash_write f now address dat) ! c = fl_mode f ! c" if "c \<noteq> d"
        using d that by (cases rule: flash_write_cases [of f d address now dat]) auto
      moreover have "begins (seen (fl_mode (flash_write f now address dat) ! d))
          ((flash_index address, ucast dat) # cycles (length (fl_bytes f)) d ops)"
        using d reached_chip [OF ok d] seen_next [OF b [of d]]
        by (cases rule: flash_write_cases [of f d address now dat]) auto
      ultimately show ?thesis using Flash_write b [OF that] by (cases "c = d") (auto simp: cycles_append)
    next
      case False
      then show ?thesis
        using flash_write_ignored [of f address now dat] Flash_write b [OF that] by (simp add: cycles_append)
    qed
  qed
  then show ?thesis using step by (simp add: remembers_def)
qed

lemma remembers_history:
  assumes "flash_ok f" "fl_mode f = [MODE_READ, MODE_READ]"
  shows "remembers ops (foldl flash_step f ops)"
proof (induction ops rule: rev_induct)
  case Nil
  then show ?case using assms by (auto simp: remembers_def less_Suc_eq numeral_2_eq_2)
qed (simp add: remembers_step)

text \<open>
  C26. A byte of the flash changes only by a command. After any guest accesses to a flash that started in
  read mode, if the next access changes byte \<open>x\<close>, then the cycles \<open>x\<close>'s part has seen end with a complete command
  sequence: AA at 555, 55 at 2AA, A0 at 555 and the data at \<open>x\<close> itself, which only clears bits; or the
  six cycles of an erase of \<open>x\<close>'s 64 KB sector or of the whole part, which sets it to FF.
\<close>

theorem flash_changes_by_command:
  assumes "flash_ok f0" and "fl_mode f0 = [MODE_READ, MODE_READ]" and "f = foldl flash_step f0 ops"
    and "f' = flash_step f op" and "x < length (fl_bytes f)" and "fl_bytes f' ! x \<noteq> fl_bytes f ! x"
    and "h = cycles (length (fl_bytes f0)) (x div CHIP_SIZE) (ops @ [op])"
  shows "(\<exists>b. begins ([(=) (x, b), cyc 0x555 0xa0] @ unlock) h \<and> fl_bytes f' ! x = fl_bytes f ! x AND b) \<or>
    (\<exists>a. a div 0x10000 = x div 0x10000 \<and> begins ((=) (a, 0x30) # unlock @ cyc 0x555 0x80 # unlock) h \<and> fl_bytes f' ! x = 0xff) \<or>
    (begins (cyc 0x555 0x10 # unlock @ cyc 0x555 0x80 # unlock) h \<and> fl_bytes f' ! x = 0xff)"
proof -
  have len: "length (fl_bytes f) = length (fl_bytes f0)"
    unfolding assms(3) using assms(1) by (induction ops rule: rev_induct) (simp_all add: flash_ok_step flashm.run_total)
  have rem: "remembers ops f" using remembers_history [OF assms(1,2)] assms(3) by simp
  then have ok: "flash_ok f" by (simp add: remembers_def)
  obtain address dat now where w: "op = Flash_write address dat now"
    using assms(4,6) flash_read_keeps(1) by (cases op) auto
  have "\<exists>c. reaches_part (length (fl_bytes f)) c address"
    using flash_write_ignored [of f address now dat] assms(4,6) w by fastforce
  then obtain c where c: "reaches_part (length (fl_bytes f)) c address" by blast
  have i: "flash_index address < length (fl_bytes f)" "c = flash_index address div CHIP_SIZE"
    using c by (auto simp: reaches_part_def)
  note e = flash_ok_chip(2,3) [OF ok i(1), folded i(2)]
  have past: "begins (seen (fl_mode f ! c)) (cycles (length (fl_bytes f)) c ops)"
    using rem reached_chip [OF ok c] by (simp add: remembers_def)
  have h: "h = (flash_index address, ucast dat) # cycles (length (fl_bytes f)) c ops" if "x div CHIP_SIZE = c"
    using assms(7) c that by (simp add: w cycles_append len)
  from c show ?thesis
  proof (cases rule: flash_write_cases [of f c address now dat])
    case quiet
    then show ?thesis using assms(4,6) w by simp
  next
    case program
    then have "x = flash_index address" using assms(4-6) w by (cases "x = flash_index address") simp_all
    then show ?thesis using program h i past assms(4,5) w by auto
  next
    case chip
    then have "c * CHIP_SIZE \<le> x \<and> x < c * CHIP_SIZE + CHIP_SIZE"
      using assms(4-6) w e(1) by (auto simp: nth_fill split: if_splits)
    then have "x div CHIP_SIZE = c" by (intro div_nat_eqI) auto
    then show ?thesis using chip h past assms(4,5) w e(1) \<open>c * CHIP_SIZE \<le> x \<and> x < c * CHIP_SIZE + CHIP_SIZE\<close>
      by (auto simp: nth_fill)
  next
    case sector
    let ?s = "flash_index address div 0x10000"
    have x: "?s * 0x10000 \<le> x \<and> x < ?s * 0x10000 + 0x10000"
      using sector assms(4-6) w e(2) by (auto simp: nth_fill split: if_splits)
    then have s: "x div 0x10000 = ?s" by (intro div_nat_eqI) auto
    then have "x div 0x10000 div 32 = ?s div 32" by simp
    then have "x div CHIP_SIZE = c" unfolding i(2) div_mult2_eq [symmetric] by simp
    then show ?thesis using sector h past assms(4,5) w e(2) x s by (auto simp: nth_fill intro!: exI [of _ "flash_index address"])
  qed
qed

section \<open>The commands\<close>

definition bus :: "nat \<Rightarrow> u64" where
  "bus a = push_bit 6 (of_nat a)"

lemma bus_index: "a < 2 ^ 32 \<Longrightarrow> flash_index (bus a) = a"
proof -
  assume a: "a < 2 ^ 32"
  have "(ucast (drop_bit 6 (bus a)) :: u32) = of_nat a"
  proof (rule bit_word_eqI)
    fix n
    assume "n < LENGTH(32)"
    then show "bit (ucast (drop_bit 6 (bus a)) :: u32) n = bit (of_nat a :: u32) n"
      by (simp add: bus_def bit_simps)
  qed
  then show ?thesis using a by (simp add: flash_index_def take_bit_nat_eq_self unsigned_of_nat)
qed

lemma bus_lane: "bus a AND 4 = 0"
  using and_mask1_eq_0 [of "bus a" 2] by (simp add: bus_def mask1_def bit_simps)

lemma size_bound: "flash_ok f \<Longrightarrow> length (fl_bytes f) \<le> 2 ^ 22"
  by (auto simp: flash_ok_def)

lemma bus_reaches:
  "flash_ok f \<Longrightarrow> a < length (fl_bytes f) \<Longrightarrow> a div CHIP_SIZE = c \<Longrightarrow> reaches_part (length (fl_bytes f)) c (bus a) \<and> flash_index (bus a) = a"
  using size_bound [of f] bus_index [of a] by (simp add: reaches_part_def bus_lane)

text \<open>A write cycle of the byte \<open>b\<close> at \<open>a\<close>.\<close>

definition wr :: "nat \<Rightarrow> u8 \<Rightarrow> flash_op" where "wr a b = Flash_write (bus a) (ucast b) 0"

lemma ucast_byte [simp]: "(ucast (ucast (b :: u8) :: u64) :: u8) = b"
  by (rule bit_word_eqI) (simp add: bit_simps)

lemma quiet_cycle:
  assumes "flash_ok f" "a < length (fl_bytes f)" "a div CHIP_SIZE = c" "fl_mode f ! c \<notin> {MODE_PROGRAM, MODE_ERASE_STEP5}"
  shows "flash_step f (wr a b) = set_chip_mode f c (next_mode (fl_mode f ! c) (a, b))"
  using bus_reaches [OF assms(1-3)] assms(4) by (auto simp: wr_def elim!: flash_write_cases [of f c "bus a" 0 "ucast b"])

lemma program_cycle:
  assumes "flash_ok f" "a < length (fl_bytes f)" "a div CHIP_SIZE = c" "fl_mode f ! c = MODE_PROGRAM"
  shows "flash_step f (wr a b) = set_chip_mode (program_byte f 0 a b) c MODE_READ"
  using bus_reaches [OF assms(1-3)] assms(4) by (auto simp: wr_def flash_write_def Let_def reaches_part_def assms(3))

lemma erase_cycle:
  assumes "flash_ok f" "a < length (fl_bytes f)" "a div CHIP_SIZE = c" "fl_mode f ! c = MODE_ERASE_STEP5"
  shows "flash_step f (wr a 0x30) = set_chip_mode (erase_range f 0 (a div 0x10000 * 0x10000) 0x10000) c MODE_CONFIRM_1"
  using bus_reaches [OF assms(1-3)] assms(4) by (auto simp: wr_def flash_write_def Let_def reaches_part_def assms(3))

lemma set_mode_again [simp]: "set_chip_mode (set_chip_mode f c m) c m' = set_chip_mode f c m'"
  by (simp add: set_chip_mode_def)

lemma command_set_chip_mode:
  "erase_range (set_chip_mode f c md) t s n = set_chip_mode (erase_range f t s n) c md"
  "program_byte (set_chip_mode f c md) t a b = set_chip_mode (program_byte f t a b) c md"
  by (simp_all add: erase_range_def program_byte_def set_chip_mode_def Let_def)

lemma flash_ok_set_mode [simp]: "flash_ok (set_chip_mode f c m) = flash_ok f"
  by (simp add: flash_ok_def)

lemma flash_ok_erase:
  "flash_ok f \<Longrightarrow> a < length (fl_bytes f) \<Longrightarrow> flash_ok (erase_range f t (a div 0x10000 * 0x10000) 0x10000)"
  using flash_ok_chip(3) [of f a] by (simp add: flash_ok_def)

text \<open>The command cycles of a sector erase and of programming a byte, with the addresses \<open>u\<close> (555) and \<open>v\<close> (2AA).\<close>

definition erase_sector :: "nat \<Rightarrow> nat \<Rightarrow> nat \<Rightarrow> flash_op list" where
  "erase_sector u v a = [wr u 0xaa, wr v 0x55, wr u 0x80, wr u 0xaa, wr v 0x55, wr a 0x30]"

definition program_at :: "nat \<Rightarrow> nat \<Rightarrow> nat \<Rightarrow> u8 \<Rightarrow> flash_op list" where
  "program_at u v a b = [wr u 0xaa, wr v 0x55, wr u 0xa0, wr a b]"

definition idle :: "flash_mode \<Rightarrow> bool" where
  "idle md \<longleftrightarrow> md \<in> {MODE_READ, MODE_AUTOSEL, MODE_CONFIRM_0, MODE_CONFIRM_1}"

text \<open>Addresses \<open>u\<close>, \<open>v\<close> and \<open>a\<close> in part \<open>c\<close>, the first two of command cycles.\<close>

definition command_addresses :: "flash \<Rightarrow> nat \<Rightarrow> nat \<Rightarrow> nat \<Rightarrow> nat \<Rightarrow> bool" where
  "command_addresses f c u v a \<longleftrightarrow> {u, v, a} \<subseteq> {..<length (fl_bytes f)} \<and>
     u div CHIP_SIZE = c \<and> v div CHIP_SIZE = c \<and> a div CHIP_SIZE = c \<and> u mod 0x800 = 0x555 \<and> v mod 0x800 = 0x2aa"

lemma idle_next: "idle md \<Longrightarrow> cyc 0x555 0xaa x \<Longrightarrow> next_mode md x = MODE_STEP1"
  by (auto simp: idle_def)

lemma idle_quiet: "idle md \<Longrightarrow> md \<notin> {MODE_PROGRAM, MODE_ERASE_STEP5}"
  by (auto simp: idle_def)

lemma part_mode: "flash_ok f \<Longrightarrow> command_addresses f c u v a \<Longrightarrow> c < length (fl_mode f)"
  using flash_ok_chip(1) [of f a] by (auto simp: command_addresses_def flash_ok_def)

lemma erase_sector_works:
  assumes "flash_ok f" "command_addresses f c u v a" "idle (fl_mode f ! c)"
  shows "foldl flash_step f (erase_sector u v a) =
    set_chip_mode (erase_range f 0 (a div 0x10000 * 0x10000) 0x10000) c MODE_CONFIRM_1"
proof -
  have d: "u div CHIP_SIZE = c" "v div CHIP_SIZE = c" "a div CHIP_SIZE = c" "u mod 0x800 = 0x555" "v mod 0x800 = 0x2aa"
    "u < length (fl_bytes f)" "v < length (fl_bytes f)" "a < length (fl_bytes f)"
    using assms(2) by (auto simp: command_addresses_def)
  note m = part_mode [OF assms(1,2)] idle_quiet [OF assms(3)]
  show ?thesis
    using d(4-8) m assms(1,3)
    by (simp add: erase_sector_def quiet_cycle [OF _ _ d(1)] quiet_cycle [OF _ _ d(2)] erase_cycle [OF _ _ d(3)]
        idle_next cyc_def command_set_chip_mode del: flash_step.simps)
qed

lemma program_at_works:
  assumes "flash_ok f" "command_addresses f c u v a" "idle (fl_mode f ! c)"
  shows "foldl flash_step f (program_at u v a b) = set_chip_mode (program_byte f 0 a b) c MODE_READ"
proof -
  have d: "u div CHIP_SIZE = c" "v div CHIP_SIZE = c" "a div CHIP_SIZE = c" "u mod 0x800 = 0x555" "v mod 0x800 = 0x2aa"
    "u < length (fl_bytes f)" "v < length (fl_bytes f)" "a < length (fl_bytes f)"
    using assms(2) by (auto simp: command_addresses_def)
  note m = part_mode [OF assms(1,2)] idle_quiet [OF assms(3)]
  show ?thesis
    using d(4-8) m assms(1,3)
    by (simp add: program_at_def quiet_cycle [OF _ _ d(1)] quiet_cycle [OF _ _ d(2)] program_cycle [OF _ _ d(3)]
        idle_next cyc_def command_set_chip_mode del: flash_step.simps)
qed

lemma flash_read_bus:
  assumes "flash_ok f" "a < length (fl_bytes f)" "a div CHIP_SIZE = c"
  shows "fl_mode f ! c = MODE_CONFIRM_1 \<Longrightarrow> flash_read f (bus a) = (0x80, set_chip_mode f c MODE_CONFIRM_0)"
    "fl_mode f ! c = MODE_CONFIRM_0 \<Longrightarrow> flash_read f (bus a) = (0x80, set_chip_mode f c MODE_READ)"
    "fl_mode f ! c = MODE_READ \<Longrightarrow> flash_read f (bus a) = (ucast (fl_bytes f ! a), f)"
  using bus_reaches [OF assms] by (simp_all add: flash_read_def reaches_part_def assms(3) Let_def)

text \<open>
  Erasing and programming work. On an idle part, the six cycles of a sector erase make the next two reads
  show the status 80 and leave the part reading; the four cycles that program \<open>b\<close> at \<open>a\<close> then make \<open>a\<close>
  read as \<open>b\<close>. Every other byte of the sector is FF and every byte outside it is as it was.
\<close>

theorem flash_erase_program_read:
  assumes "flash_ok f" and "command_addresses f c u v a" and "idle (fl_mode f ! c)"
    and "flash_read (foldl flash_step f (erase_sector u v a)) (bus a) = (s1, f1)" and "flash_read f1 (bus a) = (s2, f2)"
    and "f3 = foldl flash_step f2 (program_at u v a b)"
  shows "s1 = 0x80 \<and> s2 = 0x80 \<and> flash_read f3 (bus a) = (ucast b, f3) \<and>
    (\<forall>x<length (fl_bytes f). x \<noteq> a \<longrightarrow>
       fl_bytes f3 ! x = (if x div 0x10000 = a div 0x10000 then 0xff else fl_bytes f ! x))"
proof -
  let ?e = "erase_range f 0 (a div 0x10000 * 0x10000) 0x10000"
  have a: "a < length (fl_bytes f)" "a div CHIP_SIZE = c" using assms(2) by (auto simp: command_addresses_def)
  note m = part_mode [OF assms(1,2)]
  note e = flash_ok_erase [OF assms(1) a(1), of 0]
  note r = flash_ok_chip(3) [OF assms(1) a(1)]
  have "command_addresses ?e c u v a" using assms(2) r by (simp add: command_addresses_def)
  then have p: "foldl flash_step (set_chip_mode ?e c MODE_READ) (program_at u v a b) = set_chip_mode (program_byte ?e 0 a b) c MODE_READ"
    using program_at_works [of "set_chip_mode ?e c MODE_READ" c u v a b] e m
    by (simp add: command_addresses_def idle_def command_set_chip_mode)
  have f2: "s1 = 0x80 \<and> s2 = 0x80 \<and> f2 = set_chip_mode ?e c MODE_READ"
    using assms(4,5) a m e r erase_sector_works [OF assms(1-3)] by (auto simp: flash_read_bus)
  have f3: "f3 = set_chip_mode (program_byte ?e 0 a b) c MODE_READ" using assms(6) f2 p by simp
  have "fl_bytes ?e ! a = 0xff" using a(1) r dividend_less_div_times [of "0x10000" a] by (simp add: nth_fill div_times_less_eq_dividend)
  moreover have "0xff AND b = b" using take_bit_eq_mask [of 8 b] take_bit_word_eq_self [of 8 b] by (simp add: mask_eq_exp_minus_1 and.commute)
  ultimately have "fl_bytes f3 = (fl_bytes ?e)[a := b]" using f3 by simp
  moreover have "flash_ok f3" using f3 e by (simp add: flash_ok_def)
  moreover have "x div 0x10000 = a div 0x10000 \<longleftrightarrow> a div 0x10000 * 0x10000 \<le> x \<and> x < a div 0x10000 * 0x10000 + 0x10000" for x
  proof
    assume "x div 0x10000 = a div 0x10000"
    then show "a div 0x10000 * 0x10000 \<le> x \<and> x < a div 0x10000 * 0x10000 + 0x10000"
      using div_times_less_eq_dividend [of x "0x10000"] dividend_less_div_times [of "0x10000" x] by simp
  qed (auto intro: div_nat_eqI)
  ultimately show ?thesis
    using f2 f3 a m r by (auto simp: flash_read_bus nth_list_update nth_fill)
qed

lemma new_flash_ok: "chips = 1 \<or> chips = 2 \<Longrightarrow> flash_ok (new_flash chips)"
  by (auto simp: flash_ok_def new_flash_def)

lemma new_flash_simps [simp]:
  "fl_mode (new_flash chips) = [MODE_READ, MODE_READ]" "length (fl_bytes (new_flash chips)) = chips * CHIP_SIZE"
  "x < chips * CHIP_SIZE \<Longrightarrow> fl_bytes (new_flash chips) ! x = 0xff"
  by (simp_all add: new_flash_def)

text \<open>A new part: sector 1 erased and its byte 42 programmed to 5A.\<close>

definition example_flash :: flash where
  "example_flash = snd (flash_read (snd (flash_read (foldl flash_step (new_flash 1) (erase_sector 0x555 0x2aa 0x10042)) (bus 0x10042))) (bus 0x10042))"

lemma example_addresses: "command_addresses (new_flash 1) 0 0x555 0x2aa 0x10042" "idle (fl_mode (new_flash 1) ! 0)"
  by (simp_all add: command_addresses_def idle_def)

theorem flash_erase_program_read_witness:
  "fst (flash_read (foldl flash_step example_flash (program_at 0x555 0x2aa 0x10042 0x5a)) (bus 0x10042)) = 0x5a"
proof -
  let ?f = "foldl flash_step (new_flash 1) (erase_sector 0x555 0x2aa 0x10042)"
  have "flash_read ?f (bus 0x10042) = (fst (flash_read ?f (bus 0x10042)), snd (flash_read ?f (bus 0x10042)))"
    "flash_read (snd (flash_read ?f (bus 0x10042))) (bus 0x10042) =
       (fst (flash_read (snd (flash_read ?f (bus 0x10042))) (bus 0x10042)), example_flash)"
    by (simp_all add: example_flash_def)
  from flash_erase_program_read [OF new_flash_ok example_addresses this refl, of "0x5a"] show ?thesis by simp
qed

theorem flash_changes_by_command_witness:
  "fl_bytes (flash_step (foldl flash_step (new_flash 1) [wr 0x555 0xaa, wr 0x2aa 0x55, wr 0x555 0xa0]) (wr 7 0x5a)) ! 7 \<noteq> 0xff \<and>
   begins ([cyc 0x555 0xa0] @ unlock) (tl (cycles (length (fl_bytes (new_flash 1))) 0 ([wr 0x555 0xaa, wr 0x2aa 0x55, wr 0x555 0xa0] @ [wr 7 0x5a])))"
proof -
  let ?ops = "[wr 0x555 0xaa, wr 0x2aa 0x55, wr 0x555 0xa0]"
  let ?f = "foldl flash_step (new_flash 1) ?ops"
  have f: "?f = set_chip_mode (new_flash 1) 0 MODE_PROGRAM"
    using quiet_cycle [of "new_flash 1" "0x555" 0 "0xaa"] quiet_cycle [of "set_chip_mode (new_flash 1) 0 MODE_STEP1" "0x2aa" 0 "0x55"]
      quiet_cycle [of "set_chip_mode (new_flash 1) 0 MODE_STEP2" "0x555" 0 "0xa0"] new_flash_ok [of 1]
    by (simp add: cyc_def)
  have ch: "fl_bytes (flash_step ?f (wr 7 0x5a)) ! 7 = 0x5a"
    unfolding f using program_cycle [of "set_chip_mode (new_flash 1) 0 MODE_PROGRAM" 7 0 "0x5a"] new_flash_ok [of 1] by simp
  have old: "fl_bytes ?f ! 7 = 0xff" "7 < length (fl_bytes ?f)" unfolding f by simp_all
  have "(7 :: nat) div CHIP_SIZE = 0" by simp
  with flash_changes_by_command [OF new_flash_ok new_flash_simps(1) refl refl old(2) _ refl, of "wr 7 0x5a"] ch old(1)
  have "\<exists>b. begins ([(=) (7, b), cyc 0x555 0xa0] @ unlock) (cycles (length (fl_bytes (new_flash 1))) 0 (?ops @ [wr 7 0x5a]))"
    by auto
  then show ?thesis unfolding ch by (auto dest: begins_tl)
qed

section \<open>Searches\<close>

text \<open>A partition that is found is the first one, and lies in the flash.\<close>

lemma cpq_from_first:
  "cpq_from bs name off = Some (p, len) \<Longrightarrow> off \<le> p \<and> 0x10000 dvd p - off \<and> cpq_header bs name p \<and> len = le32 bs (p + 0x2c) \<and>
     (\<forall>q. off \<le> q \<and> q < p \<and> 0x10000 dvd q - off \<longrightarrow> \<not> cpq_header bs name q)"
proof (induction bs name off rule: cpq_from.induct)
  case (1 bs name off)
  show ?case
  proof (cases "cpq_header bs name off")
    case True
    then show ?thesis using 1 by (auto simp: cpq_from.simps [of bs name off] split: if_splits)
  next
    case False
    then have r: "off + 0x40 \<le> length bs" "cpq_from bs name (off + 0x10000) = Some (p, len)"
      using 1 by (auto simp: cpq_from.simps [of bs name off] split: if_splits)
    note ih = 1(1) [OF r(1) False r(2)]
    have "p - off = p - (off + 0x10000) + 0x10000" using ih by simp
    then have "0x10000 dvd p - off" using ih by (metis dvd_add dvd_refl)
    moreover have "\<not> cpq_header bs name q" if q: "off \<le> q" "q < p" "0x10000 dvd q - off" for q
    proof (cases "q = off")
      case True
      then show ?thesis using False by simp
    next
      case neq: False
      then obtain k where k: "q - off = 0x10000 * Suc k" using q(1,3) by (metis dvdE diff_is_0_eq le_antisym mult_0_right not0_implies_Suc)
      then have "q = off + 0x10000 + 0x10000 * k" using q(1) by simp
      then show ?thesis using ih q(2) by simp
    qed
    ultimately show ?thesis using ih by auto
  qed
qed

lemma cpq_in_flash: "cpq_header bs name p \<Longrightarrow> p + 0x40 + unat (le32 bs (p + 0x2c)) \<le> length bs"
  by (simp add: cpq_header_def Let_def)

text \<open>
  The test for a console image adds in 32 bits: a header whose sizes wrap around passes it, although the
  image it describes is far longer than the flash.
\<close>

definition wrapping_header :: "u8 list" where
  "wrapping_header = [0xc3, 0xc3, 0x5a, 0x5a, 0x3c, 0x3c, 0xa5, 0xa5, 0, 0, 0, 0x80, 0, 0, 0, 0,
     0x01, 0, 0, 0x80, 0, 0, 0, 0, 0, 0, 0x10, 0]"

lemma console_image_wraps:
  assumes "bs = wrapping_header @ replicate (CHIP_SIZE - length wrapping_header) 0xff"
  shows "console_from bs 0 = Some (0, 0x80000000, 0x80000001, 0x100000)"
    and "length bs < unat (0x80000000 :: u32) + unat (0x80000001 :: u32)"
proof -
  have l: "length bs = CHIP_SIZE" by (simp add: assms wrapping_header_def)
  have w: "le32 bs 0 = 0x5a5ac3c3" "le32 bs 4 = 0xa5a53c3c" "le32 bs 8 = 0x80000000" "le32 bs 16 = 0x80000001" "le32 bs 24 = 0x100000"
    by (simp_all add: le32_def assms wrapping_header_def nth_append)
  have "console_header bs 0" unfolding console_header_def Let_def l by (simp add: w)
  then show "console_from bs 0 = Some (0, 0x80000000, 0x80000001, 0x100000)"
    by (subst console_from.simps) (simp add: l w)
  show "length bs < unat (0x80000000 :: u32) + unat (0x80000001 :: u32)" by (simp add: l)
qed

section \<open>The image file\<close>

text \<open>A save that succeeds gives the same bytes at the next start; one that fails is not tried again.\<close>

lemma saved_flash_restores:
  assumes "flash_ok f" "length (fl_bytes f) = chips * CHIP_SIZE" "fl_dirty f"
  shows "\<exists>f'. CFlash chips (snd (FlushIfDirty f True file)) created (chips * CHIP_SIZE) = Some (Inr (f', Some (fl_bytes f))) \<and>
    fl_bytes f' = fl_bytes f \<and> fl_mode f' = [MODE_READ, MODE_READ]"
proof -
  have "chips = 1 \<or> chips = 2" using assms(1,2) by (auto simp: flash_ok_def)
  then show ?thesis
    using assms(2,3) by (auto simp: CFlash_def FlushIfDirty_def SaveStateF_def RestoreStateF_def Let_def)
qed

lemma failed_save_forgotten:
  assumes "fl_dirty f" "FlushIfDirty f False file = (f', file')"
  shows "file' = file \<and> FlushIfDirty f' True file' = (f', file')"
  using assms by (auto simp: FlushIfDirty_def SaveStateF_def Let_def)

end
