(* ===== verification/Pci_Dma.thy ===== *)
theory Pci_Dma
  imports Pci_Windows
begin

text \<open>
  Bus-master transfers of PCI devices: \<open>do_pci_read\<close> and \<open>do_pci_write\<close> of \<^verbatim>\<open>src/src/devices/pci/PCIDevice.cpp\<close> on
  a little-endian host, over the memory of \<^verbatim>\<open>system/System.cpp\<close>. Addresses that are not memory belong to devices and
  chipset registers: what they read as is a function of the state, and what is written to them is
  logged, as are the ranges the DMA write guard invalidates (what that does to locks and to the map of
  compiled code, which a write of a single element also reports to, is in \<^verbatim>\<open>Llsc\<close> and \<^verbatim>\<open>Code_Pages\<close>). The chipset's translation \<open>phys\<close> is an argument: a
  transfer that overwrites the page table it is being translated with is not covered.
\<close>

section \<open>The system's memory\<close>

record pci_sys =
  s_bits :: nat
  s_phys_mask :: u64
  s_mem :: "u64 \<Rightarrow> u8"
  s_io :: "u64 \<Rightarrow> nat \<Rightarrow> u64"
  s_io_log :: "(u64 \<times> nat \<times> u64) list"
  s_invalidated :: "(u64 \<times> nat) list"

definition PtrToMem :: "pci_sys \<Rightarrow> u64 \<Rightarrow> bool" where
  "PtrToMem s address \<longleftrightarrow> drop_bit (s_bits s) address = 0"

definition bytes_of :: "nat \<Rightarrow> u64 \<Rightarrow> u8 list" where
  "bytes_of n v = map (\<lambda>i. ucast (drop_bit (8 * i) v)) [0..<n]"

definition value_of :: "u8 list \<Rightarrow> u64" where
  "value_of bs = foldr (\<lambda>b v. ucast b OR push_bit 8 v) bs 0"

definition mem_store :: "pci_sys \<Rightarrow> u64 \<Rightarrow> u8 list \<Rightarrow> pci_sys" where
  "mem_store s a bs =
     s\<lparr>s_mem := foldl (\<lambda>m i. m(a + of_nat i := bs ! i)) (s_mem s) [0..<length bs]\<rparr>"

definition sys_ReadMem :: "pci_sys \<Rightarrow> u64 \<Rightarrow> nat \<Rightarrow> u64" where
  "sys_ReadMem s address dsize =
     (let a = address AND s_phys_mask s in
      if \<not> PtrToMem s a then s_io s a dsize
      else value_of (map (\<lambda>i. s_mem s (a + of_nat i)) [0..<dsize div 8]))"

definition sys_WriteMem :: "pci_sys \<Rightarrow> u64 \<Rightarrow> nat \<Rightarrow> u64 \<Rightarrow> pci_sys" where
  "sys_WriteMem s address dsize dat =
     (let a = address AND s_phys_mask s in
      if \<not> PtrToMem s a then s\<lparr>s_io_log := s_io_log s @ [(a, dsize, dat)]\<rparr>
      else mem_store s a (bytes_of (dsize div 8) dat))"

text \<open>The guard of a write, when it is active: its range is invalidated.\<close>

definition guard_invalidate :: "pci_sys \<Rightarrow> bool \<Rightarrow> u64 \<Rightarrow> nat \<Rightarrow> pci_sys" where
  "guard_invalidate s active address n =
     (if active then s\<lparr>s_invalidated := s_invalidated s @ [(address, n)]\<rparr> else s)"

section \<open>Transfers\<close>

definition pci_dma_targets_ram :: "pci_sys \<Rightarrow> u64 \<Rightarrow> nat \<Rightarrow> bool" where
  "pci_dma_targets_ram s phys_addr n \<longleftrightarrow>
     n \<noteq> 0 \<and> PtrToMem s phys_addr \<and> PtrToMem s (phys_addr + of_nat n - 1)"

definition pci_dma_chunk_limit :: "u64 \<Rightarrow> nat \<Rightarrow> nat" where
  "pci_dma_chunk_limit phys_addr remaining =
     (let page_remaining = 8192 - unat (phys_addr AND 8191)
      in if remaining < page_remaining then remaining else page_remaining)"

lemma page_offset: "unat (a AND 8191) = unat a mod 8192" for a :: u64
proof -
  have "a AND 8191 = take_bit 13 a" unfolding take_bit_eq_mask by (simp add: mask_eq_exp_minus_1)
  then show ?thesis by (simp only: unsigned_take_bit_eq) (simp add: take_bit_eq_mod)
qed

lemma chunk_limit_pos: "0 < remaining \<Longrightarrow> 0 < pci_dma_chunk_limit a remaining"
  by (simp add: pci_dma_chunk_limit_def Let_def page_offset)

function read_chunks :: "(u32 \<Rightarrow> u64) \<Rightarrow> pci_sys \<Rightarrow> u32 \<Rightarrow> nat \<Rightarrow> u8 list" where
  "read_chunks phys s cur_address remaining =
     (if remaining = 0 then []
      else let cur_phys = phys cur_address;
               chunk = pci_dma_chunk_limit cur_phys remaining
           in (if PtrToMem s cur_phys \<and> PtrToMem s (cur_phys + of_nat chunk - 1)
               then map (\<lambda>el. s_mem s (cur_phys + of_nat el)) [0..<chunk]
               else map (\<lambda>el. ucast (sys_ReadMem s (cur_phys + of_nat el) 8)) [0..<chunk]) @
              read_chunks phys s (cur_address + of_nat chunk) (remaining - chunk))"
  by pat_completeness auto
termination
  by (relation "measure (\<lambda>(phys, s, a, n). n)") (auto simp: chunk_limit_pos)

declare read_chunks.simps [simp del]

text \<open>\<open>bme\<close> is the function's Bus Master Enable; an element size that is not supported is an exception.\<close>

definition do_pci_read :: "(u32 \<Rightarrow> u64) \<Rightarrow> pci_sys \<Rightarrow> bool \<Rightarrow> u32 \<Rightarrow> nat \<Rightarrow> nat \<Rightarrow> u8 list option" where
  "do_pci_read phys s bme address element_size element_count =
     (if element_count = 0 then Some []
      else if \<not> bme then Some (replicate (element_size * element_count) 0xff)
      else if element_count = 1
      then if element_size \<in> {1, 2, 4}
           then Some (bytes_of element_size (sys_ReadMem s (phys address) (8 * element_size))) else None
      else Some (read_chunks phys s address (element_size * element_count)))"

definition write_byte :: "u64 \<Rightarrow> u8 list \<Rightarrow> pci_sys \<Rightarrow> nat \<Rightarrow> pci_sys" where
  "write_byte cur_phys src s el =
     (let byte_phys = cur_phys + of_nat el
      in sys_WriteMem (guard_invalidate s (pci_dma_targets_ram s byte_phys 1) byte_phys 1) byte_phys 8 (ucast (src ! el)))"

function write_chunks :: "(u32 \<Rightarrow> u64) \<Rightarrow> pci_sys \<Rightarrow> u32 \<Rightarrow> u8 list \<Rightarrow> pci_sys" where
  "write_chunks phys s cur_address src =
     (if src = [] then s
      else let cur_phys = phys cur_address;
               chunk = pci_dma_chunk_limit cur_phys (length src);
               s' = (if PtrToMem s cur_phys \<and> PtrToMem s (cur_phys + of_nat chunk - 1)
                     then mem_store (guard_invalidate s True cur_phys chunk) cur_phys (take chunk src)
                     else foldl (write_byte cur_phys src) s [0..<chunk])
           in write_chunks phys s' (cur_address + of_nat chunk) (drop chunk src))"
  by pat_completeness auto
termination
  by (relation "measure (\<lambda>(phys, s, a, src). length src)") (auto simp: chunk_limit_pos)

declare write_chunks.simps [simp del]

text \<open>The source holds \<open>element_size * element_count\<close> bytes.\<close>

definition do_pci_write :: "(u32 \<Rightarrow> u64) \<Rightarrow> pci_sys \<Rightarrow> bool \<Rightarrow> u32 \<Rightarrow> u8 list \<Rightarrow> nat \<Rightarrow> nat \<Rightarrow> pci_sys option" where
  "do_pci_write phys s bme address src element_size element_count =
     (if element_count = 0 then Some s
      else if \<not> bme then Some s
      else if element_count = 1
      then let phys_addr = phys address;
               s = guard_invalidate s (pci_dma_targets_ram s phys_addr element_size) phys_addr element_size
           in if element_size \<in> {1, 2, 4}
              then Some (sys_WriteMem s phys_addr (8 * element_size) (value_of (take element_size src))) else None
      else Some (write_chunks phys s address (take (element_size * element_count) src)))"

end
