(* ===== verification/Dma8237.thy ===== *)
theory Dma8237
  imports Pci_Dma
begin

text \<open>
  The two cascaded 8237 DMA controllers of the M1543C, \<^verbatim>\<open>src/src/devices/isa/DMA.cpp\<close>. Every port access and the
  accounting of a transfer run under the controller's lock and are one step each; the data moves
  after it, through \<^verbatim>\<open>Pci_Dma\<close>. An exception is \<open>None\<close>. The debugging output and the state file
  are left out.
\<close>

section \<open>State\<close>

record dma_chan =
  ch_current :: u16
  ch_base :: u16
  ch_pagebase :: u16
  ch_count :: u16
  ch_base_count :: u16
  ch_mode :: u8

record dma_ctrl =
  ct_status :: u8
  ct_command :: u8
  ct_request :: u8
  ct_mask :: u8
  ct_lobyte :: bool

record dma =
  channel :: "dma_chan list"
  controller :: "dma_ctrl list"

definition new_dma :: dma where
  "new_dma = \<lparr>channel = replicate 8 \<lparr>ch_current = 0, ch_base = 0, ch_pagebase = 0, ch_count = 0, ch_base_count = 0, ch_mode = 0\<rparr>,
     controller = replicate 2 \<lparr>ct_status = 0, ct_command = 0, ct_request = 0, ct_mask = 0x0f, ct_lobyte = True\<rparr>\<rparr>"

definition set_chan :: "dma \<Rightarrow> nat \<Rightarrow> (dma_chan \<Rightarrow> dma_chan) \<Rightarrow> dma" where
  "set_chan d n f = d\<lparr>channel := (channel d)[n := f (channel d ! n)]\<rparr>"

definition set_ctrl :: "dma \<Rightarrow> nat \<Rightarrow> (dma_ctrl \<Rightarrow> dma_ctrl) \<Rightarrow> dma" where
  "set_ctrl d n f = d\<lparr>controller := (controller d)[n := f (controller d ! n)]\<rparr>"

datatype dma_index = DMA0_IO_MAIN | DMA1_IO_MAIN | DMA_IO_LPAGE | DMA_IO_HPAGE
  | DMA0_IO_CHANNEL | DMA1_IO_CHANNEL | DMA0_IO_EXT | DMA1_IO_EXT

section \<open>Ports\<close>

text \<open>The reserved ports of the page registers have no channel.\<close>

definition dma_page_channel :: "nat \<Rightarrow> nat option" where
  "dma_page_channel address =
     (let channelmap = [Some 2, Some 3, Some 1, None, None, None, Some 0, None, Some 6, Some 7, Some 5]
      in if address \<ge> length channelmap then None else channelmap ! address)"

definition set_request :: "dma \<Rightarrow> nat \<Rightarrow> nat \<Rightarrow> bool \<Rightarrow> dma" where
  "set_request d ctrlr chn dat =
     set_ctrl d ctrlr (\<lambda>c. if dat then c\<lparr>ct_request := ct_request c OR mask1 chn\<rparr>
       else c\<lparr>ct_request := ct_request c AND NOT (mask1 chn)\<rparr>)"

definition get_requests :: "dma \<Rightarrow> nat \<Rightarrow> u8" where
  "get_requests d ctrlr =
     (let requests = ct_request (controller d ! ctrlr);
          requests = (if ctrlr = 1 \<and> ct_command (controller d ! 0) AND 0x04 = 0 \<and> ct_request (controller d ! 0) AND 0x0f \<noteq> 0
            then requests OR 0x01 else requests)
      in requests AND 0x0f)"

text \<open>The offset of a port in its range, halved for the second controller.\<close>

definition port_offset :: "dma_index \<Rightarrow> nat \<Rightarrow> nat" where
  "port_offset idx address =
     (if idx = DMA1_IO_CHANNEL \<or> idx = DMA1_IO_MAIN then address div 2 else address)"

definition ctrl_of :: "dma_index \<Rightarrow> nat" where
  "ctrl_of idx = (if idx = DMA1_IO_CHANNEL \<or> idx = DMA1_IO_MAIN then 1 else 0)"

definition half :: "bool \<Rightarrow> u16 \<Rightarrow> u8" where
  "half lobyte v = ucast (drop_bit (if lobyte then 0 else 8) v)"

definition set_half :: "bool \<Rightarrow> u16 \<Rightarrow> u8 \<Rightarrow> u16" where
  "set_half lo v dat = (if lo then (v AND 0xff00) OR ucast dat else (v AND 0x00ff) OR push_bit 8 (ucast dat))"

definition dma_read8 :: "dma \<Rightarrow> dma_index \<Rightarrow> nat \<Rightarrow> u8 \<times> dma" where
  "dma_read8 d idx port =
     (let address = port_offset idx port; ctrlr = ctrl_of idx in
      case idx of
        DMA0_IO_CHANNEL \<Rightarrow>
          (half (ct_lobyte (controller d ! ctrlr))
             (if odd address then ch_count (channel d ! (address mod 16 div 2 + ctrlr * 4))
              else ch_current (channel d ! (address mod 16 div 2 + ctrlr * 4))),
           set_ctrl d ctrlr (\<lambda>c. c\<lparr>ct_lobyte := \<not> ct_lobyte c\<rparr>))
      | DMA1_IO_CHANNEL \<Rightarrow>
          (half (ct_lobyte (controller d ! ctrlr))
             (if odd address then ch_count (channel d ! (address mod 16 div 2 + ctrlr * 4))
              else ch_current (channel d ! (address mod 16 div 2 + ctrlr * 4))),
           set_ctrl d ctrlr (\<lambda>c. c\<lparr>ct_lobyte := \<not> ct_lobyte c\<rparr>))
      | DMA0_IO_MAIN \<Rightarrow>
          (if address = 0
           then (ct_status (controller d ! ctrlr) OR push_bit 4 (get_requests d ctrlr), set_ctrl d ctrlr (\<lambda>c. c\<lparr>ct_status := 0\<rparr>))
           else if address = 7 then (ct_mask (controller d ! ctrlr) AND 0x0f, d) else (0, d))
      | DMA1_IO_MAIN \<Rightarrow>
          (if address = 0
           then (ct_status (controller d ! ctrlr) OR push_bit 4 (get_requests d ctrlr), set_ctrl d ctrlr (\<lambda>c. c\<lparr>ct_status := 0\<rparr>))
           else if address = 7 then (ct_mask (controller d ! ctrlr) AND 0x0f, d) else (0, d))
      | DMA_IO_LPAGE \<Rightarrow>
          (case dma_page_channel address of None \<Rightarrow> 0xff | Some num \<Rightarrow> half True (ch_pagebase (channel d ! num)), d)
      | DMA_IO_HPAGE \<Rightarrow>
          (case dma_page_channel address of None \<Rightarrow> 0xff | Some num \<Rightarrow> half False (ch_pagebase (channel d ! num)), d)
      | _ \<Rightarrow> (0xff, d))"

text \<open>A wider read is its bytes in turn, the lowest first.\<close>

fun dma_read_bytes :: "dma \<Rightarrow> dma_index \<Rightarrow> nat \<Rightarrow> nat \<Rightarrow> u64 \<times> dma" where
  "dma_read_bytes d idx port 0 = (0, d)"
| "dma_read_bytes d idx port (Suc n) =
     (let (lo, d) = dma_read8 d idx port; (hi, d) = dma_read_bytes d idx (port + 1) n in (ucast lo OR push_bit 8 hi, d))"

definition dma_ReadMem :: "dma \<Rightarrow> dma_index \<Rightarrow> nat \<Rightarrow> nat \<Rightarrow> u64 \<times> dma" where
  "dma_ReadMem d idx port dsize = (if dsize \<in> {8, 16, 32} then dma_read_bytes d idx port (dsize div 8) else (0, d))"

definition write_channel :: "dma \<Rightarrow> nat \<Rightarrow> nat \<Rightarrow> u8 \<Rightarrow> dma" where
  "write_channel d ctrlr address dat =
     (let lo = ct_lobyte (controller d ! ctrlr);
          d = set_chan d (address mod 16 div 2 + ctrlr * 4) (\<lambda>ch.
            if odd address then let v = set_half lo (ch_base_count ch) dat in ch\<lparr>ch_base_count := v, ch_count := v\<rparr>
            else let v = set_half lo (ch_base ch) dat in ch\<lparr>ch_base := v, ch_current := v\<rparr>)
      in set_ctrl d ctrlr (\<lambda>c. c\<lparr>ct_lobyte := \<not> lo\<rparr>))"

definition write_main :: "dma \<Rightarrow> nat \<Rightarrow> nat \<Rightarrow> u8 \<Rightarrow> dma" where
  "write_main d num address dat =
     (if address = 0 then set_ctrl d num (\<lambda>c. c\<lparr>ct_command := dat\<rparr>)
      else if address = 1 then set_request d num (unat (dat AND 3)) (bit dat 2)
      else if address = 2
      then set_ctrl d num (\<lambda>c. c\<lparr>ct_mask := (ct_mask c AND NOT (mask1 (unat (dat AND 3)))) OR
             push_bit (unat (dat AND 3)) (of_flag (bit dat 2))\<rparr>)
      else if address = 3 then set_chan d (num * 4 + unat (dat AND 3)) (\<lambda>ch. ch\<lparr>ch_mode := dat\<rparr>)
      else if address = 4 then set_ctrl d num (\<lambda>c. c\<lparr>ct_lobyte := True\<rparr>)
      else if address = 5
      then set_ctrl d num (\<lambda>c. c\<lparr>ct_lobyte := True, ct_command := 0, ct_status := 0, ct_request := 0, ct_mask := 0x0f\<rparr>)
      else if address = 6 then set_ctrl d num (\<lambda>c. c\<lparr>ct_mask := 0x00\<rparr>)
      else if address = 7 then set_ctrl d num (\<lambda>c. c\<lparr>ct_mask := dat AND 0x0f\<rparr>)
      else d)"

definition dma_write8 :: "dma \<Rightarrow> dma_index \<Rightarrow> nat \<Rightarrow> u8 \<Rightarrow> dma" where
  "dma_write8 d idx port dat =
     (let address = port_offset idx port in
      case idx of
        DMA0_IO_CHANNEL \<Rightarrow> write_channel d 0 address dat
      | DMA1_IO_CHANNEL \<Rightarrow> write_channel d 1 address dat
      | DMA0_IO_MAIN \<Rightarrow> write_main d 0 address dat
      | DMA1_IO_MAIN \<Rightarrow> write_main d 1 address dat
      | DMA_IO_LPAGE \<Rightarrow> (case dma_page_channel address of None \<Rightarrow> d
          | Some num \<Rightarrow> set_chan d num (\<lambda>ch. ch\<lparr>ch_pagebase := set_half True (ch_pagebase ch) dat\<rparr>))
      | DMA_IO_HPAGE \<Rightarrow> (case dma_page_channel address of None \<Rightarrow> d
          | Some num \<Rightarrow> set_chan d num (\<lambda>ch. ch\<lparr>ch_pagebase := set_half False (ch_pagebase ch) dat\<rparr>))
      | _ \<Rightarrow> d)"

fun dma_write_bytes :: "dma \<Rightarrow> dma_index \<Rightarrow> nat \<Rightarrow> nat \<Rightarrow> u64 \<Rightarrow> dma" where
  "dma_write_bytes d idx port 0 dat = d"
| "dma_write_bytes d idx port (Suc n) dat = dma_write_bytes (dma_write8 d idx port (ucast dat)) idx (port + 1) n (drop_bit 8 dat)"

definition dma_WriteMem :: "dma \<Rightarrow> dma_index \<Rightarrow> nat \<Rightarrow> nat \<Rightarrow> u64 \<Rightarrow> dma" where
  "dma_WriteMem d idx port dsize dat = (if dsize \<in> {8, 16, 32} then dma_write_bytes d idx port (dsize div 8) dat else d)"

section \<open>Transfers\<close>

definition dma_transfer_width :: "nat \<Rightarrow> nat option" where
  "dma_transfer_width chn = (if chn \<ge> 8 \<or> chn = 4 then None else Some (if chn < 4 then 1 else 2))"

definition get_transfer_size :: "dma \<Rightarrow> nat \<Rightarrow> nat option" where
  "get_transfer_size d chn =
     map_option (\<lambda>width. (unat (ch_count (channel d ! chn)) + 1) * width) (dma_transfer_width chn)"

definition complete_transfer :: "dma \<Rightarrow> nat \<Rightarrow> dma" where
  "complete_transfer d chn =
     (let ctrlr = (if chn < 4 then 0 else 1);
          b = mask1 (chn mod 4);
          d = set_ctrl d ctrlr (\<lambda>c. c\<lparr>ct_status := ct_status c OR b, ct_request := ct_request c AND NOT b\<rparr>)
      in if ch_mode (channel d ! chn) AND 0x10 \<noteq> 0
         then set_chan d chn (\<lambda>ch. ch\<lparr>ch_current := ch_base ch, ch_count := ch_base_count ch\<rparr>)
         else set_ctrl d ctrlr (\<lambda>c. c\<lparr>ct_mask := ct_mask c OR b\<rparr>))"

definition advance_transfer :: "dma \<Rightarrow> nat \<Rightarrow> nat \<Rightarrow> bool \<Rightarrow> bool \<times> dma" where
  "advance_transfer d chn units eop =
     (let ch = channel d ! chn;
          terminal_count = (units = unat (ch_count ch) + 1);
          d = set_chan d chn (\<lambda>ch. ch\<lparr>ch_current := (if ch_mode ch AND 0x20 \<noteq> 0 then ch_current ch - of_nat units
                 else ch_current ch + of_nat units), ch_count := ch_count ch - of_nat units\<rparr>)
      in (terminal_count, if terminal_count \<or> eop then complete_transfer d chn else d))"

record dma_result =
  transferred :: nat
  blocked :: bool
  terminal_count :: bool
  external_eop :: bool
  verify :: bool

record dma_plan =
  p_page :: u64
  p_current :: u16
  p_decrement :: bool
  p_count :: nat
  p_width :: nat

text \<open>
  What \<open>transfer\<close> does under the lock: the result, the controller afterwards and, unless it is blocked or
  verifying, the move to make. \<open>addr32\<close> is the bridge's enable of the high page registers.
\<close>

definition plan_transfer :: "dma \<Rightarrow> nat \<Rightarrow> bool \<Rightarrow> nat \<Rightarrow> bool \<Rightarrow> bool \<Rightarrow> (dma_result \<times> dma \<times> dma_plan option) option" where
  "plan_transfer d chn addr32 len eop to_memory =
     (case dma_transfer_width chn of None \<Rightarrow> None | Some width \<Rightarrow>
      let ctrlr = (if chn < 4 then 0 else 1);
          b = mask1 (chn mod 4);
          ct = controller d ! ctrlr; ch = channel d ! chn;
          result = \<lparr>transferred = 0, blocked = True, terminal_count = False, external_eop = False, verify = False\<rparr>;
          typ = ch_mode ch AND 0x0c
      in if ct_command ct AND 0x04 \<noteq> 0 then Some (result, d, None)
         else if ct_mask ct AND b \<noteq> 0 \<and> ct_request ct AND b = 0 then Some (result, d, None)
         else if ch_mode ch AND 0xc0 = 0xc0 then Some (result, d, None)
         else if typ \<noteq> 0x00 \<and> typ \<noteq> (if to_memory then 0x04 else 0x08) then Some (result, d, None)
         else
           let full = (unat (ch_count ch) + 1) * width;
               count = (if len > 0 \<and> len < full then len else full)
           in if count mod width \<noteq> 0 then None
              else
                let result = result\<lparr>blocked := False, external_eop := eop\<rparr>;
                    (tc, d') = advance_transfer d chn (count div width) eop
                in if typ = 0x00 then Some (result\<lparr>verify := True, terminal_count := tc\<rparr>, d', None)
                   else
                     let pagebase = (if addr32 then ch_pagebase ch else ch_pagebase ch AND 0x00ff);
                         pagebase = (if width = 2 then pagebase AND 0xfffe else pagebase)
                     in Some (result\<lparr>terminal_count := tc, transferred := count\<rparr>, d',
                          Some \<lparr>p_page = push_bit 16 (ucast pagebase), p_current = ch_current ch,
                            p_decrement = (ch_mode ch AND 0x20 \<noteq> 0), p_count = count, p_width = width\<rparr>))"

section \<open>Moving the data\<close>

text \<open>\<open>dma_copy\<close> to memory, and from memory into the device's buffer.\<close>

definition unit_address :: "u64 \<Rightarrow> u16 \<Rightarrow> nat \<Rightarrow> u32" where
  "unit_address page current width = ucast (page OR (ucast current * of_nat width))"

fun write_down :: "(u32 \<Rightarrow> u64) \<Rightarrow> bool \<Rightarrow> nat \<Rightarrow> u64 \<Rightarrow> u16 \<Rightarrow> nat \<Rightarrow> u8 list \<Rightarrow> pci_sys \<Rightarrow> pci_sys option" where
  "write_down phys bme width page current 0 dat s = Some s"
| "write_down phys bme width page current (Suc units) dat s =
     Option.bind (do_pci_write phys s bme (unit_address page current width) (take width dat) 1 width)
       (write_down phys bme width page (current - 1) units (drop width dat))"

definition dma_copy_out :: "(u32 \<Rightarrow> u64) \<Rightarrow> pci_sys \<Rightarrow> bool \<Rightarrow> u8 list \<Rightarrow> dma_plan \<Rightarrow> pci_sys option" where
  "dma_copy_out phys s bme dat p =
     (let page = p_page p; current = p_current p; width = p_width p; count = p_count p in
      if p_decrement p then write_down phys bme width page current (count div width) dat s
      else let to_wrap = (0x10000 - unat current) * width;
               first = (if count < to_wrap then count else to_wrap)
           in Option.bind (do_pci_write phys s bme (unit_address page current width) (take first dat) 1 first)
                (\<lambda>s. if first < count
                  then do_pci_write phys s bme (ucast page) (take (count - first) (drop first dat)) 1 (count - first)
                  else Some s))"

fun read_down :: "(u32 \<Rightarrow> u64) \<Rightarrow> bool \<Rightarrow> nat \<Rightarrow> u64 \<Rightarrow> u16 \<Rightarrow> nat \<Rightarrow> pci_sys \<Rightarrow> u8 list option" where
  "read_down phys bme width page current 0 s = Some []"
| "read_down phys bme width page current (Suc units) s =
     Option.bind (do_pci_read phys s bme (unit_address page current width) 1 width)
       (\<lambda>bs. map_option ((@) bs) (read_down phys bme width page (current - 1) units s))"

definition dma_copy_in :: "(u32 \<Rightarrow> u64) \<Rightarrow> pci_sys \<Rightarrow> bool \<Rightarrow> dma_plan \<Rightarrow> u8 list option" where
  "dma_copy_in phys s bme p =
     (let page = p_page p; current = p_current p; width = p_width p; count = p_count p in
      if p_decrement p then read_down phys bme width page current (count div width) s
      else let to_wrap = (0x10000 - unat current) * width;
               first = (if count < to_wrap then count else to_wrap)
           in Option.bind (do_pci_read phys s bme (unit_address page current width) 1 first)
                (\<lambda>bs. if first < count then map_option ((@) bs) (do_pci_read phys s bme (ucast page) 1 (count - first))
                  else Some bs))"

definition send_data :: "(u32 \<Rightarrow> u64) \<Rightarrow> bool \<Rightarrow> bool \<Rightarrow> dma \<times> pci_sys \<Rightarrow> nat \<Rightarrow> u8 list \<Rightarrow> nat \<Rightarrow> bool \<Rightarrow> (dma_result \<times> dma \<times> pci_sys) option" where
  "send_data phys bme addr32 ds chn dat len eop =
     Option.bind (plan_transfer (fst ds) chn addr32 len eop True) (\<lambda>(result, d, p).
       case p of None \<Rightarrow> Some (result, d, snd ds)
       | Some p \<Rightarrow> map_option (\<lambda>s. (result, d, s)) (dma_copy_out phys (snd ds) bme dat p))"

definition recv_data :: "(u32 \<Rightarrow> u64) \<Rightarrow> bool \<Rightarrow> bool \<Rightarrow> dma \<times> pci_sys \<Rightarrow> nat \<Rightarrow> nat \<Rightarrow> bool \<Rightarrow> (dma_result \<times> dma \<times> u8 list) option" where
  "recv_data phys bme addr32 ds chn len eop =
     Option.bind (plan_transfer (fst ds) chn addr32 len eop False) (\<lambda>(result, d, p).
       case p of None \<Rightarrow> Some (result, d, [])
       | Some p \<Rightarrow> map_option (\<lambda>bs. (result, d, bs)) (dma_copy_in phys (snd ds) bme p))"

end
