(* ===== verification/Pci_Dma_Facts.thy ===== *)
theory Pci_Dma_Facts
  imports Pci_Dma
begin

text \<open>
  A bus-master transfer in chunks is the transfer byte by byte: every byte goes to or comes from the system address
  its own PCI address translates to, although the code translates once per 8 KB page and copies
  runs. That rests on what every chipset's translation promises, the locale \<open>page_translation\<close>.
\<close>

section \<open>Translations of pages\<close>

text \<open>What the chunks rely on: an 8 KB page is translated as one, and offsets in it are kept.\<close>

locale page_translation =
  fixes phys :: "u32 \<Rightarrow> u64"
  assumes in_page: "unat a mod 8192 + k < 8192 \<Longrightarrow> phys (a + of_nat k) = phys a + of_nat k"
    and offset: "unat (phys a) mod 8192 = unat a mod 8192"

lemma drop_13: "unat (drop_bit 13 w) = unat w div 8192" for w :: "'a::len word"
  by (simp only: unsigned_drop_bit_eq) (simp add: drop_bit_eq_div take_bit_nat_eq_self unsigned_less)

lemma page_split: "unat w = unat (drop_bit 13 w) * 8192 + unat w mod 8192" for w :: "'a::len word"
  by (simp only: drop_13 div_mult_mod_eq)

lemma nat_page: "x mod 8192 + k < 8192 \<Longrightarrow> (x + k) div 8192 = x div 8192 \<and> (x + k) mod 8192 = x mod 8192 + k" for x k :: nat
proof
  assume k: "x mod 8192 + k < 8192"
  show d: "(x + k) div 8192 = x div 8192"
  proof (rule div_nat_eqI)
    show "8192 * (x div 8192) \<le> x + k" using mult_div_mod_eq [of 8192 x] by linarith
    show "x + k < 8192 * Suc (x div 8192)" unfolding mult_Suc_right using k mult_div_mod_eq [of 8192 x] by linarith
  qed
  show "(x + k) mod 8192 = x mod 8192 + k"
    using d mult_div_mod_eq [of 8192 x] mult_div_mod_eq [of 8192 "x + k"] by linarith
qed

lemma in_page_plus:
  fixes a :: "'a::len word"
  assumes "unat a mod 8192 + k < 8192" "13 \<le> LENGTH('a)"
  shows "unat (a + of_nat k) = unat a + k"
proof -
  obtain d where d: "(2 :: nat) ^ LENGTH('a) = 8192 * d"
    using assms(2) le_imp_power_dvd [of 13 "LENGTH('a)" "2 :: nat"] by (auto elim: dvdE)
  have "unat a < 8192 * d" using unsigned_less [of a, where ?'a = nat] d by simp
  then have "unat a div 8192 < d" by (simp add: less_mult_imp_div_less mult.commute)
  then have "8192 * (unat a div 8192) + 8192 \<le> 8192 * d"
    using mult_le_mono2 [of "Suc (unat a div 8192)" d 8192] by simp
  then have "unat a + k < 2 ^ LENGTH('a)" using assms(1) d mult_div_mod_eq [of 8192 "unat a"] by linarith
  then show ?thesis by (simp add: unat_word_ariths unsigned_of_nat take_bit_eq_mod)
qed

lemma page_translationI:
  assumes low: "\<And>a. unat (phys a) mod 8192 = unat a mod 8192"
    and high: "\<And>a b. drop_bit 13 a = drop_bit 13 b \<Longrightarrow> drop_bit 13 (phys a) = drop_bit 13 (phys b)"
  shows "page_translation phys"
proof
  fix a :: u32 and k
  assume k: "unat a mod 8192 + k < 8192"
  have ak: "unat (a + of_nat k) = unat a + k" by (rule in_page_plus [OF k]) simp
  have "(unat a + k) div 8192 = unat a div 8192" "(unat a + k) mod 8192 = unat a mod 8192 + k"
    using nat_page [OF k] by simp_all
  then have "unat (drop_bit 13 (a + of_nat k)) = unat (drop_bit 13 a)" by (simp only: drop_13 ak)
  then have "drop_bit 13 (a + of_nat k) = drop_bit 13 a" by (simp only: word_unat_eq_iff)
  then have "drop_bit 13 (phys (a + of_nat k)) = drop_bit 13 (phys a)" by (rule high)
  then have "unat (phys (a + of_nat k)) = unat (phys a) + k"
    using page_split [of "phys a"] page_split [of "phys (a + of_nat k)"] low [of a] low [of "a + of_nat k"] ak
      \<open>(unat a + k) mod 8192 = unat a mod 8192 + k\<close> by simp
  moreover have "unat (phys a + of_nat k) = unat (phys a) + k"
    by (rule in_page_plus) (simp_all add: low k)
  ultimately show "phys (a + of_nat k) = phys a + of_nat k" by (simp only: word_unat_eq_iff)
qed (rule low)

section \<open>Chunks\<close>

definition sys_ok :: "pci_sys \<Rightarrow> bool" where
  "sys_ok s \<longleftrightarrow> s_bits s < 64 \<and> (\<forall>i. i < s_bits s \<longrightarrow> bit (s_phys_mask s) i)"

lemma PtrToMem_iff: "s_bits s < 64 \<Longrightarrow> PtrToMem s a \<longleftrightarrow> unat a < 2 ^ s_bits s"
proof -
  assume "s_bits s < 64"
  have "PtrToMem s a \<longleftrightarrow> unat (drop_bit (s_bits s) a) = 0" by (simp add: PtrToMem_def unat_eq_0)
  also have "\<dots> \<longleftrightarrow> drop_bit (s_bits s) (unat a) = 0" using unsigned_less [of a, where ?'a = nat] by (simp add: unsigned_drop_bit_eq take_bit_nat_eq_self)
  finally show ?thesis by (simp add: drop_bit_eq_div div_eq_0_iff)
qed

lemma PtrToMem_mask: "sys_ok s \<Longrightarrow> PtrToMem s a \<Longrightarrow> a AND s_phys_mask s = a"
proof (rule bit_word_eqI)
  fix n
  assume "sys_ok s" "PtrToMem s a"
  then have "\<not> bit (drop_bit (s_bits s) a) (n - s_bits s)" by (simp add: PtrToMem_def)
  then have "bit a n \<Longrightarrow> n < s_bits s" by (metis bit_drop_bit_eq comp_apply le_add_diff_inverse not_less)
  then show "bit (a AND s_phys_mask s) n = bit a n" using \<open>sys_ok s\<close> by (auto simp: bit_and_iff sys_ok_def)
qed

lemma value_of_one [simp]: "value_of [b] = ucast b"
  by (simp add: value_of_def)

lemma ucast_u8 [simp]: "(ucast (ucast (b :: u8) :: u64) :: u8) = b"
  by (rule bit_word_eqI) (simp add: bit_simps)

lemma read_ram: "sys_ok s \<Longrightarrow> PtrToMem s a \<Longrightarrow> ucast (sys_ReadMem s a 8) = s_mem s a"
  by (simp add: sys_ReadMem_def PtrToMem_mask)

text \<open>A chunk stays in its page, and when both its ends are in memory all of it is.\<close>

lemma chunk_in_page:
  assumes "el < pci_dma_chunk_limit a n"
  shows "unat a mod 8192 + el < 8192" "el < n"
  using assms by (auto simp: pci_dma_chunk_limit_def Let_def page_offset split: if_splits)

lemma chunk_le: "pci_dma_chunk_limit a n \<le> n"
  by (simp add: pci_dma_chunk_limit_def Let_def page_offset)

lemma chunk_le_page: "pci_dma_chunk_limit a n \<le> 8192"
  by (auto simp: pci_dma_chunk_limit_def Let_def)

lemma chunk_ram:
  assumes "s_bits s < 64" "PtrToMem s (a + of_nat (pci_dma_chunk_limit a n) - 1)" "el < pci_dma_chunk_limit a n"
  shows "PtrToMem s (a + of_nat el)"
proof -
  let ?c = "pci_dma_chunk_limit a n"
  have e: "a + of_nat ?c - 1 = a + of_nat (?c - 1)" using assms(3) by (simp add: of_nat_diff)
  have "unat (a + of_nat ?c - 1) = unat a + (?c - 1)"
    unfolding e by (rule in_page_plus, rule chunk_in_page(1) [of _ a n]) (use assms(3) in simp_all)
  moreover have "unat (a + of_nat el) = unat a + el"
    by (rule in_page_plus [OF chunk_in_page(1) [OF assms(3)]]) simp
  ultimately show ?thesis using assms unfolding PtrToMem_iff [OF assms(1)] by linarith
qed

lemma map_upt_from: "map f [c..<n] = map (\<lambda>i. f (c + i)) [0..<n - c]"
  by (rule nth_equalityI) simp_all

context page_translation
begin

lemma chunk_phys: "el < pci_dma_chunk_limit (phys a) n \<Longrightarrow> phys (a + of_nat el) = phys a + of_nat el"
  using chunk_in_page(1) [of el "phys a" n] by (intro in_page) (simp add: offset)

lemma read_chunks_bytes:
  "sys_ok s \<Longrightarrow> read_chunks phys s a n = map (\<lambda>i. ucast (sys_ReadMem s (phys (a + of_nat i)) 8)) [0..<n]"
proof (induction n arbitrary: a rule: less_induct)
  case (less n)
  show ?case
  proof (cases "n = 0")
    case False
    let ?c = "pci_dma_chunk_limit (phys a) n"
    have c: "0 < ?c" "?c \<le> n" using False by (simp_all add: chunk_limit_pos chunk_le)
    have "(if PtrToMem s (phys a) \<and> PtrToMem s (phys a + of_nat ?c - 1)
        then map (\<lambda>el. s_mem s (phys a + of_nat el)) [0..<?c]
        else map (\<lambda>el. ucast (sys_ReadMem s (phys a + of_nat el) 8)) [0..<?c]) =
      map (\<lambda>i. ucast (sys_ReadMem s (phys (a + of_nat i)) 8)) [0..<?c]"
      using less.prems chunk_ram [of s "phys a" n] by (auto simp: chunk_phys read_ram sys_ok_def)
    moreover have "read_chunks phys s (a + of_nat ?c) (n - ?c) =
        map (\<lambda>i. ucast (sys_ReadMem s (phys (a + of_nat i)) 8)) [?c..<n]"
      using less c by (simp add: map_upt_from [of _ ?c] add.assoc)
    ultimately show ?thesis
      using False c upt_add_eq_append [of 0 ?c "n - ?c"] by (simp add: read_chunks.simps [of phys s a n] Let_def)
  qed (simp add: read_chunks.simps)
qed

end

section \<open>Writes\<close>

text \<open>The reference: one byte after the other, each translated by itself; and a state less its log of invalidated ranges.\<close>

definition bytewise :: "(u32 \<Rightarrow> u64) \<Rightarrow> u32 \<Rightarrow> u8 list \<Rightarrow> pci_sys \<Rightarrow> nat \<Rightarrow> pci_sys" where
  "bytewise phys a src s i = sys_WriteMem s (phys (a + of_nat i)) 8 (ucast (src ! i))"

definition strip :: "pci_sys \<Rightarrow> pci_sys" where
  "strip s = s\<lparr>s_invalidated := []\<rparr>"

text \<open>Every byte of memory that differs is in a range that was invalidated.\<close>

definition covered :: "pci_sys \<Rightarrow> pci_sys \<Rightarrow> bool" where
  "covered s s' \<longleftrightarrow> set (s_invalidated s) \<subseteq> set (s_invalidated s') \<and>
     (\<forall>x. s_mem s' x \<noteq> s_mem s x \<longrightarrow> (\<exists>(b, n) \<in> set (s_invalidated s'). unat (x - b) < n))"

lemma covered_refl [simp]: "covered s s"
  by (simp add: covered_def)

lemma covered_trans: "covered s t \<Longrightarrow> covered t u \<Longrightarrow> covered s u"
  unfolding covered_def by (metis (no_types, lifting) subset_iff)

lemma bytes_of_one [simp]: "bytes_of (Suc 0) v = [ucast v]"
  by (simp add: bytes_of_def)

lemma write_ram: "sys_ok s \<Longrightarrow> PtrToMem s a \<Longrightarrow> sys_WriteMem s a 8 (ucast b) = s\<lparr>s_mem := (s_mem s)(a := b)\<rparr>"
  by (simp add: sys_WriteMem_def PtrToMem_mask mem_store_def)

lemma sys_fields [simp]:
  "s_bits (sys_WriteMem s a d v) = s_bits s" "s_phys_mask (sys_WriteMem s a d v) = s_phys_mask s"
  "s_bits (mem_store s a bs) = s_bits s" "s_phys_mask (mem_store s a bs) = s_phys_mask s"
  "s_bits (guard_invalidate s b a n) = s_bits s" "s_phys_mask (guard_invalidate s b a n) = s_phys_mask s"
  "s_mem (guard_invalidate s b a n) = s_mem s"
  "PtrToMem (s\<lparr>s_invalidated := l\<rparr>) x = PtrToMem s x"
  "s_invalidated (sys_WriteMem s a d v) = s_invalidated s" "s_invalidated (mem_store s a bs) = s_invalidated s"
  by (simp_all add: sys_WriteMem_def mem_store_def guard_invalidate_def PtrToMem_def Let_def)

lemma strip_simps [simp]:
  "strip (sys_WriteMem s a d v) = sys_WriteMem (strip s) a d v" "strip (guard_invalidate s b a n) = strip s"
  "strip (mem_store s a bs) = mem_store (strip s) a bs" "sys_ok (strip s) = sys_ok s" "PtrToMem (strip s) a = PtrToMem s a"
  by (simp_all add: sys_WriteMem_def mem_store_def guard_invalidate_def strip_def sys_ok_def PtrToMem_def Let_def)

lemma sys_ok_same: "s_bits s' = s_bits s \<Longrightarrow> s_phys_mask s' = s_phys_mask s \<Longrightarrow> sys_ok s' = sys_ok s"
  by (simp add: sys_ok_def)

lemma writes_ram:
  assumes "sys_ok s" "\<And>i. i < n \<Longrightarrow> PtrToMem s (a + of_nat i)"
  shows "foldl (\<lambda>s i. sys_WriteMem s (a + of_nat i) 8 (ucast (bs ! i))) s [0..<n] =
    s\<lparr>s_mem := foldl (\<lambda>m i. m(a + of_nat i := bs ! i)) (s_mem s) [0..<n]\<rparr>"
  using assms(2)
proof (induction n)
  case (Suc n)
  have "sys_ok (s\<lparr>s_mem := m\<rparr>)" "PtrToMem (s\<lparr>s_mem := m\<rparr>) (a + of_nat n)" for m
    using assms(1) Suc.prems [of n] by (simp_all add: sys_ok_def PtrToMem_def)
  then show ?case using Suc by (simp add: write_ram fun_upd_def)
qed simp

lemma mem_written:
  "foldl (\<lambda>m i. m(a + of_nat i := bs ! i)) m [0..<n] x \<noteq> m x \<Longrightarrow> \<exists>i<n. x = a + of_nat i"
  by (induction n) (auto simp: less_Suc_eq split: if_splits)

lemma store_covered:
  assumes "length bs \<le> 8192" shows "covered s (mem_store (guard_invalidate s True a (length bs)) a bs)"
proof -
  have "unat (a + of_nat i - a) < length bs" if "i < length bs" for i
    using that assms by (simp add: unsigned_of_nat take_bit_nat_eq_self)
  then show ?thesis
    using mem_written [of a bs "s_mem s" "length bs"] by (force simp: covered_def mem_store_def guard_invalidate_def)
qed

lemma write_byte_covered:
  assumes "(cur + of_nat el) AND s_phys_mask s = cur + of_nat el"
  shows "covered s (write_byte cur src s el)"
  using assms by (auto simp: write_byte_def Let_def covered_def sys_WriteMem_def guard_invalidate_def pci_dma_targets_ram_def
      mem_store_def split: if_splits)

lemma foldl_upt_from: "foldl f s [c..<n] = foldl (\<lambda>s i. f s (c + i)) s [0..<n - c]"
proof -
  have "[c..<n] = map (\<lambda>i. c + i) [0..<n - c]" using map_upt_from [of "\<lambda>x. x" c n] by simp
  then show ?thesis by (simp add: foldl_map)
qed

context page_translation
begin

text \<open>One chunk, whichever way it is written.\<close>

definition chunk_write :: "pci_sys \<Rightarrow> u32 \<Rightarrow> u8 list \<Rightarrow> nat \<Rightarrow> pci_sys" where
  "chunk_write s a src c =
     (if PtrToMem s (phys a) \<and> PtrToMem s (phys a + of_nat c - 1)
      then mem_store (guard_invalidate s True (phys a) c) (phys a) (take c src)
      else foldl (write_byte (phys a) src) s [0..<c])"

lemma write_bytes_strip:
  "strip (foldl (write_byte cur src) s [0..<n]) =
     foldl (\<lambda>s i. sys_WriteMem s (cur + of_nat i) 8 (ucast (src ! i))) (strip s) [0..<n] \<and>
   s_bits (foldl (write_byte cur src) s [0..<n]) = s_bits s \<and> s_phys_mask (foldl (write_byte cur src) s [0..<n]) = s_phys_mask s"
  by (induction n) (simp_all add: write_byte_def Let_def)

lemma write_bytes_covered:
  "(\<And>i. i < n \<Longrightarrow> (cur + of_nat i) AND s_phys_mask s = cur + of_nat i) \<Longrightarrow> covered s (foldl (write_byte cur src) s [0..<n])"
proof (induction n)
  case (Suc n)
  then show ?case
    using covered_trans write_byte_covered [of cur n "foldl (write_byte cur src) s [0..<n]"] write_bytes_strip [of cur src s n]
    by simp
qed simp

lemma chunk_write_facts:
  assumes "sys_ok s" "src \<noteq> []" "c = pci_dma_chunk_limit (phys a) (length src)"
  shows "strip (chunk_write s a src c) = foldl (bytewise phys a src) (strip s) [0..<c]"
    "s_bits (chunk_write s a src c) = s_bits s" "s_phys_mask (chunk_write s a src c) = s_phys_mask s"
    "(\<And>x. phys x AND s_phys_mask s = phys x) \<Longrightarrow> covered s (chunk_write s a src c)"
proof -
  have c: "0 < c" "c \<le> length src" "c \<le> 8192"
    using assms(2,3) by (simp_all add: chunk_limit_pos chunk_le chunk_le_page)
  have p: "phys (a + of_nat i) = phys a + of_nat i" if "i < c" for i using that chunk_phys assms(3) by simp
  have bw: "foldl (bytewise phys a src) s' [0..<c] = foldl (\<lambda>s i. sys_WriteMem s (phys a + of_nat i) 8 (ucast (src ! i))) s' [0..<c]" for s'
    by (rule foldl_cong) (simp_all add: bytewise_def p)
  show "strip (chunk_write s a src c) = foldl (bytewise phys a src) (strip s) [0..<c]"
  proof (cases "PtrToMem s (phys a) \<and> PtrToMem s (phys a + of_nat c - 1)")
    case True
    have "PtrToMem (strip s) (phys a + of_nat i)" if "i < c" for i
      using that assms True chunk_ram [of s "phys a" "length src" i] by (simp add: sys_ok_def)
    moreover have "foldl (\<lambda>m i. m(phys a + of_nat i := take c src ! i)) m [0..<c] = foldl (\<lambda>m i. m(phys a + of_nat i := src ! i)) m [0..<c]" for m
      by (rule foldl_cong) simp_all
    ultimately show ?thesis
      using True assms(1) c writes_ram [of "strip s" c "phys a" src] by (simp add: chunk_write_def bw) (simp add: mem_store_def min_absorb2)
  next
    case False
    then show ?thesis
      using write_bytes_strip [of "phys a" src s c] by (auto simp: chunk_write_def bw)
  qed
  show "s_bits (chunk_write s a src c) = s_bits s" "s_phys_mask (chunk_write s a src c) = s_phys_mask s"
    using write_bytes_strip [of "phys a" src s c] by (simp_all add: chunk_write_def)
  show "covered s (chunk_write s a src c)" if "\<And>x. phys x AND s_phys_mask s = phys x"
  proof -
    have "(phys a + of_nat i) AND s_phys_mask s = phys a + of_nat i" if "i < c" for i
      using \<open>\<And>x. phys x AND s_phys_mask s = phys x\<close> [of "a + of_nat i"] p [OF that] by simp
    then show ?thesis
      using c store_covered [of "take c src" s "phys a"] write_bytes_covered [of c "phys a" s src]
      by (simp add: chunk_write_def min_absorb2)
  qed
qed

lemma write_chunks_step:
  "src \<noteq> [] \<Longrightarrow> write_chunks phys s a src =
     write_chunks phys (chunk_write s a src (pci_dma_chunk_limit (phys a) (length src)))
       (a + of_nat (pci_dma_chunk_limit (phys a) (length src))) (drop (pci_dma_chunk_limit (phys a) (length src)) src)"
  by (subst write_chunks.simps) (simp add: chunk_write_def Let_def)

lemma write_chunks_bytes:
  "sys_ok s \<Longrightarrow> strip (write_chunks phys s a src) = foldl (bytewise phys a src) (strip s) [0..<length src] \<and>
     ((\<forall>x. phys x AND s_phys_mask s = phys x) \<longrightarrow> covered s (write_chunks phys s a src))"
proof (induction "length src" arbitrary: s a src rule: less_induct)
  case less
  show ?case
  proof (cases "src = []")
    case False
    define c where "c = pci_dma_chunk_limit (phys a) (length src)"
    let ?s = "chunk_write s a src c"
    have c: "0 < c" "c \<le> length src" using False by (simp_all add: c_def chunk_limit_pos chunk_le)
    note ch = chunk_write_facts [OF less.prems False c_def]
    have ok: "sys_ok ?s" using less.prems sys_ok_same [OF ch(2,3)] by simp
    note ih = less.hyps [of "drop c src" ?s "a + of_nat c", OF _ ok]
    have w: "write_chunks phys s a src = write_chunks phys ?s (a + of_nat c) (drop c src)"
      using write_chunks_step [OF False] by (simp add: c_def)
    have "foldl (bytewise phys (a + of_nat c) (drop c src)) t [0..<length src - c] = foldl (bytewise phys a src) t [c..<length src]" for t
      unfolding foldl_upt_from [of "bytewise phys a src" t c "length src"] using c by (intro foldl_cong) (simp_all add: bytewise_def add.assoc)
    moreover have "[0..<length src] = [0..<c] @ [c..<length src]" using upt_add_eq_append [of 0 c "length src - c"] c by simp
    ultimately show ?thesis using ih c ch w covered_trans by auto
  qed (simp add: write_chunks.simps)
qed

end

section \<open>The chipsets' translations\<close>

definition same_page :: "u32 \<Rightarrow> u32 \<Rightarrow> bool" where
  "same_page a b \<longleftrightarrow> (\<forall>n\<ge>13. bit a n = bit b n)"

lemma same_page_iff: "drop_bit 13 a = drop_bit 13 b \<longleftrightarrow> same_page a b"
proof
  assume h: "drop_bit 13 a = drop_bit 13 b"
  show "same_page a b" unfolding same_page_def
  proof (intro allI impI)
    fix n :: nat assume "13 \<le> n"
    then show "bit a n = bit b n" using arg_cong [OF h, of "\<lambda>x. bit x (n - 13)"] by (simp add: bit_drop_bit_eq)
  qed
qed (auto simp: same_page_def bit_drop_bit_eq intro: bit_word_eqI)

lemma low_13: "unat w mod 8192 = unat a mod 8192" if "take_bit 13 w = ucast (take_bit 13 a)" for w :: u64 and a :: u32
proof -
  have "unat (take_bit 13 w) = unat (ucast (take_bit 13 a) :: u64)" using that by simp
  moreover have "unat a < 2 ^ 32" using unsigned_less [of a, where ?'a = nat] by simp
  ultimately show ?thesis
    by (simp only: unsigned_take_bit_eq unsigned_ucast_eq) (simp add: take_bit_eq_mod)
qed

lemma direct_page:
  "take_bit 13 (pci_direct a wsm tba) = ucast (take_bit 13 a)"
  "same_page a b \<Longrightarrow> drop_bit 13 (pci_direct a wsm tba) = drop_bit 13 (pci_direct b wsm tba)"
  unfolding pci_direct_def Let_def window_masks
  by (rule bit_word_eqI, auto simp: bit_simps same_page_def)+

lemma from_pte_page:
  "take_bit 13 (from_pte pte a) = ucast (take_bit 13 a)"
  "same_page a b \<Longrightarrow> drop_bit 13 (from_pte pte a) = drop_bit 13 (from_pte pte b)"
proof -
  have p: "0x80000000000 = (push_bit 43 1 :: u64)" by simp
  show "take_bit 13 (from_pte pte a) = ucast (take_bit 13 a)"
    "same_page a b \<Longrightarrow> drop_bit 13 (from_pte pte a) = drop_bit 13 (from_pte pte b)"
    unfolding from_pte_def Let_def window_masks p
    by (rule bit_word_eqI, auto simp del: push_bit_of_1 simp: bit_simps same_page_def)+
qed

lemma lookup_page:
  assumes "same_page a b"
  shows "pci_hit wsba wsm a = pci_hit wsba wsm b" "pte_address a wsm tba = pte_address b wsm tba"
proof -
  have "(ucast a XOR wsba) AND push_bit 20 (mask 12) AND NOT wsm = (ucast b XOR wsba) AND push_bit 20 (mask 12) AND NOT wsm"
    using assms by (intro bit_word_eqI) (auto simp: bit_simps same_page_def)
  then show "pci_hit wsba wsm a = pci_hit wsba wsm b" unfolding pci_hit_def window_masks(1) by simp
  show "pte_address a wsm tba = pte_address b wsm tba"
    unfolding pte_address_def Let_def window_masks
    using assms by (intro bit_word_eqI) (auto simp: bit_simps same_page_def)
qed

lemma titan_windows_page:
  "titan_windows rd p a js = Some x \<Longrightarrow> take_bit 13 x = ucast (take_bit 13 a)"
  "same_page a b \<Longrightarrow> rel_option (\<lambda>x y. drop_bit 13 x = drop_bit 13 y) (titan_windows rd p a js) (titan_windows rd p b js)"
  by (induction js) (auto simp: Let_def direct_page from_pte_page lookup_page [of a b] split: if_splits)

text \<open>The Pchip's windows are the PA-chip's, less a window 3 for dual-address cycles.\<close>

lemma tsunami_windows_filter:
  "tsunami_windows rd p loc a js =
     (case titan_windows rd p a (filter (\<lambda>j. \<not> (j = 3 \<and> w_wsba p ! 3 AND 0x8000000000 \<noteq> 0)) js) of Some x \<Rightarrow> x | None \<Rightarrow> loc)"
  by (induction js) (auto simp: pci_hit_def pci_phys_scatter_gather_def Let_def)

text \<open>A translation through windows, with a fallback that keeps the page.\<close>

lemma windows_page_translation:
  assumes local: "\<And>a. take_bit 13 (loc a) = ucast (take_bit 13 a)"
      "\<And>a b. same_page a b \<Longrightarrow> drop_bit 13 (loc a) = drop_bit 13 (loc b)"
    and open_page: "\<And>a b. same_page a b \<Longrightarrow> open_at a = open_at b"
    and phys: "\<And>a. phys a = (case (if open_at a then titan_windows rd p a js else None) of Some x \<Rightarrow> x | None \<Rightarrow> loc a)"
  shows "page_translation phys"
proof (rule page_translationI)
  fix a
  show "unat (phys a) mod 8192 = unat a mod 8192"
    by (rule low_13) (auto simp: phys local titan_windows_page(1) split: option.split)
next
  fix a b :: u32
  assume "drop_bit 13 a = drop_bit 13 b"
  then have ab: "same_page a b" by (simp add: same_page_iff)
  show "drop_bit 13 (phys a) = drop_bit 13 (phys b)"
    using titan_windows_page(2) [OF ab, of rd p js] local(2) [OF ab] open_page [OF ab]
    by (auto simp: phys split: option.split elim: option.rel_cases)
qed

lemma hole_page: "same_page a b \<Longrightarrow> outside_hole pctl a = outside_hole pctl b"
proof -
  assume "same_page a b"
  then have "unat a div 8192 = unat b div 8192" using arg_cong [of "drop_bit 13 a" "drop_bit 13 b" unat] by (simp only: same_page_iff drop_13)
  then have "unat a < 0x80000 \<longleftrightarrow> unat b < 0x80000" "0xfffff < unat a \<longleftrightarrow> 0xfffff < unat b"
    using div_less_iff_less_mult [of 8192 "unat a" 64] div_less_iff_less_mult [of 8192 "unat b" 64]
      div_less_iff_less_mult [of 8192 "unat a" 128] div_less_iff_less_mult [of 8192 "unat b" 128] by auto
  then show ?thesis by (simp add: outside_hole_def word_less_nat_alt)
qed

lemma local_page:
  "take_bit 13 (push_bit 33 h OR ucast a) = (ucast (take_bit 13 a) :: u64)"
  "same_page a b \<Longrightarrow> drop_bit 13 (push_bit 33 h OR ucast a) = (drop_bit 13 (push_bit 33 h OR ucast b) :: u64)"
  by (rule bit_word_eqI, auto simp: bit_simps same_page_def)+

interpretation tsunami_dma: page_translation "tsunami_pci_phys rd p hose" for rd p hose
proof (rule windows_page_translation [where loc = "\<lambda>a. push_bit 33 (0x400 OR of_nat hose) OR ucast a" and open_at = "outside_hole (w_pctl p)"
      and js = "filter (\<lambda>j. \<not> (j = 3 \<and> w_wsba p ! 3 AND 0x8000000000 \<noteq> 0)) [0, 1, 2, 3]" and rd = rd and p = p])
  have "push_bit 33 (0x400 OR of_nat hose) = (0x80000000000 OR of_nat hose * 0x200000000 :: u64)"
    by (simp add: push_bit_or) (simp add: push_bit_eq_mult)
  then show "tsunami_pci_phys rd p hose a =
      (case (if outside_hole (w_pctl p) a
         then titan_windows rd p a (filter (\<lambda>j. \<not> (j = 3 \<and> w_wsba p ! 3 AND 0x8000000000 \<noteq> 0)) [0, 1, 2, 3]) else None) of
         Some x \<Rightarrow> x | None \<Rightarrow> push_bit 33 (0x400 OR of_nat hose) OR ucast a)" for a
    unfolding tsunami_pci_phys_def Let_def tsunami_windows_filter
    by (cases "outside_hole (w_pctl p) a") (simp_all only: if_True if_False option.simps or.assoc)
qed (rule local_page(1), erule local_page(2), erule hole_page)

interpretation titan_dma: page_translation "titan_pci_phys rd p hose" for rd p hose
proof (rule windows_page_translation [where loc = "\<lambda>a. push_bit 33 (0x400 + ucast (hose AND 3)) OR ucast a" and open_at = "outside_hole (w_pctl p)"
      and js = "[0, 1, 2, 3]" and rd = rd and p = p])
  have "push_bit 33 (0x400 + ucast (hose AND 3)) = (0x80000000000 + 0x200000000 * ucast (hose AND 3) :: u64)"
    by (simp add: push_bit_eq_mult algebra_simps)
  then show "titan_pci_phys rd p hose a =
      (case (if outside_hole (w_pctl p) a then titan_windows rd p a [0, 1, 2, 3] else None) of
         Some x \<Rightarrow> x | None \<Rightarrow> push_bit 33 (0x400 + ucast (hose AND 3)) OR ucast a)" for a
    unfolding titan_pci_phys_def by (simp only:)
qed (rule local_page(1), erule local_page(2), erule hole_page)

section \<open>Transfers on the Tsunami\<close>

text \<open>Translated addresses fit the chipset's address mask: 35 bits of memory and bit 43.\<close>

definition fits :: "u64 \<Rightarrow> bool" where
  "fits x \<longleftrightarrow> (\<forall>n. bit x n \<longrightarrow> n < 35 \<or> n = 43)"

lemma fits_mask: "fits x \<Longrightarrow> x AND 0x807ffffffff = x"
proof -
  assume h: "fits x"
  have m: "0x807ffffffff = (push_bit 43 1 OR mask 35 :: u64)" by (simp add: mask_eq_exp_minus_1)
  show ?thesis unfolding m
    using h by (intro bit_word_eqI) (auto simp del: push_bit_of_1 simp: bit_simps fits_def)
qed

lemma fits_windows: "titan_windows rd p a js = Some x \<Longrightarrow> fits x"
proof -
  have "fits (pci_direct a wsm tba)" for wsm tba
    unfolding pci_direct_def Let_def window_masks by (auto simp: bit_simps fits_def dest: bit_imp_le_length)
  moreover have "fits (from_pte pte a)" for pte
  proof -
    have p: "0x80000000000 = (push_bit 43 1 :: u64)" by simp
    show ?thesis unfolding from_pte_def Let_def window_masks p
      by (auto simp del: push_bit_of_1 simp: bit_simps fits_def dest: bit_imp_le_length)
  qed
  ultimately show "titan_windows rd p a js = Some x \<Longrightarrow> ?thesis"
    by (induction js) (auto simp: Let_def split: if_splits)
qed

lemma tsunami_phys_masked:
  assumes "hose < 4"
  shows "tsunami_pci_phys rd p hose a AND 0x807ffffffff = tsunami_pci_phys rd p hose a"
proof (rule fits_mask)
  have "fits (0x80000000000 OR (of_nat hose * 0x200000000) OR ucast a)"
  proof -
    have "hose = 0 \<or> hose = 1 \<or> hose = 2 \<or> hose = 3" using assms by arith
    then have "fits (0x80000000000 OR (of_nat hose * 0x200000000))"
    proof -
      have "fits (push_bit 43 1 OR push_bit 33 (take_bit 2 (of_nat hose)))"
        by (auto simp del: push_bit_of_1 simp: bit_simps fits_def)
      moreover have "push_bit 43 1 OR push_bit 33 (take_bit 2 (of_nat hose)) = (0x80000000000 OR (of_nat hose * 0x200000000) :: u64)"
        using \<open>hose = 0 \<or> hose = 1 \<or> hose = 2 \<or> hose = 3\<close> by (elim disjE) simp_all
      ultimately show ?thesis by simp
    qed
    moreover have "fits (ucast a)" by (auto simp: fits_def bit_simps dest: bit_imp_le_length)
    ultimately show ?thesis unfolding or.assoc [symmetric] by (auto simp only: fits_def bit_or_iff)
  qed
  moreover have "fits (case titan_windows rd p a js of Some x \<Rightarrow> x | None \<Rightarrow> loc)" if "fits loc" for js loc
    using that fits_windows [of rd p a js] by (cases "titan_windows rd p a js") auto
  ultimately show "fits (tsunami_pci_phys rd p hose a)"
    unfolding tsunami_pci_phys_def Let_def tsunami_windows_filter
    by (cases "outside_hole (w_pctl p) a") (simp_all only: if_True if_False)
qed

text \<open>A board of the Tsunami: its memory and address mask.\<close>

definition tsunami_board :: "pci_sys \<Rightarrow> bool" where
  "tsunami_board s \<longleftrightarrow> s_bits s \<le> 35 \<and> s_phys_mask s = 0x807ffffffff"

lemma tsunami_board_ok: "tsunami_board s \<Longrightarrow> sys_ok s"
proof -
  assume h: "tsunami_board s"
  have m: "0x807ffffffff = (push_bit 43 1 OR mask 35 :: u64)" by (simp add: mask_eq_exp_minus_1)
  show ?thesis
    using h unfolding sys_ok_def tsunami_board_def m by (auto simp del: push_bit_of_1 simp: bit_simps)
qed

lemma tsunami_read:
  assumes "tsunami_board s" "phys = tsunami_pci_phys rd p hose"
  shows "do_pci_read phys s True address 1 n = Some (map (\<lambda>i. ucast (sys_ReadMem s (phys (address + of_nat i)) 8)) [0..<n])"
  using tsunami_dma.read_chunks_bytes [OF tsunami_board_ok [OF assms(1)], where rd = rd and p = p and hose = hose] assms(2)
  by (auto simp: do_pci_read_def)

lemma tsunami_write:
  assumes "tsunami_board s" "hose < 4" "phys = tsunami_pci_phys rd p hose" "n = length src"
  shows "\<exists>s'. do_pci_write phys s True address src 1 n = Some s' \<and>
    strip s' = foldl (bytewise phys address src) (strip s) [0..<n] \<and> covered s s'"
proof -
  have masked: "\<forall>x. phys x AND s_phys_mask s = phys x"
    using tsunami_phys_masked [OF assms(2)] assms(1,3) by (simp add: tsunami_board_def)
  show ?thesis
  proof (cases "n = 1")
    case True
    then obtain b where b: "src = [b]" using assms(4) by (cases src) auto
    have "covered s (write_byte (phys address) src s 0)" by (rule write_byte_covered) (simp add: masked)
    then show ?thesis
      using True by (auto simp: do_pci_write_def b write_byte_def bytewise_def Let_def)
  next
    case False
    then show ?thesis
      using tsunami_dma.write_chunks_bytes [OF tsunami_board_ok [OF assms(1)], where rd = rd and p = p and hose = hose] masked assms(3,4)
      by (auto simp: do_pci_write_def write_chunks.simps [of _ _ _ "[]"])
  qed
qed

text \<open>
  A bus-master transfer moves each byte by its own address. On a Tsunami with up to \<open>2 ^ 35\<close> bytes of memory,
  for every setting of the windows and every page table, a device's read returns for each byte what a read of the
  system address its own PCI address translates to gives, and a write leaves memory and devices as one
  byte write after the other would, although the code translates once per 8 KB page and copies
  runs between memory and device; PCI addresses wrap at 4 GB. Every byte of memory the write changes is in a range that
  the load-lock guard was told of.
\<close>

theorem dma_transfer_bytewise:
  assumes "hose < 4" and "tsunami_board s" and "phys = tsunami_pci_phys rd p hose"
  shows "do_pci_read phys s True address 1 n =
      Some (map (\<lambda>i. ucast (sys_ReadMem s (phys (address + of_nat i)) 8)) [0..<n]) \<and>
    (\<exists>s'. do_pci_write phys s True address src 1 (length src) = Some s' \<and>
       strip s' = foldl (bytewise phys address src) (strip s) [0..<length src] \<and> covered s s')"
  using tsunami_read [OF assms(2,3)] tsunami_write [OF assms(2,1,3) refl] by blast

definition dma_sys :: pci_sys where
  "dma_sys = \<lparr>s_bits = 35, s_phys_mask = 0x807ffffffff, s_mem = (\<lambda>a. ucast a), s_io = (\<lambda>_ _. 0), s_io_log = [], s_invalidated = []\<rparr>"

theorem dma_transfer_bytewise_witness:
  "do_pci_read (tsunami_pci_phys (\<lambda>_. 0x15) dma_example 1) dma_sys True 0x41234567 1 2 = Some [0x67, 0x68]"
proof -
  have "[0..<2] = [0, 1 :: nat]" by (simp add: upt_rec)
  then show ?thesis
    using dma_transfer_bytewise [of 1 dma_sys _ "\<lambda>_. 0x15" dma_example, OF _ _ refl, of "0x41234567" 2]
    by (simp add: tsunami_board_def dma_sys_def dma_example_def tsunami_pci_phys_def outside_hole_def pci_direct_def sys_ReadMem_def PtrToMem_def)
qed

end
