(* ===== verification/Dma8237_Facts.thy ===== *)
theory Dma8237_Facts
  imports Dma8237 Pci_Dma_Facts
begin

text \<open>
  The 8237s: where each byte of a transfer goes, that a transfer may be cut into calls, and what the guest's
  registers hold.
\<close>

section \<open>Where the bytes go\<close>

text \<open>A plan as \<open>plan_transfer\<close> makes it.\<close>

definition plan_ok :: "dma_plan \<Rightarrow> bool" where
  "plan_ok p \<longleftrightarrow> p_width p \<in> {1, 2} \<and> p_width p dvd p_count p \<and> p_count p \<le> 0x10000 * p_width p \<and>
     unat (p_page p) < 2 ^ 32 \<and> (\<exists>y. p_page p = push_bit (15 + p_width p) y)"

text \<open>
  The current register of unit \<open>k\<close> of a transfer, and the PCI address of byte \<open>i\<close>: the page, the register in
  units, which wraps at 16 bits without a carry into the page, and the byte of the unit.
\<close>

definition unit_current :: "dma_plan \<Rightarrow> nat \<Rightarrow> u16" where
  "unit_current p k = (if p_decrement p then p_current p - of_nat k else p_current p + of_nat k)"

definition dma_byte :: "dma_plan \<Rightarrow> nat \<Rightarrow> u32" where
  "dma_byte p i = of_nat (unat (p_page p) + unat (unit_current p (i div p_width p)) * p_width p + i mod p_width p)"

lemma unat_u16: "unat (c :: u16) < 0x10000"
  using unsigned_less [of c, where ?'a = nat] by simp

lemma unit_address_nat:
  assumes "plan_ok p"
  shows "unit_address (p_page p) c (p_width p) = of_nat (unat (p_page p) + unat c * p_width p)"
proof -
  let ?w = "p_width p"
  have w: "?w = 1 \<or> ?w = 2" using assms by (auto simp: plan_ok_def)
  obtain y where y: "p_page p = push_bit (15 + ?w) y" using assms by (auto simp: plan_ok_def)
  have c: "unat (ucast c * of_nat ?w :: u64) = unat c * ?w"
    using w unat_u16 [of c] by (auto simp: unat_word_ariths unsigned_ucast_eq take_bit_nat_eq_self)
  have "ucast c * of_nat ?w < (2 ^ (15 + ?w) :: u64)"
    using w unat_u16 [of c] by (auto simp: word_less_nat_alt c)
  then have "p_page p OR (ucast c * of_nat ?w) = p_page p + ucast c * of_nat ?w"
    unfolding y by (rule disjoint_or_plus)
  moreover have "unat (p_page p + ucast c * of_nat ?w) = unat (p_page p) + unat c * ?w"
    using assms w unat_u16 [of c] by (auto simp: plan_ok_def unat_word_ariths(1) c)
  ultimately show ?thesis unfolding unit_address_def by (metis of_nat_unat)
qed

text \<open>Bytes before and after the register wraps.\<close>

lemma current_up:
  assumes "\<not> p_decrement p" "k < 0x10000"
  shows "unat (unit_current p k) = (if unat (p_current p) + k < 0x10000 then unat (p_current p) + k else unat (p_current p) + k - 0x10000)"
proof -
  have "unat (unit_current p k) = (unat (p_current p) + k) mod 0x10000"
    using assms by (simp add: unit_current_def unat_word_ariths unsigned_of_nat take_bit_eq_mod mod_simps)
  then show ?thesis using assms(2) unat_u16 [of "p_current p"] by (simp add: mod_if)
qed

lemma unit_index:
  assumes "plan_ok p" "i < p_count p"
  shows "i div p_width p < 0x10000" "i div p_width p * p_width p + i mod p_width p = i"
  using assms by (auto simp: plan_ok_def)

lemma dma_byte_up:
  assumes "plan_ok p" "\<not> p_decrement p" "i < p_count p"
  shows "dma_byte p i = (if i < (0x10000 - unat (p_current p)) * p_width p
    then unit_address (p_page p) (p_current p) (p_width p) + of_nat i
    else ucast (p_page p) + of_nat (i - (0x10000 - unat (p_current p)) * p_width p))"
proof -
  let ?w = "p_width p" and ?c = "unat (p_current p)"
  have w: "?w = 1 \<or> ?w = 2" using assms by (auto simp: plan_ok_def)
  note u = unit_index [OF assms(1,3)]
  have wrap: "?c + i div ?w < 0x10000 \<longleftrightarrow> i < (0x10000 - ?c) * ?w"
    using w unat_u16 [of "p_current p"] by auto
  note cur = current_up [OF assms(2) u(1), unfolded wrap]
  show ?thesis
  proof (cases "i < (0x10000 - ?c) * ?w")
    case True
    then have "unat (unit_current p (i div ?w)) * ?w + i mod ?w = ?c * ?w + i"
      using cur u(2) by (simp add: add_mult_distrib)
    then show ?thesis using True by (simp add: dma_byte_def unit_address_nat [OF assms(1)] add.assoc)
  next
    case False
    have "d * v + m = i \<Longrightarrow> 0x10000 \<le> c + d \<Longrightarrow> c < 0x10000 \<Longrightarrow> (c + d - 0x10000) * v + m = i - (0x10000 - c) * v" for c d m v :: nat
      using mult_le_mono1 [of "0x10000" "c + d" v] by (auto simp: algebra_simps diff_mult_distrib)
    from this [OF u(2) _ unat_u16] have "(?c + i div ?w - 0x10000) * ?w + i mod ?w = i - (0x10000 - ?c) * ?w"
      using False wrap by simp
    moreover have "ucast (p_page p) = (of_nat (unat (p_page p)) :: u32)" by (metis of_nat_unat)
    ultimately show ?thesis using False cur by (simp add: dma_byte_def add.assoc)
  qed
qed

text \<open>The reference of a transfer to memory.\<close>

definition dma_writes :: "(u32 \<Rightarrow> u64) \<Rightarrow> dma_plan \<Rightarrow> u8 list \<Rightarrow> pci_sys \<Rightarrow> nat \<Rightarrow> pci_sys" where
  "dma_writes phys p dat s i = sys_WriteMem s (phys (dma_byte p i)) 8 (ucast (dat ! i))"

definition board_write :: "(u32 \<Rightarrow> u64) \<Rightarrow> bool" where
  "board_write phys \<longleftrightarrow> (\<forall>s address src. tsunami_board s \<longrightarrow> (\<exists>s'. do_pci_write phys s True address src 1 (length src) = Some s' \<and>
     strip s' = foldl (bytewise phys address src) (strip s) [0..<length src]))"

lemma board_write_tsunami: "hose < 4 \<Longrightarrow> board_write (tsunami_pci_phys rd w hose)"
  using tsunami_write unfolding board_write_def by blast

lemma board_strip [simp]: "tsunami_board (strip s) = tsunami_board s"
  by (simp add: tsunami_board_def strip_def)

lemma board_writes [simp]:
  "tsunami_board (foldl (bytewise phys a src) t xs) = tsunami_board t"
  "tsunami_board (foldl (dma_writes phys p src) t xs) = tsunami_board t"
  by (induction xs arbitrary: t) (simp_all add: bytewise_def dma_writes_def tsunami_board_def)

lemma board_kept: "strip s' = foldl (bytewise phys a src) (strip s) xs \<Longrightarrow> tsunami_board s \<Longrightarrow> tsunami_board s'"
  using board_strip [of s'] by simp

lemma foldl_split: "c \<le> n \<Longrightarrow> foldl f s [0..<n] = foldl f (foldl f s [0..<c]) [c..<n]"
  using upt_add_eq_append [of 0 c "n - c"] by (simp flip: foldl_append)

lemma copy_up:
  assumes "plan_ok p" "\<not> p_decrement p" "board_write phys" "tsunami_board s" "length dat = p_count p"
  shows "\<exists>s'. dma_copy_out phys s True dat p = Some s' \<and> strip s' = foldl (dma_writes phys p dat) (strip s) [0..<p_count p]"
proof -
  let ?n = "p_count p" and ?to = "(0x10000 - unat (p_current p)) * p_width p"
  define m where "m = (if ?n < ?to then ?n else ?to)"
  let ?a = "unit_address (p_page p) (p_current p) (p_width p)"
  have m: "m \<le> ?n" "length (take m dat) = m" using assms(5) by (simp_all add: m_def)
  obtain s1 where s1: "do_pci_write phys s True ?a (take m dat) 1 m = Some s1"
      "strip s1 = foldl (bytewise phys ?a (take m dat)) (strip s) [0..<m]"
    using assms(3,4) m(2) unfolding board_write_def by metis
  have f1: "foldl (bytewise phys ?a (take m dat)) t [0..<m] = foldl (dma_writes phys p dat) t [0..<m]" for t
    by (rule foldl_cong) (use assms(1,2) in \<open>auto simp: bytewise_def dma_writes_def dma_byte_up m_def split: if_splits\<close>)
  show ?thesis
  proof (cases "m < ?n")
    case False
    then have "m = ?n" using m(1) by simp
    then show ?thesis using s1 f1 assms(2) by (simp add: dma_copy_out_def Let_def flip: m_def)
  next
    case True
    then have mt: "m = ?to" by (simp add: m_def split: if_splits)
    let ?src = "take (?n - m) (drop m dat)"
    have l: "length ?src = ?n - m" using assms(5) by simp
    obtain s2 where s2: "do_pci_write phys s1 True (ucast (p_page p)) ?src 1 (?n - m) = Some s2"
        "strip s2 = foldl (bytewise phys (ucast (p_page p)) ?src) (strip s1) [0..<?n - m]"
      using assms(3) board_kept [OF s1(2) assms(4)] l unfolding board_write_def by metis
    have "foldl (bytewise phys (ucast (p_page p)) ?src) t [0..<?n - m] = foldl (dma_writes phys p dat) t [m..<?n]" for t
      unfolding foldl_upt_from [of "dma_writes phys p dat" t m ?n]
      by (rule foldl_cong) (use assms mt in \<open>auto simp: bytewise_def dma_writes_def dma_byte_up\<close>)
    then show ?thesis
      using s1 s2 f1 True assms(2) foldl_split [OF m(1), of "dma_writes phys p dat" "strip s"]
      by (simp add: dma_copy_out_def Let_def flip: m_def)
  qed
qed

lemma copy_down:
  assumes "plan_ok p" "p_decrement p" "board_write phys" "tsunami_board s" "length dat = units * p_width p" "units \<le> 0x10000"
  shows "\<exists>s'. write_down phys True (p_width p) (p_page p) (p_current p) units dat s = Some s' \<and>
    strip s' = foldl (dma_writes phys p dat) (strip s) [0..<units * p_width p]"
  using assms
proof (induction units arbitrary: p s dat)
  case (Suc units)
  let ?w = "p_width p" and ?a = "unit_address (p_page p) (p_current p) (p_width p)"
  let ?q = "p\<lparr>p_current := p_current p - 1\<rparr>"
  have w: "?w = 1 \<or> ?w = 2" using Suc.prems(1) by (auto simp: plan_ok_def)
  have l: "length (take ?w dat) = ?w" using Suc.prems(5) by simp
  obtain s1 where s1: "do_pci_write phys s True ?a (take ?w dat) 1 ?w = Some s1"
      "strip s1 = foldl (bytewise phys ?a (take ?w dat)) (strip s) [0..<?w]"
    using Suc.prems(3,4) l unfolding board_write_def by metis
  have "plan_ok ?q" using Suc.prems(1) by (simp add: plan_ok_def)
  then obtain s2 where s2: "write_down phys True ?w (p_page p) (p_current p - 1) units (drop ?w dat) s1 = Some s2"
      "strip s2 = foldl (dma_writes phys ?q (drop ?w dat)) (strip s1) [0..<units * ?w]"
    using Suc.IH [of ?q s1 "drop ?w dat"] Suc.prems board_kept [OF s1(2)] by auto
  have "?a + of_nat i = dma_byte p i" if "i < ?w" for i
    using that unit_address_nat [OF Suc.prems(1)] by (simp add: dma_byte_def unit_current_def)
  then have f1: "foldl (bytewise phys ?a (take ?w dat)) t [0..<?w] = foldl (dma_writes phys p dat) t [0..<?w]" for t
    by (intro foldl_cong) (simp_all add: bytewise_def dma_writes_def)
  have "dma_byte ?q i = dma_byte p (?w + i)" for i
    using w Suc.prems(2) by (auto simp: dma_byte_def unit_current_def div_add_self1 diff_diff_eq)
  then have f2: "foldl (dma_writes phys ?q (drop ?w dat)) t [0..<units * ?w] = foldl (dma_writes phys p dat) t [?w..<Suc units * ?w]" for t
    unfolding foldl_upt_from [of "dma_writes phys p dat" t ?w "Suc units * ?w"]
    by (intro foldl_cong) (use l Suc.prems(5) in \<open>simp_all add: dma_writes_def\<close>)
  show ?case
    using s1 s2 f1 f2 foldl_split [of ?w "Suc units * ?w" "dma_writes phys p dat" "strip s"] by simp
qed simp

lemma copy_out_bytes:
  assumes "plan_ok p" "board_write phys" "tsunami_board s" "length dat = p_count p"
  shows "\<exists>s'. dma_copy_out phys s True dat p = Some s' \<and> strip s' = foldl (dma_writes phys p dat) (strip s) [0..<p_count p]"
proof (cases "p_decrement p")
  case True
  have "p_count p = p_count p div p_width p * p_width p" "p_count p div p_width p \<le> 0x10000"
    using assms(1) by (auto simp: plan_ok_def)
  then show ?thesis
    using copy_down [OF assms(1) True assms(2,3), of dat "p_count p div p_width p"] assms(4) True by (simp add: dma_copy_out_def Let_def)
qed (use copy_up assms in blast)

section \<open>Plans\<close>

text \<open>A request that is served: the controller enabled, the channel requested, and its type the right one.\<close>

definition ready :: "dma \<Rightarrow> nat \<Rightarrow> bool \<Rightarrow> bool" where
  "ready d chn to_memory \<longleftrightarrow>
     (let ct = controller d ! (if chn < 4 then 0 else 1); ch = channel d ! chn; b = mask1 (chn mod 4) in
      ct_command ct AND 0x04 = 0 \<and> \<not> (ct_mask ct AND b \<noteq> 0 \<and> ct_request ct AND b = 0) \<and> ch_mode ch AND 0xc0 \<noteq> 0xc0 \<and>
      (ch_mode ch AND 0x0c = 0 \<or> ch_mode ch AND 0x0c = (if to_memory then 0x04 else 0x08)))"

definition plan_of :: "dma \<Rightarrow> nat \<Rightarrow> bool \<Rightarrow> nat \<Rightarrow> nat \<Rightarrow> dma_plan" where
  "plan_of d chn addr32 n width =
     (let ch = channel d ! chn;
          pagebase = (if addr32 then ch_pagebase ch else ch_pagebase ch AND 0x00ff);
          pagebase = (if width = 2 then pagebase AND 0xfffe else pagebase)
      in \<lparr>p_page = push_bit 16 (ucast pagebase), p_current = ch_current ch,
          p_decrement = (ch_mode ch AND 0x20 \<noteq> 0), p_count = n, p_width = width\<rparr>)"

lemma width_cases: "dma_transfer_width chn = Some w \<Longrightarrow> chn < 8 \<and> (w = 1 \<or> w = 2)"
  by (auto simp: dma_transfer_width_def split: if_splits)

lemma plan_of_ok:
  assumes "w = 1 \<or> w = 2" "w dvd n" "n \<le> 0x10000 * w"
  shows "plan_ok (plan_of d chn addr32 n w)"
proof -
  define v where "v = (if addr32 then ch_pagebase (channel d ! chn) else ch_pagebase (channel d ! chn) AND 0x00ff)"
  have small: "unat (push_bit 16 (ucast (x :: u16)) :: u64) < 2 ^ 32" for x
  proof -
    have "unat (push_bit 16 (ucast x) :: u64) = unat x * 2 ^ 16"
      using unat_u16 [of x] by (simp add: push_bit_eq_mult unat_word_ariths unsigned_ucast_eq take_bit_nat_eq_self)
    then show ?thesis using unat_u16 [of x] by simp
  qed
  have even: "(push_bit 16 (ucast (v AND 0xfffe)) :: u64) = push_bit 17 (ucast (drop_bit 1 v))"
  proof -
    have e: "(0xfffe :: u16) = NOT (mask1 0)" by (simp add: mask1_def)
    show ?thesis unfolding e
    proof (rule bit_word_eqI)
      fix n
      have "17 \<le> n \<Longrightarrow> Suc (n - 17) = n - 16" "16 \<le> n \<Longrightarrow> n - 16 \<noteq> 0 \<longleftrightarrow> 17 \<le> n" by auto
      then show "bit (push_bit 16 (ucast (v AND NOT (mask1 0))) :: u64) n = bit (push_bit 17 (ucast (drop_bit 1 v)) :: u64) n"
        by (auto simp: bit_clear_mask1 bit_push_bit_iff bit_unsigned_iff bit_drop_bit_eq)
    qed
  qed
  have "p_page (plan_of d chn addr32 n w) = push_bit 16 (ucast (if w = 2 then v AND 0xfffe else v))"
    by (simp add: plan_of_def v_def Let_def)
  then have "unat (p_page (plan_of d chn addr32 n w)) < 2 ^ 32" "\<exists>y. p_page (plan_of d chn addr32 n w) = push_bit (15 + w) y"
    using small even assms(1) by (auto simp del: push_bit_of_1)
  then show ?thesis using assms by (auto simp: plan_ok_def plan_of_def Let_def)
qed

lemma plan_ready:
  assumes "dma_transfer_width chn = Some w" "ready d chn to_memory" "0 < n" "n \<le> (unat (ch_count (channel d ! chn)) + 1) * w" "w dvd n"
  shows "plan_transfer d chn addr32 n eop to_memory =
    (let (tc, d') = advance_transfer d chn (n div w) eop; moving = (ch_mode (channel d ! chn) AND 0x0c \<noteq> 0)
     in Some (\<lparr>transferred = (if moving then n else 0), blocked = False, terminal_count = tc, external_eop = eop, verify = \<not> moving\<rparr>,
          d', if moving then Some (plan_of d chn addr32 n w) else None))"
proof -
  have c: "(if 0 < n \<and> n < (unat (ch_count (channel d ! chn)) + 1) * w then n else (unat (ch_count (channel d ! chn)) + 1) * w) = n"
    using assms(3,4) by simp
  let ?ct = "controller d ! (if chn < 4 then 0 else 1)" and ?t = "ch_mode (channel d ! chn) AND 0x0c" and ?b = "mask1 (chn mod 4)"
  have no: "\<not> (ct_command ?ct AND 0x04 \<noteq> 0)" "\<not> (ct_mask ?ct AND ?b \<noteq> 0 \<and> ct_request ?ct AND ?b = 0)"
    "\<not> ch_mode (channel d ! chn) AND 0xc0 = 0xc0" "\<not> (?t \<noteq> 0 \<and> ?t \<noteq> (if to_memory then 0x04 else 0x08))" "\<not> n mod w \<noteq> 0"
    using assms(2,5) by (auto simp: ready_def Let_def)
  obtain tc d' where adv: "advance_transfer d chn (n div w) eop = (tc, d')" by (cases "advance_transfer d chn (n div w) eop")
  show ?thesis
    unfolding plan_transfer_def Let_def assms(1) option.case c if_not_P [OF no(1)] if_not_P [OF no(2)] if_not_P [OF no(3)]
      if_not_P [OF no(4)] if_not_P [OF no(5)] adv
    by (cases "?t = 0") (simp_all add: plan_of_def Let_def)
qed

lemma plan_blocked: "dma_transfer_width chn = Some w \<Longrightarrow> \<not> ready d chn to_memory \<Longrightarrow>
    \<exists>r. plan_transfer d chn addr32 n eop to_memory = Some (r, d, None) \<and> blocked r"
proof -
  assume w: "dma_transfer_width chn = Some w" and "\<not> ready d chn to_memory"
  let ?ct = "controller d ! (if chn < 4 then 0 else 1)" and ?t = "ch_mode (channel d ! chn) AND 0x0c" and ?b = "mask1 (chn mod 4)"
  have "ct_command ?ct AND 0x04 \<noteq> 0 \<or> (ct_mask ?ct AND ?b \<noteq> 0 \<and> ct_request ?ct AND ?b = 0) \<or>
      ch_mode (channel d ! chn) AND 0xc0 = 0xc0 \<or> (?t \<noteq> 0 \<and> ?t \<noteq> (if to_memory then 0x04 else 0x08))"
    using \<open>\<not> ready d chn to_memory\<close> unfolding ready_def Let_def by blast
  then show ?thesis
    unfolding plan_transfer_def Let_def w option.case by (elim disjE) (simp_all only: simp_thms if_True if_cancel, simp_all)
qed

section \<open>A transfer in parts\<close>

definition dma_ok :: "dma \<Rightarrow> bool" where
  "dma_ok d \<longleftrightarrow> length (channel d) = 8 \<and> length (controller d) = 2"

text \<open>The controller after \<open>u\<close> units that do not complete the transfer.\<close>

definition advanced :: "dma \<Rightarrow> nat \<Rightarrow> nat \<Rightarrow> dma" where
  "advanced d chn u = set_chan d chn (\<lambda>ch. ch\<lparr>ch_current := (if ch_mode ch AND 0x20 \<noteq> 0 then ch_current ch - of_nat u
     else ch_current ch + of_nat u), ch_count := ch_count ch - of_nat u\<rparr>)"

lemma advance_part: "u \<le> unat (ch_count (channel d ! chn)) \<Longrightarrow> advance_transfer d chn u False = (False, advanced d chn u)"
  by (simp add: advance_transfer_def advanced_def Let_def)

lemma advanced_simps:
  assumes "dma_ok d" "chn < 8"
  shows "controller (advanced d chn u) = controller d" "dma_ok (advanced d chn u)"
    "channel (advanced d chn u) ! chn = (channel d ! chn)\<lparr>ch_current := (if ch_mode (channel d ! chn) AND 0x20 \<noteq> 0
       then ch_current (channel d ! chn) - of_nat u else ch_current (channel d ! chn) + of_nat u),
       ch_count := ch_count (channel d ! chn) - of_nat u\<rparr>"
  using assms by (simp_all add: advanced_def set_chan_def dma_ok_def)

lemma advanced_again:
  "dma_ok d \<Longrightarrow> chn < 8 \<Longrightarrow> advanced (advanced d chn u) chn v = advanced d chn (u + v)"
  by (auto simp: advanced_def set_chan_def dma_ok_def diff_diff_eq add.assoc)

lemma advance_rest:
  assumes "dma_ok d" "chn < 8" "u \<le> unat (ch_count (channel d ! chn))"
  shows "advance_transfer (advanced d chn u) chn v eop = advance_transfer d chn (u + v) eop"
proof -
  let ?c = "ch_count (channel d ! chn)"
  have "unat (?c - of_nat u) = unat ?c - u"
  proof -
    have "of_nat u \<le> ?c" "unat (of_nat u :: u16) = u"
      using assms(3) unat_u16 [of ?c] by (simp_all add: word_le_nat_alt unsigned_of_nat take_bit_nat_eq_self)
    then show ?thesis by (simp add: unat_sub)
  qed
  then have "v = unat (ch_count (channel (advanced d chn u) ! chn)) + 1 \<longleftrightarrow> u + v = unat ?c + 1"
    using assms(3) by (auto simp: advanced_simps [OF assms(1,2)])
  moreover have "advance_transfer d' chn n e =
      (let tc = (n = unat (ch_count (channel d' ! chn)) + 1) in (tc, if tc \<or> e then complete_transfer (advanced d' chn n) chn else advanced d' chn n))" for d' n e
    by (simp add: advance_transfer_def advanced_def Let_def)
  ultimately show ?thesis using advanced_again [OF assms(1,2)] by (simp add: Let_def)
qed

lemma plan_of_rest:
  assumes "dma_ok d" "chn < 8" "w = 1 \<or> w = 2" "w dvd a"
  shows "dma_byte (plan_of (advanced d chn (a div w)) chn addr32 n w) i = dma_byte (plan_of d chn addr32 k w) (a + i)"
proof -
  have "(a + i) div w = a div w + i div w" "(a + i) mod w = i mod w" using assms(3,4) by auto
  then show ?thesis
    by (auto simp: dma_byte_def unit_current_def plan_of_def advanced_simps [OF assms(1,2)] Let_def diff_diff_eq add.assoc)
qed

text \<open>One call that is served.\<close>

lemma send_ready:
  assumes "dma_transfer_width chn = Some w" "ready d chn True" "0 < n" "n \<le> (unat (ch_count (channel d ! chn)) + 1) * w" "w dvd n"
    and "board_write phys" "tsunami_board s" "length dat = n" "advance_transfer d chn (n div w) eop = (tc, d')"
    and "mv \<longleftrightarrow> ch_mode (channel d ! chn) AND 0x0c \<noteq> 0"
  shows "\<exists>s'. send_data phys True addr32 (d, s) chn dat n eop =
      Some (\<lparr>transferred = (if mv then n else 0), blocked = False, terminal_count = tc, external_eop = eop, verify = \<not> mv\<rparr>, d', s') \<and>
    strip s' = (if mv then foldl (dma_writes phys (plan_of d chn addr32 n w) dat) (strip s) [0..<n] else strip s) \<and> tsunami_board s'"
proof -
  let ?p = "plan_of d chn addr32 n w"
  have "n \<le> 0x10000 * w"
    by (rule order_trans [OF assms(4)], rule mult_le_mono1) (use unat_u16 [of "ch_count (channel d ! chn)"] in simp)
  then have ok: "plan_ok ?p" using width_cases [OF assms(1)] assms(5) by (intro plan_of_ok) auto
  have cn: "p_count ?p = n" by (simp add: plan_of_def Let_def)
  note pl = plan_ready [OF assms(1-5), of addr32 eop, unfolded assms(9)]
  show ?thesis
  proof (cases mv)
    case True
    obtain s' where s': "dma_copy_out phys s True dat ?p = Some s'" "strip s' = foldl (dma_writes phys ?p dat) (strip s) [0..<n]"
      using copy_out_bytes [OF ok assms(6,7)] assms(8) cn by auto
    have "tsunami_board s'" using s'(2) assms(7) board_strip [of s'] by simp
    then show ?thesis using True s' assms(10) by (simp add: send_data_def pl Let_def)
  next
    case False
    then show ?thesis using assms(7,10) by (simp add: send_data_def pl Let_def)
  qed
qed

text \<open>
  A device may cut a transfer into calls. When the controller serves \<open>la + lb\<close> bytes to memory in one call, two calls with the
  first \<open>la\<close> and the last \<open>lb\<close> of them leave the same memory and the same controller: the count and address
  registers, terminal count or the device's EOP with its mask, reload and status, for every mode of the channel,
  upwards or downwards and across the wrap of the address register, which never carries into the
  page; the first call never reports terminal count.
\<close>

theorem dma_transfer_splits:
  assumes "dma_ok d" and "dma_transfer_width chn = Some w" and "tsunami_board s" and "hose < 4" and "phys = tsunami_pci_phys rd win hose"
    and "0 < la" and "0 < lb" and "w dvd la" and "w dvd lb" and "la + lb \<le> (unat (ch_count (channel d ! chn)) + 1) * w"
    and "length dat = la + lb" and "send_data phys True addr32 (d, s) chn dat (la + lb) eop = Some (r, d', s')" and "\<not> blocked r"
  shows "\<exists>r1 d1 s1 r2 s2. send_data phys True addr32 (d, s) chn (take la dat) la False = Some (r1, d1, s1) \<and>
    send_data phys True addr32 (d1, s1) chn (drop la dat) lb eop = Some (r2, d', s2) \<and> strip s2 = strip s' \<and>
    transferred r1 + transferred r2 = transferred r \<and> \<not> terminal_count r1 \<and> terminal_count r2 = terminal_count r"
proof -
  let ?ch = "channel d ! chn" and ?u = "la div w" and ?v = "lb div w"
  note w = width_cases [OF assms(2)]
  let ?d1 = "advanced d chn ?u"
  note adv = advanced_simps [OF assms(1) conjunct1 [OF w]]
  have rd: "ready d chn True"
  proof (rule ccontr)
    assume "\<not> ready d chn True"
    then show False using plan_blocked [OF assms(2), of d True addr32 "la + lb" eop] assms(12,13) by (auto simp: send_data_def)
  qed
  have u: "?u \<le> unat (ch_count ?ch)" "(la + lb) div w = ?u + ?v" "lb \<le> (unat (ch_count ?ch) - ?u + 1) * w"
  proof -
    obtain x y where xy: "la = w * x" "lb = w * y" using assms(8,9) by (auto elim!: dvdE)
    have "w * (x + y) \<le> w * (unat (ch_count ?ch) + 1)" using assms(10) by (simp add: xy algebra_simps)
    then have "x + y \<le> unat (ch_count ?ch) + 1" using w by auto
    moreover have "0 < x" "0 < y" using assms(6,7) xy by auto
    ultimately show "?u \<le> unat (ch_count ?ch)" "(la + lb) div w = ?u + ?v" "lb \<le> (unat (ch_count ?ch) - ?u + 1) * w"
      using w by (auto simp: xy)
  qed
  have r1: "ready ?d1 chn True" using rd by (simp add: ready_def adv Let_def)
  have cnt: "unat (ch_count (channel ?d1 ! chn)) = unat (ch_count ?ch) - ?u"
    using u(1) unat_u16 [of "ch_count ?ch"] by (simp add: adv unat_sub word_le_nat_alt unsigned_of_nat take_bit_nat_eq_self)
  obtain tc dd where a: "advance_transfer d chn (?u + ?v) eop = (tc, dd)" by (cases "advance_transfer d chn (?u + ?v) eop")
  define mv where "mv \<longleftrightarrow> ch_mode ?ch AND 0x0c \<noteq> 0"
  let ?p = "plan_of d chn addr32 (la + lb) w" and ?p1 = "plan_of d chn addr32 la w" and ?p2 = "plan_of ?d1 chn addr32 lb w"
  note bw = board_write_tsunami [OF assms(4), of rd win, folded assms(5)]
  obtain s1 where one: "send_data phys True addr32 (d, s) chn (take la dat) la False =
      Some (\<lparr>transferred = (if mv then la else 0), blocked = False, terminal_count = False, external_eop = False, verify = \<not> mv\<rparr>, ?d1, s1)"
      "strip s1 = (if mv then foldl (dma_writes phys ?p1 (take la dat)) (strip s) [0..<la] else strip s)" "tsunami_board s1"
    using send_ready [OF assms(2) rd assms(6) _ assms(8) bw assms(3) _ advance_part [OF u(1)] mv_def, of "take la dat"] assms(10,11) by auto
  have a2: "advance_transfer ?d1 chn ?v eop = (tc, dd)" using advance_rest [OF assms(1) conjunct1 [OF w] u(1)] a by simp
  have mv2: "mv \<longleftrightarrow> ch_mode (channel ?d1 ! chn) AND 0x0c \<noteq> 0" by (simp add: mv_def adv)
  obtain s2 where two: "send_data phys True addr32 (?d1, s1) chn (drop la dat) lb eop =
      Some (\<lparr>transferred = (if mv then lb else 0), blocked = False, terminal_count = tc, external_eop = eop, verify = \<not> mv\<rparr>, dd, s2)"
      "strip s2 = (if mv then foldl (dma_writes phys ?p2 (drop la dat)) (strip s1) [0..<lb] else strip s1)"
    using send_ready [OF assms(2) r1 assms(7) _ assms(9) bw one(3) _ a2 mv2, of "drop la dat" addr32] u(3) cnt assms(11) by auto
  obtain s3 where whole: "send_data phys True addr32 (d, s) chn dat (la + lb) eop =
      Some (\<lparr>transferred = (if mv then la + lb else 0), blocked = False, terminal_count = tc, external_eop = eop, verify = \<not> mv\<rparr>, dd, s3)"
      "strip s3 = (if mv then foldl (dma_writes phys ?p dat) (strip s) [0..<la + lb] else strip s)"
    using send_ready [OF assms(2) rd _ assms(10) _ bw assms(3,11) a [folded u(2)] mv_def, of addr32] assms(6,8,9) by auto
  have "foldl (dma_writes phys ?p1 (take la dat)) t [0..<la] = foldl (dma_writes phys ?p dat) t [0..<la]" for t
    by (rule foldl_cong) (simp_all add: dma_writes_def dma_byte_def plan_of_def unit_current_def Let_def)
  moreover have "foldl (dma_writes phys ?p2 (drop la dat)) t [0..<lb] = foldl (dma_writes phys ?p dat) t [la..<la + lb]" for t
    unfolding foldl_upt_from [of "dma_writes phys ?p dat" t la "la + lb"] using assms(11)
    by (intro foldl_cong) (simp_all add: dma_writes_def plan_of_rest [OF assms(1) conjunct1 [OF w] conjunct2 [OF w] assms(8), of addr32 lb _ "la + lb"])
  ultimately have "strip s2 = strip s3"
    using one(2) two(2) whole(2) foldl_split [of la "la + lb" "dma_writes phys ?p dat" "strip s"] by simp
  then show ?thesis using one(1) two(1) whole(1) assms(12) by auto
qed

text \<open>A floppy read as firmware sets it up: four bytes to 12FFFE by channel 2, in one and three.\<close>

definition floppy_dma :: dma where
  "floppy_dma = foldl (\<lambda>d (idx, port, v). dma_write8 d idx port v) new_dma
     [(DMA0_IO_MAIN, 4, 0), (DMA0_IO_CHANNEL, 4, 0xfe), (DMA0_IO_CHANNEL, 4, 0xff), (DMA0_IO_CHANNEL, 5, 3), (DMA0_IO_CHANNEL, 5, 0),
      (DMA_IO_LPAGE, 0, 0x12), (DMA0_IO_MAIN, 3, 0x46), (DMA0_IO_MAIN, 2, 0x02)]"

lemma floppy_dma_facts:
  "dma_ok floppy_dma" "channel floppy_dma ! 2 = \<lparr>ch_current = 0xfffe, ch_base = 0xfffe, ch_pagebase = 0x12, ch_count = 3, ch_base_count = 3, ch_mode = 0x46\<rparr>"
  "ready floppy_dma 2 True"
proof -
  have e: "floppy_dma = \<lparr>channel = (replicate 8 \<lparr>ch_current = 0, ch_base = 0, ch_pagebase = 0, ch_count = 0, ch_base_count = 0, ch_mode = 0\<rparr>)
      [2 := \<lparr>ch_current = 0xfffe, ch_base = 0xfffe, ch_pagebase = 0x12, ch_count = 3, ch_base_count = 3, ch_mode = 0x46\<rparr>],
     controller = [\<lparr>ct_status = 0, ct_command = 0, ct_request = 0, ct_mask = 0x0b, ct_lobyte = True\<rparr>,
       \<lparr>ct_status = 0, ct_command = 0, ct_request = 0, ct_mask = 0x0f, ct_lobyte = True\<rparr>]\<rparr>"
    by code_simp
  show "dma_ok floppy_dma" "channel floppy_dma ! 2 = \<lparr>ch_current = 0xfffe, ch_base = 0xfffe, ch_pagebase = 0x12, ch_count = 3, ch_base_count = 3, ch_mode = 0x46\<rparr>"
    "ready floppy_dma 2 True"
    by (simp_all add: e dma_ok_def ready_def mask1_def)
qed

theorem dma_transfer_splits_witness:
  "\<exists>r1 d1 s1 r2 d2 s2. send_data (tsunami_pci_phys (\<lambda>_. 0x15) dma_example 0) True False (floppy_dma, dma_sys) 2 [1] 1 False = Some (r1, d1, s1) \<and>
     send_data (tsunami_pci_phys (\<lambda>_. 0x15) dma_example 0) True False (d1, s1) 2 [2, 3, 4] 3 False = Some (r2, d2, s2) \<and>
     \<not> terminal_count r1 \<and> terminal_count r2"
proof -
  let ?phys = "tsunami_pci_phys (\<lambda>_. 0x15) dma_example 0" and ?dat = "[1, 2, 3, 4]"
  have b: "tsunami_board dma_sys" by (simp add: tsunami_board_def dma_sys_def)
  have bw: "board_write ?phys" by (rule board_write_tsunami) simp
  have w: "dma_transfer_width 2 = Some 1" by (simp add: dma_transfer_width_def)
  obtain tc d' where a: "advance_transfer floppy_dma 2 4 False = (tc, d')" by (cases "advance_transfer floppy_dma 2 4 False")
  then have tc: "tc" by (auto simp: advance_transfer_def floppy_dma_facts(2) Let_def)
  obtain s' where s': "send_data ?phys True False (floppy_dma, dma_sys) 2 ?dat 4 False =
      Some (\<lparr>transferred = 4, blocked = False, terminal_count = tc, external_eop = False, verify = False\<rparr>, d', s')"
    using send_ready [OF w floppy_dma_facts(3) _ _ _ bw b, where mv = True and n = 4 and dat = ?dat and eop = False and tc = tc and d' = d'] a
    by (auto simp: floppy_dma_facts(2))
  have "\<exists>r1 d1 s1 r2 s2. send_data ?phys True False (floppy_dma, dma_sys) 2 (take 1 ?dat) 1 False = Some (r1, d1, s1) \<and>
      send_data ?phys True False (d1, s1) 2 (drop 1 ?dat) 3 False = Some (r2, d', s2) \<and> strip s2 = strip s' \<and>
      transferred r1 + transferred r2 = 4 \<and> \<not> terminal_count r1 \<and> terminal_count r2 = tc"
    using dma_transfer_splits [OF floppy_dma_facts(1) w b _ refl, of 0 1 3 ?dat "\<lambda>_. 0x15" dma_example False False _ d' s'] s'
    by (simp add: floppy_dma_facts(2))
  then show ?thesis using tc by auto
qed

end
