(* ===== verification/Spec2Isabelle.thy ===== *)
theory Spec2Isabelle
  imports Interrupt_Lines I8259 Alpha_Cpu_Facts Uart16550 Eeprom93cx6 I8254_Facts Llsc Llsc_Gate Disk_Overlay_Reopen Pcf8584_Facts
    Tsunami_Machine Titan_Cchip Memory_Arrays Pci_Windows Flash_Facts Dma8237_Facts
begin

text \<open>
  \<^bold>\<open>Alphabox: a verification library for parts of an Alpha system emulator.\<close>

  \<^bold>\<open>The program.\<close> Alphabox (\<^verbatim>\<open>src/src/\<close>) emulates whole Alpha machines: processors (\<^verbatim>\<open>cpu/\<close>, interpreted or
  compiled by \<^verbatim>\<open>jit/\<close>), the chipsets between processors, memory and PCI (\<^verbatim>\<open>chipsets/\<close>), the board and its
  shared services (\<^verbatim>\<open>system/\<close>, \<^verbatim>\<open>platforms/\<close>), and devices (\<^verbatim>\<open>devices/\<close>). Processors run on host threads of
  their own, and devices on others. A device asserts an interrupt input (\<^verbatim>\<open>system/InterruptLines.hpp\<close>, or
  first the 8259A pair), the chipset turns it into a processor's interrupt pin, and the processor takes
  it between two instructions; a device reads and writes memory through its PCI windows and the
  LL/SC gate; firmware reads the memory's layout from the Cchip and from the DIMMs' EEPROMs.

  \<^bold>\<open>How the library is put together.\<close> Models and theorems, by component, each after the components it calls:

  \<^item> \<^verbatim>\<open>Axp_Prelude\<close>: the integer types of \<^verbatim>\<open>common/datatypes.hpp\<close> as words (\<open>u8\<close> to \<open>u64\<close>), single-bit masks with
    their rewrite rules, list and option lemmas, and the locale \<open>invariant_machine\<close> (a step function, the
    steps permitted and an invariant each keeps), interpreted by the components that have histories.
  \<^item> \<^verbatim>\<open>Interrupt_Lines\<close> (\<^verbatim>\<open>system/InterruptLines.hpp\<close>), \<^verbatim>\<open>I8259\<close> (\<^verbatim>\<open>devices/isa/I8259.cpp\<close>): the wired-OR inputs and
    the two cascaded interrupt controllers. The INT line follows the registers (but for one ICW4, stated
    with the theorem), the highest unmasked priority is delivered, an edge that waits is delivered after
    the end of interrupt.
  \<^item> \<^verbatim>\<open>Alpha_Operate\<close>, \<^verbatim>\<open>Alpha_Integer\<close>, \<^verbatim>\<open>Alpha_Bytes\<close> (\<^verbatim>\<open>cpu/cpu_arith.hpp\<close>, \<^verbatim>\<open>cpu_logical.hpp\<close>, \<^verbatim>\<open>cpu_bwx.hpp\<close>,
    \<^verbatim>\<open>cpu_mvi.hpp\<close>), \<^verbatim>\<open>Ev8_Simd\<close> (\<^verbatim>\<open>cpu/Ev8Simd.cpp\<close>): every integer operate instruction on its operands, against
    the integers (overflow, UMULH, counts), against byte sequences (unaligned load and store), and the
    short-vector instructions lane by lane.
  \<^item> \<^verbatim>\<open>Alpha_TB\<close>, \<^verbatim>\<open>Alpha_TB_Facts\<close> (\<^verbatim>\<open>cpu/AlphaCPU.cpp\<close>, \<^verbatim>\<open>AlphaCPU.hpp\<close>): the translation buffers with their hashed index,
    overflow marks and shadow. The indexed lookup finds exactly what a scan of all slots finds, a fill
    translates, and an invalidated page is gone (for ITB_IS, when one slot held it).
  \<^item> \<^verbatim>\<open>Alpha_Cpu\<close>, \<^verbatim>\<open>Alpha_Cpu_Facts\<close> (\<open>CAlphaCPU::execute\<close>, \<^verbatim>\<open>cpu_pal.hpp\<close>, \<^verbatim>\<open>cpu_control.hpp\<close>): one instruction, the
    internal processor registers and the interrupt poll. No deliverable interrupt is lost, user code
    cannot reach privileged state, integer overflow traps. Instructions that the model does not cover (loads,
    stores, floating point) make \<open>execute\<close> return \<open>None\<close>, and the theorems say nothing of them.
  \<^item> \<^verbatim>\<open>Code_Pages\<close> (\<^verbatim>\<open>system/\<close>, the code page map), \<^verbatim>\<open>Llsc\<close>, \<^verbatim>\<open>Llsc_Gate\<close> (\<^verbatim>\<open>system/System.cpp\<close>): writes to compiled
    memory are counted, a store-conditional that succeeds was not interfered with since its load took the
    lock, watchers wake at aligned stores, and device writes and conditional stores exclude each other.
  \<^item> \<^verbatim>\<open>Uart16550\<close>, \<^verbatim>\<open>I8254\<close>, \<^verbatim>\<open>I8254_Facts\<close>, \<^verbatim>\<open>Eeprom93cx6\<close> (\<^verbatim>\<open>devices/isa/\<close>, \<^verbatim>\<open>devices/common/\<close>): the serial port refines a
    queue and its interrupt is current; the timer's counts, latches and saved state; the Microwire EEPROM
    pin by pin.
  \<^item> \<^verbatim>\<open>Disk_Overlay\<close>, \<^verbatim>\<open>Disk_Overlay_Facts\<close>, \<^verbatim>\<open>Disk_Overlay_Reopen\<close> (\<^verbatim>\<open>devices/storage/DiskOverlay.cpp\<close>): the overlay
    refines an array of bytes whichever host accesses fail, and its file reopens to the same disk.
  \<^item> \<^verbatim>\<open>I2c_Bus\<close>, \<^verbatim>\<open>I2c_Facts\<close>, \<^verbatim>\<open>I2c_Refine\<close> (\<^verbatim>\<open>devices/common/i2c_spd.cpp\<close>), \<^verbatim>\<open>Pcf8584\<close>, \<^verbatim>\<open>Pcf8584_Facts\<close>
    (\<^verbatim>\<open>platforms/ds10/PCF8584.cpp\<close>): the wires of the I2C bus refine a bus of byte transactions, and firmware's
    random read through the controller returns the part's bytes.
  \<^item> \<^verbatim>\<open>Dimm_Model\<close> (\<^verbatim>\<open>chipsets/DimmModel.cpp\<close>), \<^verbatim>\<open>Cchip_Pins\<close> (the processors' pins, \<open>CSystem::arbitration_cleared\<close>),
    \<^verbatim>\<open>Tsunami_Cchip\<close>, \<^verbatim>\<open>Tsunami_Cchip_Facts\<close> (\<^verbatim>\<open>chipsets/tsunami/TsunamiCchip.cpp\<close>, \<^verbatim>\<open>Tsunami.cpp\<close>), \<^verbatim>\<open>Titan_Cchip\<close>
    (\<^verbatim>\<open>chipsets/titan/TitanCchip.cpp\<close>, \<^verbatim>\<open>Titan.cpp\<close>), \<^verbatim>\<open>Memory_Arrays\<close>: the Cchips. The Titan's behaves as the
    Typhoon's, and the array address registers decode memory without hole or overlap.
  \<^item> \<^verbatim>\<open>Pci_Windows\<close> (\<^verbatim>\<open>chipsets/PciWindows.hpp\<close>, \<^verbatim>\<open>TsunamiPchip.cpp\<close>, \<^verbatim>\<open>Titan.cpp\<close>, \<^verbatim>\<open>marvel/Io7.cpp\<close>): DMA address translation
    as arithmetic, and the three chipsets against each other. \<^verbatim>\<open>Pci_Dma\<close>, \<^verbatim>\<open>Pci_Dma_Facts\<close>
    (\<^verbatim>\<open>devices/pci/PCIDevice.cpp\<close>) and \<^verbatim>\<open>Dma8237\<close>, \<^verbatim>\<open>Dma8237_Facts\<close> (\<^verbatim>\<open>devices/isa/DMA.cpp\<close>): transfers in chunks
    move each byte by its own translated address, and a device may cut a transfer into calls.
  \<^item> \<^verbatim>\<open>Flash_Rom\<close>, \<^verbatim>\<open>Flash_Facts\<close> (\<^verbatim>\<open>platforms/es40/Flash.cpp\<close>): the flash parts' command state machine, the searches for
    firmware and the image file; a byte changes only at the end of a complete command.
  \<^item> \<^verbatim>\<open>Tsunami_Machine\<close>: device wires, Cchip and processors composed into one machine, whose steps are a
    device's request, an interval tick, a register write and a processor's own step, in any order; pins and
    registers agree in every reachable state. This theory adds the two theorems that span all of
    it: a device's interrupt and an interprocessor interrupt reach the processor.

  \<^bold>\<open>State and operations.\<close> A class is a record and a method a function from record to record (and result);
  callbacks are components of the record (a log, a level) or arguments; a field or method keeps
  its name unless HOL has it. Errors and exceptions are \<open>option\<close> or sum values. Integers keep their
  width where they can wrap; where a proof or the source's own bound shows that they do not, they are
  numbers, and the theory's text says so. Code outside the repository's control (host files and clocks, the
  contents of memory) is an argument.

  \<^bold>\<open>Interfaces.\<close> Contracts between components are locales, each interpreted on the model: \<open>invariant_machine\<close>
  (histories that keep an invariant), \<open>irq_pins\<close> in \<^verbatim>\<open>Cchip_Pins\<close> (what a chipset relies on of a processor's pins), and
  those of the component theories (\<open>page_translation\<close> in \<^verbatim>\<open>Pci_Dma_Facts\<close> among them), named where they are
  declared.

  \<^bold>\<open>Granularity, bounds and assumptions.\<close>
  \<^item> An operation under a mutex is one step. \<^verbatim>\<open>Llsc_Gate\<close> is cut at its atomic accesses, which are taken to be
    sequentially consistent. In \<^verbatim>\<open>Llsc\<close> a load-locked is two steps, since its read and its lock are not under the
    bucket lock, and a successful conditional store is two, since other processors' loads do not take that
    lock; an ordinary store with its report is one. \<^verbatim>\<open>irq_h\<close> and \<open>count_down_irq\<close> are single steps, although the
    source lets them race.
  \<^item> \<open>Llsc.stx_c_atomic\<close> is about fewer than \<open>2 ^ 32\<close> steps, after which the sequence number wraps, and
    \<open>Llsc.watch_wakes\<close> about processor stores at a multiple of their width.
  \<^item> Overlays are of disks below \<open>2 ^ 47\<close> bytes, so that offsets in the file do not wrap.
  \<^item> Boards have up to four processors and inputs below 64, as the Cchips' registers have. Device line delays
    are at most 100 clocks, the source's constant.
  \<^item> \<open>dma_translates\<close> asks that window masks are a run of ones from bit 20, the only ones with a
    window as their meaning, and that window 3 is not for dual-address cycles.
  \<^item> No definition uses fuel: loops are structural or have a termination proof, or are the
    library's \<open>while\<close> with a proof that it ends.

  \<^bold>\<open>Not modelled.\<close> The compiler (\<^verbatim>\<open>jit/\<close>, \<^verbatim>\<open>AlphaCPU_jit.cpp\<close>), whose meaning is that of the host code it emits;
  instruction fetch, loads and stores and floating point of the processor, the vector and EV8 native units;
  the other chips of Tsunami and Titan (Pchip, Dchip, TIG registers) and the EV7 systems; the disks, SCSI
  and IDE controllers, network, USB, sound and video adapters; the real-time clock, keyboard and floppy; the
  configuration, state files, debugger, hypervisor and graphical front ends, which are input and
  output. The manifest has an entry for each of these parts, with the reason.
\<close>

section \<open>Interrupts from end to end\<close>

lemma reached_cpu:
  assumes "powered_on m0" "reaches m0 m" "i < cpus_of m"
  shows "cpu_sound (the_cpu m i)" "machine_inv m"
  using assms powered_on_inv reaches_inv by (auto simp: machine_inv_def cchip_ok_def)

lemma irq_frame: "c_eien (irq_h c n a d) = c_eien c" "c_pc (irq_h c n a d) = c_pc c" "c_pal_base (irq_h c n a d) = c_pal_base c"
  by (simp_all add: irq_h_def Let_def)

text \<open>
  C5. A device interrupt reaches the processor. After any history from power-on of a Typhoon board, when some source
  asserts device input \<open>k\<close> (of 0 to 55), processor \<open>i\<close>'s DIM lets it through, and that processor runs in
  native mode with its external interrupt 1 enabled, then once the line's delay of at most 100
  clocks is counted down its next step enters PALcode at the interrupt vector with the
  interrupted PC in EXC_ADDR, the registers untouched, and ISUM showing external interrupt 1.
\<close>

theorem device_interrupt_delivered:
  assumes "powered_on m0" and "reaches m0 m" and "i < cpus_of m" and "k < 56"
    and "r \<in> set (m_wires m)" and "r_input r = int k" and "bit (t_dim (m_chip m) ! i) k"
    and "bit (c_eien (the_cpu m i)) 1" and "\<not> pal_mode (the_cpu m i)"
  shows "\<exists>c'. execute (count_down_irq (the_cpu m i) 1 100) ins = Some c' \<and>
    c_pc c' = c_pal_base (the_cpu m i) OR INTERRUPT OR 1 \<and> c_exc_addr c' = c_pc (the_cpu m i) \<and>
    c_r c' = c_r (the_cpu m i) \<and> bit (hw_mfpr c' 0x0d) 34"
proof -
  note inv = reached_cpu [OF assms(1-3)]
  have "bit (t_drir (m_chip m)) k"
    using inv(2) assms(4-6) by (auto simp: machine_inv_def lines_level_def asserted_iff)
  moreover have "bit (0x00ffffffffffffff :: u64) k"
    using assms(4) bit_mask_iff [where ?'a = u64, of 56 k] by (simp add: mask_eq_exp_minus_1)
  ultimately have "bit (t_drir (m_chip m) AND t_dim (m_chip m) ! i AND 0x00ffffffffffffff) k"
    using assms(7) by (simp only: bit_and_iff simp_thms)
  then have "line_up (the_cpu m i) 1"
    using inv(2) assms(3) by (auto simp: machine_inv_def cchip_ok_def pins_ok_def dev_level_def Let_def)
  then show ?thesis
    using line_delivers [OF inv(1) _ _ assms(8,9)] by (simp add: hw_mfpr_def)
qed

theorem device_interrupt_delivered_witness:
  "\<exists>c'. execute (count_down_irq (the_cpu after_device 0) 1 100) 0x47ff041f = Some c' \<and>
     c_pc c' = 0x8000 OR INTERRUPT OR 1 \<and> c_exc_addr c' = 0x20000 \<and> bit (hw_mfpr c' 0x0d) 34"
proof -
  have c: "c_eien (the_cpu after_device 0) = 0x3f \<and> c_pc (the_cpu after_device 0) = 0x20000 \<and> c_pal_base (the_cpu after_device 0) = 0x8000"
    by (simp add: after_device_def sys_interrupt_def one_machine_def new_typhoon_def power_on_state_def one_cpu_def split_beta
        tsunami_interrupt_def cchip_csr_write_def dim_write_def dim_index_def tsunami_drive_lines_def cpu_irq_def cpu_num_def irq_frame Let_def)
      (simp add: cpu_idle_def)
  then have "\<not> pal_mode (the_cpu after_device 0)" by (simp add: pal_mode_def)
  then show ?thesis
    using device_interrupt_delivered [OF one_machine_on after_device_facts(1), of 0 5 "\<lparr>r_input = 5, r_source = 1, r_line = 0\<rparr>" "0x47ff041f"] c
    by (auto simp: after_device_facts)
qed

text \<open>
  C6. An interprocessor interrupt reaches its processor. When any processor of a board writes the
  IPREQ bit of processor \<open>i\<close> to MISC, after any history, that processor, in native mode with
  external interrupt 3 enabled, enters PALcode at the interrupt vector in its next step with ISUM
  showing external interrupt 3; and the write that acknowledges it (IPINTR) takes the request
  and the line back.
\<close>

theorem ipi_delivered:
  assumes "powered_on m0" and "reaches m0 m" and "i < cpus_of m" and "j < cpus_of m"
    and "m1 = machine_step m (Csr_write 0x080 (mask1 (12 + i)) j)"
    and "bit (c_eien (the_cpu m1 i)) 3" and "\<not> pal_mode (the_cpu m1 i)"
  shows "(\<exists>c'. execute (the_cpu m1 i) ins = Some c' \<and> c_pc c' = c_pal_base (the_cpu m1 i) OR INTERRUPT OR 1 \<and>
      c_exc_addr c' = c_pc (the_cpu m1 i) \<and> bit (hw_mfpr c' 0x0d) 36) \<and>
    \<not> line_up (the_cpu (machine_step m1 (Csr_write 0x080 (mask1 (8 + i)) i)) i) 3"
proof -
  let ?m2 = "machine_step m1 (Csr_write 0x080 (mask1 (8 + i)) i)"
  have r1: "reaches m0 m1" unfolding assms(5) by (rule reaches.onward [OF assms(2)]) (simp add: assms(4))
  note inv = reached_cpu [OF assms(1-3)]
  have n: "cpus_of m \<le> 4" using inv(2) by (simp add: machine_inv_def cchip_ok_def)
  have n1: "cpus_of m1 = cpus_of m" using n by (simp add: assms(5))
  note inv1 = reached_cpu [OF assms(1) r1, of i]
  have r2: "reaches m0 ?m2" by (rule reaches.onward [OF r1]) (simp add: assms(3) n1)
  note inv2 = reached_cpu [OF assms(1) r2, of i]
  have misc: "t_misc (m_chip (machine_step x (Csr_write 0x080 dat c))) = ipreq_bits dat (cpus_of x) (misc_base (t_misc (m_chip x)) dat)"
    if "cpus_of x \<le> 4" for x dat c
    using that by (simp add: cchip_csr_write_def misc_write_eq split_beta)
  have "bit (t_misc (m_chip m1)) (8 + i)"
    unfolding assms(5) misc [OF n] using assms(3) n by (simp add: bit_ipreq bit_mask1)
  then have up: "line_up (the_cpu m1 i) 3"
    using inv1(2) assms(3) n1 by (simp add: machine_inv_def cchip_ok_def pins_ok_def Let_def)
  have "c_irq_timer (the_cpu m1 i) 3 = 0" using inv1(1) assms(3) n1 by (simp add: cpu_sound_def delays_ok_def)
  then have "count_down_irq (the_cpu m1 i) 3 100 = the_cpu m1 i" by (simp add: count_down_irq_def)
  then have "\<exists>c'. execute (the_cpu m1 i) ins = Some c' \<and> c_pc c' = c_pal_base (the_cpu m1 i) OR INTERRUPT OR 1 \<and>
      c_exc_addr c' = c_pc (the_cpu m1 i) \<and> bit (hw_mfpr c' 0x0d) 36"
    using line_delivers [OF inv1(1) up _ assms(6,7), of ins] assms(3) n1 by (auto simp: hw_mfpr_def)
  moreover have "\<not> bit (t_misc (m_chip ?m2)) (8 + i)"
    unfolding misc [OF n [folded n1]] using assms(3) n n1 by (auto simp: bit_ipreq bit_mask1 bit_misc_base)
  then have "\<not> line_up (the_cpu ?m2 i) 3"
    using inv2(2) assms(3) n n1 by (simp add: machine_inv_def cchip_ok_def pins_ok_def Let_def)
  ultimately show ?thesis by blast
qed

theorem ipi_delivered_witness:
  "\<exists>c'. execute (the_cpu (machine_step one_machine (Csr_write 0x080 0x1000 0)) 0) 0x47ff041f = Some c' \<and>
     c_pc c' = 0x8000 OR INTERRUPT OR 1 \<and> bit (hw_mfpr c' 0x0d) 36"
proof -
  let ?m1 = "machine_step one_machine (Csr_write 0x080 (mask1 (12 + 0)) 0)"
  have n: "cpus_of one_machine = 1" by (simp add: one_machine_def new_typhoon_def one_cpu_def cpu_num_def power_on_state_def)
  have c: "c_eien (the_cpu ?m1 0) = 0x3f \<and> c_pc (the_cpu ?m1 0) = 0x20000 \<and> c_pal_base (the_cpu ?m1 0) = 0x8000"
    by (simp add: one_machine_def new_typhoon_def power_on_state_def one_cpu_def cchip_csr_write_def misc_write_def
        misc_arbitrate_def misc_ipreq_def cpu_irq_def cpu_num_def irq_frame mask1_def Let_def)
      (simp add: cpu_idle_def)
  then have "\<not> pal_mode (the_cpu ?m1 0)" by (simp add: pal_mode_def)
  then show ?thesis
    using ipi_delivered [OF one_machine_on reaches.start, of 0 0 ?m1 "0x47ff041f"] n c by (auto simp: mask1_def)
qed

end
